(* ===== verification/Prelude.thy ===== *)
theory Prelude
  imports Main "HOL-Library.Word" "HOL-Library.Char_ord" "HOL-Library.List_Lexorder"
    "HOL-Library.Sublist"
begin

unbundle bit_operations_syntax

text \<open>
  Shared vocabulary of the development.

  \<^item> Machine integers: \<open>u8\<close>, \<open>u16\<close>, \<open>u64\<close> are words of that width. Sizes and indices
    (\<open>usize\<close>) of in-memory slices are \<open>nat\<close>.
  \<^item> A Rust byte string (\<open>&[u8]\<close>, \<open>&str\<close>, \<open>String\<close>, \<open>BString\<close>) is a HOL
    \<open>string\<close>: a \<open>char\<close> is one byte, ordered by its value, so the library order on strings is
    Rust's lexicographic order on byte slices. Digests, on which the code computes with bits,
    are \<open>u8 list\<close>s.
  \<^item> A \<open>Result\<close> is a sum with the error on the left.
  \<^item> The string helpers of the Rust standard library that several components call
    (\<open>strip_prefix\<close>, \<open>split_once\<close>, \<open>split\<close>).
  \<^item> The contract locales \<open>codec\<close> (a printer and a parser that are inverse to each other)
    and \<open>stream_codec\<close> (the same for parsers that return the remaining input).
\<close>

type_synonym u8 = "8 word"
type_synonym u16 = "16 word"
type_synonym u64 = "64 word"
type_synonym ('e, 'a) res = "'e + 'a"

named_theorems codec_simps "round trips and length facts of encoders and decoders"
named_theorems op_defs "unfolding the operations of a component"

section \<open>Results\<close>

definition rbind :: "('e, 'a) res \<Rightarrow> ('a \<Rightarrow> ('e, 'b) res) \<Rightarrow> ('e, 'b) res" where
  "rbind r f = (case r of Inl e \<Rightarrow> Inl e | Inr a \<Rightarrow> f a)"

definition map_err :: "('e \<Rightarrow> 'f) \<Rightarrow> ('e, 'a) res \<Rightarrow> ('f, 'a) res" where
  "map_err h r = (case r of Inl e \<Rightarrow> Inl (h e) | Inr a \<Rightarrow> Inr a)"

definition map_ok :: "('a \<Rightarrow> 'b) \<Rightarrow> ('e, 'a) res \<Rightarrow> ('e, 'b) res" where
  "map_ok h r = (case r of Inl e \<Rightarrow> Inl e | Inr a \<Rightarrow> Inr (h a))"

definition ok :: "('e, 'a) res \<Rightarrow> 'a option" where
  "ok r = (case r of Inl e \<Rightarrow> None | Inr a \<Rightarrow> Some a)"

definition ok_or :: "'e \<Rightarrow> 'a option \<Rightarrow> ('e, 'a) res" where
  "ok_or e r = (case r of None \<Rightarrow> Inl e | Some a \<Rightarrow> Inr a)"

lemma rbind_simps [simp]: "rbind (Inl e) f = Inl e" "rbind (Inr a) f = f a"
  by (simp_all add: rbind_def)

lemma map_err_simps [simp]: "map_err h (Inl e) = Inl (h e)" "map_err h (Inr a) = Inr a"
  by (simp_all add: map_err_def)

lemma map_ok_simps [simp]: "map_ok h (Inl e) = Inl e" "map_ok h (Inr a) = Inr (h a)"
  by (simp_all add: map_ok_def)

lemma ok_simps [simp]: "ok (Inl e) = None" "ok (Inr a) = Some a"
  by (simp_all add: ok_def)

lemma ok_or_simps [simp]: "ok_or e None = Inl e" "ok_or e (Some a) = Inr a"
  by (simp_all add: ok_or_def)

lemma rbind_eq_Inr [simp]: "rbind r f = Inr b \<longleftrightarrow> (\<exists>a. r = Inr a \<and> f a = Inr b)"
  by (cases r) simp_all

lemma rbind_eq_Inl: "rbind r f = Inl e \<longleftrightarrow> r = Inl e \<or> (\<exists>a. r = Inr a \<and> f a = Inl e)"
  by (cases r) simp_all

lemma map_err_eq_Inr [simp]: "map_err h r = Inr b \<longleftrightarrow> r = Inr b"
  by (cases r) simp_all

lemma map_err_eq_Inl [simp]: "map_err h r = Inl e \<longleftrightarrow> (\<exists>d. r = Inl d \<and> e = h d)"
  by (cases r) auto

lemma map_ok_eq_Inr [simp]: "map_ok h r = Inr b \<longleftrightarrow> (\<exists>a. r = Inr a \<and> b = h a)"
  by (cases r) auto

lemma map_ok_eq_Inl [simp]: "map_ok h r = Inl e \<longleftrightarrow> r = Inl e"
  by (cases r) auto

lemma ok_eq_Some [simp]: "ok r = Some a \<longleftrightarrow> r = Inr a"
  by (cases r) simp_all

lemma ok_eq_None [simp]: "ok r = None \<longleftrightarrow> (\<exists>e. r = Inl e)"
  by (cases r) simp_all

lemma ok_or_eq_Inr [simp]: "ok_or e r = Inr a \<longleftrightarrow> r = Some a"
  by (cases r) simp_all

lemma rbind_cong [fundef_cong]:
  "r = r' \<Longrightarrow> (\<And>a. r' = Inr a \<Longrightarrow> f a = f' a) \<Longrightarrow> rbind r f = rbind r' f'"
  by (cases r') simp_all

section \<open>String helpers of the standard library\<close>

text \<open>\<open>strip_prefix p s\<close>: the rest of \<open>s\<close> after \<open>p\<close>, if \<open>s\<close> starts with it.\<close>

fun strip_prefix :: "'a list \<Rightarrow> 'a list \<Rightarrow> 'a list option" where
  "strip_prefix [] s = Some s"
| "strip_prefix (p # ps) [] = None"
| "strip_prefix (p # ps) (c # cs) = (if p = c then strip_prefix ps cs else None)"

lemma strip_prefix_eq_Some [simp]: "strip_prefix p s = Some r \<longleftrightarrow> s = p @ r"
  by (induction p s rule: strip_prefix.induct) auto

lemma strip_prefix_append [simp]: "strip_prefix p (p @ r) = Some r"
  by simp

lemma strip_prefix_eq_None: "strip_prefix p s = None \<longleftrightarrow> \<not> prefix p s"
  by (induction p s rule: strip_prefix.induct) auto

text \<open>\<open>split_once c s\<close>: what is before and after the first occurrence of \<open>c\<close>.\<close>

fun split_once :: "'a \<Rightarrow> 'a list \<Rightarrow> ('a list \<times> 'a list) option" where
  "split_once c [] = None"
| "split_once c (x # xs) =
     (if x = c then Some ([], xs) else map_option (\<lambda>(a, b). (x # a, b)) (split_once c xs))"

lemma split_once_append [simp]: "c \<notin> set a \<Longrightarrow> split_once c (a @ c # b) = Some (a, b)"
  by (induction a) auto

lemma split_once_eq_Some:
  "split_once c s = Some (a, b) \<longleftrightarrow> s = a @ c # b \<and> c \<notin> set a"
proof (induction s arbitrary: a)
  case Nil
  then show ?case by simp
next
  case (Cons x xs)
  then show ?case by (cases a) (auto simp: eq_commute [of x c])
qed

lemma split_once_eq_None: "split_once c s = None \<longleftrightarrow> c \<notin> set s"
  by (induction s) auto

lemma split_once_absent [simp]: "c \<notin> set s \<Longrightarrow> split_once c s = None"
  by (simp add: split_once_eq_None)

text \<open>\<open>split_on c s\<close>: the pieces of \<open>s\<close> between the occurrences of \<open>c\<close> (never empty).\<close>

fun split_on :: "'a \<Rightarrow> 'a list \<Rightarrow> 'a list list" where
  "split_on c [] = [[]]"
| "split_on c (x # xs) =
     (if x = c then [] # split_on c xs
      else (case split_on c xs of [] \<Rightarrow> [[x]] | p # ps \<Rightarrow> (x # p) # ps))"

fun join_with :: "'a list \<Rightarrow> 'a list list \<Rightarrow> 'a list" where
  "join_with sep [] = []"
| "join_with sep [p] = p"
| "join_with sep (p # q # ps) = p @ sep @ join_with sep (q # ps)"

lemma split_on_nonempty [simp]: "split_on c s \<noteq> []"
  by (induction s) (auto split: list.splits)

lemma join_with_Cons: "ps \<noteq> [] \<Longrightarrow> join_with sep (p # ps) = p @ sep @ join_with sep ps"
  by (cases ps) auto

lemma join_split_on [simp]: "join_with [c] (split_on c s) = s"
proof (induction s)
  case (Cons x xs)
  then show ?case
    by (cases "split_on c xs"; cases "tl (split_on c xs)") (auto simp: join_with_Cons)
qed simp

lemma split_on_pieces: "p \<in> set (split_on c s) \<Longrightarrow> c \<notin> set p"
  by (induction s arbitrary: p) (auto split: if_splits list.splits)

lemma split_on_free: "c \<notin> set p \<Longrightarrow> split_on c p = [p]"
  by (induction p) auto

lemma split_on_append_sep: "c \<notin> set p \<Longrightarrow> split_on c (p @ c # s) = p # split_on c s"
  by (induction p) auto

lemma split_join_with:
  "ps \<noteq> [] \<Longrightarrow> (\<And>p. p \<in> set ps \<Longrightarrow> c \<notin> set p) \<Longrightarrow> split_on c (join_with [c] ps) = ps"
proof (induction "[c]" ps rule: join_with.induct)
  case (2 p)
  then show ?case by (simp add: split_on_free)
next
  case (3 p q ps)
  then show ?case by (simp add: split_on_append_sep)
qed simp

lemma join_with_append:
  "ps \<noteq> [] \<Longrightarrow> qs \<noteq> [] \<Longrightarrow> join_with sep (ps @ qs) = join_with sep ps @ sep @ join_with sep qs"
  by (induction sep ps rule: join_with.induct) (simp_all add: join_with_Cons)

lemma join_with_Cons_concat: "join_with sep (p # ps) = p @ concat (map (\<lambda>q. sep @ q) ps)"
  by (induction ps arbitrary: p) simp_all

lemma join_with_inj:
  assumes "join_with [c] ps = join_with [c] qs" "ps \<noteq> []" "qs \<noteq> []"
    "\<And>p. p \<in> set ps \<Longrightarrow> c \<notin> set p" "\<And>p. p \<in> set qs \<Longrightarrow> c \<notin> set p"
  shows "ps = qs"
  using assms split_join_with [of ps c] split_join_with [of qs c] by metis

section \<open>Host paths\<close>

text \<open>
  \<open>std::path::Component\<close> on unix (a prefix component exists on other platforms only), and the
  components of a path: repeated separators, a trailing separator and \<open>.\<close> after the start are
  dropped. A path is handled through its component list, as \<open>Path\<close> equality is.
\<close>

datatype (plugins only: code size) component = RootDir | CurDir | ParentDir | Normal string

definition normal_components :: "string list \<Rightarrow> component list" where
  "normal_components ps =
     map (\<lambda>p. if p = ''..'' then ParentDir else Normal p) (filter (\<lambda>p. p \<noteq> [] \<and> p \<noteq> ''.'') ps)"

definition host_components :: "string \<Rightarrow> component list" where
  "host_components s =
     (let ps = split_on CHR ''/'' s
      in (if s \<noteq> [] \<and> hd s = CHR ''/'' then [RootDir] else if hd ps = ''.'' then [CurDir] else [])
         @ normal_components ps)"

fun component_as_os_str :: "component \<Rightarrow> string" where
  "component_as_os_str RootDir = ''/''"
| "component_as_os_str CurDir = ''.''"
| "component_as_os_str ParentDir = ''..''"
| "component_as_os_str (Normal s) = s"

lemma host_components_absolute:
  "host_components (CHR ''/'' # s) = RootDir # normal_components (split_on CHR ''/'' s)"
  by (simp add: host_components_def normal_components_def)

lemma normal_components_Cons:
  "normal_components (p # ps) =
     (if p = [] \<or> p = ''.'' then [] else [if p = ''..'' then ParentDir else Normal p])
     @ normal_components ps"
  by (simp add: normal_components_def)

section \<open>Lists\<close>

lemma rev_less_iff_nth:
  "length a = length b \<Longrightarrow>
   rev a < rev (b :: 'a::linorder list) \<longleftrightarrow>
     (\<exists>i < length a. a ! i < b ! i \<and> (\<forall>k. i < k \<and> k < length a \<longrightarrow> a ! k = b ! k))"
proof (induction a b rule: rev_induct2)
  case (4 x xs y ys)
  then have len: "length xs = length ys" by simp
  have ih: "rev xs < rev ys \<longleftrightarrow>
    (\<exists>i < length xs. xs ! i < ys ! i \<and> (\<forall>k. i < k \<and> k < length xs \<longrightarrow> xs ! k = ys ! k))"
    using 4 by simp
  have "(\<exists>i < length (xs @ [x]). (xs @ [x]) ! i < (ys @ [y]) ! i \<and>
         (\<forall>k. i < k \<and> k < length (xs @ [x]) \<longrightarrow> (xs @ [x]) ! k = (ys @ [y]) ! k))
     \<longleftrightarrow> x < y \<or> (x = y \<and> rev xs < rev ys)" (is "?L \<longleftrightarrow> ?R")
  proof
    assume ?L
    then obtain i where i: "i \<le> length xs" "(xs @ [x]) ! i < (ys @ [y]) ! i"
      "\<And>k. i < k \<Longrightarrow> k \<le> length xs \<Longrightarrow> (xs @ [x]) ! k = (ys @ [y]) ! k"
      by (auto simp: less_Suc_eq_le)
    show ?R
    proof (cases "i = length xs")
      case True
      with i(2) len show ?thesis by (simp add: nth_append)
    next
      case False
      with i(1) have il: "i < length xs" by simp
      from i(3) [of "length xs"] il len have "x = y" by (simp add: nth_append)
      moreover have "xs ! i < ys ! i" using i(2) il len by (simp add: nth_append)
      moreover have "xs ! k = ys ! k" if "i < k" "k < length xs" for k
        using i(3) [of k] that len by (simp add: nth_append)
      ultimately show ?thesis using ih il by blast
    qed
  next
    assume ?R
    then show ?L
    proof
      assume "x < y"
      then show ?L using len by (intro exI [of _ "length xs"]) (auto simp: nth_append)
    next
      assume r: "x = y \<and> rev xs < rev ys"
      then obtain i where "i < length xs" "xs ! i < ys ! i"
        "\<forall>k. i < k \<and> k < length xs \<longrightarrow> xs ! k = ys ! k" using ih by blast
      then show ?L using len r
        by (intro exI [of _ i]) (auto simp: nth_append less_Suc_eq)
    qed
  qed
  then show ?case by simp
qed simp_all

lemma append_less_same: "p @ x < p @ (y :: 'a::linorder list) \<longleftrightarrow> x < y"
  by (induction p) simp_all

lemma append_less_first:
  "length u = length v \<Longrightarrow> u \<noteq> v \<Longrightarrow> u @ x < v @ (y :: 'a::linorder list) \<longleftrightarrow> u < v"
  by (induction u v rule: list_induct2) auto

section \<open>Contracts of printers and parsers\<close>

text \<open>
  A printer \<open>enc\<close> and a parser \<open>dec\<close> of the same format: on the values \<open>wf\<close> that the
  type can hold, parsing what was printed gives the value back, and the parser accepts
  nothing but the printed form, so the text form is canonical.
\<close>

locale codec =
  fixes enc :: "'a \<Rightarrow> string"
    and dec :: "string \<Rightarrow> ('e, 'a) res"
    and wf :: "'a \<Rightarrow> bool"
  assumes dec_enc: "wf a \<Longrightarrow> dec (enc a) = Inr a"
    and dec_sound: "dec s = Inr a \<Longrightarrow> wf a \<and> enc a = s"
begin

lemma enc_inj: "wf a \<Longrightarrow> wf b \<Longrightarrow> enc a = enc b \<Longrightarrow> a = b"
  by (metis dec_enc sum.inject(2))

lemma dec_inj: "dec s = Inr a \<Longrightarrow> dec t = Inr a \<Longrightarrow> s = t"
  by (auto dest: dec_sound)

lemma dec_iff: "dec s = Inr a \<longleftrightarrow> wf a \<and> s = enc a"
  by (metis dec_enc dec_sound)

lemma accepts_iff: "(\<exists>a. dec s = Inr a) \<longleftrightarrow> (\<exists>a. wf a \<and> s = enc a)"
  by (auto simp: dec_iff)

end

text \<open>
  A printer whose outputs can be told apart when more text follows: the value and the rest are
  determined by the text. Such printers compose.
\<close>

locale prefix_code =
  fixes put :: "'a \<Rightarrow> 'b list"
    and swf :: "'a \<Rightarrow> bool"
  assumes put_prefix_free: "swf a \<Longrightarrow> swf b \<Longrightarrow> put a @ r = put b @ q \<Longrightarrow> a = b \<and> r = q"
begin

lemma put_inj: "swf a \<Longrightarrow> swf b \<Longrightarrow> put a = put b \<Longrightarrow> a = b"
  using put_prefix_free [of a b "[]" "[]"] by simp

lemma put_inj_map:
  "list_all swf xs \<Longrightarrow> list_all swf ys \<Longrightarrow> map put xs = map put ys \<Longrightarrow> xs = ys"
  by (induction xs ys rule: list_induct2') (auto intro: put_inj)

end

text \<open>
  The same contract for a parser that consumes a prefix of its input and hands back the rest.
\<close>

locale stream_codec =
  fixes put :: "'a \<Rightarrow> string"
    and get :: "string \<Rightarrow> ('e, 'a \<times> string) res"
    and swf :: "'a \<Rightarrow> bool"
  assumes get_put: "swf a \<Longrightarrow> get (put a @ r) = Inr (a, r)"
    and get_sound: "get s = Inr (a, r) \<Longrightarrow> swf a \<and> s = put a @ r"
begin

lemma get_iff: "get s = Inr (a, r) \<longleftrightarrow> swf a \<and> s = put a @ r"
  by (metis get_put get_sound)

lemma get_consumes: "get s = Inr (a, r) \<Longrightarrow> length s = length (put a) + length r"
  by (auto dest: get_sound)

end

sublocale stream_codec \<subseteq> prefix_code put swf
proof
  show "swf a \<Longrightarrow> swf b \<Longrightarrow> put a @ r = put b @ q \<Longrightarrow> a = b \<and> r = q" for a b r q
    by (metis get_put sum.inject(2) prod.inject)
qed

named_theorems prefix_codes "composition of prefix codes"

lemma prefix_code_pair [prefix_codes]:
  assumes "prefix_code f P" "prefix_code g Q"
  shows "prefix_code (\<lambda>(a, b). f a @ g b) (\<lambda>(a, b). P a \<and> Q b)"
proof (unfold_locales, clarify)
  fix a b c d r q
  assume "P a" "P c" "Q b" "Q d" and eq: "(f a @ g b) @ r = (f c @ g d) @ q"
  from prefix_code.put_prefix_free [OF assms(1) \<open>P a\<close> \<open>P c\<close>, of "g b @ r" "g d @ q"] eq
  have "a = c" "g b @ r = g d @ q" by simp_all
  with prefix_code.put_prefix_free [OF assms(2) \<open>Q b\<close> \<open>Q d\<close>]
  show "(a, b) = (c, d) \<and> r = q" by blast
qed

lemma prefix_code_left [prefix_codes]: "prefix_code f P \<Longrightarrow> prefix_code (\<lambda>a. c @ f a) P"
  unfolding prefix_code_def append_assoc same_append_eq by assumption

lemma prefix_code_Cons [prefix_codes]: "prefix_code f P \<Longrightarrow> prefix_code (\<lambda>a. c # f a) P"
  unfolding prefix_code_def append_Cons list.inject by blast

lemma prefix_code_right: "prefix_code f P \<Longrightarrow> prefix_code (\<lambda>a. f a @ c) P"
  unfolding prefix_code_def by (metis append.assoc same_append_eq)

lemma prefix_code_comp:
  "prefix_code f P \<Longrightarrow> (\<And>a. Q a \<Longrightarrow> P (h a)) \<Longrightarrow> (\<And>a b. Q a \<Longrightarrow> Q b \<Longrightarrow> h a = h b \<Longrightarrow> a = b)
   \<Longrightarrow> prefix_code (\<lambda>a. f (h a)) Q"
  unfolding prefix_code_def by blast

lemma prefix_code_until:
  "prefix_code (\<lambda>s. s @ [c]) (\<lambda>s. c \<notin> set s)"
proof
  fix a b r q
  assume "c \<notin> set a" "c \<notin> set b" "(a @ [c]) @ r = (b @ [c]) @ q"
  then show "a = b \<and> r = q"
    by (metis append.assoc append_Cons append_Nil option.inject prod.inject split_once_append)
qed

text \<open>A separated list in brackets, whose elements never start with the closing bracket.\<close>

lemma prefix_code_list:
  assumes f: "prefix_code f P" and sep: "sep \<noteq> close"
    and start: "\<And>a. P a \<Longrightarrow> f a \<noteq> [] \<and> hd (f a) \<noteq> close"
  shows "prefix_code (\<lambda>xs. join_with [sep] (map f xs) @ [close]) (list_all P)"
proof
  fix xs ys r q
  show "list_all P xs \<Longrightarrow> list_all P ys \<Longrightarrow>
    (join_with [sep] (map f xs) @ [close]) @ r = (join_with [sep] (map f ys) @ [close]) @ q
    \<Longrightarrow> xs = ys \<and> r = q"
  proof (induction xs arbitrary: ys)
    case Nil
    then show ?case using start
      by (cases ys; cases "f (hd ys)"; cases "tl ys") force+
  next
    case (Cons x xs)
    obtain y ys' where ys: "ys = y # ys'"
      using Cons.prems start by (cases ys; cases "f x"; cases xs) force+
    have tail: "join_with [sep] (map f (z # zs)) @ [close] @ r =
        f z @ (if zs = [] then close # r else sep # (join_with [sep] (map f zs) @ [close]) @ r)" for z zs r
      by (cases zs) simp_all
    let ?X = "if xs = [] then close # r else sep # (join_with [sep] (map f xs) @ [close]) @ r"
    let ?Y = "if ys' = [] then close # q else sep # (join_with [sep] (map f ys') @ [close]) @ q"
    have eq: "f x @ ?X = f y @ ?Y"
      using Cons.prems(3) tail [of x xs r] tail [of y ys' q] by (simp only: ys append_assoc)
    have P: "P x" "P y" using Cons.prems(1,2) by (simp_all add: ys)
    from prefix_code.put_prefix_free [OF f P eq] have xy: "x = y" and rest: "?X = ?Y" by blast+
    have "xs = ys' \<and> r = q"
    proof (cases "xs = [] \<or> ys' = []")
      case True
      then show ?thesis using rest sep by (simp split: if_splits)
    next
      case False
      then show ?thesis using rest Cons.IH [of ys'] Cons.prems(1,2) by (simp add: ys)
    qed
    then show ?case using xy ys by simp
  qed
qed

end
