(* ===== verification/Nixbase32.thy ===== *)
theory Nixbase32
  imports Prelude
begin

text \<open>
  The nixbase32 encoding of \<^verbatim>\<open>nix-compat/src/nixbase32.rs\<close>: an unpadded base-32 code that
  emits the five-bit groups of the input from the last to the first. Both directions are the
  code's own bit manipulation on \<open>u8\<close> and \<open>u16\<close> words. The lemmas read both as operations on
  the bit string of the digest (\<open>bit_at\<close>) and end in the \<open>codec\<close> contract and in the order
  theorem that store paths rely on.
\<close>

section \<open>The code\<close>

definition ALPHABET :: string where
  "ALPHABET = ''0123456789abcdfghijklmnpqrsvwxyz''"

definition div_ceil :: "nat \<Rightarrow> nat \<Rightarrow> nat" where
  "div_ceil a b = (let q = a div b in if 0 < a mod b then q + 1 else q)"

definition decode_len :: "nat \<Rightarrow> nat" where
  "decode_len len = (len * 5) div 8"

definition encode_len :: "nat \<Rightarrow> nat" where
  "encode_len len = div_ceil (len * 8) 5"

text \<open>The five-bit group \<open>n\<close> of the input: two bytes are read, shifted and masked.\<close>

definition encode_group :: "u8 list \<Rightarrow> nat \<Rightarrow> u16" where
  "encode_group input n =
     (let b = n * 5;
          i = b div 8;
          j = b mod 8;
          word = (ucast (input ! i) :: u16);
          word' = (if i + 1 < length input
                   then word OR push_bit 8 (ucast (input ! (i + 1)) :: u16) else word)
      in drop_bit j word' AND 0x1f)"

definition encode :: "u8 list \<Rightarrow> string" where
  "encode input =
     map (\<lambda>n. ALPHABET ! unat (encode_group input n)) (rev [0..<encode_len (length input)])"

text \<open>The table of \<open>BASE32_ORD\<close>, filled by the constant's loop over the alphabet.\<close>

fun base32_ord_loop :: "string \<Rightarrow> u8 \<Rightarrow> u8 list \<Rightarrow> u8 list" where
  "base32_ord_loop [] i ord = ord"
| "base32_ord_loop (c # tail) i ord = base32_ord_loop tail (i + 1) (ord[of_char c := i])"

definition BASE32_ORD :: "u8 list" where
  "BASE32_ORD = base32_ord_loop ALPHABET 0 (replicate 256 0xFF)"

datatype (plugins only: code size) decode_kind = DecodeLength | DecodeSymbol | DecodeTrailing

record decode_error =
  position :: nat
  kind :: decode_kind

text \<open>
  \<open>find_invalid\<close> scans for the first byte outside the alphabet; behind the last byte the
  code is unreachable, and \<open>decode_inner_symbol\<close> below shows that the scan stops before.
\<close>

fun find_invalid_from :: "nat \<Rightarrow> string \<Rightarrow> nat" where
  "find_invalid_from i [] = i"
| "find_invalid_from i (c # cs) = (if c \<notin> set ALPHABET then i else find_invalid_from (i + 1) cs)"

definition find_invalid :: "string \<Rightarrow> nat" where
  "find_invalid input = find_invalid_from 0 input"

text \<open>The loop of \<open>decode_inner\<close>: the bytes still to read (last first) and its variables.\<close>

fun decode_loop :: "nat \<Rightarrow> string \<Rightarrow> u8 list \<Rightarrow> u8 \<Rightarrow> u8 \<Rightarrow> u8 list \<times> u8 \<times> u8" where
  "decode_loop n [] output carry msk = (output, carry, msk)"
| "decode_loop n (c # cs) output carry msk =
     (let b = n * 5;
          i = b div 8;
          j = b mod 8;
          digit = BASE32_ORD ! of_char c;
          value = push_bit j (ucast digit :: u16)
      in decode_loop (n + 1) cs
           (output[i := output ! i OR (ucast value OR carry)])
           (ucast (drop_bit 8 value)) (msk OR digit))"

definition decode_inner :: "string \<Rightarrow> u8 list \<Rightarrow> (decode_error, u8 list) res" where
  "decode_inner input output =
     (let (out, carry, msk) = decode_loop 0 (rev input) output 0 0
      in if msk = 0xFF
         then Inl \<lparr>position = find_invalid input, kind = DecodeSymbol\<rparr>
         else if carry \<noteq> 0 then Inl \<lparr>position = 0, kind = DecodeTrailing\<rparr>
         else Inr out)"

definition decode :: "string \<Rightarrow> (decode_error, u8 list) res" where
  "decode input =
     (let output_len = decode_len (length input)
      in if length input \<noteq> encode_len output_len
         then Inl \<lparr>position = min (length input) (encode_len output_len), kind = DecodeLength\<rparr>
         else decode_inner input (replicate output_len 0))"

definition decode_fixed :: "nat \<Rightarrow> string \<Rightarrow> (decode_error, u8 list) res" where
  "decode_fixed K input =
     (if length input \<noteq> encode_len K
      then Inl \<lparr>position = min (length input) (encode_len K), kind = DecodeLength\<rparr>
      else decode_inner input (replicate K 0))"

section \<open>Lengths\<close>

lemma encode_len_bounds: "8 * k \<le> 5 * encode_len k" "5 * encode_len k \<le> 8 * k + 4"
proof -
  define q r where "q = 8 * k div 5" and "r = 8 * k mod 5"
  then have k: "8 * k = 5 * q + r" and r: "r < 5" by simp_all
  have "encode_len k = (if 0 < r then q + 1 else q)"
    by (simp add: encode_len_def div_ceil_def q_def r_def mult.commute)
  with k r show "8 * k \<le> 5 * encode_len k" "5 * encode_len k \<le> 8 * k + 4"
    by (auto split: if_splits)
qed

lemma decode_len_encode_len [codec_simps, simp]: "decode_len (encode_len k) = k"
  unfolding decode_len_def using encode_len_bounds [of k] by (intro div_nat_eqI) auto

lemma encode_len_0 [simp]: "encode_len 0 = 0"
  by (simp add: encode_len_def div_ceil_def)

lemma length_encode [codec_simps, simp]: "length (encode bs) = encode_len (length bs)"
  by (simp add: encode_def)

text \<open>Every byte index the two loops use is inside the digest.\<close>

lemma group_index_in_range: "n < encode_len k \<Longrightarrow> n * 5 div 8 < k"
  using encode_len_bounds [of k] by (simp add: less_mult_imp_div_less)

section \<open>The alphabet\<close>

lemma length_ALPHABET [simp]: "length ALPHABET = 32"
  by (simp add: ALPHABET_def)

lemma distinct_ALPHABET: "distinct ALPHABET"
  by (simp add: ALPHABET_def)

lemma sorted_ALPHABET: "sorted_wrt (<) ALPHABET"
  by (simp add: ALPHABET_def)

lemma ALPHABET_less_iff: "a < 32 \<Longrightarrow> b < 32 \<Longrightarrow> ALPHABET ! a < ALPHABET ! b \<longleftrightarrow> a < b"
  using sorted_wrt_nth_less [OF sorted_ALPHABET, of a b] sorted_wrt_nth_less [OF sorted_ALPHABET, of b a]
  by (cases a b rule: linorder_cases) auto

lemma ALPHABET_eq_iff: "a < 32 \<Longrightarrow> b < 32 \<Longrightarrow> ALPHABET ! a = ALPHABET ! b \<longleftrightarrow> a = b"
  using distinct_ALPHABET by (simp add: nth_eq_iff_index_eq)

lemma length_base32_ord_loop [simp]: "length (base32_ord_loop cs i ord) = length ord"
  by (induction cs i ord rule: base32_ord_loop.induct) auto

lemma base32_ord_loop_other:
  "c \<notin> set cs \<Longrightarrow> base32_ord_loop cs i ord ! of_char c = ord ! of_char c"
  by (induction cs i ord rule: base32_ord_loop.induct) (auto simp: nth_list_update)

lemma of_char_less_256 [simp]: "(of_char c :: nat) < 256"
  using range_nat_of_char by auto

lemma base32_ord_loop_nth:
  "distinct cs \<Longrightarrow> length ord = 256 \<Longrightarrow> k < length cs \<Longrightarrow>
   base32_ord_loop cs i ord ! of_char (cs ! k) = i + of_nat k"
proof (induction cs i ord arbitrary: k rule: base32_ord_loop.induct)
  case (2 c tail i ord)
  then show ?case
    by (cases k) (auto simp: base32_ord_loop_other algebra_simps)
qed simp

lemma BASE32_ORD_nth: "k < 32 \<Longrightarrow> BASE32_ORD ! of_char (ALPHABET ! k) = of_nat k"
  unfolding BASE32_ORD_def using base32_ord_loop_nth [OF distinct_ALPHABET] by simp

lemma BASE32_ORD_invalid: "c \<notin> set ALPHABET \<Longrightarrow> BASE32_ORD ! of_char c = 0xFF"
  unfolding BASE32_ORD_def by (simp add: base32_ord_loop_other)

section \<open>Digests as bit strings\<close>

definition bit_at :: "u8 list \<Rightarrow> nat \<Rightarrow> bool" where
  "bit_at bs p \<longleftrightarrow> p div 8 < length bs \<and> bit (bs ! (p div 8)) (p mod 8)"

lemma bit_at_byte: "t < 8 \<Longrightarrow> bit_at bs (8 * i + t) \<longleftrightarrow> i < length bs \<and> bit (bs ! i) t"
  by (simp add: bit_at_def)

lemma bit_at_eqI:
  assumes len: "length a = length b" and eq: "\<And>p. p < 8 * length a \<Longrightarrow> bit_at a p = bit_at b p"
  shows "a = b"
proof (rule nth_equalityI [OF len])
  fix i assume i: "i < length a"
  show "a ! i = b ! i"
  proof (rule bit_word_eqI)
    fix t assume "t < LENGTH(8)"
    then have t: "t < 8" by simp
    with i have "8 * i + t < 8 * length a" by simp
    from eq [OF this] show "bit (a ! i) t = bit (b ! i) t"
      using i len by (simp add: bit_at_byte [OF t])
  qed
qed

lemma byte_split:
  fixes m :: nat obtains i j where "m = 8 * i + j" "j < 8" "i = m div 8" "j = m mod 8"
  by (metis mod_less_divisor mult_div_mod_eq zero_less_numeral)

lemma mask_5: "(0x1f :: u16) = mask 5"
  by (simp add: mask_eq_exp_minus_1)

lemma bit_u8_ge: "8 \<le> t \<Longrightarrow> \<not> bit (w :: u8) t"
  using bit_imp_le_length [of w t] by auto

lemma bit_two_bytes:
  fixes a b :: u8
  assumes "s < 5" "j < 8"
  shows "bit (drop_bit j (if c then ucast a OR push_bit 8 (ucast b) else ucast a :: u16) AND 0x1f) s
     \<longleftrightarrow> (if s + j < 8 then bit a (s + j) else c \<and> bit b (s + j - 8))"
  unfolding mask_5 using assms
  by (cases c) (auto simp: bit_simps add.commute [of j] bit_u8_ge)

lemma bit_encode_group:
  assumes s: "s < 5" and n: "n * 5 div 8 < length bs"
  shows "bit (encode_group bs n) s \<longleftrightarrow> bit_at bs (5 * n + s)"
proof -
  define i j where "i = n * 5 div 8" and "j = n * 5 mod 8"
  then have ij: "5 * n = 8 * i + j" and j: "j < 8" by simp_all
  have eq: "bit (encode_group bs n) s
      \<longleftrightarrow> (if s + j < 8 then bit (bs ! i) (s + j) else i + 1 < length bs \<and> bit (bs ! (i + 1)) (s + j - 8))"
    unfolding encode_group_def Let_def i_def [symmetric] j_def [symmetric]
    by (rule bit_two_bytes [OF s j])
  show ?thesis
  proof (cases "s + j < 8")
    case True
    have p: "5 * n + s = 8 * i + (s + j)" using ij by simp
    have "i < length bs" using n by (simp only: i_def)
    then show ?thesis unfolding p bit_at_byte [OF True] using eq True by simp
  next
    case False
    have lt: "s + j - 8 < 8" using s j by simp
    have p: "5 * n + s = 8 * (i + 1) + (s + j - 8)" using ij False by simp
    show ?thesis unfolding p bit_at_byte [OF lt] using eq False by simp
  qed
qed
text \<open>
  A list of five-bit groups (first group first) read as a bit string, and the loop invariant of
  \<open>decode_inner\<close>: after \<open>n\<close> groups the output holds the bits below \<open>8 * q\<close>, where
  \<open>q\<close> bytes have been touched, and the carry holds the rest.
\<close>

definition group_bit :: "(nat \<Rightarrow> u8) \<Rightarrow> nat \<Rightarrow> nat \<Rightarrow> bool" where
  "group_bit d n p \<longleftrightarrow> p div 5 < n \<and> bit (d (p div 5)) (p mod 5)"

definition touched :: "nat \<Rightarrow> nat" where
  "touched n = (5 * n + 3) div 8"

definition decode_inv :: "(nat \<Rightarrow> u8) \<Rightarrow> nat \<Rightarrow> u8 list \<Rightarrow> u8 \<Rightarrow> bool" where
  "decode_inv d n out carry \<longleftrightarrow>
     (\<forall>p < 8 * length out. bit_at out p \<longleftrightarrow> p < 8 * touched n \<and> group_bit d n p) \<and>
     (\<forall>u. bit carry u \<longleftrightarrow> group_bit d n (8 * touched n + u))"

lemma bit_small_digit:
  fixes w :: u8
  assumes "unat w < 32" "5 \<le> t"
  shows "\<not> bit w t"
proof
  assume b: "bit w t"
  then have "bit (unat w) t" by (auto simp: bit_unsigned_iff dest: bit_imp_le_length)
  then have "unat w div 2 ^ t \<noteq> 0" by (metis bit_iff_odd even_zero)
  then have "2 ^ t \<le> unat w" by (metis div_less not_less)
  moreover have "(2 :: nat) ^ 5 \<le> 2 ^ t" using assms(2) by (intro power_increasing) auto
  ultimately show False using assms(1) by simp
qed

lemma group_bit_Suc:
  assumes d: "unat (d n) < 32"
  shows "group_bit d (Suc n) p \<longleftrightarrow> group_bit d n p \<or> (5 * n \<le> p \<and> bit (d n) (p - 5 * n))"
proof -
  have small: "\<not> bit (d n) t" if "5 \<le> t" for t
    using bit_small_digit [OF d] that by blast
  consider "p < 5 * n" | "5 * n \<le> p" "p < 5 * n + 5" | "5 * n + 5 \<le> p" by linarith
  then show ?thesis
  proof cases
    case 1
    then have "p div 5 < n" by (simp add: less_mult_imp_div_less mult.commute)
    with 1 show ?thesis by (simp add: group_bit_def)
  next
    case 2
    then obtain s where s: "p = 5 * n + s" "s < 5" using le_Suc_ex by (metis nat_add_left_cancel_less)
    then show ?thesis by (simp add: group_bit_def)
  next
    case 3
    then have "n < p div 5" by (simp add: less_eq_div_iff_mult_less_eq Suc_le_eq [symmetric])
    with 3 show ?thesis by (simp add: group_bit_def small)
  qed
qed

lemma touched_Suc: "touched (Suc n) = 5 * n div 8 + 1"
  by (simp add: touched_def)

lemma touched_cases: "touched n = 5 * n div 8 \<or> touched n = 5 * n div 8 + 1"
proof -
  define i j where "i = 5 * n div 8" and "j = 5 * n mod 8"
  then have "5 * n = 8 * i + j" "j < 8" by simp_all
  then have "touched n = i + (j + 3) div 8" by (simp add: touched_def)
  then show ?thesis using \<open>j < 8\<close> unfolding i_def by auto
qed

lemma group_bit_above: "5 * n \<le> p \<Longrightarrow> \<not> group_bit d n p"
  by (simp add: group_bit_def less_eq_div_iff_mult_less_eq mult.commute not_less)

lemma decode_inv_byte:
  assumes inv: "decode_inv d n out carry" and il: "5 * n div 8 < length out" and t: "t < 8"
  shows "bit (out ! (5 * n div 8)) t \<or> bit carry t \<longleftrightarrow> group_bit d n (8 * (5 * n div 8) + t)"
proof -
  define i where "i = 5 * n div 8"
  have n: "5 * n < 8 * i + 8" by (simp add: i_def)
  have carry: "bit carry t \<longleftrightarrow> group_bit d n (8 * touched n + t)"
    using inv by (simp add: decode_inv_def)
  have lt: "8 * i + t < 8 * length out" using t il by (simp add: i_def)
  have "bit_at out (8 * i + t) \<longleftrightarrow> 8 * i + t < 8 * touched n \<and> group_bit d n (8 * i + t)"
    using inv lt by (simp add: decode_inv_def)
  then have o: "bit (out ! i) t \<longleftrightarrow> 8 * i + t < 8 * touched n \<and> group_bit d n (8 * i + t)"
    using il by (simp add: bit_at_byte [OF t] i_def)
  consider "touched n = i" | "touched n = i + 1" using touched_cases [of n] unfolding i_def by blast
  then have "bit (out ! i) t \<or> bit carry t \<longleftrightarrow> group_bit d n (8 * i + t)"
  proof cases
    case 1
    then show ?thesis using o carry by simp
  next
    case 2
    then have "\<not> bit carry t" using carry n by (simp add: group_bit_above)
    with 2 o t show ?thesis by simp
  qed
  then show ?thesis by (simp only: i_def)
qed

lemma bit_digit_value:
  "bit (push_bit j (ucast (w :: u8)) :: u16) t \<longleftrightarrow> j \<le> t \<and> t < 16 \<and> bit w (t - j)"
  by (auto simp: bit_simps)

lemma decode_step_carry:
  assumes d: "unat (d n) < 32"
  shows "bit (ucast (drop_bit 8 (push_bit (5 * n mod 8) (ucast (d n) :: u16))) :: u8) u
    \<longleftrightarrow> group_bit d (Suc n) (8 * touched (Suc n) + u)"
proof -
  define i j where "i = 5 * n div 8" and "j = 5 * n mod 8"
  then have n: "5 * n = 8 * i + j" and j: "j < 8" by simp_all
  note gS = group_bit_Suc [where d = d and n = n, OF d]
  have T: "8 * touched (Suc n) + u = 8 * i + (8 + u)" by (simp add: touched_Suc i_def)
  have ab: "5 * n \<le> 8 * i + (8 + u)" using n j by simp
  have "bit (ucast (drop_bit 8 (push_bit j (ucast (d n) :: u16))) :: u8) u
      \<longleftrightarrow> u < 8 \<and> bit (d n) (8 + u - j)"
    using j by (auto simp: bit_unsigned_iff bit_drop_bit_eq bit_digit_value)
  moreover have "\<not> bit (d n) (8 + u - j)" if "8 \<le> u"
    using bit_small_digit [OF d] that j by simp
  moreover have "8 * i + (8 + u) - 5 * n = 8 + u - j" using n by simp
  ultimately show ?thesis
    unfolding T gS j_def [symmetric] using ab group_bit_above [OF ab] by auto
qed

lemma decode_step_byte:
  assumes inv: "decode_inv d n out carry" and d: "unat (d n) < 32"
    and i: "5 * n div 8 < length out" and t: "t < 8"
  shows "bit (out ! (5 * n div 8) OR
              (ucast (push_bit (5 * n mod 8) (ucast (d n) :: u16)) OR carry)) t
         \<longleftrightarrow> group_bit d (Suc n) (8 * (5 * n div 8) + t)"
proof -
  define i j where "i = 5 * n div 8" and "j = 5 * n mod 8"
  then have n: "5 * n = 8 * i + j" and j: "j < 8" by simp_all
  note gS = group_bit_Suc [where d = d and n = n, OF d]
  let ?v = "push_bit j (ucast (d n) :: u16)"
  have "bit (out ! i OR (ucast ?v OR carry)) t \<longleftrightarrow> group_bit d n (8 * i + t) \<or> bit ?v t"
    using decode_inv_byte [OF inv i t] t unfolding i_def by (auto simp: bit_or_iff bit_unsigned_iff)
  also have "bit ?v t \<longleftrightarrow> 5 * n \<le> 8 * i + t \<and> bit (d n) (8 * i + t - 5 * n)"
    using n t by (simp add: bit_digit_value)
  finally show ?thesis by (simp add: gS i_def [symmetric] j_def [symmetric])
qed

lemma decode_step:
  assumes inv: "decode_inv d n out carry" and d: "unat (d n) < 32"
    and il: "5 * n div 8 < length out"
  defines "v \<equiv> push_bit (5 * n mod 8) (ucast (d n) :: u16)"
  shows "decode_inv d (Suc n)
           (out[5 * n div 8 := out ! (5 * n div 8) OR (ucast v OR carry)]) (ucast (drop_bit 8 v))"
proof -
  define i where "i = 5 * n div 8"
  have n: "8 * i \<le> 5 * n" by (simp add: i_def)
  have T: "touched (Suc n) = i + 1" by (simp add: touched_Suc i_def)
  note gS = group_bit_Suc [where d = d and n = n, OF d]
  let ?w = "out ! i OR (ucast v OR carry)"
  have "bit_at (out[i := ?w]) p \<longleftrightarrow> p < 8 * touched (Suc n) \<and> group_bit d (Suc n) p"
    if p: "p < 8 * length out" for p
  proof -
    define k t where "k = p div 8" and "t = p mod 8"
    then have pk: "p = 8 * k + t" and t: "t < 8" by simp_all
    have kl: "k < length out" using p pk by simp
    have out: "bit_at out p \<longleftrightarrow> p < 8 * touched n \<and> group_bit d n p"
      using inv p by (simp add: decode_inv_def)
    have b: "bit_at (out[i := ?w]) p \<longleftrightarrow> (if k = i then bit ?w t else bit_at out p)"
      using kl t unfolding pk by (simp add: bit_at_byte [OF t])
    consider "k = i" | "k < i" | "i < k" by linarith
    then show ?thesis
    proof cases
      case 1
      then show ?thesis
        using b decode_step_byte [OF inv d il t] T pk t unfolding v_def i_def by simp
    next
      case 2
      then have "p < 8 * i" "p < 5 * n" using pk t n by simp_all
      then show ?thesis using b 2 out T touched_cases [of n] i_def by (auto simp: gS)
    next
      case 3
      then show ?thesis using b out T pk touched_cases [of n] i_def by auto
    qed
  qed
  then show ?thesis
    using decode_step_carry [where d = d and n = n, OF d] unfolding decode_inv_def i_def v_def by simp
qed

section \<open>The decoding loop\<close>

definition digit_of :: "char \<Rightarrow> u8" where
  "digit_of c = BASE32_ORD ! of_char c"

lemma digit_of_nth [simp]: "k < 32 \<Longrightarrow> digit_of (ALPHABET ! k) = of_nat k"
  by (simp add: digit_of_def BASE32_ORD_nth)

lemma digit_of_valid: "c \<in> set ALPHABET \<Longrightarrow> unat (digit_of c) < 32 \<and> ALPHABET ! unat (digit_of c) = c"
  by (auto simp: in_set_conv_nth unat_of_nat)

lemma digit_of_invalid: "c \<notin> set ALPHABET \<Longrightarrow> digit_of c = 0xFF"
  by (simp add: digit_of_def BASE32_ORD_invalid)

lemma length_decode_loop: "length (fst (decode_loop n cs out carry msk)) = length out"
  by (induction n cs out carry msk rule: decode_loop.induct) (simp_all add: Let_def)

lemma decode_loop_mask:
  "bit (snd (snd (decode_loop n cs out carry msk))) t \<longleftrightarrow> bit msk t \<or> (\<exists>c \<in> set cs. bit (digit_of c) t)"
  by (induction n cs out carry msk rule: decode_loop.induct)
    (auto simp: Let_def bit_or_iff digit_of_def)

lemma decode_loop_mask_FF:
  "snd (snd (decode_loop n cs out carry 0)) = 0xFF \<longleftrightarrow> \<not> set cs \<subseteq> set ALPHABET"
proof
  assume "snd (snd (decode_loop n cs out carry 0)) = 0xFF"
  moreover have "bit (0xFF :: u8) 7" by simp
  ultimately obtain c where "c \<in> set cs" "bit (digit_of c) 7"
    using decode_loop_mask [of n cs out carry 0 7] by auto
  then show "\<not> set cs \<subseteq> set ALPHABET"
    using bit_small_digit [of "digit_of c" 7] digit_of_valid by auto
next
  assume "\<not> set cs \<subseteq> set ALPHABET"
  then obtain c where c: "c \<in> set cs" "digit_of c = 0xFF" using digit_of_invalid by blast
  show "snd (snd (decode_loop n cs out carry 0)) = 0xFF"
  proof (rule bit_word_eqI)
    fix t assume "t < LENGTH(8)"
    have "(0xFF :: u8) = mask 8" by (simp add: mask_eq_exp_minus_1)
    then have "bit (0xFF :: u8) t" using \<open>t < LENGTH(8)\<close> by (simp only: bit_mask_iff) simp
    then show "bit (snd (snd (decode_loop n cs out carry 0))) t = bit (0xFF :: u8) t"
      using c decode_loop_mask [of n cs out carry 0 t] by metis
  qed
qed

lemma decode_loop_inv:
  assumes "decode_inv d n out carry" "set cs \<subseteq> set ALPHABET"
    and "\<And>k. k < length cs \<Longrightarrow> d (n + k) = digit_of (cs ! k)"
    and "n + length cs \<le> encode_len (length out)"
    and "decode_loop n cs out carry msk = (out', carry', msk')"
  shows "decode_inv d (n + length cs) out' carry'"
  using assms
proof (induction n cs out carry msk rule: decode_loop.induct)
  case (1 n out carry msk)
  then show ?case by simp
next
  case (2 n c cs out carry msk)
  have dn: "d n = digit_of c" using 2(4) [of 0] by simp
  have d: "unat (d n) < 32" using 2(3) digit_of_valid dn by simp
  have i: "5 * n div 8 < length out"
    using group_index_in_range [of n "length out"] 2(5) by (simp add: mult.commute)
  have dk: "d (n + 1 + k) = digit_of (cs ! k)" if "k < length cs" for k
    using 2(4) [of "Suc k"] that by simp
  show ?case
    using 2(1) [OF refl refl refl refl refl _ _ dk] decode_step [OF 2(2) d i] 2(3,5,6)
    by (simp add: Let_def dn digit_of_def [symmetric] mult.commute [of n])
qed


lemma decode_inv_init: "decode_inv d 0 (replicate K 0) 0"
  by (auto simp: decode_inv_def group_bit_def touched_def bit_at_def)

text \<open>The groups of a text, first group first: the text is read backwards.\<close>

definition groups :: "string \<Rightarrow> nat \<Rightarrow> u8" where
  "groups s n = digit_of (rev s ! n)"

lemma touched_encode_len: "touched (encode_len K) = K"
  unfolding touched_def using encode_len_bounds [of K] by (intro div_nat_eqI) auto

lemma decode_inner_valid:
  assumes valid: "set s \<subseteq> set ALPHABET" and len: "length s = encode_len K"
  obtains out carry msk where
    "decode_loop 0 (rev s) (replicate K 0) 0 0 = (out, carry, msk)" "msk \<noteq> 0xFF" "length out = K"
    "\<And>p. p < 8 * K \<Longrightarrow> bit_at out p \<longleftrightarrow> group_bit (groups s) (encode_len K) p"
    "\<And>u. bit carry u \<longleftrightarrow> group_bit (groups s) (encode_len K) (8 * K + u)"
proof -
  obtain out carry msk where
    loop: "decode_loop 0 (rev s) (replicate K 0) 0 0 = (out, carry, msk)"
    by (metis prod_cases3)
  have "decode_inv (groups s) (0 + length (rev s)) out carry"
    by (rule decode_loop_inv [OF decode_inv_init _ _ _ loop]) (use valid len in \<open>auto simp: groups_def\<close>)
  then have inv: "decode_inv (groups s) (encode_len K) out carry" using len by simp
  have lo: "length out = K" using length_decode_loop [of 0 "rev s" "replicate K 0" 0 0] loop by simp
  have m: "msk \<noteq> 0xFF" using decode_loop_mask_FF [of 0 "rev s" "replicate K 0" 0] loop valid by simp
  show thesis
    by (rule that [OF loop m lo]) (use inv lo in \<open>simp_all add: decode_inv_def touched_encode_len\<close>)
qed

lemma find_invalid_from_spec:
  "\<not> set cs \<subseteq> set ALPHABET \<Longrightarrow>
   \<exists>k. find_invalid_from i cs = i + k \<and> k < length cs \<and> cs ! k \<notin> set ALPHABET \<and>
       set (take k cs) \<subseteq> set ALPHABET"
proof (induction i cs rule: find_invalid_from.induct)
  case (2 i c cs)
  show ?case
  proof (cases "c \<in> set ALPHABET")
    case True
    with 2 obtain k where "find_invalid_from (i + 1) cs = i + 1 + k" "k < length cs"
      "cs ! k \<notin> set ALPHABET" "set (take k cs) \<subseteq> set ALPHABET" by auto
    with True show ?thesis by (intro exI [of _ "Suc k"]) auto
  next
    case False
    then show ?thesis by (intro exI [of _ 0]) simp
  qed
qed simp

lemma decode_inner_symbol:
  assumes "\<not> set s \<subseteq> set ALPHABET"
  obtains k where "decode_inner s out = Inl \<lparr>position = k, kind = DecodeSymbol\<rparr>"
    "k < length s" "s ! k \<notin> set ALPHABET" "set (take k s) \<subseteq> set ALPHABET"
proof -
  obtain out' carry msk where loop: "decode_loop 0 (rev s) out 0 0 = (out', carry, msk)"
    by (metis prod_cases3)
  have "msk = 0xFF" using decode_loop_mask_FF [of 0 "rev s" out 0] loop assms by simp
  with loop have d: "decode_inner s out = Inl \<lparr>position = find_invalid s, kind = DecodeSymbol\<rparr>"
    by (simp add: decode_inner_def)
  obtain k where "find_invalid_from 0 s = 0 + k" "k < length s" "s ! k \<notin> set ALPHABET"
    "set (take k s) \<subseteq> set ALPHABET" using find_invalid_from_spec [OF assms] by blast
  with d show thesis using that by (simp add: find_invalid_def)
qed

section \<open>Round trips\<close>

lemma encode_group_small: "unat (encode_group bs n) < 32"
proof -
  have "encode_group bs n \<le> 0x1f" unfolding encode_group_def Let_def by (rule word_and_le1)
  then show ?thesis by (simp add: word_le_nat_alt)
qed

lemma encode_valid: "set (encode bs) \<subseteq> set ALPHABET"
  using encode_group_small by (auto simp: encode_def)

lemma rev_encode_nth:
  "n < encode_len (length bs) \<Longrightarrow> rev (encode bs) ! n = ALPHABET ! unat (encode_group bs n)"
  by (simp add: encode_def rev_map [symmetric])

lemma unat_of_nat_digit: "k < 32 \<Longrightarrow> unat (of_nat k :: u8) = k"
  by (simp add: unat_of_nat)

lemma groups_encode: "n < encode_len (length bs) \<Longrightarrow> unat (groups (encode bs) n) = unat (encode_group bs n)"
  unfolding groups_def
  by (simp only: rev_encode_nth digit_of_nth [OF encode_group_small] unat_of_nat_digit [OF encode_group_small])

lemma bit_unat_eq: "bit (unat (w :: 'a::len word)) t \<longleftrightarrow> bit w t"
  by (auto simp: bit_unsigned_iff dest: bit_imp_le_length)

lemma group_bit_encode:
  "group_bit (groups (encode bs)) (encode_len (length bs)) p \<longleftrightarrow> bit_at bs p"
proof (cases "p div 5 < encode_len (length bs)")
  case True
  have "bit (groups (encode bs) (p div 5)) (p mod 5) \<longleftrightarrow> bit (encode_group bs (p div 5)) (p mod 5)"
    using groups_encode [OF True] by (metis bit_unat_eq)
  also have "\<dots> \<longleftrightarrow> bit_at bs (5 * (p div 5) + p mod 5)"
    by (intro bit_encode_group group_index_in_range True) simp
  finally show ?thesis using True by (simp add: group_bit_def)
next
  case False
  then have "length bs \<le> p div 8"
    using encode_len_bounds [of "length bs"] by linarith
  with False show ?thesis by (simp add: group_bit_def bit_at_def)
qed

lemma decode_inner_encode: "decode_inner (encode bs) (replicate (length bs) 0) = Inr bs"
proof -
  obtain out carry msk where loop:
    "decode_loop 0 (rev (encode bs)) (replicate (length bs) 0) 0 0 = (out, carry, msk)" "msk \<noteq> 0xFF"
    and lo: "length out = length bs"
    and bits: "\<And>p. p < 8 * length bs \<Longrightarrow> bit_at out p \<longleftrightarrow> bit_at bs p"
      "\<And>u. bit carry u \<longleftrightarrow> bit_at bs (8 * length bs + u)"
    using decode_inner_valid [OF encode_valid, of bs "length bs"] by (auto simp: group_bit_encode)
  have "carry = 0" by (rule bit_word_eqI) (simp add: bits(2) bit_at_def)
  moreover have "out = bs" using lo bits(1) by (intro bit_at_eqI) simp_all
  ultimately show ?thesis using loop by (simp add: decode_inner_def)
qed

text \<open>A digest whose bits are the groups of a valid text has exactly these groups.\<close>

lemma encode_group_of_bits:
  assumes n: "n < encode_len K" and dn: "unat (groups s n) < 32" and lb: "length bs = K"
    and bits: "\<And>p. bit_at bs p \<longleftrightarrow> group_bit (groups s) (encode_len K) p"
  shows "unat (encode_group bs n) = unat (groups s n)"
proof (rule bit_eqI)
  fix t
  show "bit (unat (encode_group bs n)) t = bit (unat (groups s n)) t"
  proof (cases "t < 5")
    case True
    have "bit (encode_group bs n) t \<longleftrightarrow> bit_at bs (5 * n + t)"
      using True n lb by (intro bit_encode_group) (simp_all add: group_index_in_range)
    also have "\<dots> \<longleftrightarrow> bit (groups s n) t" using True n by (simp add: bits group_bit_def)
    finally show ?thesis by (simp add: bit_unat_eq)
  next
    case False
    have "\<not> bit (unat (encode_group bs n)) t"
      unfolding bit_unat_eq encode_group_def Let_def mask_5
      using False by (simp add: bit_and_iff bit_mask_iff)
    then show ?thesis using bit_small_digit [OF dn] False by (simp add: bit_unat_eq)
  qed
qed

lemma decode_inner_bits:
  assumes "decode_inner s (replicate K 0) = Inr bs" and len: "length s = encode_len K"
  shows "set s \<subseteq> set ALPHABET" "length bs = K"
    "bit_at bs p \<longleftrightarrow> group_bit (groups s) (encode_len K) p"
proof -
  show valid: "set s \<subseteq> set ALPHABET"
    using assms(1) by (rule contrapos_pp) (erule decode_inner_symbol [of s "replicate K 0"], simp)
  obtain out carry msk where loop: "decode_loop 0 (rev s) (replicate K 0) 0 0 = (out, carry, msk)"
      "msk \<noteq> 0xFF" and lo: "length out = K"
    and bits: "\<And>p. p < 8 * K \<Longrightarrow> bit_at out p \<longleftrightarrow> group_bit (groups s) (encode_len K) p"
      "\<And>u. bit carry u \<longleftrightarrow> group_bit (groups s) (encode_len K) (8 * K + u)"
    using decode_inner_valid [OF valid len] by blast
  have out: "out = bs" and carry: "carry = 0"
    using assms(1) loop by (simp_all add: decode_inner_def split: if_splits)
  show "length bs = K" using lo out by simp
  show "bit_at bs p \<longleftrightarrow> group_bit (groups s) (encode_len K) p"
    using bits(1) [of p] bits(2) [of "p - 8 * K"] carry out lo
    by (cases "p < 8 * K") (auto simp: bit_at_def)
qed

lemma encode_decode_inner:
  assumes "decode_inner s (replicate K 0) = Inr bs" and len: "length s = encode_len K"
  shows "length bs = K" "encode bs = s"
proof -
  note bits = decode_inner_bits [OF assms]
  show "length bs = K" by (rule bits(2))
  have "rev (encode bs) = rev s"
  proof (rule nth_equalityI)
    fix n assume "n < length (rev (encode bs))"
    then have n: "n < encode_len K" using bits(2) by simp
    then have "rev s ! n \<in> set ALPHABET" using bits(1) len by (metis length_rev nth_mem set_rev subsetD)
    then have g: "unat (groups s n) < 32" "ALPHABET ! unat (groups s n) = rev s ! n"
      using digit_of_valid by (simp_all add: groups_def)
    show "rev (encode bs) ! n = rev s ! n"
      using n bits(2) g encode_group_of_bits [OF n g(1) bits(2,3)] by (simp add: rev_encode_nth)
  qed (simp add: bits(2) len)
  then show "encode bs = s" by simp
qed

section \<open>The codec contract\<close>

lemma decode_encode [codec_simps, simp]: "decode (encode bs) = Inr bs"
  by (simp add: decode_def decode_inner_encode)

lemma decode_sound: "decode s = Inr bs \<Longrightarrow> encode bs = s"
  by (auto simp: decode_def Let_def split: if_splits dest: encode_decode_inner(2))

lemma decode_fixed_encode [codec_simps, simp]: "length bs = K \<Longrightarrow> decode_fixed K (encode bs) = Inr bs"
  using decode_inner_encode [of bs] by (simp add: decode_fixed_def)

lemma decode_fixed_sound:
  "decode_fixed K s = Inr bs \<Longrightarrow> length bs = K \<and> encode bs = s"
  by (auto simp: decode_fixed_def split: if_splits dest: encode_decode_inner)

interpretation nixbase32: codec encode decode "\<lambda>_. True"
  by unfold_locales (simp_all add: decode_sound)

interpretation nixbase32_fixed: codec encode "decode_fixed K" "\<lambda>bs. length bs = K" for K
  by unfold_locales (simp_all add: decode_fixed_sound)

lemma encode_inj [simp]: "encode a = encode b \<longleftrightarrow> a = b"
  using nixbase32.enc_inj by blast

lemma decode_fixed_iff: "decode_fixed K s = Inr bs \<longleftrightarrow> length bs = K \<and> s = encode bs"
  by (rule nixbase32_fixed.dec_iff)

section \<open>The order of encoded digests\<close>

definition top_bit_less :: "(nat \<Rightarrow> bool) \<Rightarrow> (nat \<Rightarrow> bool) \<Rightarrow> bool" where
  "top_bit_less X Y \<longleftrightarrow> (\<exists>p. \<not> X p \<and> Y p \<and> (\<forall>q > p. X q = Y q))"

lemma top_bit_less_half:
  fixes x y :: nat
  shows "top_bit_less (bit x) (bit y) \<longleftrightarrow>
    (even x \<and> odd y \<and> x div 2 = y div 2) \<or> top_bit_less (bit (x div 2)) (bit (y div 2))"
    (is "?L \<longleftrightarrow> ?A \<or> ?B")
proof
  assume ?L
  then obtain t where t: "\<not> bit x t" "bit y t" "\<And>u. t < u \<Longrightarrow> bit x u = bit y u"
    by (auto simp: top_bit_less_def)
  show "?A \<or> ?B"
  proof (cases t)
    case 0
    have "x div 2 = y div 2" by (rule bit_eqI) (use t(3) 0 in \<open>simp add: bit_Suc [symmetric]\<close>)
    with 0 t show ?thesis by (simp add: bit_0)
  next
    case (Suc s)
    then have "\<forall>u > s. bit (x div 2) u = bit (y div 2) u" using t(3) by (simp add: bit_Suc [symmetric])
    with Suc t show ?thesis by (auto simp: bit_Suc top_bit_less_def)
  qed
next
  assume "?A \<or> ?B"
  then show ?L
  proof
    assume ?A
    then show ?L unfolding top_bit_less_def
      by (intro exI [of _ 0]) (auto simp: bit_0 gr0_conv_Suc bit_Suc)
  next
    assume ?B
    then obtain t where "\<not> bit (x div 2) t" "bit (y div 2) t"
      "\<forall>u > t. bit (x div 2) u = bit (y div 2) u" by (auto simp: top_bit_less_def)
    then show ?L unfolding top_bit_less_def
      by (intro exI [of _ "Suc t"]) (auto simp: bit_Suc Suc_less_eq2)
  qed
qed

lemma nat_less_bits: "(x :: nat) < y \<longleftrightarrow> top_bit_less (bit x) (bit y)"
proof (induction y arbitrary: x rule: less_induct)
  case (less y)
  show ?case
  proof (cases "y = 0")
    case True
    then show ?thesis by (simp add: top_bit_less_def)
  next
    case False
    then have "y div 2 < y" by simp
    from less.IH [OF this, of "x div 2"]
    have ih: "x div 2 < y div 2 \<longleftrightarrow> top_bit_less (bit (x div 2)) (bit (y div 2))" .
    have "x < y \<longleftrightarrow> x div 2 < y div 2 \<or> (x div 2 = y div 2 \<and> even x \<and> odd y)" by presburger
    with ih top_bit_less_half show ?thesis by blast
  qed
qed

text \<open>
  A bit string cut into chunks of \<open>w\<close> bits: comparing the chunks from the last one down
  compares the bit strings at their topmost difference, whatever the chunk width is.
\<close>

definition top_chunk_less :: "nat \<Rightarrow> (nat \<Rightarrow> nat) \<Rightarrow> (nat \<Rightarrow> nat) \<Rightarrow> bool" where
  "top_chunk_less N x y \<longleftrightarrow> (\<exists>i < N. x i < y i \<and> (\<forall>k. i < k \<and> k < N \<longrightarrow> x k = y k))"

lemma top_chunk_less_bits:
  assumes w: "0 < w"
    and x: "\<And>k s. k < N \<Longrightarrow> bit (x k) s \<longleftrightarrow> s < w \<and> X (w * k + s)" and X: "\<And>p. w * N \<le> p \<Longrightarrow> \<not> X p"
    and y: "\<And>k s. k < N \<Longrightarrow> bit (y k) s \<longleftrightarrow> s < w \<and> Y (w * k + s)" and Y: "\<And>p. w * N \<le> p \<Longrightarrow> \<not> Y p"
  shows "top_chunk_less N x y \<longleftrightarrow> top_bit_less X Y"
proof
  assume "top_chunk_less N x y"
  then obtain i where i: "i < N" "x i < y i" "\<And>k. i < k \<Longrightarrow> k < N \<Longrightarrow> x k = y k"
    by (auto simp: top_chunk_less_def)
  from i(2) obtain t where
    t: "\<not> bit (x i) t" "bit (y i) t" "\<And>u. t < u \<Longrightarrow> bit (x i) u = bit (y i) u"
    unfolding nat_less_bits [of "x i"] top_bit_less_def by blast
  have tw: "t < w" using t(2) y i(1) by simp
  have "X q = Y q" if q: "w * i + t < q" for q
  proof (cases "q < w * N")
    case True
    define k s where "k = q div w" and "s = q mod w"
    then have qk: "q = w * k + s" and s: "s < w" using w by simp_all
    have k: "k < N" using True w by (simp add: k_def less_mult_imp_div_less mult.commute)
    have "(w * i + t) div w = i" using w tw by simp
    then have "i \<le> k" using q div_le_mono [of "w * i + t" q w] by (simp add: k_def)
    moreover have "t < s" if "k = i" using q that qk by simp
    ultimately have "bit (x k) s = bit (y k) s" using i(3) [of k] t(3) [of s] k by (cases "k = i") auto
    then show ?thesis using x [OF k] y [OF k] s by (simp add: qk)
  qed (use X Y in simp)
  then show "top_bit_less X Y" unfolding top_bit_less_def
    using t x [OF i(1), of t] y [OF i(1), of t] tw by blast
next
  assume "top_bit_less X Y"
  then obtain p where p: "\<not> X p" "Y p" "\<And>q. p < q \<Longrightarrow> X q = Y q" by (auto simp: top_bit_less_def)
  then have "p < w * N" using Y not_less by blast
  define i t where "i = p div w" and "t = p mod w"
  then have pi: "p = w * i + t" and t: "t < w" using w by simp_all
  have i: "i < N" using \<open>p < w * N\<close> by (simp add: i_def less_mult_imp_div_less mult.commute)
  have "x i < y i" unfolding nat_less_bits [of "x i"] top_bit_less_def
    using p x [OF i] y [OF i] t pi by (intro exI [of _ t]) auto
  moreover have "x k = y k" if k: "i < k" "k < N" for k
  proof (rule bit_eqI)
    fix s
    have "w * Suc i \<le> w * k" using k(1) by (intro mult_le_mono2) simp
    then have "p < w * k + s" using t unfolding pi by simp
    then show "bit (x k) s = bit (y k) s" using p(3) x [OF k(2)] y [OF k(2)] by simp
  qed
  ultimately show "top_chunk_less N x y" using i by (auto simp: top_chunk_less_def)
qed

lemma bit_at_nth: "k < length a \<Longrightarrow> bit (unat (a ! k)) s \<longleftrightarrow> s < 8 \<and> bit_at a (8 * k + s)"
  by (cases "s < 8") (auto simp: bit_unat_eq bit_at_byte bit_u8_ge)

lemma rev_less_bytes:
  assumes "length a = K" "length b = K"
  shows "rev a < rev (b :: u8 list) \<longleftrightarrow> top_bit_less (bit_at a) (bit_at b)"
proof -
  have "rev a < rev b \<longleftrightarrow> top_chunk_less K (\<lambda>i. unat (a ! i)) (\<lambda>i. unat (b ! i))"
    using assms by (simp add: rev_less_iff_nth top_chunk_less_def word_less_nat_alt word_unat_eq_iff)
  also have "\<dots> \<longleftrightarrow> top_bit_less (bit_at a) (bit_at b)"
    using assms by (intro top_chunk_less_bits [where w = 8])
      (auto simp: bit_at_nth, auto simp: bit_at_def)
  finally show ?thesis .
qed

lemma encode_less_bits:
  assumes "length a = K" "length b = K"
  shows "encode a < encode b \<longleftrightarrow> top_bit_less (bit_at a) (bit_at b)"
proof -
  have bits: "bit (unat (encode_group bs n)) s \<longleftrightarrow> s < 5 \<and> bit_at bs (5 * n + s)"
    if "n < encode_len K" "length bs = K" for bs n s
  proof (cases "s < 5")
    case True
    then show ?thesis using that bit_encode_group [of s n bs] group_index_in_range [of n K]
      by (simp add: bit_unat_eq)
  next
    case False
    then show ?thesis unfolding bit_unat_eq encode_group_def Let_def mask_5
      by (simp add: bit_and_iff bit_mask_iff)
  qed
  have "encode a < encode b \<longleftrightarrow> rev (rev (encode a)) < rev (rev (encode b))" by simp
  also have "\<dots> \<longleftrightarrow> top_chunk_less (encode_len K) (\<lambda>n. unat (encode_group a n)) (\<lambda>n. unat (encode_group b n))"
    using assms encode_group_small
    by (subst rev_less_iff_nth)
      (auto simp: rev_encode_nth top_chunk_less_def ALPHABET_less_iff ALPHABET_eq_iff)
  also have "\<dots> \<longleftrightarrow> top_bit_less (bit_at a) (bit_at b)"
    using assms encode_len_bounds [of K]
    by (intro top_chunk_less_bits [where w = 5]) (auto simp: bits bit_at_def)
  finally show ?thesis .
qed

lemma encode_less_iff: "length a = length b \<Longrightarrow> encode a < encode b \<longleftrightarrow> rev a < rev b"
  using encode_less_bits rev_less_bytes by blast

section \<open>Properties\<close>

text \<open>
  C19: \<open>decode\<close> accepts exactly the texts that \<open>encode\<close> produces and returns the encoded bytes.
  So decoding inverts encoding on every byte string of every length, and no two texts decode to
  the same bytes: the encoding is canonical.
\<close>

theorem nixbase32_decode_iff_encode: "decode s = Inr bs \<longleftrightarrow> s = encode bs"
  using nixbase32.dec_iff by simp

text \<open>
  \<open>decode\<close> reports an invalid symbol exactly when the length is that of some encoding and
  the reported position is the first byte outside the alphabet; the scan for that position never
  reaches the unreachable end of \<open>find_invalid\<close>.
\<close>

theorem nixbase32_symbol_error:
  "decode s = Inl \<lparr>position = k, kind = DecodeSymbol\<rparr> \<longleftrightarrow>
     length s = encode_len (decode_len (length s)) \<and> k < length s \<and>
     s ! k \<notin> set ALPHABET \<and> set (take k s) \<subseteq> set ALPHABET"
proof (cases "set s \<subseteq> set ALPHABET")
  case True
  then have "\<not> (k < length s \<and> s ! k \<notin> set ALPHABET)" by (meson nth_mem subsetD)
  moreover have "decode s \<noteq> Inl \<lparr>position = k, kind = DecodeSymbol\<rparr>"
  proof (cases "length s = encode_len (decode_len (length s))")
    case len: True
    obtain out carry msk where "decode_loop 0 (rev s) (replicate (decode_len (length s)) 0) 0 0 = (out, carry, msk)"
      "msk \<noteq> 0xFF" using decode_inner_valid [OF True len] by metis
    then show ?thesis by (simp add: decode_def decode_inner_def Let_def)
  qed (simp add: decode_def Let_def)
  ultimately show ?thesis by blast
next
  case False
  then obtain j where j: "decode_inner s (replicate (decode_len (length s)) 0) = Inl \<lparr>position = j, kind = DecodeSymbol\<rparr>"
    "j < length s" "s ! j \<notin> set ALPHABET" "set (take j s) \<subseteq> set ALPHABET"
    by (rule decode_inner_symbol)
  have "k = j" if "k < length s" "s ! k \<notin> set ALPHABET" "set (take k s) \<subseteq> set ALPHABET"
  proof (rule linorder_cases [of k j])
    assume "k < j"
    then have "s ! k \<in> set (take j s)" using that by (auto simp: in_set_conv_nth)
    then show ?thesis using that j by blast
  next
    assume "j < k"
    then have "s ! j \<in> set (take k s)" using j by (auto simp: in_set_conv_nth)
    then show ?thesis using that j by blast
  qed
  then show ?thesis using j by (auto simp: decode_def Let_def)
qed

end
