(* ===== verification/NixHash.thy ===== *)
theory NixHash
  imports Nixbase32
begin

text \<open>
  Hashes of \<^verbatim>\<open>nix-compat/src/nixhash\<close>: the algorithms (\<^verbatim>\<open>algos.rs\<close>), the tagged digests and
  their text formats (\<^verbatim>\<open>mod.rs\<close>) and content addresses (\<^verbatim>\<open>ca_hash.rs\<close>).

  The fixed-size arrays of the enum variants are byte lists with the invariant \<open>nixhash_wf\<close>.
  Base16 and base64 come from the crate \<open>data_encoding\<close>, which is a parameter: a record of the
  functions the code calls. A panic (the \<open>unwrap\<close> of \<open>decode_digest\<close>) is an error value.
\<close>

section \<open>Algorithms\<close>

datatype (plugins only: code size) hash_algo = AMd5 | ASha1 | ASha256 | ASha512

fun algo_as_str :: "hash_algo \<Rightarrow> string" where
  "algo_as_str AMd5 = ''md5''"
| "algo_as_str ASha1 = ''sha1''"
| "algo_as_str ASha256 = ''sha256''"
| "algo_as_str ASha512 = ''sha512''"

fun sri_prefix :: "hash_algo \<Rightarrow> string" where
  "sri_prefix AMd5 = ''md5-''"
| "sri_prefix ASha1 = ''sha1-''"
| "sri_prefix ASha256 = ''sha256-''"
| "sri_prefix ASha512 = ''sha512-''"

fun digest_length :: "hash_algo \<Rightarrow> nat" where
  "digest_length ASha1 = 20"
| "digest_length ASha256 = 32"
| "digest_length ASha512 = 64"
| "digest_length AMd5 = 16"

datatype (plugins only: code size) nixhash_error =
    InvalidAlgo string
  | InvalidSRI
  | InvalidDigestLength hash_algo
  | InvalidBase16Encoding decode_error
  | InvalidBase32Encoding decode_error
  | InvalidBase64Encoding decode_error
  | ConflictingHashAlgos hash_algo hash_algo
  | MissingInlineHashAlgo string
  | NixHashPanic  \<comment> \<open>the \<open>unwrap\<close> at the end of \<open>decode_digest\<close>\<close>

definition algo_from_str :: "string \<Rightarrow> (nixhash_error, hash_algo) res" where
  "algo_from_str algo_str =
     (if algo_str = ''md5'' then Inr AMd5
      else if algo_str = ''sha1'' then Inr ASha1
      else if algo_str = ''sha256'' then Inr ASha256
      else if algo_str = ''sha512'' then Inr ASha512
      else Inl (InvalidAlgo algo_str))"

lemma algo_from_str_as_str [codec_simps, simp]: "algo_from_str (algo_as_str a) = Inr a"
  by (cases a) (simp_all add: algo_from_str_def)

lemma algo_from_str_sound: "algo_from_str s = Inr a \<Longrightarrow> algo_as_str a = s"
  by (auto simp: algo_from_str_def split: if_splits)

interpretation hash_algo: codec algo_as_str algo_from_str "\<lambda>_. True"
  by unfold_locales (simp_all add: algo_from_str_sound)

lemma sri_prefix_eq: "sri_prefix a = algo_as_str a @ ''-''"
  by (cases a) simp_all

lemma algo_as_str_chars: "CHR '':'' \<notin> set (algo_as_str a)" "CHR ''-'' \<notin> set (algo_as_str a)"
  by (cases a; simp)+

section \<open>Digests tagged with their algorithm\<close>

datatype (plugins only: code size) nixhash = Md5 "u8 list" | Sha1 "u8 list" | Sha256 "u8 list" | Sha512 "u8 list"

fun algo :: "nixhash \<Rightarrow> hash_algo" where
  "algo (Md5 _) = AMd5"
| "algo (Sha1 _) = ASha1"
| "algo (Sha256 _) = ASha256"
| "algo (Sha512 _) = ASha512"

fun digest_as_bytes :: "nixhash \<Rightarrow> u8 list" where
  "digest_as_bytes (Md5 digest) = digest"
| "digest_as_bytes (Sha1 digest) = digest"
| "digest_as_bytes (Sha256 digest) = digest"
| "digest_as_bytes (Sha512 digest) = digest"

text \<open>The array lengths of the enum's fields.\<close>

definition nixhash_wf :: "nixhash \<Rightarrow> bool" where
  "nixhash_wf h \<longleftrightarrow> length (digest_as_bytes h) = digest_length (algo h)"

fun nixhash_of :: "hash_algo \<Rightarrow> u8 list \<Rightarrow> nixhash" where
  "nixhash_of AMd5 digest = Md5 digest"
| "nixhash_of ASha1 digest = Sha1 digest"
| "nixhash_of ASha256 digest = Sha256 digest"
| "nixhash_of ASha512 digest = Sha512 digest"

lemma nixhash_of_sel [simp]: "algo (nixhash_of a d) = a" "digest_as_bytes (nixhash_of a d) = d"
  by (cases a; simp)+

lemma nixhash_of_fun:
  "nixhash_of AMd5 = Md5" "nixhash_of ASha1 = Sha1" "nixhash_of ASha256 = Sha256"
  "nixhash_of ASha512 = Sha512"
  by (rule ext, simp)+

lemma nixhash_of_eq: "nixhash_of (algo h) (digest_as_bytes h) = h"
  by (cases h) simp_all

text \<open>\<open>Ord\<close> compares the digest bytes from the first on.\<close>

definition nixhash_less :: "nixhash \<Rightarrow> nixhash \<Rightarrow> bool" where
  "nixhash_less a b \<longleftrightarrow> digest_as_bytes a < digest_as_bytes b"

definition from_algo_and_digest :: "hash_algo \<Rightarrow> u8 list \<Rightarrow> (nixhash_error, nixhash) res" where
  "from_algo_and_digest a digest =
     (if length digest \<noteq> digest_length a then Inl (InvalidDigestLength a)
      else Inr (nixhash_of a digest))"

lemma from_algo_and_digest_iff:
  "from_algo_and_digest a d = Inr h \<longleftrightarrow> nixhash_wf h \<and> algo h = a \<and> digest_as_bytes h = d"
  by (auto simp: from_algo_and_digest_def nixhash_wf_def nixhash_of_eq split: if_splits)

subsection \<open>The nixbase32 format\<close>

definition from_nix_nixbase32 :: "string \<Rightarrow> nixhash option" where
  "from_nix_nixbase32 s =
     Option.bind (split_once CHR '':'' s) (\<lambda>(tag, digest).
       if tag = ''md5'' then ok (map_ok Md5 (decode_fixed 16 digest))
       else if tag = ''sha1'' then ok (map_ok Sha1 (decode_fixed 20 digest))
       else if tag = ''sha256'' then ok (map_ok Sha256 (decode_fixed 32 digest))
       else if tag = ''sha512'' then ok (map_ok Sha512 (decode_fixed 64 digest))
       else None)"

definition to_nix_nixbase32 :: "nixhash \<Rightarrow> string" where
  "to_nix_nixbase32 h = algo_as_str (algo h) @ '':'' @ encode (digest_as_bytes h)"

lemma from_nix_nixbase32_eq:
  "from_nix_nixbase32 s =
     Option.bind (split_once CHR '':'' s) (\<lambda>(tag, digest).
       Option.bind (ok (algo_from_str tag)) (\<lambda>a.
         ok (map_ok (nixhash_of a) (decode_fixed (digest_length a) digest))))"
  by (cases "split_once CHR '':'' s")
    (simp_all add: from_nix_nixbase32_def algo_from_str_def nixhash_of_fun split: prod.split)

lemma from_to_nix_nixbase32: "nixhash_wf h \<Longrightarrow> from_nix_nixbase32 (to_nix_nixbase32 h) = Some h"
  by (simp add: from_nix_nixbase32_eq to_nix_nixbase32_def algo_as_str_chars nixhash_wf_def
      nixhash_of_eq)

lemma from_nix_nixbase32_sound:
  "from_nix_nixbase32 s = Some h \<Longrightarrow> nixhash_wf h \<and> to_nix_nixbase32 h = s"
  by (auto simp: from_nix_nixbase32_eq bind_eq_Some_conv split_once_eq_Some to_nix_nixbase32_def
      nixhash_wf_def decode_fixed_iff dest: algo_from_str_sound)

interpretation nix_nixbase32: codec to_nix_nixbase32 "\<lambda>s. ok_or () (from_nix_nixbase32 s)" nixhash_wf
  by unfold_locales (simp_all add: from_to_nix_nixbase32 from_nix_nixbase32_sound)

lemma from_nix_nixbase32_iff:
  "from_nix_nixbase32 s = Some h \<longleftrightarrow> nixhash_wf h \<and> s = to_nix_nixbase32 h"
  using nix_nixbase32.dec_iff by simp

section \<open>Content addresses\<close>

datatype (plugins only: code size) cahash = CAFlat nixhash | CANar nixhash | CAText "u8 list"

datatype (plugins only: code size) hash_mode = ModeFlat | ModeNar | ModeText

fun cahash_hash :: "cahash \<Rightarrow> nixhash" where
  "cahash_hash (CAFlat digest) = digest"
| "cahash_hash (CANar digest) = digest"
| "cahash_hash (CAText digest) = Sha256 digest"

fun cahash_mode :: "cahash \<Rightarrow> hash_mode" where
  "cahash_mode (CAFlat _) = ModeFlat"
| "cahash_mode (CANar _) = ModeNar"
| "cahash_mode (CAText _) = ModeText"

definition cahash_wf :: "cahash \<Rightarrow> bool" where
  "cahash_wf c \<longleftrightarrow> nixhash_wf (cahash_hash c)"

definition cahash_from_nix_hex_str :: "string \<Rightarrow> cahash option" where
  "cahash_from_nix_hex_str s =
     Option.bind (split_once CHR '':'' s) (\<lambda>(tag, s).
       if tag = ''text'' then
         Option.bind (strip_prefix ''sha256:'' s) (\<lambda>digest.
           Option.bind (ok (decode_fixed 32 digest)) (\<lambda>digest. Some (CAText digest)))
       else if tag = ''fixed'' then
         (case strip_prefix ''r:'' s of
            Some s' \<Rightarrow> map_option CANar (from_nix_nixbase32 s')
          | None \<Rightarrow> map_option CAFlat (from_nix_nixbase32 s))
       else None)"

fun cahash_prefix :: "cahash \<Rightarrow> string \<times> u8 list" where
  "cahash_prefix (CAFlat (Md5 h)) = (''fixed:md5'', h)"
| "cahash_prefix (CAFlat (Sha1 h)) = (''fixed:sha1'', h)"
| "cahash_prefix (CAFlat (Sha256 h)) = (''fixed:sha256'', h)"
| "cahash_prefix (CAFlat (Sha512 h)) = (''fixed:sha512'', h)"
| "cahash_prefix (CANar (Md5 h)) = (''fixed:r:md5'', h)"
| "cahash_prefix (CANar (Sha1 h)) = (''fixed:r:sha1'', h)"
| "cahash_prefix (CANar (Sha256 h)) = (''fixed:r:sha256'', h)"
| "cahash_prefix (CANar (Sha512 h)) = (''fixed:r:sha512'', h)"
| "cahash_prefix (CAText h) = (''text:sha256'', h)"

definition cahash_to_string :: "cahash \<Rightarrow> string" where
  "cahash_to_string c = (let (a, hash) = cahash_prefix c in a @ '':'' @ encode hash)"

lemma cahash_to_string_eq:
  "cahash_to_string (CAFlat h) = ''fixed:'' @ to_nix_nixbase32 h"
  "cahash_to_string (CANar h) = ''fixed:r:'' @ to_nix_nixbase32 h"
  "cahash_to_string (CAText d) = ''text:sha256:'' @ encode d"
  by (cases h; simp add: cahash_to_string_def to_nix_nixbase32_def;
      simp add: cahash_to_string_def)+

text \<open>A \<open>fixed\<close> body that starts with \<open>r:\<close> is never a hash by itself, so the two modes differ.\<close>

lemma from_nix_nixbase32_r: "from_nix_nixbase32 (''r:'' @ s) = None"
  by (simp add: from_nix_nixbase32_def)

lemma strip_r_to_nix_nixbase32: "strip_prefix ''r:'' (to_nix_nixbase32 h) = None"
  by (cases h) (simp_all add: to_nix_nixbase32_def)


lemma cahash_from_to: "cahash_wf c \<Longrightarrow> cahash_from_nix_hex_str (cahash_to_string c) = Some c"
proof (cases c)
  case (CAFlat h)
  assume "cahash_wf c"
  with CAFlat show ?thesis
    by (simp add: cahash_to_string_eq cahash_from_nix_hex_str_def cahash_wf_def
        strip_r_to_nix_nixbase32 from_to_nix_nixbase32)
next
  case (CANar h)
  assume "cahash_wf c"
  with CANar show ?thesis
    by (simp add: cahash_to_string_eq cahash_from_nix_hex_str_def cahash_wf_def from_to_nix_nixbase32)
next
  case (CAText d)
  assume "cahash_wf c"
  with CAText show ?thesis
    by (simp add: cahash_to_string_eq cahash_from_nix_hex_str_def cahash_wf_def nixhash_wf_def)
qed

lemma cahash_from_sound:
  assumes "cahash_from_nix_hex_str s = Some c"
  shows "cahash_wf c \<and> cahash_to_string c = s"
proof -
  obtain tag r where s: "s = tag @ CHR '':'' # r" "CHR '':'' \<notin> set tag"
    using assms by (auto simp: cahash_from_nix_hex_str_def bind_eq_Some_conv split_once_eq_Some)
  then have b: "cahash_from_nix_hex_str s =
      (if tag = ''text'' then
         Option.bind (strip_prefix ''sha256:'' r) (\<lambda>digest.
           Option.bind (ok (decode_fixed 32 digest)) (\<lambda>digest. Some (CAText digest)))
       else if tag = ''fixed'' then
         (case strip_prefix ''r:'' r of
            Some s' \<Rightarrow> map_option CANar (from_nix_nixbase32 s')
          | None \<Rightarrow> map_option CAFlat (from_nix_nixbase32 r))
       else None)"
    by (simp add: cahash_from_nix_hex_str_def)
  consider "tag = ''text''" | "tag = ''fixed''" using assms [unfolded b] by (auto split: if_splits)
  then show ?thesis
  proof cases
    case 1
    with assms [unfolded b] s show ?thesis
      by (auto simp: bind_eq_Some_conv decode_fixed_iff cahash_to_string_eq cahash_wf_def nixhash_wf_def)
  next
    case 2
    with assms [unfolded b] s show ?thesis
      by (auto simp: cahash_to_string_eq cahash_wf_def from_nix_nixbase32_iff split: option.splits)
  qed
qed

interpretation cahash: codec cahash_to_string "\<lambda>s. ok_or () (cahash_from_nix_hex_str s)" cahash_wf
  by unfold_locales (simp_all add: cahash_from_to cahash_from_sound)

section \<open>The other formats\<close>

text \<open>What the code calls of the crate \<open>data_encoding\<close>.\<close>

record data_encoding =
  hexlower_encode_len :: "nat \<Rightarrow> nat"
  hexlower_encode :: "u8 list \<Rightarrow> string"
  hexlower_decode :: "string \<Rightarrow> (decode_error, u8 list) res"
  base64_encode_len :: "nat \<Rightarrow> nat"
  base64_encode :: "u8 list \<Rightarrow> string"
  base64_decode :: "string \<Rightarrow> (decode_error, u8 list) res"
  base64_nopad_encode_len :: "nat \<Rightarrow> nat"
  base64_nopad_lax_decode :: "string \<Rightarrow> (decode_error, u8 list) res"
    \<comment> \<open>\<open>BASE64_NOPAD\<close> with \<open>check_trailing_bits = false\<close>\<close>

definition trim_end_with :: "(char \<Rightarrow> bool) \<Rightarrow> string \<Rightarrow> string" where
  "trim_end_with P s = rev (dropWhile P (rev s))"

definition from_sri :: "data_encoding \<Rightarrow> string \<Rightarrow> (nixhash_error, nixhash) res" where
  "from_sri E s =
     rbind (ok_or InvalidSRI (split_once CHR ''-'' s)) (\<lambda>(algo_str, digest_str).
     rbind (algo_from_str algo_str) (\<lambda>a.
       let encoded_max_len = base64_encode_len E (digest_length a);
           digest_str = (if encoded_max_len < length digest_str
                         then take encoded_max_len digest_str else digest_str)
       in if length digest_str < base64_nopad_encode_len E (digest_length a)
          then Inl (InvalidDigestLength a)
          else rbind (map_err InvalidBase64Encoding
                       (base64_nopad_lax_decode E (trim_end_with (\<lambda>c. c = CHR ''='') digest_str)))
                 (from_algo_and_digest a)))"

definition to_sri_string :: "data_encoding \<Rightarrow> nixhash \<Rightarrow> string" where
  "to_sri_string E h = algo_as_str (algo h) @ ''-'' @ base64_encode E (digest_as_bytes h)"

definition as_nix_lowerhex_string :: "data_encoding \<Rightarrow> nixhash \<Rightarrow> string" where
  "as_nix_lowerhex_string E h = algo_as_str (algo h) @ '':'' @ hexlower_encode E (digest_as_bytes h)"

definition decode_digest :: "data_encoding \<Rightarrow> string \<Rightarrow> hash_algo \<Rightarrow> (nixhash_error, nixhash) res" where
  "decode_digest E s a =
     rbind
       (if length s = hexlower_encode_len E (digest_length a)
        then map_err InvalidBase16Encoding (hexlower_decode E s)
        else if length s = encode_len (digest_length a)
        then map_err InvalidBase32Encoding (decode s)
        else if length s = base64_encode_len E (digest_length a)
        then map_err InvalidBase64Encoding (base64_decode E s)
        else Inl (InvalidDigestLength a))
       (\<lambda>digest. map_err (\<lambda>_. NixHashPanic) (from_algo_and_digest a digest))"

definition check_algo :: "hash_algo option \<Rightarrow> nixhash \<Rightarrow> (nixhash_error, nixhash) res" where
  "check_algo want_algo parsed_nixhash =
     (case want_algo of
        Some a \<Rightarrow> if a \<noteq> algo parsed_nixhash
                  then Inl (ConflictingHashAlgos a (algo parsed_nixhash)) else Inr parsed_nixhash
      | None \<Rightarrow> Inr parsed_nixhash)"

definition nixhash_from_str ::
  "data_encoding \<Rightarrow> string \<Rightarrow> hash_algo option \<Rightarrow> (nixhash_error, nixhash) res" where
  "nixhash_from_str E s want_algo =
     (case from_sri E s of
        Inr parsed_nixhash \<Rightarrow> check_algo want_algo parsed_nixhash
      | Inl _ \<Rightarrow>
          (case strip_prefix ''sha1:'' s of
             Some rest \<Rightarrow> rbind (decode_digest E rest ASha1) (check_algo want_algo)
           | None \<Rightarrow> (case strip_prefix ''sha256:'' s of
             Some rest \<Rightarrow> rbind (decode_digest E rest ASha256) (check_algo want_algo)
           | None \<Rightarrow> (case strip_prefix ''sha512:'' s of
             Some rest \<Rightarrow> rbind (decode_digest E rest ASha512) (check_algo want_algo)
           | None \<Rightarrow> (case strip_prefix ''md5:'' s of
             Some rest \<Rightarrow> rbind (decode_digest E rest AMd5) (check_algo want_algo)
           | None \<Rightarrow>
               rbind (ok_or (MissingInlineHashAlgo s) want_algo) (\<lambda>a. decode_digest E s a))))))"

lemma from_sri_wf: "from_sri E s = Inr h \<Longrightarrow> nixhash_wf h"
  by (auto simp: from_sri_def Let_def from_algo_and_digest_iff split: if_splits)

lemma decode_digest_wf: "decode_digest E s a = Inr h \<Longrightarrow> nixhash_wf h \<and> algo h = a"
  by (auto simp: decode_digest_def from_algo_and_digest_iff)

lemma check_algo_iff: "check_algo w h = Inr h' \<longleftrightarrow> h' = h \<and> (w = None \<or> w = Some (algo h))"
  by (auto simp: check_algo_def split: option.splits)

text \<open>The length inference of \<open>decode_digest\<close> is unambiguous for the three encodings.\<close>

lemma decode_digest_encode:
  assumes "nixhash_wf h" "\<And>n. hexlower_encode_len E n = 2 * n"
  shows "decode_digest E (encode (digest_as_bytes h)) (algo h) = Inr h"
proof -
  have "encode_len (digest_length a) \<noteq> 2 * digest_length a" for a
    by (cases a) (simp_all add: encode_len_def div_ceil_def Let_def)
  then show ?thesis
    using assms by (simp add: decode_digest_def nixhash_wf_def from_algo_and_digest_def nixhash_of_eq)
qed

lemma split_once_to_sri: "split_once CHR ''-'' (to_sri_string E h @ r) =
  Some (algo_as_str (algo h), base64_encode E (digest_as_bytes h) @ r)"
  by (simp add: to_sri_string_def algo_as_str_chars)

lemma from_sri_colon: "CHR ''-'' \<notin> set s \<Longrightarrow> from_sri E (algo_as_str a @ CHR '':'' # s) = Inl InvalidSRI"
  by (simp add: from_sri_def split_once_absent algo_as_str_chars)

lemma nixhash_from_str_colon:
  "CHR ''-'' \<notin> set s \<Longrightarrow>
   nixhash_from_str E (algo_as_str a @ CHR '':'' # s) w = rbind (decode_digest E s a) (check_algo w)"
  by (cases a) (simp_all add: nixhash_from_str_def from_sri_colon [of _ _ ASha1, simplified]
      from_sri_colon [of _ _ ASha256, simplified] from_sri_colon [of _ _ ASha512, simplified]
      from_sri_colon [of _ _ AMd5, simplified])

section \<open>Properties\<close>

text \<open>
  the \<open>$algo:$nixbase32\<close> format is canonical: \<open>from_nix_nixbase32\<close> accepts exactly what
  \<open>to_nix_nixbase32\<close> prints for a digest of the algorithm's length, and returns that hash.
\<close>

theorem nix_nixbase32_canonical:
  "from_nix_nixbase32 s = Some h \<longleftrightarrow> nixhash_wf h \<and> s = to_nix_nixbase32 h"
  by (rule from_nix_nixbase32_iff)

text \<open>
  content addresses as they stand in a NARInfo parse back to themselves and only the
  printed form is accepted: flat, recursive and text addresses are told apart by the prefix.
\<close>

theorem cahash_canonical:
  "cahash_from_nix_hex_str s = Some c \<longleftrightarrow> cahash_wf c \<and> s = cahash_to_string c"
  using cahash.dec_iff by simp

text \<open>
  a hash printed in SRI format parses back, whatever follows it in the string: everything
  after the expected base64 length is ignored. The hypotheses are the documented behaviour of
  \<open>data_encoding\<close> at this digest: the padded encoding has the length \<open>encode_len\<close> says, the
  unpadded length is not larger, and decoding the encoding without its padding gives the digest.
\<close>

theorem sri_roundtrip:
  assumes "nixhash_wf h"
    and "length (base64_encode E (digest_as_bytes h)) = base64_encode_len E (digest_length (algo h))"
    and "base64_nopad_encode_len E (digest_length (algo h)) \<le> base64_encode_len E (digest_length (algo h))"
    and "base64_nopad_lax_decode E (trim_end_with (\<lambda>c. c = CHR ''='') (base64_encode E (digest_as_bytes h)))
         = Inr (digest_as_bytes h)"
  shows "from_sri E (to_sri_string E h @ rest) = Inr h"
  using assms
  by (simp add: from_sri_def split_once_to_sri Let_def from_algo_and_digest_iff)

definition example_encoding :: data_encoding where
  "example_encoding =
     \<lparr>hexlower_encode_len = (\<lambda>n. 2 * n), hexlower_encode = (\<lambda>_. []), hexlower_decode = (\<lambda>_. Inr []),
      base64_encode_len = (\<lambda>n. 4 * ((n + 2) div 3)),
      base64_encode = (\<lambda>_. replicate 22 (CHR ''A'') @ ''==''),
      base64_decode = (\<lambda>s. Inr (replicate (3 * (length s div 4)) 0)),
      base64_nopad_encode_len = (\<lambda>n. (4 * n + 2) div 3),
      base64_nopad_lax_decode = (\<lambda>s. Inr (replicate (3 * length s div 4) 0))\<rparr>"

lemma trim_end_with_example:
  "trim_end_with (\<lambda>c. c = CHR ''='') (replicate n (CHR ''A'') @ ''=='') = replicate n (CHR ''A'')"
  by (cases n) (simp_all add: trim_end_with_def replicate_append_same)

theorem sri_roundtrip_witness:
  "from_sri example_encoding
     (to_sri_string example_encoding (Md5 (replicate 16 0)) @ '' sha1-x'') = Inr (Md5 (replicate 16 0))"
  by (rule sri_roundtrip)
    (simp_all add: nixhash_wf_def example_encoding_def trim_end_with_example)

text \<open>
  Whatever format is given, a hash that \<open>from_str\<close> returns has a digest of its algorithm's
  length, and if an algorithm was asked for, it is that one.
\<close>

theorem nixhash_from_str_sound:
  assumes "nixhash_from_str E s want_algo = Inr h"
  shows "nixhash_wf h \<and> (want_algo = None \<or> want_algo = Some (algo h))"
  using assms
  by (auto simp: nixhash_from_str_def check_algo_iff dest: from_sri_wf decode_digest_wf
      split: sum.splits option.splits)

theorem nixhash_from_str_sound_witness:
  "nixhash_from_str example_encoding (''md5:'' @ encode (replicate 16 0)) (Some AMd5)
     = Inr (Md5 (replicate 16 0)) \<and> nixhash_wf (Md5 (replicate 16 0))"
proof -
  have "CHR ''-'' \<notin> set ALPHABET" by (simp add: ALPHABET_def)
  then have m: "CHR ''-'' \<notin> set (encode (replicate 16 0))" using encode_valid by blast
  have "decode_digest example_encoding (encode (replicate 16 0)) AMd5 = Inr (Md5 (replicate 16 0))"
    using decode_digest_encode [of "Md5 (replicate 16 0)" example_encoding]
    by (simp add: nixhash_wf_def example_encoding_def)
  with nixhash_from_str_colon [OF m, of example_encoding AMd5 "Some AMd5"]
  have "nixhash_from_str example_encoding (algo_as_str AMd5 @ CHR '':'' # encode (replicate 16 0)) (Some AMd5)
     = Inr (Md5 (replicate 16 0))" by (simp add: check_algo_def)
  then have r: "nixhash_from_str example_encoding (''md5:'' @ encode (replicate 16 0)) (Some AMd5)
     = Inr (Md5 (replicate 16 0))" by simp
  show ?thesis using r nixhash_from_str_sound [OF r] by blast
qed

text \<open>
  \<open>from_str\<close> panics on a well-formed base64 text of the right length that decodes to another
  number of bytes than the digest has, because \<open>decode_digest\<close> unwraps the length check. A text
  of the padded length that carries no padding is such an input: 28 base64 characters for sha1
  decode to 21 bytes.
\<close>

theorem nixhash_from_str_panics:
  assumes "length s = base64_encode_len E (digest_length a)"
    and "length s \<noteq> hexlower_encode_len E (digest_length a)" and "length s \<noteq> encode_len (digest_length a)"
    and "CHR ''-'' \<notin> set s" and "base64_decode E s = Inr digest" and "length digest \<noteq> digest_length a"
  shows "nixhash_from_str E (algo_as_str a @ '':'' @ s) want_algo = Inl NixHashPanic"
  using assms
  by (simp add: nixhash_from_str_colon decode_digest_def from_algo_and_digest_def)

theorem nixhash_from_str_panics_witness:
  "nixhash_from_str example_encoding (algo_as_str ASha1 @ '':'' @ replicate 28 (CHR ''A'')) None
     = Inl NixHashPanic"
  by (rule nixhash_from_str_panics [where digest = "replicate 21 0"])
    (simp_all add: example_encoding_def encode_len_def div_ceil_def)

text \<open>
  The order on hashes is not the order of their nixbase32 texts, which read the digest from
  its last byte: some hashes of one algorithm are ordered one way and printed the other way.
\<close>

theorem nixhash_order_not_nixbase32_order:
  "\<exists>a b. nixhash_wf a \<and> nixhash_wf b \<and> algo a = algo b \<and> nixhash_less a b \<and>
         to_nix_nixbase32 b < to_nix_nixbase32 a"
proof (intro exI conjI)
  let ?a = "Md5 (replicate 15 0 @ [1])" and ?b = "Md5 (1 # replicate 15 0)"
  show "nixhash_wf ?a" "nixhash_wf ?b" "algo ?a = algo ?b" by (simp_all add: nixhash_wf_def)
  show "nixhash_less ?a ?b" by (simp add: nixhash_less_def numeral_eq_Suc)
  have "encode (1 # replicate 15 0) < encode (replicate 15 0 @ [1])"
    by (simp add: encode_less_iff) (simp add: numeral_eq_Suc)
  then show "to_nix_nixbase32 ?b < to_nix_nixbase32 ?a" by (simp add: to_nix_nixbase32_def)
qed

end
