(* ===== verification/StorePath.thy ===== *)
theory StorePath
  imports NixHash
begin

text \<open>
  Store paths of \<^verbatim>\<open>nix-compat/src/store_path\<close>: names and their validation, parsing and printing
  of \<open>$digest-$name\<close> and of absolute paths (\<^verbatim>\<open>mod.rs\<close>, \<^verbatim>\<open>borrowed.rs\<close>) and the construction
  of paths from fingerprints (\<^verbatim>\<open>utils.rs\<close>). \<open>StorePath\<close> and \<open>StorePathRef\<close> hold the same
  data, owned or borrowed, and are one record. SHA-256 is a parameter.
\<close>

section \<open>Names\<close>

datatype (plugins only: code size) name_error = NameLength | NameName

datatype (plugins only: code size) parse_store_path_error =
    MissingDash
  | DigestEncoding decode_error
  | SPLength
  | SPName
  | MissingStoreDir

fun sp_error_of_name_error :: "name_error \<Rightarrow> parse_store_path_error" where
  "sp_error_of_name_error NameLength = SPLength"
| "sp_error_of_name_error NameName = SPName"

definition DIGEST_SIZE :: nat where "DIGEST_SIZE = 20"

definition ENCODED_DIGEST_SIZE :: nat where "ENCODED_DIGEST_SIZE = encode_len DIGEST_SIZE"

definition STORE_DIR :: string where "STORE_DIR = ''/nix/store''"

definition STORE_DIR_WITH_SLASH :: string where "STORE_DIR_WITH_SLASH = ''/nix/store/''"

definition name_char_match :: "char \<Rightarrow> bool" where
  "name_char_match c \<longleftrightarrow>
     (CHR ''a'' \<le> c \<and> c \<le> CHR ''z'') \<or> (CHR ''A'' \<le> c \<and> c \<le> CHR ''Z'') \<or>
     (CHR ''0'' \<le> c \<and> c \<le> CHR ''9'') \<or>
     c = CHR ''+'' \<or> c = CHR ''-'' \<or> c = CHR ''_'' \<or> c = CHR ''?'' \<or> c = CHR ''='' \<or> c = CHR ''.''"

definition NAME_CHARS :: "bool list" where
  "NAME_CHARS = map (\<lambda>i. name_char_match (char_of i)) [0..<256]"

text \<open>
  The first loop of \<open>validate_name\<close> folds the table over the name; the second one only finds
  the byte that made the fold false.
\<close>

definition validate_name :: "string \<Rightarrow> (name_error, string) res" where
  "validate_name s =
     (if s = [] \<or> 211 < length s then Inl NameLength
      else if \<not> fold (\<lambda>c valid. valid \<and> NAME_CHARS ! of_char c) s True then Inl NameName
      else Inr s)"

lemma NAME_CHARS_nth [simp]: "NAME_CHARS ! of_char c = name_char_match c"
proof -
  have "NAME_CHARS ! of_char c = name_char_match (char_of ([0..<256] ! of_char c :: nat))"
    unfolding NAME_CHARS_def by (rule nth_map) simp
  then show ?thesis by simp
qed

lemma fold_valid: "fold (\<lambda>c valid. valid \<and> P c) s b \<longleftrightarrow> b \<and> list_all P s"
  by (induction s arbitrary: b) auto

definition name_ok :: "string \<Rightarrow> bool" where
  "name_ok s \<longleftrightarrow> s \<noteq> [] \<and> length s \<le> 211 \<and> list_all name_char_match s"

lemma validate_name_iff: "validate_name s = Inr r \<longleftrightarrow> r = s \<and> name_ok s"
  by (auto simp: validate_name_def name_ok_def fold_valid)

lemma validate_name_ok [simp]: "name_ok s \<Longrightarrow> validate_name s = Inr s"
  by (simp add: validate_name_iff)

lemma name_ok_chars:
  "name_ok s \<Longrightarrow> CHR ''/'' \<notin> set s" "name_ok s \<Longrightarrow> CHR '':'' \<notin> set s"
  "name_ok s \<Longrightarrow> CHR '' '' \<notin> set s" "name_ok s \<Longrightarrow> CHR 0x0A \<notin> set s"
  "name_ok s \<Longrightarrow> CHR ''\"'' \<notin> set s" "name_ok s \<Longrightarrow> CHR 0x5C \<notin> set s" "name_ok s \<Longrightarrow> CHR '','' \<notin> set s"
  by (auto simp: name_ok_def list_all_iff name_char_match_def dest!: bspec)

section \<open>Parsing and printing\<close>

record store_path =
  sp_digest :: "u8 list"
  sp_name :: string

definition sp_wf :: "store_path \<Rightarrow> bool" where
  "sp_wf p \<longleftrightarrow> length (sp_digest p) = DIGEST_SIZE \<and> name_ok (sp_name p)"

definition sp_from_name_and_digest_fixed ::
  "string \<Rightarrow> u8 list \<Rightarrow> (parse_store_path_error, store_path) res" where
  "sp_from_name_and_digest_fixed name digest =
     rbind (map_err sp_error_of_name_error (validate_name name))
       (\<lambda>name. Inr \<lparr>sp_digest = digest, sp_name = name\<rparr>)"

definition sp_from_name_and_digest ::
  "string \<Rightarrow> u8 list \<Rightarrow> (parse_store_path_error, store_path) res" where
  "sp_from_name_and_digest name digest =
     (if length digest \<noteq> DIGEST_SIZE then Inl SPLength
      else sp_from_name_and_digest_fixed name digest)"

definition sp_from_bytes :: "string \<Rightarrow> (parse_store_path_error, store_path) res" where
  "sp_from_bytes s =
     (if length s < ENCODED_DIGEST_SIZE + 2 then Inl SPLength
      else rbind (map_err DigestEncoding (decode_fixed DIGEST_SIZE (take ENCODED_DIGEST_SIZE s)))
        (\<lambda>digest.
          if s ! ENCODED_DIGEST_SIZE \<noteq> CHR ''-'' then Inl MissingDash
          else rbind (map_err sp_error_of_name_error (validate_name (drop (ENCODED_DIGEST_SIZE + 1) s)))
            (\<lambda>name. Inr \<lparr>sp_digest = digest, sp_name = name\<rparr>)))"

definition sp_from_absolute_path :: "string \<Rightarrow> (parse_store_path_error, store_path) res" where
  "sp_from_absolute_path s =
     (case strip_prefix STORE_DIR_WITH_SLASH s of
        Some s_stripped \<Rightarrow> sp_from_bytes s_stripped
      | None \<Rightarrow> Inl MissingStoreDir)"

text \<open>
  \<open>from_absolute_path_full\<close>: the prefix is stripped component by component, and the rest of the
  path is returned as its components.
\<close>

definition sp_from_absolute_path_full ::
  "string \<Rightarrow> (parse_store_path_error, store_path \<times> component list) res" where
  "sp_from_absolute_path_full path =
     rbind (ok_or MissingStoreDir
             (strip_prefix (host_components STORE_DIR_WITH_SLASH) (host_components path)))
       (\<lambda>components.
         case components of
           [] \<Rightarrow> Inl SPLength
         | first # rest \<Rightarrow>
             (let first_component = component_as_os_str first
              in if length first_component < 34 then Inl SPLength
                 else rbind (sp_from_bytes first_component) (\<lambda>store_path. Inr (store_path, rest))))"

definition sp_to_string :: "store_path \<Rightarrow> string" where
  "sp_to_string p = encode (sp_digest p) @ ''-'' @ sp_name p"

definition sp_to_absolute_path :: "store_path \<Rightarrow> string" where
  "sp_to_absolute_path p = STORE_DIR_WITH_SLASH @ sp_to_string p"

text \<open>\<open>Ord\<close> compares the digests from the last byte on, and nothing else.\<close>

definition sp_less :: "store_path \<Rightarrow> store_path \<Rightarrow> bool" where
  "sp_less a b \<longleftrightarrow> rev (sp_digest a) < rev (sp_digest b)"

lemma ENCODED_DIGEST_SIZE_eq [simp]: "ENCODED_DIGEST_SIZE = 32"
  by (simp add: ENCODED_DIGEST_SIZE_def DIGEST_SIZE_def encode_len_def div_ceil_def)

lemma encode_len_20 [simp]: "encode_len 20 = 32"
  using ENCODED_DIGEST_SIZE_eq by (simp only: ENCODED_DIGEST_SIZE_def DIGEST_SIZE_def)

lemma sp_from_name_and_digest_fixed_iff:
  "sp_from_name_and_digest_fixed name d = Inr p \<longleftrightarrow> name_ok name \<and> p = \<lparr>sp_digest = d, sp_name = name\<rparr>"
  by (auto simp: sp_from_name_and_digest_fixed_def validate_name_iff)

lemma sp_from_to_string: "sp_wf p \<Longrightarrow> sp_from_bytes (sp_to_string p) = Inr p"
proof -
  assume wf: "sp_wf p"
  then have len: "length (encode (sp_digest p)) = 32" by (simp add: sp_wf_def DIGEST_SIZE_def)
  have "sp_name p \<noteq> []" using wf by (simp add: sp_wf_def name_ok_def)
  then have "\<not> length (sp_to_string p) < 34" using len by (cases "sp_name p") (simp_all add: sp_to_string_def)
  moreover have "take 32 (sp_to_string p) = encode (sp_digest p)" "sp_to_string p ! 32 = CHR ''-''"
    "drop 33 (sp_to_string p) = sp_name p"
    using len by (simp_all add: sp_to_string_def nth_append)
  ultimately show ?thesis using wf by (simp add: sp_from_bytes_def sp_wf_def)
qed

lemma sp_from_bytes_sound:
  assumes "sp_from_bytes s = Inr p"
  shows "sp_wf p \<and> sp_to_string p = s"
proof -
  from assms have len: "34 \<le> length s" and d: "decode_fixed 20 (take 32 s) = Inr (sp_digest p)"
    and dash: "s ! 32 = CHR ''-''" and nm: "name_ok (sp_name p)" "sp_name p = drop 33 s"
    by (auto simp: sp_from_bytes_def DIGEST_SIZE_def validate_name_iff split: if_splits)
  from d have e: "length (sp_digest p) = 20" "take 32 s = encode (sp_digest p)"
    by (simp_all add: decode_fixed_iff)
  have "s = take 32 s @ s ! 32 # drop 33 s"
    using len id_take_nth_drop [of 32 s] by simp
  then show ?thesis using e dash nm by (simp add: sp_wf_def DIGEST_SIZE_def sp_to_string_def)
qed

interpretation store_path: codec sp_to_string sp_from_bytes sp_wf
  by unfold_locales (simp_all add: sp_from_to_string sp_from_bytes_sound)

interpretation absolute_path: codec sp_to_absolute_path sp_from_absolute_path sp_wf
proof
  show "sp_wf p \<Longrightarrow> sp_from_absolute_path (sp_to_absolute_path p) = Inr p" for p
    by (simp add: sp_from_absolute_path_def sp_to_absolute_path_def sp_from_to_string)
  show "sp_from_absolute_path s = Inr p \<Longrightarrow> sp_wf p \<and> sp_to_absolute_path p = s" for s p
    by (auto simp: sp_from_absolute_path_def sp_to_absolute_path_def split: option.splits
        dest: sp_from_bytes_sound)
qed

lemmas sp_from_bytes_iff = store_path.dec_iff
lemmas sp_from_absolute_path_iff = absolute_path.dec_iff

section \<open>Paths from fingerprints\<close>

text \<open>
  \<open>compress_hash\<close>: the bytes of the input are folded into an output of the wanted size, byte
  \<open>ii\<close> into position \<open>ii mod size\<close>. The size is a constant of the callers and positive there; at
  size 0 the code would panic on the first byte, where this function returns the empty output.
\<close>

fun compress_loop :: "nat \<Rightarrow> nat \<Rightarrow> u8 list \<Rightarrow> u8 list \<Rightarrow> u8 list" where
  "compress_loop output_size ii [] output = output"
| "compress_loop output_size ii (ch # chs) output =
     compress_loop output_size (Suc ii) chs
       (output[ii mod output_size := output ! (ii mod output_size) XOR ch])"

definition compress_hash :: "nat \<Rightarrow> u8 list \<Rightarrow> u8 list" where
  "compress_hash output_size input = compress_loop output_size 0 input (replicate output_size 0)"

text \<open>The \<open>Display\<close> of the formatter that \<open>format_references\<close> returns.\<close>

definition format_references :: "string \<Rightarrow> store_path list \<Rightarrow> bool \<Rightarrow> string" where
  "format_references ty references has_self_ref =
     ty @ concat (map (\<lambda>reference. '':'' @ sp_to_absolute_path reference) references)
     @ (if has_self_ref then '':self'' else [])"

text \<open>SHA-256 is the parameter \<open>sha256\<close>, from the bytes of a text to the digest.\<close>

definition store_path_fingerprint :: "data_encoding \<Rightarrow> string \<Rightarrow> u8 list \<Rightarrow> string \<Rightarrow> string" where
  "store_path_fingerprint E ty inner_digest name =
     ty @ '':sha256:'' @ hexlower_encode E inner_digest @ '':'' @ STORE_DIR @ '':'' @ name"

definition build_store_path_from_fingerprint_parts ::
  "data_encoding \<Rightarrow> (string \<Rightarrow> u8 list) \<Rightarrow> string \<Rightarrow> u8 list \<Rightarrow> string
   \<Rightarrow> (parse_store_path_error, store_path) res" where
  "build_store_path_from_fingerprint_parts E sha256 ty inner_digest name =
     (let fingerprint_hash = sha256 (store_path_fingerprint E ty inner_digest name)
      in sp_from_name_and_digest_fixed name (compress_hash DIGEST_SIZE fingerprint_hash))"

definition build_text_path_from_content_digest ::
  "data_encoding \<Rightarrow> (string \<Rightarrow> u8 list) \<Rightarrow> string \<Rightarrow> u8 list \<Rightarrow> store_path list
   \<Rightarrow> (parse_store_path_error, store_path) res" where
  "build_text_path_from_content_digest E sha256 name content_digest references =
     (let ty = format_references ''text'' references False
      in build_store_path_from_fingerprint_parts E sha256 ty content_digest name)"

definition build_text_path ::
  "data_encoding \<Rightarrow> (string \<Rightarrow> u8 list) \<Rightarrow> string \<Rightarrow> string \<Rightarrow> store_path list
   \<Rightarrow> (parse_store_path_error, store_path) res" where
  "build_text_path E sha256 name content references =
     build_text_path_from_content_digest E sha256 name (sha256 content) references"

definition fod_fingerprint :: "data_encoding \<Rightarrow> bool \<Rightarrow> nixhash \<Rightarrow> store_path option \<Rightarrow> string" where
  "fod_fingerprint E is_recursive hash out_output_path =
     (let absolute_sp_optional =
            (case out_output_path of Some sp \<Rightarrow> sp_to_absolute_path sp | None \<Rightarrow> [])
      in if is_recursive
         then ''fixed:out:r:'' @ as_nix_lowerhex_string E hash @ '':'' @ absolute_sp_optional
         else ''fixed:out:'' @ as_nix_lowerhex_string E hash @ '':'' @ absolute_sp_optional)"

definition fod_digest ::
  "data_encoding \<Rightarrow> (string \<Rightarrow> u8 list) \<Rightarrow> bool \<Rightarrow> nixhash \<Rightarrow> store_path option \<Rightarrow> u8 list" where
  "fod_digest E sha256 is_recursive hash out_output_path =
     sha256 (fod_fingerprint E is_recursive hash out_output_path)"

definition build_ca_path ::
  "data_encoding \<Rightarrow> (string \<Rightarrow> u8 list) \<Rightarrow> string \<Rightarrow> bool \<Rightarrow> nixhash \<Rightarrow> store_path list \<Rightarrow> bool
   \<Rightarrow> (parse_store_path_error, store_path) res" where
  "build_ca_path E sha256 name is_recursive hash references has_self_ref =
     (let inner_digest =
            (case hash of
               Sha256 digest \<Rightarrow> if is_recursive then digest else fod_digest E sha256 is_recursive hash None
             | _ \<Rightarrow> fod_digest E sha256 is_recursive hash None)
      in if algo hash = ASha256 \<and> is_recursive
         then build_store_path_from_fingerprint_parts E sha256
                (format_references ''source'' references has_self_ref) inner_digest name
         else build_store_path_from_fingerprint_parts E sha256 ''output:out'' inner_digest name)"

definition build_output_path ::
  "data_encoding \<Rightarrow> (string \<Rightarrow> u8 list) \<Rightarrow> string \<Rightarrow> u8 list \<Rightarrow> string
   \<Rightarrow> (parse_store_path_error, store_path) res" where
  "build_output_path E sha256 name hash_derivation_modulo output_name =
     build_store_path_from_fingerprint_parts E sha256 (''output:'' @ output_name)
       hash_derivation_modulo name"

definition hash_placeholder :: "(string \<Rightarrow> u8 list) \<Rightarrow> string \<Rightarrow> string" where
  "hash_placeholder sha256 name = ''/'' @ encode (sha256 (''nix-output:'' @ name))"

subsection \<open>Compression\<close>

lemma length_compress_loop [simp]: "length (compress_loop n i bs out) = length out"
  by (induction n i bs out rule: compress_loop.induct) simp_all

lemma length_compress_hash [simp]: "length (compress_hash n bs) = n"
  by (simp add: compress_hash_def)

text \<open>Bit \<open>b\<close> of output byte \<open>j\<close> is the parity of that bit over the input bytes folded into it.\<close>

lemma compress_loop_bit:
  assumes "length out = n" "j < n"
  shows "bit (compress_loop n i bs out ! j) b \<longleftrightarrow>
    (bit (out ! j) b \<noteq> odd (card {k. k < length bs \<and> (i + k) mod n = j \<and> bit (bs ! k) b}))"
  using assms
proof (induction bs arbitrary: i out)
  case Nil
  then show ?case by simp
next
  case (Cons c bs)
  let ?S = "{k. k < length bs \<and> (Suc i + k) mod n = j \<and> bit (bs ! k) b}"
  let ?T = "{k. k < length (c # bs) \<and> (i + k) mod n = j \<and> bit ((c # bs) ! k) b}"
  let ?z = "i mod n = j \<and> bit c b"
  have T: "?T = (if ?z then {0} else {}) \<union> Suc ` ?S"
    by (auto simp: image_iff nth_Cons split: nat.splits) (metis Suc_diff_1 add_Suc_shift not_gr_zero diff_Suc_1 nat.exhaust)+
  have fin: "finite ?S" by simp
  have "card ?T = (if ?z then 1 else 0) + card ?S"
    unfolding T by (subst card_Un_disjoint) (auto simp: card_image)
  then have odd: "odd (card ?T) \<longleftrightarrow> (?z \<noteq> odd (card ?S))" by auto
  have "bit (compress_loop n i (c # bs) out ! j) b \<longleftrightarrow>
      (bit (out[i mod n := out ! (i mod n) XOR c] ! j) b \<noteq> odd (card ?S))"
    using Cons.IH [of "out[i mod n := out ! (i mod n) XOR c]" "Suc i"] Cons.prems by simp
  also have "bit (out[i mod n := out ! (i mod n) XOR c] ! j) b \<longleftrightarrow> (bit (out ! j) b \<noteq> ?z)"
    using Cons.prems by (auto simp: nth_list_update bit_xor_iff)
  finally show ?case using odd by blast
qed

subsection \<open>Well-formedness of built paths\<close>

lemma build_store_path_from_fingerprint_parts_iff:
  "build_store_path_from_fingerprint_parts E H ty d name = Inr p \<longleftrightarrow>
     name_ok name \<and>
     p = \<lparr>sp_digest = compress_hash 20 (H (store_path_fingerprint E ty d name)), sp_name = name\<rparr>"
  by (simp add: build_store_path_from_fingerprint_parts_def sp_from_name_and_digest_fixed_iff
      Let_def DIGEST_SIZE_def)

lemma build_store_path_from_fingerprint_parts_wf:
  "build_store_path_from_fingerprint_parts E H ty d name = Inr p \<Longrightarrow> sp_wf p \<and> sp_name p = name"
  by (simp add: build_store_path_from_fingerprint_parts_iff sp_wf_def DIGEST_SIZE_def)

subsection \<open>Fingerprints\<close>

lemma ALPHABET_chars: "CHR '':'' \<notin> set ALPHABET" "CHR ''/'' \<notin> set ALPHABET"
  "CHR '' '' \<notin> set ALPHABET" "CHR 0x0A \<notin> set ALPHABET" "CHR ''\"'' \<notin> set ALPHABET"
  "CHR 0x5C \<notin> set ALPHABET" "CHR '','' \<notin> set ALPHABET"
  by (simp_all add: ALPHABET_def)

lemma sp_string_chars:
  assumes "sp_wf p"
  shows "CHR '':'' \<notin> set (sp_to_string p)" "CHR ''/'' \<notin> set (sp_to_string p)"
    "CHR '' '' \<notin> set (sp_to_string p)" "CHR 0x0A \<notin> set (sp_to_string p)"
    "CHR ''\"'' \<notin> set (sp_to_string p)" "CHR 0x5C \<notin> set (sp_to_string p)"
    "CHR '','' \<notin> set (sp_to_string p)"
  using assms encode_valid [of "sp_digest p"] name_ok_chars [of "sp_name p"] ALPHABET_chars
  by (auto simp: sp_to_string_def sp_wf_def)

lemma sp_absolute_path_chars:
  assumes "sp_wf p"
  shows "CHR '':'' \<notin> set (sp_to_absolute_path p)" "CHR '' '' \<notin> set (sp_to_absolute_path p)"
    "CHR 0x0A \<notin> set (sp_to_absolute_path p)" "CHR ''\"'' \<notin> set (sp_to_absolute_path p)"
    "CHR 0x5C \<notin> set (sp_to_absolute_path p)" "CHR '','' \<notin> set (sp_to_absolute_path p)"
  using sp_string_chars [OF assms] by (simp_all add: sp_to_absolute_path_def STORE_DIR_WITH_SLASH_def)

lemma sp_to_absolute_path_inj: "sp_wf p \<Longrightarrow> sp_wf q \<Longrightarrow> sp_to_absolute_path p = sp_to_absolute_path q \<Longrightarrow> p = q"
  by (rule absolute_path.enc_inj)

text \<open>A fingerprint is a colon-separated list, none of whose fields contains a colon.\<close>

definition reference_fields :: "string \<Rightarrow> store_path list \<Rightarrow> bool \<Rightarrow> string list" where
  "reference_fields ty refs self =
     ty # map sp_to_absolute_path refs @ (if self then [''self''] else [])"

lemma format_references_fields: "format_references ty refs self = join_with '':'' (reference_fields ty refs self)"
proof -
  have "concat (map (\<lambda>r. CHR '':'' # sp_to_absolute_path r) refs) =
        concat (map ((#) CHR '':'') (map sp_to_absolute_path refs))"
    by (simp add: comp_def)
  then show ?thesis
    by (simp add: format_references_def reference_fields_def join_with_Cons_concat)
qed

lemma fingerprint_fields:
  "store_path_fingerprint E (format_references ty refs self) d name =
     join_with '':'' (reference_fields ty refs self @ [''sha256'', hexlower_encode E d, STORE_DIR, name])"
proof -
  have "reference_fields ty refs self \<noteq> []" by (simp add: reference_fields_def)
  then show ?thesis
    by (simp add: store_path_fingerprint_def format_references_fields join_with_append)
qed

lemma fingerprint_fields_free:
  assumes "\<forall>p\<in>set refs. sp_wf p" "name_ok name" "CHR '':'' \<notin> set ty"
    "CHR '':'' \<notin> set (hexlower_encode E d)"
    "f \<in> set (reference_fields ty refs self @ [''sha256'', hexlower_encode E d, STORE_DIR, name])"
  shows "CHR '':'' \<notin> set f"
  using assms name_ok_chars(2) [of name] sp_absolute_path_chars(1)
  by (auto simp: reference_fields_def STORE_DIR_def split: if_splits)

lemma map_sp_to_absolute_path_inj:
  "\<forall>p\<in>set refs. sp_wf p \<Longrightarrow> \<forall>p\<in>set refs'. sp_wf p \<Longrightarrow>
   map sp_to_absolute_path refs = map sp_to_absolute_path refs' \<Longrightarrow> refs = refs'"
  by (induction refs refs' rule: list_induct2') (auto dest: sp_to_absolute_path_inj)

lemma reference_fields_inj:
  assumes "reference_fields ty refs self = reference_fields ty' refs' self'"
    "\<forall>p\<in>set refs. sp_wf p" "\<forall>p\<in>set refs'. sp_wf p"
  shows "ty = ty' \<and> refs = refs' \<and> self = self'"
proof -
  have no_self: "''self'' \<noteq> sp_to_absolute_path p" for p
    by (simp add: sp_to_absolute_path_def STORE_DIR_WITH_SLASH_def)
  have mem: "''self'' \<in> set (tl (reference_fields ty refs self)) \<longleftrightarrow> self" for ty refs self
    using no_self by (auto simp: reference_fields_def)
  have "self = self'"
    using mem [of ty refs self] mem [of ty' refs' self'] assms(1) by simp
  then have "map sp_to_absolute_path refs = map sp_to_absolute_path refs'"
    using assms(1) by (auto simp: reference_fields_def split: if_splits)
  with \<open>self = self'\<close> assms show ?thesis
    using map_sp_to_absolute_path_inj by (auto simp: reference_fields_def)
qed

lemma fingerprint_inj:
  assumes "store_path_fingerprint E (format_references ty refs self) d name =
           store_path_fingerprint E (format_references ty' refs' self') d' name'"
    "\<forall>p\<in>set refs. sp_wf p" "\<forall>p\<in>set refs'. sp_wf p" "name_ok name" "name_ok name'"
    "CHR '':'' \<notin> set ty" "CHR '':'' \<notin> set ty'"
    "CHR '':'' \<notin> set (hexlower_encode E d)" "CHR '':'' \<notin> set (hexlower_encode E d')"
  shows "ty = ty' \<and> refs = refs' \<and> self = self' \<and> hexlower_encode E d = hexlower_encode E d' \<and> name = name'"
proof -
  have "reference_fields ty refs self @ [''sha256'', hexlower_encode E d, STORE_DIR, name] =
        reference_fields ty' refs' self' @ [''sha256'', hexlower_encode E d', STORE_DIR, name']"
  proof (rule join_with_inj [of "CHR '':''"])
    show "CHR '':'' \<notin> set f"
      if "f \<in> set (reference_fields ty refs self @ [''sha256'', hexlower_encode E d, STORE_DIR, name])" for f
      by (rule fingerprint_fields_free [OF _ _ _ _ that]) (use assms in simp_all)
    show "CHR '':'' \<notin> set f"
      if "f \<in> set (reference_fields ty' refs' self' @ [''sha256'', hexlower_encode E d', STORE_DIR, name'])" for f
      by (rule fingerprint_fields_free [OF _ _ _ _ that]) (use assms in simp_all)
  qed (use assms(1) in \<open>simp_all only: fingerprint_fields, simp_all\<close>)
  then have "reference_fields ty refs self = reference_fields ty' refs' self'"
    and rest: "hexlower_encode E d = hexlower_encode E d' \<and> name = name'" by auto
  from reference_fields_inj [OF this(1) assms(2,3)] rest show ?thesis by blast
qed

section \<open>Properties\<close>

text \<open>
  C12: store paths have one text form. \<open>from_bytes\<close> accepts exactly the texts \<open>$digest-$name\<close>
  printed for a 20 byte digest and a valid name, \<open>from_absolute_path\<close> exactly those below
  \<^verbatim>\<open>/nix/store/\<close>, and both return the printed path.
\<close>

theorem store_path_canonical:
  "(sp_from_bytes s = Inr p \<longleftrightarrow> sp_wf p \<and> s = sp_to_string p) \<and>
   (sp_from_absolute_path s = Inr p \<longleftrightarrow> sp_wf p \<and> s = sp_to_absolute_path p)"
  by (rule conjI; rule sp_from_bytes_iff sp_from_absolute_path_iff)

lemma host_components_store_dir:
  "host_components STORE_DIR_WITH_SLASH = [RootDir, Normal ''nix'', Normal ''store'']"
  by (simp add: STORE_DIR_WITH_SLASH_def host_components_absolute normal_components_def)

lemma length_sp_to_string: "sp_wf p \<Longrightarrow> 34 \<le> length (sp_to_string p)"
  by (cases "sp_name p") (auto simp: sp_wf_def sp_to_string_def DIGEST_SIZE_def name_ok_def)

lemma os_str_long: "component_as_os_str c = s \<and> 34 \<le> length s \<longleftrightarrow> c = Normal s \<and> 34 \<le> length s"
  by (cases c) auto

text \<open>
  \<open>from_absolute_path_full\<close> succeeds exactly on the paths whose components are the store
  directory, one component that is the text of a store path, and the components it returns as
  the rest.
\<close>

theorem from_absolute_path_full_iff:
  "sp_from_absolute_path_full path = Inr (p, rest) \<longleftrightarrow>
     sp_wf p \<and>
     host_components path = [RootDir, Normal ''nix'', Normal ''store'', Normal (sp_to_string p)] @ rest"
proof
  assume "sp_from_absolute_path_full path = Inr (p, rest)"
  then obtain c where c: "host_components path = RootDir # Normal ''nix'' # Normal ''store'' # c # rest"
    "34 \<le> length (component_as_os_str c)" "sp_from_bytes (component_as_os_str c) = Inr p"
    by (auto simp: sp_from_absolute_path_full_def host_components_store_dir Let_def neq_Nil_conv not_less
        split: list.split_asm if_split_asm)
  then show "sp_wf p \<and>
     host_components path = [RootDir, Normal ''nix'', Normal ''store'', Normal (sp_to_string p)] @ rest"
    using os_str_long [of c "sp_to_string p"] by (simp add: sp_from_bytes_iff)
next
  assume "sp_wf p \<and>
     host_components path = [RootDir, Normal ''nix'', Normal ''store'', Normal (sp_to_string p)] @ rest"
  then show "sp_from_absolute_path_full path = Inr (p, rest)"
    using length_sp_to_string [of p]
    by (simp add: sp_from_absolute_path_full_def host_components_store_dir sp_from_to_string)
qed

lemma sp_less_absolute_path:
  assumes "sp_wf a" "sp_wf b" "sp_digest a \<noteq> sp_digest b"
  shows "sp_less a b \<longleftrightarrow> sp_to_absolute_path a < sp_to_absolute_path b"
proof -
  have "encode (sp_digest a) @ ''-'' @ sp_name a < encode (sp_digest b) @ ''-'' @ sp_name b
      \<longleftrightarrow> encode (sp_digest a) < encode (sp_digest b)"
    by (rule append_less_first) (use assms in \<open>simp_all add: sp_wf_def\<close>)
  then show ?thesis
    using assms encode_less_iff [of "sp_digest a" "sp_digest b"]
    by (simp add: sp_less_def sp_to_absolute_path_def sp_to_string_def append_less_same sp_wf_def)
qed

text \<open>
  paths with different digests are ordered by \<open>Ord\<close> as their absolute path texts are, so
  sorted collections of store paths print in sorted order.
\<close>

theorem store_path_order:
  assumes "sp_wf a" "sp_wf b" "sp_digest a \<noteq> sp_digest b"
  shows "sp_less a b \<longleftrightarrow> sp_to_absolute_path a < sp_to_absolute_path b"
  using assms by (rule sp_less_absolute_path)

theorem store_path_order_witness:
  "sp_less \<lparr>sp_digest = replicate 20 1, sp_name = ''b''\<rparr> \<lparr>sp_digest = replicate 20 2, sp_name = ''a''\<rparr> \<longleftrightarrow>
   sp_to_absolute_path \<lparr>sp_digest = replicate 20 1, sp_name = ''b''\<rparr>
     < sp_to_absolute_path \<lparr>sp_digest = replicate 20 2, sp_name = ''a''\<rparr>"
  by (rule store_path_order)
    (simp_all add: sp_wf_def DIGEST_SIZE_def name_ok_def name_char_match_def)

text \<open>
  \<open>Ord\<close> looks at the digest only, \<open>Eq\<close> also at the name: there are different valid paths
  neither of which is smaller, which an ordered set or map keyed by paths takes for one.
\<close>

theorem store_path_order_ignores_name:
  "\<exists>a b. sp_wf a \<and> sp_wf b \<and> a \<noteq> b \<and> \<not> sp_less a b \<and> \<not> sp_less b a"
  by (intro exI [of _ "\<lparr>sp_digest = replicate 20 0, sp_name = ''a''\<rparr>"]
      exI [of _ "\<lparr>sp_digest = replicate 20 0, sp_name = ''b''\<rparr>"])
    (simp add: sp_less_def sp_wf_def DIGEST_SIZE_def name_ok_def name_char_match_def)

text \<open>
  C20: bit \<open>b\<close> of byte \<open>j\<close> of a compressed hash is the parity of that bit over the input
  bytes at the positions congruent to \<open>j\<close>; the output has the wanted size.
\<close>

theorem compress_hash_bits:
  "length (compress_hash n bs) = n \<and>
   (j < n \<longrightarrow> bit (compress_hash n bs ! j) b =
     odd (card {k. k < length bs \<and> k mod n = j \<and> bit (bs ! k) b}))"
  using compress_loop_bit [of "replicate n 0" n j 0 bs b] by (simp_all add: compress_hash_def)

theorem compress_hash_bits_witness:
  "bit (compress_hash 2 [1, 2, 3] ! 0) 1 \<longleftrightarrow>
     odd (card {k. k < length [1, 2, 3 :: u8] \<and> k mod 2 = 0 \<and> bit ([1, 2, 3 :: u8] ! k) 1})"
  using compress_hash_bits [of 2 "[1, 2, 3]" 0 1] by simp

definition built_with_name :: "string \<Rightarrow> (parse_store_path_error, store_path) res \<Rightarrow> bool" where
  "built_with_name name r =
     (case r of
        Inr p \<Rightarrow> name_ok name \<and> sp_wf p \<and> sp_name p = name
      | Inl e \<Rightarrow> \<not> name_ok name \<and> map_err sp_error_of_name_error (validate_name name) = Inl e)"

lemma built_fingerprint_parts:
  "built_with_name name (build_store_path_from_fingerprint_parts E H ty d name)"
proof (cases "build_store_path_from_fingerprint_parts E H ty d name")
  case (Inl e)
  then show ?thesis
    by (auto simp: built_with_name_def build_store_path_from_fingerprint_parts_def
        sp_from_name_and_digest_fixed_def rbind_eq_Inl Let_def)
next
  case (Inr p)
  then show ?thesis
    using build_store_path_from_fingerprint_parts_wf [OF Inr]
    by (auto simp: built_with_name_def sp_wf_def)
qed

text \<open>
  the builders of text, content-addressed and input-addressed paths succeed exactly for
  valid names, and then return a well-formed path with the given name; the error is that of
  the name.
\<close>

theorem builders_wf:
  "built_with_name name (build_text_path E H name content refs) \<and>
   built_with_name name (build_ca_path E H name is_recursive hash refs self) \<and>
   built_with_name name (build_output_path E H name drv_hash output_name)"
  by (simp_all add: build_text_path_def build_text_path_from_content_digest_def Let_def
      build_ca_path_def build_output_path_def built_fingerprint_parts)

text \<open>
  C21: the fingerprint that is hashed into a text or source path determines the path's type,
  its references, the self reference, the inner digest and the name: two paths built from
  different inputs have different fingerprints. The hypotheses on base16 are its documented
  behaviour: lower case hexadecimal digits only, and decoding inverts encoding.
\<close>

theorem fingerprint_unambiguous:
  assumes "\<forall>p\<in>set refs. sp_wf p" "\<forall>p\<in>set refs'. sp_wf p" "name_ok name" "name_ok name'"
    and "ty \<in> {''text'', ''source''}" "ty' \<in> {''text'', ''source''}"
    and "\<forall>x\<in>{d, d'}. set (hexlower_encode E x) \<subseteq> set ''0123456789abcdef''"
    and "\<forall>x\<in>{d, d'}. hexlower_decode E (hexlower_encode E x) = Inr x"
  shows "store_path_fingerprint E (format_references ty refs self) d name =
         store_path_fingerprint E (format_references ty' refs' self') d' name' \<longleftrightarrow>
         ty = ty' \<and> refs = refs' \<and> self = self' \<and> d = d' \<and> name = name'"
proof
  assume eq: "store_path_fingerprint E (format_references ty refs self) d name =
         store_path_fingerprint E (format_references ty' refs' self') d' name'"
  have "CHR '':'' \<notin> set (hexlower_encode E d)" "CHR '':'' \<notin> set (hexlower_encode E d')"
    "CHR '':'' \<notin> set ty" "CHR '':'' \<notin> set ty'"
    using assms by auto
  then have "ty = ty' \<and> refs = refs' \<and> self = self' \<and> hexlower_encode E d = hexlower_encode E d' \<and> name = name'"
    using fingerprint_inj eq assms(1-4) by blast
  then show "ty = ty' \<and> refs = refs' \<and> self = self' \<and> d = d' \<and> name = name'"
    using assms(8) by (metis insert_iff sum.inject(2))
qed simp

definition example_hex :: data_encoding where
  "example_hex = example_encoding
     \<lparr>hexlower_encode := (\<lambda>d. if d = [1] then ''01'' else ''02''),
      hexlower_decode := (\<lambda>s. Inr [if s = ''01'' then 1 else 2])\<rparr>"

theorem fingerprint_unambiguous_witness:
  "store_path_fingerprint example_hex (format_references ''text'' [\<lparr>sp_digest = replicate 20 0, sp_name = ''a''\<rparr>] False) [1] ''n'' \<noteq>
   store_path_fingerprint example_hex (format_references ''source'' [] True) [2] ''n''"
  using fingerprint_unambiguous [of "[\<lparr>sp_digest = replicate 20 0, sp_name = ''a''\<rparr>]" "[]" "''n''" "''n''"
      "''text''" "''source''" "[1]" "[2]" example_hex False True]
  by (simp add: sp_wf_def DIGEST_SIZE_def name_ok_def name_char_match_def example_hex_def)

end
