(* ===== verification/Signatures.thy ===== *)
theory Signatures
  imports NixHash
begin

text \<open>
  Signatures and keys of NARInfo files: \<^verbatim>\<open>nix-compat/src/narinfo/signature.rs\<close>,
  \<^verbatim>\<open>verifying_keys.rs\<close> and \<^verbatim>\<open>signing_keys.rs\<close>.

  All three text forms are a key name, a colon and a base64 text. The base64 codec is a field of
  \<open>data_encoding\<close>, the ed25519 implementation a record of functions, and
  \<open>char::is_alphanumeric\<close> is modelled on ASCII, with the Unicode table above it as a parameter.
  \<open>decode_mut\<close> wants a buffer of exactly \<open>decode_len\<close> bytes, which is what the code allocates for
  the length it has checked, so its result is the list of decoded bytes. An \<open>unreachable!()\<close>
  that is reached is a panic, which is an error of the model.
\<close>

section \<open>Names\<close>

text \<open>\<open>str::chars\<close>: the code points of a UTF-8 string.\<close>

fun str_chars :: "string \<Rightarrow> nat list" where
  "str_chars [] = []"
| "str_chars (c # cs) =
     (let b = of_char c; cont = (\<lambda>i. if i < length cs then of_char (cs ! i) mod 64 else 0)
      in if b < 0x80 then b # str_chars cs
         else if b < 0xE0 then ((b mod 32) * 64 + cont 0) # str_chars (drop 1 cs)
         else if b < 0xF0
         then ((b mod 16) * 64 ^ 2 + cont 0 * 64 + cont 1) # str_chars (drop 2 cs)
         else ((b mod 8) * 64 ^ 3 + cont 0 * 64 ^ 2 + cont 1 * 64 + cont 2) # str_chars (drop 3 cs))"

definition is_alphanumeric :: "(nat \<Rightarrow> bool) \<Rightarrow> nat \<Rightarrow> bool" where
  "is_alphanumeric table c \<longleftrightarrow>
     (if c < 0x80 then 48 \<le> c \<and> c \<le> 57 \<or> 65 \<le> c \<and> c \<le> 90 \<or> 97 \<le> c \<and> c \<le> 122 else table c)"

text \<open>The check on names, which the three parsers spell out in the same words.\<close>

definition valid_key_name :: "(nat \<Rightarrow> bool) \<Rightarrow> string \<Rightarrow> bool" where
  "valid_key_name table name \<longleftrightarrow>
     name \<noteq> [] \<and> list_all (\<lambda>c. is_alphanumeric table c \<or> c = 45 \<or> c = 46) (str_chars name)"

lemma str_chars_ascii:
  "list_all (\<lambda>c. of_char c < (0x80::nat)) s \<Longrightarrow> str_chars s = map of_char s"
  by (induction s) (simp_all add: Let_def)

section \<open>Signatures\<close>

record signature =
  sig_name :: string
  sig_bytes :: "u8 list"

datatype (plugins only: code size) signature_error =
    SigInvalidName string
  | SigMissingSeparator
  | InvalidSignatureLen nat
  | SigDecodeError string
  | SigPanic  \<comment> \<open>\<open>unreachable!()\<close>\<close>

definition SIGNATURE_LENGTH :: nat where "SIGNATURE_LENGTH = 64"

definition signature_parse ::
  "data_encoding \<Rightarrow> (nat \<Rightarrow> bool) \<Rightarrow> string \<Rightarrow> (signature_error, signature) res" where
  "signature_parse E table input =
     rbind (ok_or SigMissingSeparator (split_once CHR '':'' input)) (\<lambda>(name, bytes64).
       if \<not> valid_key_name table name then Inl (SigInvalidName name)
       else if length bytes64 \<noteq> base64_encode_len E SIGNATURE_LENGTH
       then Inl (InvalidSignatureLen (length bytes64))
       else (case base64_decode E bytes64 of
               Inr bytes \<Rightarrow> if length bytes = SIGNATURE_LENGTH
                            then Inr \<lparr>sig_name = name, sig_bytes = bytes\<rparr> else Inl SigPanic
             | Inl _ \<Rightarrow> Inl (SigDecodeError input)))"

definition signature_to_string :: "data_encoding \<Rightarrow> signature \<Rightarrow> string" where
  "signature_to_string E sg = sig_name sg @ '':'' @ base64_encode E (sig_bytes sg)"

section \<open>Keys\<close>

text \<open>What the code calls of the ed25519 implementation.\<close>

record ('sk, 'vk) ed25519 =
  vk_from_bytes :: "u8 list \<Rightarrow> 'vk option"
  vk_as_bytes :: "'vk \<Rightarrow> u8 list"
  vk_verify_strict :: "'vk \<Rightarrow> string \<Rightarrow> u8 list \<Rightarrow> bool"
  sk_from_bytes :: "u8 list \<Rightarrow> 'sk"
  sk_sign :: "'sk \<Rightarrow> string \<Rightarrow> u8 list"

definition PUBLIC_KEY_LENGTH :: nat where "PUBLIC_KEY_LENGTH = 32"
definition SECRET_KEY_LENGTH :: nat where "SECRET_KEY_LENGTH = 32"

definition signature_verify ::
  "('sk, 'vk) ed25519 \<Rightarrow> signature \<Rightarrow> string \<Rightarrow> 'vk \<Rightarrow> bool" where
  "signature_verify C sg fingerprint vk = vk_verify_strict C vk fingerprint (sig_bytes sg)"

record 'vk verifying_key =
  vk_name :: string
  vk_key :: 'vk

datatype (plugins only: code size) verifying_key_error =
    VkInvalidName string
  | VkMissingSeparator
  | InvalidVerifyingKeyLen nat
  | InvalidVerifyingKey
  | VkDecodeError string
  | VkPanic  \<comment> \<open>\<open>unreachable!()\<close>\<close>

definition verifying_key_parse ::
  "data_encoding \<Rightarrow> (nat \<Rightarrow> bool) \<Rightarrow> ('sk, 'vk) ed25519 \<Rightarrow> string \<Rightarrow> (verifying_key_error, 'vk verifying_key) res" where
  "verifying_key_parse E table C input =
     rbind (ok_or VkMissingSeparator (split_once CHR '':'' input)) (\<lambda>(name, bytes64).
       if \<not> valid_key_name table name then Inl (VkInvalidName name)
       else if length bytes64 \<noteq> base64_encode_len E PUBLIC_KEY_LENGTH
       then Inl (InvalidVerifyingKeyLen (length bytes64))
       else (case base64_decode E bytes64 of
               Inr bytes \<Rightarrow>
                 if length bytes = PUBLIC_KEY_LENGTH
                 then rbind (ok_or InvalidVerifyingKey (vk_from_bytes C bytes))
                        (\<lambda>key. Inr \<lparr>vk_name = name, vk_key = key\<rparr>)
                 else Inl VkPanic
             | Inl _ \<Rightarrow> Inl (VkDecodeError input)))"

definition verifying_key_verify ::
  "('sk, 'vk) ed25519 \<Rightarrow> 'vk verifying_key \<Rightarrow> string \<Rightarrow> signature \<Rightarrow> bool" where
  "verifying_key_verify C vk fingerprint sg =
     (if vk_name vk \<noteq> sig_name sg then False else signature_verify C sg fingerprint (vk_key vk))"

definition verifying_key_to_string ::
  "data_encoding \<Rightarrow> ('sk, 'vk) ed25519 \<Rightarrow> 'vk verifying_key \<Rightarrow> string" where
  "verifying_key_to_string E C vk = vk_name vk @ '':'' @ base64_encode E (vk_as_bytes C (vk_key vk))"

record 'sk signing_key =
  sk_name :: string
  sk_key :: 'sk

datatype (plugins only: code size) signing_key_error =
    SkInvalidName string
  | SkMissingSeparator
  | InvalidSigningKeyLen nat
  | SkDecodeError string
  | SkInvalidVerifyingKey
  | SkPanic  \<comment> \<open>\<open>unreachable!()\<close>\<close>

definition signing_key_sign :: "('sk, 'vk) ed25519 \<Rightarrow> 'sk signing_key \<Rightarrow> string \<Rightarrow> signature" where
  "signing_key_sign C key fp = \<lparr>sig_name = sk_name key, sig_bytes = sk_sign C (sk_key key) fp\<rparr>"

definition DECODED_BYTES_LEN :: nat where
  "DECODED_BYTES_LEN = SECRET_KEY_LENGTH + PUBLIC_KEY_LENGTH"

definition parse_keypair ::
  "data_encoding \<Rightarrow> (nat \<Rightarrow> bool) \<Rightarrow> ('sk, 'vk) ed25519 \<Rightarrow> string
   \<Rightarrow> (signing_key_error, 'sk signing_key \<times> 'vk verifying_key) res" where
  "parse_keypair E table C input =
     rbind (ok_or SkMissingSeparator (split_once CHR '':'' input)) (\<lambda>(name, bytes64).
       if \<not> valid_key_name table name then Inl (SkInvalidName name)
       else if length bytes64 \<noteq> base64_encode_len E DECODED_BYTES_LEN
       then Inl (InvalidSigningKeyLen (length bytes64))
       else (case base64_decode E bytes64 of
               Inr bytes \<Rightarrow>
                 if length bytes = DECODED_BYTES_LEN
                 then let bytes_signing_key = take SECRET_KEY_LENGTH bytes;
                          bytes_verifying_key = drop SECRET_KEY_LENGTH bytes;
                          signing = \<lparr>sk_name = name, sk_key = sk_from_bytes C bytes_signing_key\<rparr>
                      in rbind (ok_or SkInvalidVerifyingKey (vk_from_bytes C bytes_verifying_key))
                           (\<lambda>key. Inr (signing, \<lparr>vk_name = name, vk_key = key\<rparr>))
                 else Inl SkPanic
             | Inl _ \<Rightarrow> Inl (SkDecodeError input)))"

section \<open>Laws\<close>

text \<open>
  What the documentation of \<open>data_encoding\<close> says of \<open>BASE64\<close>, at one byte string: its encoding has
  the announced length, is made of characters that are no line break, and decodes to it. (The
  decoder accepts more: padding may also stand inside the text, so the encoding is not the only
  text of its value.)
\<close>

definition base64_at :: "data_encoding \<Rightarrow> u8 list \<Rightarrow> bool" where
  "base64_at E b \<longleftrightarrow>
     length (base64_encode E b) = base64_encode_len E (length b) \<and>
     base64_decode E (base64_encode E b) = Inr b \<and>
     CHR 0x0A \<notin> set (base64_encode E b) \<and> CHR 0x0D \<notin> set (base64_encode E b)"

definition signature_wf :: "(nat \<Rightarrow> bool) \<Rightarrow> signature \<Rightarrow> bool" where
  "signature_wf table sg \<longleftrightarrow>
     valid_key_name table (sig_name sg) \<and> CHR '':'' \<notin> set (sig_name sg) \<and>
     length (sig_bytes sg) = SIGNATURE_LENGTH"

lemma signature_parse_to_string [codec_simps]:
  "signature_wf table sg \<Longrightarrow> base64_at E (sig_bytes sg) \<Longrightarrow>
   signature_parse E table (signature_to_string E sg) = Inr sg"
  by (simp add: signature_wf_def base64_at_def signature_parse_def signature_to_string_def)

lemma signature_parse_sound:
  assumes "signature_parse E table s = Inr sg"
  shows "signature_wf table sg \<and> (\<exists>b. s = sig_name sg @ CHR '':'' # b)"
  using assms
  by (auto simp: signature_parse_def signature_wf_def split_once_eq_Some split: if_splits sum.splits)

lemma signature_parse_panics:
  assumes "valid_key_name table name" "CHR '':'' \<notin> set name"
    "length bytes64 = base64_encode_len E SIGNATURE_LENGTH"
    "base64_decode E bytes64 = Inr bytes" "length bytes \<noteq> SIGNATURE_LENGTH"
  shows "signature_parse E table (name @ '':'' @ bytes64) = Inl SigPanic"
  using assms by (simp add: signature_parse_def)

text \<open>A pair that \<open>parse_keypair\<close> accepts is a signing and a verifying key of one name, so the
  name check of \<open>verify\<close> passes on what the pair signs.\<close>

lemma parse_keypair_sound:
  assumes "parse_keypair E table C s = Inr (sk, vk)"
  shows "sk_name sk = vk_name vk \<and> valid_key_name table (sk_name sk) \<and> CHR '':'' \<notin> set (sk_name sk) \<and>
    (\<exists>bytes. length bytes = 64 \<and> sk_key sk = sk_from_bytes C (take 32 bytes) \<and>
       vk_from_bytes C (drop 32 bytes) = Some (vk_key vk))"
  using assms
  by (auto simp: parse_keypair_def Let_def split_once_eq_Some DECODED_BYTES_LEN_def
      SECRET_KEY_LENGTH_def PUBLIC_KEY_LENGTH_def split: if_splits sum.splits)

text \<open>
  The converse: the pair is the secret and the public key that the two halves of the text encode. Nothing compares the halves: a
  text whose public half belongs to another secret is accepted just as well.
\<close>

lemma parse_keypair_halves:
  assumes "valid_key_name table name" "CHR '':'' \<notin> set name" "length secret = 32" "length pub = 32"
    "base64_at E (secret @ pub)" "vk_from_bytes C pub = Some vk"
  shows "parse_keypair E table C (name @ '':'' @ base64_encode E (secret @ pub)) =
    Inr (\<lparr>sk_name = name, sk_key = sk_from_bytes C secret\<rparr>, \<lparr>vk_name = name, vk_key = vk\<rparr>)"
  using assms
  by (simp add: parse_keypair_def base64_at_def DECODED_BYTES_LEN_def SECRET_KEY_LENGTH_def PUBLIC_KEY_LENGTH_def Let_def)

lemma verifying_key_parse_text:
  assumes "valid_key_name table name" "CHR '':'' \<notin> set name" "length pub = 32" "base64_at E pub" "vk_from_bytes C pub = Some vk"
  shows "verifying_key_parse E table C (name @ '':'' @ base64_encode E pub) = Inr \<lparr>vk_name = name, vk_key = vk\<rparr>"
  using assms by (simp add: verifying_key_parse_def base64_at_def PUBLIC_KEY_LENGTH_def)

text \<open>
  What ed25519 promises: every secret of 32 bytes has a public key of 32 bytes, here \<open>derive secret\<close>, which accepts the signatures
  of 64 bytes that are made with the secret.
\<close>

definition ed25519_law :: "('sk, 'vk) ed25519 \<Rightarrow> (u8 list \<Rightarrow> u8 list) \<Rightarrow> bool" where
  "ed25519_law C derive \<longleftrightarrow>
     (\<forall>secret. length secret = 32 \<longrightarrow> length (derive secret) = 32 \<and>
        (\<exists>vk. vk_from_bytes C (derive secret) = Some vk \<and>
           (\<forall>m. length (sk_sign C (sk_from_bytes C secret) m) = 64 \<and>
                vk_verify_strict C vk m (sk_sign C (sk_from_bytes C secret) m))))"

lemma verify_sign:
  "verifying_key_verify C vk fp (signing_key_sign C sk fp) \<longleftrightarrow>
   vk_name vk = sk_name sk \<and> vk_verify_strict C (vk_key vk) fp (sk_sign C (sk_key sk) fp)"
  by (simp add: verifying_key_verify_def signing_key_sign_def signature_verify_def)

lemma verifying_key_roundtrip:
  assumes "valid_key_name table (vk_name vk)" "CHR '':'' \<notin> set (vk_name vk)"
    "base64_at E (vk_as_bytes C (vk_key vk))" "length (vk_as_bytes C (vk_key vk)) = 32"
    "vk_from_bytes C (vk_as_bytes C (vk_key vk)) = Some (vk_key vk)"
  shows "verifying_key_parse E table C (verifying_key_to_string E C vk) = Inr vk"
  using assms
  by (simp add: verifying_key_parse_def verifying_key_to_string_def base64_at_def PUBLIC_KEY_LENGTH_def)

end
