(* ===== verification/Versions.thy ===== *)
theory Versions
  imports Prelude
begin

text \<open>
  Version strings (\<open>eval/src/builtins/versions.rs\<close>) and the builtins \<open>splitVersion\<close> and
  \<open>compareVersions\<close> over them.

  The characters of a byte string come from \<open>bstr\<close>'s \<open>char_indices\<close>, which is a parameter: the list
  of start, end and code point of each character, where a byte sequence that is not UTF-8 is reported
  as the replacement character. The iterator is lazy, so its elements are modelled as a list in which
  \<open>None\<close> is an element whose computation panics; \<open>None\<close> as a result is a panic as well.
\<close>

datatype (plugins only: code size) version_part = VWord string | VNumber string

datatype (plugins only: code size) rust_ordering = OLess | OEqual | OGreater

type_synonym char_index = "nat \<times> nat \<times> nat"

section \<open>Splitting\<close>

datatype (plugins only: code size) internal_part = INumber nat nat | IWord nat nat | IBreak

text \<open>The index of a byte string by an inclusive range.\<close>

definition slice_inclusive :: "string \<Rightarrow> nat \<Rightarrow> nat \<Rightarrow> string option" where
  "slice_inclusive s a b = (if a \<le> b + 1 \<and> b + 1 \<le> length s then Some (take (b + 1 - a) (drop a s)) else None)"

definition is_ascii_digit :: "nat \<Rightarrow> bool" where
  "is_ascii_digit c \<longleftrightarrow> 48 \<le> c \<and> c \<le> 57"

definition len_utf8 :: "nat \<Rightarrow> nat" where
  "len_utf8 c = (if c < 0x80 then 1 else if c < 0x800 then 2 else if c < 0x10000 then 3 else 4)"

text \<open>
  The parts an iterator yields, from its cached part and the characters it has not read. The two
  arms that call \<open>next\<close> again continue with the new cache.
\<close>

fun version_parts :: "string \<Rightarrow> internal_part \<Rightarrow> char_index list \<Rightarrow> version_part option list" where
  "version_parts version cached [] =
     (case cached of
        IBreak \<Rightarrow> []
      | INumber a b \<Rightarrow> [map_option VNumber (slice_inclusive version a b)]
      | IWord a b \<Rightarrow> [map_option VWord (slice_inclusive version a b)])"
| "version_parts version cached ((start, end, c) # cs) =
     (if c = of_char (CHR ''.'') \<or> c = of_char (CHR ''-'') then
        (case cached of
           INumber a b \<Rightarrow> map_option VNumber (slice_inclusive version a b) # version_parts version IBreak cs
         | IWord a b \<Rightarrow> map_option VWord (slice_inclusive version a b) # version_parts version IBreak cs
         | IBreak \<Rightarrow> version_parts version IBreak cs)
      else if is_ascii_digit c then
        (case cached of
           INumber a b \<Rightarrow> version_parts version (INumber a (b + 1)) cs
         | IWord a b \<Rightarrow> map_option VWord (slice_inclusive version a b) # version_parts version (INumber start (end - 1)) cs
         | IBreak \<Rightarrow> version_parts version (INumber start (end - 1)) cs)
      else
        (case cached of
           IWord a b \<Rightarrow> version_parts version (IWord a (b + len_utf8 c)) cs
         | INumber a b \<Rightarrow> map_option VNumber (slice_inclusive version a b) # version_parts version (IWord start (end - 1)) cs
         | IBreak \<Rightarrow> version_parts version (IWord start (end - 1)) cs))"

definition version_parts_iter :: "(string \<Rightarrow> char_index list) \<Rightarrow> string \<Rightarrow> version_part option list" where
  "version_parts_iter char_indices version = version_parts version IBreak (char_indices version)"

definition version_parts_for_cmp :: "(string \<Rightarrow> char_index list) \<Rightarrow> string \<Rightarrow> version_part option list" where
  "version_parts_for_cmp char_indices version = version_parts_iter char_indices version @ [Some (VWord [])]"

section \<open>Comparing\<close>

text \<open>\<open>u64::from_str\<close> on a part that consists of digits only: it fails on no digits and on overflow.\<close>

definition digits_value :: "string \<Rightarrow> nat" where
  "digits_value s = foldl (\<lambda>n c. 10 * n + (of_char c - 48)) 0 s"

definition parse_u64 :: "string \<Rightarrow> nat option" where
  "parse_u64 s = (if s \<noteq> [] \<and> list_all (\<lambda>c. is_ascii_digit (of_char c)) s \<and> digits_value s < 2 ^ 64
                  then Some (digits_value s) else None)"

definition cmp_of :: "'a::linorder \<Rightarrow> 'a \<Rightarrow> rust_ordering" where
  "cmp_of a b = (if a < b then OLess else if a = b then OEqual else OGreater)"

fun version_part_cmp :: "version_part \<Rightarrow> version_part \<Rightarrow> rust_ordering option" where
  "version_part_cmp (VNumber s1) (VNumber s2) =
     Option.bind (parse_u64 s1) (\<lambda>n1. Option.bind (parse_u64 s2) (\<lambda>n2. Some (cmp_of n1 n2)))"
| "version_part_cmp (VWord x) (VWord y) =
     Some (if x = ''pre'' \<and> y = ''pre'' then OEqual else if x = ''pre'' then OLess
           else if y = ''pre'' then OGreater else cmp_of x y)"
| "version_part_cmp (VWord x) (VNumber _) = Some OLess"
| "version_part_cmp (VNumber _) (VWord y) = Some OGreater"

text \<open>\<open>Iterator::cmp\<close>: the parts are compared in turn until two differ or one side ends.\<close>

fun iter_cmp :: "version_part option list \<Rightarrow> version_part option list \<Rightarrow> rust_ordering option" where
  "iter_cmp [] [] = Some OEqual"
| "iter_cmp [] (None # ys) = None"
| "iter_cmp [] (Some y # ys) = Some OLess"
| "iter_cmp (None # xs) ys = None"
| "iter_cmp (Some x # xs) [] = Some OGreater"
| "iter_cmp (Some x # xs) (None # ys) = None"
| "iter_cmp (Some x # xs) (Some y # ys) =
     Option.bind (version_part_cmp x y) (\<lambda>r. if r = OEqual then iter_cmp xs ys else Some r)"

text \<open>The two builtins, once their arguments are strings.\<close>

definition split_version :: "(string \<Rightarrow> char_index list) \<Rightarrow> string \<Rightarrow> string list option" where
  "split_version char_indices s =
     those (map (map_option (\<lambda>p. case p of VNumber n \<Rightarrow> n | VWord w \<Rightarrow> w)) (version_parts_iter char_indices s))"

definition compare_versions :: "(string \<Rightarrow> char_index list) \<Rightarrow> string \<Rightarrow> string \<Rightarrow> int option" where
  "compare_versions char_indices x y =
     map_option (\<lambda>r. case r of OLess \<Rightarrow> -1 | OEqual \<Rightarrow> 0 | OGreater \<Rightarrow> 1)
       (iter_cmp (version_parts_for_cmp char_indices x) (version_parts_for_cmp char_indices y))"

section \<open>What the parts are\<close>

text \<open>
  \<open>chars_of ci s\<close>: the characters that are reported are valid, each as many bytes long as its code
  point needs, and they follow each other from the first byte of \<open>s\<close> to its last. The documented
  behaviour of \<open>char_indices\<close> on valid UTF-8.
\<close>

fun contiguous :: "nat \<Rightarrow> char_index list \<Rightarrow> nat \<Rightarrow> bool" where
  "contiguous pos [] e \<longleftrightarrow> pos = e"
| "contiguous pos ((start, end, c) # cs) e \<longleftrightarrow> start = pos \<and> end = pos + len_utf8 c \<and> contiguous end cs e"

definition utf8_chars :: "char_index list \<Rightarrow> string \<Rightarrow> bool" where
  "utf8_chars cs s \<longleftrightarrow> contiguous 0 cs (length s)"

text \<open>
  The reference: a separator ends a part, and a part is a longest run of digits or of characters that
  are neither digits nor separators.
\<close>

definition is_sep :: "char_index \<Rightarrow> bool" where
  "is_sep ci \<longleftrightarrow> snd (snd ci) = of_char (CHR ''.'') \<or> snd (snd ci) = of_char (CHR ''-'')"

definition is_digit :: "char_index \<Rightarrow> bool" where
  "is_digit ci \<longleftrightarrow> is_ascii_digit (snd (snd ci))"

definition is_word :: "char_index \<Rightarrow> bool" where
  "is_word ci \<longleftrightarrow> \<not> is_sep ci \<and> \<not> is_digit ci"

definition bytes_of :: "string \<Rightarrow> char_index list \<Rightarrow> string" where
  "bytes_of s cs = concat (map (\<lambda>(start, end, c). take (end - start) (drop start s)) cs)"

function runs :: "string \<Rightarrow> char_index list \<Rightarrow> version_part list" where
  "runs s [] = []"
| "runs s (ci # cs) =
     (if is_sep ci then runs s cs
      else if is_digit ci then VNumber (bytes_of s (ci # takeWhile is_digit cs)) # runs s (dropWhile is_digit cs)
      else VWord (bytes_of s (ci # takeWhile is_word cs)) # runs s (dropWhile is_word cs))"
  by pat_completeness auto
termination
  by (relation "measure (length \<circ> snd)") (auto simp: le_imp_less_Suc length_dropWhile_le)

declare runs.simps [simp del]

definition sub :: "string \<Rightarrow> nat \<Rightarrow> nat \<Rightarrow> string" where
  "sub s a e = take (e - a) (drop a s)"

lemma sub_append: "a \<le> b \<Longrightarrow> b \<le> c \<Longrightarrow> sub s a b @ sub s b c = sub s a c"
proof -
  assume le: "a \<le> b" "b \<le> c"
  have "take (c - a) (drop a s) = take (b - a) (drop a s) @ take (c - b) (drop (b - a) (drop a s))"
    using take_add [of "b - a" "c - b" "drop a s"] le by simp
  then show ?thesis using le by (simp add: sub_def)
qed

lemma sub_same [simp]: "sub s a a = []"
  by (simp add: sub_def)

lemma slice_inclusive_sub: "a \<le> b \<Longrightarrow> b < length s \<Longrightarrow> slice_inclusive s a b = Some (sub s a (b + 1))"
  by (simp add: slice_inclusive_def sub_def)

lemma contiguous_le: "contiguous pos cs e \<Longrightarrow> pos \<le> e"
  by (induction pos cs e rule: contiguous.induct) auto

lemma bytes_of_simps [simp]:
  "bytes_of s [] = []" "bytes_of s ((start, end, c) # cs) = sub s start end @ bytes_of s cs"
  by (simp_all add: bytes_of_def sub_def)

lemma len_utf8_digit: "is_ascii_digit c \<Longrightarrow> len_utf8 c = 1"
  by (simp add: is_ascii_digit_def len_utf8_def)

lemma len_utf8_pos [simp]: "0 < len_utf8 c"
  by (simp add: len_utf8_def)

lemma runs_Nil [simp]: "runs s [] = []"
  by (simp add: runs.simps)

lemma class_simps:
  "is_sep (a, b, c) \<longleftrightarrow> c = of_char (CHR ''.'') \<or> c = of_char (CHR ''-'')"
  "is_digit (a, b, c) \<longleftrightarrow> is_ascii_digit c"
  "is_word (a, b, c) \<longleftrightarrow> \<not> (c = of_char (CHR ''.'') \<or> c = of_char (CHR ''-'')) \<and> \<not> is_ascii_digit c"
  by (auto simp: is_sep_def is_digit_def is_word_def)

lemma sep_not_digit: "is_ascii_digit c \<Longrightarrow> c \<noteq> of_char (CHR ''.'') \<and> c \<noteq> of_char (CHR ''-'')"
  by (auto simp: is_ascii_digit_def)

text \<open>The iterator in each of its three states.\<close>

lemma version_parts_runs:
  "contiguous pos cs (length s) \<Longrightarrow>
     version_parts s IBreak cs = map Some (runs s cs) \<and>
     (\<forall>a b. a \<le> b \<longrightarrow> pos = b + 1 \<longrightarrow>
       version_parts s (INumber a b) cs =
         Some (VNumber (sub s a pos @ bytes_of s (takeWhile is_digit cs))) # map Some (runs s (dropWhile is_digit cs)) \<and>
       version_parts s (IWord a b) cs =
         Some (VWord (sub s a pos @ bytes_of s (takeWhile is_word cs))) # map Some (runs s (dropWhile is_word cs)))"
proof (induction cs arbitrary: pos)
  case Nil
  then show ?case by (auto simp: slice_inclusive_sub)
next
  case (Cons ci cs)
  obtain start "end" c where ci: "ci = (start, end, c)" by (cases ci) auto
  let ?n = "length s"
  have c: "start = pos" "end = pos + len_utf8 c" "contiguous end cs ?n" using Cons.prems ci by auto
  have bound: "pos < ?n" using contiguous_le [OF c(3)] c(2) len_utf8_pos [of c] by linarith
  note IH = Cons.IH [OF c(3)]
  have new: "pos \<le> end - 1" "end = end - 1 + 1" using c(2) len_utf8_pos [of c] by linarith+
  note IHn = conjunct2 [OF IH, rule_format, OF new]
  have sub: "sub s a pos @ sub s pos end = sub s a end" if "a \<le> pos" for a
    using that sub_append [of a pos "end"] c(2) by simp
  consider "is_sep ci" | "is_digit ci" | "is_word ci" by (auto simp: is_word_def)
  then show ?case
  proof cases
    case 1
    then have "runs s (ci # cs) = runs s cs" by (simp add: runs.simps(2))
    then show ?thesis using 1 IH ci bound
      by (auto simp: class_simps slice_inclusive_sub is_ascii_digit_def)
  next
    case 2
    then have d: "is_ascii_digit c" and nsep: "\<not> (c = of_char (CHR ''.'') \<or> c = of_char (CHR ''-''))"
      using ci sep_not_digit by (auto simp: class_simps)
    have e: "end = pos + 1" using c(2) len_utf8_digit [OF d] by simp
    have "version_parts s (INumber a (b + 1)) cs =
        Some (VNumber (sub s a pos @ sub s pos end @ bytes_of s (takeWhile is_digit cs))) # map Some (runs s (dropWhile is_digit cs))"
      if "a \<le> b" "pos = b + 1" for a b
      using conjunct2 [OF IH, rule_format, of a "b + 1"] that e sub [of a] by simp
    moreover have "runs s (ci # cs) = VNumber (bytes_of s (ci # takeWhile is_digit cs)) # runs s (dropWhile is_digit cs)"
      using 2 nsep ci by (simp add: runs.simps(2) class_simps)
    ultimately show ?thesis using IHn ci c(1) d nsep bound e
      by (auto simp: class_simps slice_inclusive_sub)
  next
    case 3
    then have d: "\<not> is_ascii_digit c" and nsep: "\<not> (c = of_char (CHR ''.'') \<or> c = of_char (CHR ''-''))"
      using ci by (auto simp: class_simps)
    have "version_parts s (IWord a (b + len_utf8 c)) cs =
        Some (VWord (sub s a pos @ sub s pos end @ bytes_of s (takeWhile is_word cs))) # map Some (runs s (dropWhile is_word cs))"
      if "a \<le> b" "pos = b + 1" for a b
      using conjunct2 [OF IH, rule_format, of a "b + len_utf8 c"] that c(2) sub [of a] by simp
    moreover have "runs s (ci # cs) = VWord (bytes_of s (ci # takeWhile is_word cs)) # runs s (dropWhile is_word cs)"
      using 3 by (simp add: runs.simps(2) is_word_def)
    ultimately show ?thesis using IHn ci c(1) d nsep bound
      by (auto simp: class_simps slice_inclusive_sub)
  qed
qed

text \<open>
  On valid UTF-8 the iterator never indexes outside the string, and its parts are the longest runs
  of digits and the longest runs of characters that are neither digits nor separators, in order.
\<close>

theorem version_parts_are_runs:
  assumes "utf8_chars (char_indices s) s"
  shows "version_parts_iter char_indices s = map Some (runs s (char_indices s))"
  using version_parts_runs assms unfolding version_parts_iter_def utf8_chars_def by blast

text \<open>The characters of a string of ASCII bytes.\<close>

definition ascii_indices :: "string \<Rightarrow> char_index list" where
  "ascii_indices s = map (\<lambda>i. (i, i + 1, of_char (s ! i))) [0..<length s]"

theorem version_parts_are_runs_witness:
  "utf8_chars (ascii_indices ''1.2pre3'') ''1.2pre3'' \<and>
   version_parts_iter ascii_indices ''1.2pre3'' = map Some [VNumber ''1'', VNumber ''2'', VWord ''pre'', VNumber ''3'']"
proof -
  have u: "utf8_chars (ascii_indices ''1.2pre3'') ''1.2pre3''" by code_simp
  have "runs ''1.2pre3'' (ascii_indices ''1.2pre3'') = [VNumber ''1'', VNumber ''2'', VWord ''pre'', VNumber ''3'']"
    by code_simp
  then show ?thesis using version_parts_are_runs [of ascii_indices, OF u] u by simp
qed

section \<open>The order of versions\<close>

text \<open>The key of a part: \<open>pre\<close> is below every other word, and words are below numbers.\<close>

fun part_key :: "version_part \<Rightarrow> nat list" where
  "part_key (VNumber n) = [2, digits_value n]"
| "part_key (VWord w) = (if w = ''pre'' then [0] else 1 # map of_char w)"

definition part_fits :: "version_part \<Rightarrow> bool" where
  "part_fits p \<longleftrightarrow> (case p of VNumber n \<Rightarrow> parse_u64 n = Some (digits_value n) | VWord _ \<Rightarrow> True)"

definition version_key :: "version_part list \<Rightarrow> nat list list" where
  "version_key ps = map part_key ps @ [[1]]"

lemma map_of_char_less: "map of_char x < (map of_char y :: nat list) \<longleftrightarrow> x < (y :: string)"
  by (induction x y rule: list_induct2') (auto simp: less_char_def)

lemma map_of_char_eq: "map of_char x = (map of_char y :: nat list) \<longleftrightarrow> x = (y :: string)"
  by (simp add: inj_map_eq_map inj_def)

lemma version_part_cmp_key:
  "part_fits p \<Longrightarrow> part_fits q \<Longrightarrow> version_part_cmp p q = Some (cmp_of (part_key p) (part_key q))"
  by (cases p; cases q) (auto simp: part_fits_def cmp_of_def map_of_char_less map_of_char_eq)

lemma cmp_of_eq [simp]: "cmp_of a b = OEqual \<longleftrightarrow> a = b"
  by (auto simp: cmp_of_def)

lemma iter_cmp_key:
  "list_all part_fits ps \<Longrightarrow> list_all part_fits qs \<Longrightarrow>
   iter_cmp (map Some ps) (map Some qs) = Some (cmp_of (map part_key ps) (map part_key qs))"
  by (induction ps qs rule: list_induct2') (auto simp: version_part_cmp_key cmp_of_def)

lemma for_cmp_runs:
  "utf8_chars (ci s) s \<Longrightarrow> version_parts_for_cmp ci s = map Some (runs s (ci s) @ [VWord []])"
  using version_parts_runs [of 0 "ci s" s] by (simp add: version_parts_for_cmp_def version_parts_iter_def utf8_chars_def)

text \<open>
  C31: \<open>compareVersions\<close> is the comparison of two keys in a linear order, so it is total, transitive
  and antisymmetric up to equal keys: the keys are compared lexicographically, the end of a version
  counts as an empty word, \<open>pre\<close> is below every word, a word below every number, and numbers are
  compared by value. This holds when every number of the two versions is below $2^{64}$. The parts
  are separated by \<open>.\<close> and \<open>-\<close>; the comment on \<open>VersionPart\<close> says \<open>.\<close> and \<open>_\<close>, but the code takes
  \<open>_\<close> for a character of a word, so that \<open>1_2\<close> is below \<open>1.2\<close>.
\<close>

theorem compare_versions_order:
  assumes "utf8_chars (ci x) x" "utf8_chars (ci y) y"
    and "list_all part_fits (runs x (ci x))" "list_all part_fits (runs y (ci y))"
  shows "compare_versions ci x y =
    (let k = version_key (runs x (ci x)); l = version_key (runs y (ci y))
     in Some (if k < l then -1 else if k = l then 0 else 1))"
proof -
  have key: "map part_key (ps @ [VWord []]) = version_key ps" for ps by (simp add: version_key_def)
  have "iter_cmp (version_parts_for_cmp ci x) (version_parts_for_cmp ci y) =
      Some (cmp_of (version_key (runs x (ci x))) (version_key (runs y (ci y))))"
    unfolding for_cmp_runs [of ci x, OF assms(1)] for_cmp_runs [of ci y, OF assms(2)] key [symmetric]
    by (rule iter_cmp_key) (use assms(3,4) in \<open>simp_all add: part_fits_def\<close>)
  then show ?thesis by (simp add: compare_versions_def cmp_of_def Let_def)
qed

theorem compare_versions_order_witness:
  "compare_versions ascii_indices ''2.3pre1'' ''2.3'' = Some (- 1) \<and>
   compare_versions ascii_indices ''2.3'' ''2.3.0pre'' = Some (- 1) \<and>
   compare_versions ascii_indices ''1_2'' ''1.2'' = Some (- 1)"
proof -
  have u: "utf8_chars (ascii_indices ''2.3pre1'') ''2.3pre1''" "utf8_chars (ascii_indices ''2.3'') ''2.3''"
    "utf8_chars (ascii_indices ''2.3.0pre'') ''2.3.0pre''" "utf8_chars (ascii_indices ''1_2'') ''1_2''"
    "utf8_chars (ascii_indices ''1.2'') ''1.2''"
    by code_simp+
  have r: "runs ''2.3pre1'' (ascii_indices ''2.3pre1'') = [VNumber ''2'', VNumber ''3'', VWord ''pre'', VNumber ''1'']"
    "runs ''2.3'' (ascii_indices ''2.3'') = [VNumber ''2'', VNumber ''3'']"
    "runs ''2.3.0pre'' (ascii_indices ''2.3.0pre'') = [VNumber ''2'', VNumber ''3'', VNumber ''0'', VWord ''pre'']"
    "runs ''1_2'' (ascii_indices ''1_2'') = [VNumber ''1'', VWord ''_'', VNumber ''2'']"
    "runs ''1.2'' (ascii_indices ''1.2'') = [VNumber ''1'', VNumber ''2'']"
    by code_simp+
  have f: "list_all part_fits (runs ''2.3pre1'' (ascii_indices ''2.3pre1''))"
    "list_all part_fits (runs ''2.3'' (ascii_indices ''2.3''))"
    "list_all part_fits (runs ''2.3.0pre'' (ascii_indices ''2.3.0pre''))"
    "list_all part_fits (runs ''1_2'' (ascii_indices ''1_2''))" "list_all part_fits (runs ''1.2'' (ascii_indices ''1.2''))"
    unfolding r by (simp_all add: part_fits_def parse_u64_def digits_value_def is_ascii_digit_def)
  show ?thesis
    using compare_versions_order [of ascii_indices "''2.3pre1''" "''2.3''", OF u(1,2) f(1,2)]
      compare_versions_order [of ascii_indices "''2.3''" "''2.3.0pre''", OF u(2,3) f(2,3)]
      compare_versions_order [of ascii_indices "''1_2''" "''1.2''", OF u(4,5) f(4,5)]
    by (simp add: r version_key_def digits_value_def)
qed

text \<open>
  A number of $2^{64}$ or more makes the comparison panic: when both versions start with a
  number and one of the two does not fit into 64 bits, the \<open>unwrap\<close> of the parsed number fails.
\<close>

theorem compare_versions_panics:
  assumes "utf8_chars (ci x) x" "utf8_chars (ci y) y"
    and "runs x (ci x) = VNumber a # ps" "runs y (ci y) = VNumber b # qs"
    and "2 ^ 64 \<le> digits_value a \<or> 2 ^ 64 \<le> digits_value b"
  shows "compare_versions ci x y = None"
proof -
  have "parse_u64 a = None \<or> parse_u64 b = None" using assms(5) by (auto simp: parse_u64_def)
  then have "version_part_cmp (VNumber a) (VNumber b) = None" by (cases "parse_u64 a") auto
  then show ?thesis using assms(3,4)
    by (simp add: compare_versions_def for_cmp_runs [of ci x, OF assms(1)] for_cmp_runs [of ci y, OF assms(2)] del: version_part_cmp.simps)
qed

theorem compare_versions_panics_witness:
  "compare_versions ascii_indices ''18446744073709551616'' ''1'' = None"
proof -
  have "utf8_chars (ascii_indices ''18446744073709551616'') ''18446744073709551616''"
    "utf8_chars (ascii_indices ''1'') ''1''"
    "runs ''18446744073709551616'' (ascii_indices ''18446744073709551616'') = VNumber ''18446744073709551616'' # []"
    "runs ''1'' (ascii_indices ''1'') = VNumber ''1'' # []"
    by code_simp+
  moreover have "2 ^ 64 \<le> digits_value ''18446744073709551616'' \<or> 2 ^ 64 \<le> digits_value ''1''"
    by (simp add: digits_value_def)
  ultimately show ?thesis by (rule compare_versions_panics)
qed

text \<open>
  A byte that is not UTF-8 after a word character makes the iterator index past the end of the
  string: the replacement character needs three bytes in UTF-8, but stands for one byte here.
\<close>

theorem invalid_byte_panics:
  "version_parts_iter (\<lambda>_. [(0, 1, 97), (1, 2, 0xFFFD)]) [CHR ''a'', CHR 0xFF] = [None]"
  by (simp add: version_parts_iter_def slice_inclusive_def is_ascii_digit_def len_utf8_def)

end
