(* ===== verification/NarInfo.thy ===== *)
theory NarInfo
  imports StorePath Signatures Versions
begin

text \<open>
  NARInfo files: \<^verbatim>\<open>nix-compat/src/narinfo/mod.rs\<close> and \<^verbatim>\<open>fingerprint.rs\<close>.

  \<open>NarInfo::parse\<close> is a loop over the lines of the text. The mutable variables of the function are
  the record \<open>narinfo_fields\<close>; each arm of the \<open>match\<close> on the tag is a definition that returns
  the changed record or the error of the early return, and the struct expression at the end is
  \<open>narinfo_finish\<close>. The bit flags are a \<open>u8\<close>, as in the code.

  The lemmas lead to two facts: a NARInfo that is printed parses back to itself, and what is
  parsed from any text is a NARInfo with that property, up to the two flags that record how the
  text was written.
\<close>

section \<open>Text\<close>

definition strip_suffix :: "'a list \<Rightarrow> 'a list \<Rightarrow> 'a list option" where
  "strip_suffix p s = map_option rev (strip_prefix (rev p) (rev s))"

lemma strip_suffix_eq_Some [simp]: "strip_suffix p s = Some r \<longleftrightarrow> s = r @ p"
  by (auto simp: strip_suffix_def) (metis rev_append rev_rev_ident)

lemma strip_suffix_eq_None: "strip_suffix p s = None \<longleftrightarrow> (\<forall>r. s \<noteq> r @ p)"
  by (metis not_None_eq strip_suffix_eq_Some)

lemma strip_suffix_append [simp]: "strip_suffix p (r @ p) = Some r"
  by simp

text \<open>\<open>str::split_inclusive\<close> and \<open>str::lines\<close>: a line ends with a line feed, with an optional
  carriage return before it; a last line without a line feed is kept as it is.\<close>

fun split_inclusive :: "'a \<Rightarrow> 'a list \<Rightarrow> 'a list list" where
  "split_inclusive c [] = []"
| "split_inclusive c (x # xs) =
     (if x = c then [x] # split_inclusive c xs
      else (case split_inclusive c xs of [] \<Rightarrow> [[x]] | p # ps \<Rightarrow> (x # p) # ps))"

definition str_line :: "string \<Rightarrow> string" where
  "str_line l =
     (case strip_suffix [CHR 0x0A] l of
        None \<Rightarrow> l
      | Some l \<Rightarrow> (case strip_suffix [CHR 0x0D] l of None \<Rightarrow> l | Some l \<Rightarrow> l))"

definition str_lines :: "string \<Rightarrow> string list" where
  "str_lines s = map str_line (split_inclusive (CHR 0x0A) s)"

text \<open>\<open>u64::from_str\<close> and \<open>Display\<close> for \<open>u64\<close>. A leading plus sign is allowed.\<close>

definition u64_from_str :: "string \<Rightarrow> u64 option" where
  "u64_from_str s = map_option of_nat
     (parse_u64 (case s of [] \<Rightarrow> [] | c # cs \<Rightarrow> if c = CHR ''+'' then cs else s))"

fun decimal :: "nat \<Rightarrow> string" where
  "decimal n = (if n < 10 then [char_of (48 + n)] else decimal (n div 10) @ [char_of (48 + n mod 10)])"

definition u64_to_string :: "u64 \<Rightarrow> string" where
  "u64_to_string w = decimal (unat w)"

section \<open>The data\<close>

definition UNKNOWN_FIELD :: u8 where "UNKNOWN_FIELD = push_bit 0 1"
definition COMPRESSION_DEFAULT :: u8 where "COMPRESSION_DEFAULT = push_bit 1 1"
definition REFERENCES_OUT_OF_ORDER :: u8 where "REFERENCES_OUT_OF_ORDER = push_bit 2 1"
definition NAR_HASH_HEX :: u8 where "NAR_HASH_HEX = push_bit 3 1"
definition EXPLICIT_UNKNOWN_DERIVER :: u8 where "EXPLICIT_UNKNOWN_DERIVER = push_bit 4 1"
definition REFERENCES_MISSING :: u8 where "REFERENCES_MISSING = push_bit 5 1"

definition flags_contains :: "u8 \<Rightarrow> u8 \<Rightarrow> bool" where
  "flags_contains flags f \<longleftrightarrow> flags AND f = f"

record narinfo =
  ni_flags :: u8
  ni_store_path :: store_path
  ni_nar_hash :: "u8 list"
  ni_nar_size :: u64
  ni_references :: "store_path list"
  ni_signatures :: "signature list"
  ni_ca :: "cahash option"
  ni_system :: "string option"
  ni_deriver :: "store_path option"
  ni_url :: string
  ni_compression :: "string option"
  ni_file_hash :: "u8 list option"
  ni_file_size :: "u64 option"

datatype (plugins only: code size) narinfo_error =
    DuplicateField string
  | MissingField string
  | InvalidLine string
  | InvalidStorePath parse_store_path_error
  | EmptyField string
  | UnableToParseSize string string
  | InvalidReference nat parse_store_path_error
  | InvalidDeriverStorePath parse_store_path_error
  | InvalidDeriverStorePathMissingSuffix
  | MissingPrefixForHash string
  | UnableToDecodeHash string decode_error
  | UnableToParseSignature nat signature_error
  | UnableToParseCA string
  | NarInfoPanic  \<comment> \<open>a panic of the signature parser\<close>

section \<open>Parsing\<close>

record narinfo_fields =
  nf_flags :: u8
  nf_store_path :: "store_path option"
  nf_url :: "string option"
  nf_compression :: "string option"
  nf_file_hash :: "u8 list option"
  nf_file_size :: "u64 option"
  nf_nar_hash :: "u8 list option"
  nf_nar_size :: "u64 option"
  nf_references :: "store_path list option"
  nf_system :: "string option"
  nf_deriver :: "store_path option"
  nf_signatures :: "signature list"
  nf_ca :: "cahash option"

definition narinfo_fields_empty :: narinfo_fields where
  "narinfo_fields_empty =
     \<lparr>nf_flags = 0, nf_store_path = None, nf_url = None, nf_compression = None, nf_file_hash = None,
      nf_file_size = None, nf_nar_hash = None, nf_nar_size = None, nf_references = None,
      nf_system = None, nf_deriver = None, nf_signatures = [], nf_ca = None\<rparr>"

text \<open>\<open>if field.replace(val).is_some() { return Err(DuplicateField(tag)) }\<close>\<close>

definition set_once :: "string \<Rightarrow> 'a option \<Rightarrow> 's \<Rightarrow> (narinfo_error, 's) res" where
  "set_once tag old new = (if old \<noteq> None then Inl (DuplicateField tag) else Inr new)"

definition store_path_field :: "string \<Rightarrow> narinfo_fields \<Rightarrow> (narinfo_error, narinfo_fields) res" where
  "store_path_field val st =
     rbind (ok_or (InvalidStorePath MissingStoreDir) (strip_prefix ''/nix/store/'' val)) (\<lambda>val.
     rbind (map_err InvalidStorePath (sp_from_bytes val)) (\<lambda>val.
       set_once ''StorePath'' (nf_store_path st) (st\<lparr>nf_store_path := Some val\<rparr>)))"

definition url_field :: "string \<Rightarrow> narinfo_fields \<Rightarrow> (narinfo_error, narinfo_fields) res" where
  "url_field val st =
     (if val = [] then Inl (EmptyField ''URL'')
      else set_once ''URL'' (nf_url st) (st\<lparr>nf_url := Some val\<rparr>))"

definition compression_field :: "string \<Rightarrow> narinfo_fields \<Rightarrow> (narinfo_error, narinfo_fields) res" where
  "compression_field val st =
     (if val = [] then Inl (EmptyField ''Compression'')
      else set_once ''Compression'' (nf_compression st) (st\<lparr>nf_compression := Some val\<rparr>))"

definition file_hash_field :: "string \<Rightarrow> narinfo_fields \<Rightarrow> (narinfo_error, narinfo_fields) res" where
  "file_hash_field val st =
     rbind (ok_or (MissingPrefixForHash ''FileHash'') (strip_prefix ''sha256:'' val)) (\<lambda>val.
     rbind (map_err (UnableToDecodeHash ''FileHash'') (decode_fixed 32 val)) (\<lambda>val.
       set_once ''FileHash'' (nf_file_hash st) (st\<lparr>nf_file_hash := Some val\<rparr>)))"

definition file_size_field :: "string \<Rightarrow> narinfo_fields \<Rightarrow> (narinfo_error, narinfo_fields) res" where
  "file_size_field val st =
     rbind (ok_or (UnableToParseSize ''FileSize'' val) (u64_from_str val)) (\<lambda>val.
       set_once ''FileSize'' (nf_file_size st) (st\<lparr>nf_file_size := Some val\<rparr>))"

definition nar_hash_field ::
  "data_encoding \<Rightarrow> string \<Rightarrow> narinfo_fields \<Rightarrow> (narinfo_error, narinfo_fields) res" where
  "nar_hash_field E val st =
     rbind (ok_or (MissingPrefixForHash ''NarHash'') (strip_prefix ''sha256:'' val)) (\<lambda>val.
       let (r, st) = (if length val \<noteq> hexlower_encode_len E 32 then (decode_fixed 32 val, st)
                      else (hexlower_decode E val, st\<lparr>nf_flags := nf_flags st OR NAR_HASH_HEX\<rparr>))
       in rbind (map_err (UnableToDecodeHash ''NarHash'') r) (\<lambda>val.
            set_once ''NarHash'' (nf_nar_hash st) (st\<lparr>nf_nar_hash := Some val\<rparr>)))"

definition nar_size_field :: "string \<Rightarrow> narinfo_fields \<Rightarrow> (narinfo_error, narinfo_fields) res" where
  "nar_size_field val st =
     rbind (ok_or (UnableToParseSize ''NarSize'' val) (u64_from_str val)) (\<lambda>val.
       set_once ''NarSize'' (nf_nar_size st) (st\<lparr>nf_nar_size := Some val\<rparr>))"

text \<open>The closure over the references keeps the previous one and marks a descent in the flags.\<close>

fun parse_references ::
  "nat \<Rightarrow> string \<Rightarrow> u8 \<Rightarrow> string list \<Rightarrow> (narinfo_error, u8 \<times> store_path list) res" where
  "parse_references i prev flags [] = Inr (flags, [])"
| "parse_references i prev flags (s # ss) =
     (let flags = (if s \<le> prev then flags OR REFERENCES_OUT_OF_ORDER else flags)
      in rbind (map_err (InvalidReference i) (sp_from_bytes s)) (\<lambda>p.
         rbind (parse_references (i + 1) s flags ss) (\<lambda>(flags, ps). Inr (flags, p # ps))))"

definition references_field :: "string \<Rightarrow> narinfo_fields \<Rightarrow> (narinfo_error, narinfo_fields) res" where
  "references_field val st =
     rbind (if val \<noteq> [] then parse_references 0 [] (nf_flags st) (split_on CHR '' '' val)
            else Inr (nf_flags st, [])) (\<lambda>(flags, val).
       set_once ''References'' (nf_references st)
         (st\<lparr>nf_flags := flags, nf_references := Some val\<rparr>))"

definition system_field :: "string \<Rightarrow> narinfo_fields \<Rightarrow> (narinfo_error, narinfo_fields) res" where
  "system_field val st =
     (if val = [] then Inl (EmptyField ''System'')
      else set_once ''System'' (nf_system st) (st\<lparr>nf_system := Some val\<rparr>))"

definition deriver_field :: "string \<Rightarrow> narinfo_fields \<Rightarrow> (narinfo_error, narinfo_fields) res" where
  "deriver_field val st =
     (case strip_suffix ''.drv'' val of
        Some val \<Rightarrow>
          rbind (map_err InvalidDeriverStorePath (sp_from_bytes val)) (\<lambda>val.
            set_once ''Deriver'' (nf_deriver st) (st\<lparr>nf_deriver := Some val\<rparr>))
      | None \<Rightarrow>
          if val = ''unknown-deriver''
          then Inr (st\<lparr>nf_flags := nf_flags st OR EXPLICIT_UNKNOWN_DERIVER\<rparr>)
          else Inl InvalidDeriverStorePathMissingSuffix)"

definition sig_field ::
  "data_encoding \<Rightarrow> (nat \<Rightarrow> bool) \<Rightarrow> string \<Rightarrow> narinfo_fields \<Rightarrow> (narinfo_error, narinfo_fields) res" where
  "sig_field E table val st =
     rbind (map_err (\<lambda>e. if e = SigPanic then NarInfoPanic
                         else UnableToParseSignature (length (nf_signatures st)) e)
              (signature_parse E table val)) (\<lambda>val.
       Inr (st\<lparr>nf_signatures := nf_signatures st @ [val]\<rparr>))"

definition ca_field :: "string \<Rightarrow> narinfo_fields \<Rightarrow> (narinfo_error, narinfo_fields) res" where
  "ca_field val st =
     rbind (ok_or (UnableToParseCA val) (cahash_from_nix_hex_str val)) (\<lambda>c.
       set_once ''CA'' (nf_ca st) (st\<lparr>nf_ca := Some c\<rparr>))"

definition narinfo_field ::
  "data_encoding \<Rightarrow> (nat \<Rightarrow> bool) \<Rightarrow> string \<Rightarrow> string \<Rightarrow> narinfo_fields \<Rightarrow> (narinfo_error, narinfo_fields) res" where
  "narinfo_field E table tag val st =
     (if tag = ''StorePath'' then store_path_field val st
      else if tag = ''URL'' then url_field val st
      else if tag = ''Compression'' then compression_field val st
      else if tag = ''FileHash'' then file_hash_field val st
      else if tag = ''FileSize'' then file_size_field val st
      else if tag = ''NarHash'' then nar_hash_field E val st
      else if tag = ''NarSize'' then nar_size_field val st
      else if tag = ''References'' then references_field val st
      else if tag = ''System'' then system_field val st
      else if tag = ''Deriver'' then deriver_field val st
      else if tag = ''Sig'' then sig_field E table val st
      else if tag = ''CA'' then ca_field val st
      else Inr (st\<lparr>nf_flags := nf_flags st OR UNKNOWN_FIELD\<rparr>))"

definition narinfo_line ::
  "data_encoding \<Rightarrow> (nat \<Rightarrow> bool) \<Rightarrow> string \<Rightarrow> narinfo_fields \<Rightarrow> (narinfo_error, narinfo_fields) res" where
  "narinfo_line E table line st =
     rbind (ok_or (InvalidLine line) (split_once CHR '':'' line)) (\<lambda>(tag, val).
     rbind (ok_or (InvalidLine line) (strip_prefix '' '' val)) (\<lambda>val.
       narinfo_field E table tag val st))"

fun narinfo_lines ::
  "data_encoding \<Rightarrow> (nat \<Rightarrow> bool) \<Rightarrow> string list \<Rightarrow> narinfo_fields \<Rightarrow> (narinfo_error, narinfo_fields) res" where
  "narinfo_lines E table [] st = Inr st"
| "narinfo_lines E table (line # lines) st =
     rbind (narinfo_line E table line st) (narinfo_lines E table lines)"

definition narinfo_finish :: "narinfo_fields \<Rightarrow> (narinfo_error, narinfo) res" where
  "narinfo_finish st =
     rbind (ok_or (MissingField ''StorePath'') (nf_store_path st)) (\<lambda>store_path.
     rbind (ok_or (MissingField ''NarHash'') (nf_nar_hash st)) (\<lambda>nar_hash.
     rbind (ok_or (MissingField ''NarSize'') (nf_nar_size st)) (\<lambda>nar_size.
       let (flags, references) =
             (case nf_references st of
                Some val \<Rightarrow> (nf_flags st, val)
              | None \<Rightarrow> (nf_flags st OR REFERENCES_MISSING, []))
       in rbind (ok_or (MissingField ''URL'') (nf_url st)) (\<lambda>url.
       let (flags, compression) =
             (if nf_compression st = Some ''none'' then (flags, None)
              else if nf_compression st = None then (flags OR COMPRESSION_DEFAULT, Some ''bzip2'')
              else (flags, nf_compression st))
       in Inr \<lparr>ni_flags = flags, ni_store_path = store_path, ni_nar_hash = nar_hash,
               ni_nar_size = nar_size, ni_references = references,
               ni_signatures = nf_signatures st, ni_ca = nf_ca st, ni_system = nf_system st,
               ni_deriver = nf_deriver st, ni_url = url, ni_compression = compression,
               ni_file_hash = nf_file_hash st, ni_file_size = nf_file_size st\<rparr>))))"

definition narinfo_parse ::
  "data_encoding \<Rightarrow> (nat \<Rightarrow> bool) \<Rightarrow> string \<Rightarrow> (narinfo_error, narinfo) res" where
  "narinfo_parse E table input =
     rbind (narinfo_lines E table (str_lines input) narinfo_fields_empty) narinfo_finish"

section \<open>Fingerprints and signing\<close>

text \<open>\<open>fingerprint\<close>: a comma is written after a reference as long as the iterator has another.\<close>

fun fingerprint_references :: "store_path list \<Rightarrow> string" where
  "fingerprint_references [] = []"
| "fingerprint_references (r # rs) =
     sp_to_absolute_path r @ (if rs \<noteq> [] then '','' else []) @ fingerprint_references rs"

definition fingerprint :: "store_path \<Rightarrow> u8 list \<Rightarrow> u64 \<Rightarrow> store_path list \<Rightarrow> string" where
  "fingerprint store_path nar_sha256 nar_size references =
     ''1;'' @ sp_to_absolute_path store_path @ '';sha256:'' @ encode nar_sha256 @ '';''
       @ u64_to_string nar_size @ '';'' @ fingerprint_references references"

definition narinfo_fingerprint :: "narinfo \<Rightarrow> string" where
  "narinfo_fingerprint ni =
     fingerprint (ni_store_path ni) (ni_nar_hash ni) (ni_nar_size ni) (ni_references ni)"

definition add_signature :: "('sk, 'vk) ed25519 \<Rightarrow> 'sk signing_key \<Rightarrow> narinfo \<Rightarrow> narinfo" where
  "add_signature C signer ni =
     (let fp = narinfo_fingerprint ni;
          sg = signing_key_sign C signer fp
      in ni\<lparr>ni_signatures := ni_signatures ni @ [sg]\<rparr>)"

section \<open>Printing\<close>

definition writeln :: "string \<Rightarrow> string" where
  "writeln s = s @ [CHR 0x0A]"

definition narinfo_to_string :: "data_encoding \<Rightarrow> narinfo \<Rightarrow> string" where
  "narinfo_to_string E ni =
     writeln (''StorePath: /nix/store/'' @ sp_to_string (ni_store_path ni))
     @ writeln (''URL: '' @ ni_url ni)
     @ (if \<not> flags_contains (ni_flags ni) COMPRESSION_DEFAULT
        then writeln (''Compression: '' @ (case ni_compression ni of Some c \<Rightarrow> c | None \<Rightarrow> ''none''))
        else [])
     @ (case ni_file_hash ni of Some h \<Rightarrow> writeln (''FileHash: sha256:'' @ encode h) | None \<Rightarrow> [])
     @ (case ni_file_size ni of Some n \<Rightarrow> writeln (''FileSize: '' @ u64_to_string n) | None \<Rightarrow> [])
     @ writeln (''NarHash: sha256:'' @ encode (ni_nar_hash ni))
     @ writeln (''NarSize: '' @ u64_to_string (ni_nar_size ni))
     @ (if \<not> flags_contains (ni_flags ni) REFERENCES_MISSING
        then writeln (''References:'' @
               (if ni_references ni = [] then '' ''
                else concat (map (\<lambda>path. '' '' @ sp_to_string path) (ni_references ni))))
        else [])
     @ (case ni_deriver ni of
          Some deriver \<Rightarrow> writeln (''Deriver: '' @ sp_to_string deriver @ ''.drv'')
        | None \<Rightarrow> if flags_contains (ni_flags ni) EXPLICIT_UNKNOWN_DERIVER
                  then writeln ''Deriver: unknown-deriver'' else [])
     @ (case ni_system ni of Some s \<Rightarrow> writeln (''System: '' @ s) | None \<Rightarrow> [])
     @ concat (map (\<lambda>sg. writeln (''Sig: '' @ signature_to_string E sg)) (ni_signatures ni))
     @ (case ni_ca ni of Some c \<Rightarrow> writeln (''CA: '' @ cahash_to_string c) | None \<Rightarrow> [])"

section \<open>Lemmas on text\<close>

definition clean :: "string \<Rightarrow> bool" where
  "clean s \<longleftrightarrow> CHR 0x0A \<notin> set s \<and> CHR 0x0D \<notin> set s"

lemma clean_simps [simp]:
  "clean []" "clean (c # s) \<longleftrightarrow> c \<noteq> CHR 0x0A \<and> c \<noteq> CHR 0x0D \<and> clean s"
  "clean (s @ t) \<longleftrightarrow> clean s \<and> clean t"
  by (auto simp: clean_def)

lemma split_inclusive_line: "c \<notin> set l \<Longrightarrow> split_inclusive c (l @ c # s) = (l @ [c]) # split_inclusive c s"
  by (induction l) auto

lemma str_lines_writeln: "clean l \<Longrightarrow> str_lines (writeln l @ s) = l # str_lines s"
  by (auto simp: str_lines_def writeln_def split_inclusive_line clean_def str_line_def
      split: option.splits)

lemma str_lines_Nil [simp]: "str_lines [] = []"
  by (simp add: str_lines_def)

lemma str_lines_concat_writeln: "list_all clean ls \<Longrightarrow> str_lines (concat (map writeln ls)) = ls"
  by (induction ls) (simp_all add: str_lines_writeln)

lemma split_inclusive_pieces:
  "p \<in> set (split_inclusive c s) \<Longrightarrow> c \<notin> set (butlast p) \<and> set p \<subseteq> set s \<and> p \<noteq> []"
  by (induction s arbitrary: p) (force split: if_splits list.splits)+

lemma str_lines_clean:
  assumes "CHR 0x0D \<notin> set s" "l \<in> set (str_lines s)"
  shows "clean l"
proof -
  from assms(2) obtain p where p: "p \<in> set (split_inclusive (CHR 0x0A) s)" and l: "l = str_line p"
    by (auto simp: str_lines_def)
  note q = split_inclusive_pieces [OF p]
  show ?thesis
  proof (cases "last p = CHR 0x0A")
    case True
    define r where "r = butlast p"
    with q True have pr: "p = r @ [CHR 0x0A]" by (metis append_butlast_last_id)
    have "clean r" using q assms(1) unfolding r_def by (auto simp: clean_def dest: in_set_butlastD)
    then have "strip_suffix [CHR 0x0D] r = None" by (auto simp: strip_suffix_eq_None)
    then have "str_line p = r" by (simp add: pr str_line_def del: strip_suffix_eq_Some)
    then show ?thesis using \<open>clean r\<close> l by simp
  next
    case False
    with q have "strip_suffix [CHR 0x0A] p = None" by (auto simp: strip_suffix_eq_None)
    moreover have "CHR 0x0A \<notin> set p"
    proof
      assume "CHR 0x0A \<in> set p"
      moreover have "set p = insert (last p) (set (butlast p))"
        using q append_butlast_last_id [of p] by (metis list.set(2) rotate1.simps(2) set_rotate1)
      ultimately show False using q False by simp
    qed
    then have "clean p" using q assms(1) by (auto simp: clean_def)
    ultimately show ?thesis unfolding l str_line_def by simp
  qed
qed

declare decimal.simps [simp del]

lemma of_char_digit: "n < (10::nat) \<Longrightarrow> of_char (char_of (48 + n)) = 48 + n"
  by simp

lemma decimal_digits: "list_all (\<lambda>c. is_ascii_digit (of_char c)) (decimal n)"
  by (induction n rule: decimal.induct)
    (subst decimal.simps, simp add: of_char_digit is_ascii_digit_def less_Suc_eq_le [symmetric])

lemma decimal_nonempty [simp]: "decimal n \<noteq> []"
  by (subst decimal.simps) simp

lemma digits_value_snoc: "digits_value (s @ [c]) = 10 * digits_value s + (of_char c - 48)"
  by (simp add: digits_value_def)

lemma digits_value_decimal [simp]: "digits_value (decimal n) = n"
  by (induction n rule: decimal.induct)
    (subst decimal.simps, auto simp: digits_value_snoc of_char_digit, simp add: digits_value_def of_char_digit)

lemma decimal_no_char: "\<not> is_ascii_digit (of_char c) \<Longrightarrow> c \<notin> set (decimal n)"
  using decimal_digits [of n] by (auto simp: list_all_iff)

lemma u64_from_to_string [codec_simps, simp]: "u64_from_str (u64_to_string w) = Some w"
proof -
  obtain c cs where d: "decimal (unat w) = c # cs" using decimal_nonempty by (meson list.exhaust)
  then have "c \<noteq> CHR ''+''"
    using decimal_no_char [of "CHR ''+''" "unat w"] by (auto simp: is_ascii_digit_def)
  with d have "(case u64_to_string w of [] \<Rightarrow> [] | c # cs \<Rightarrow> if c = CHR ''+'' then cs else u64_to_string w)
    = decimal (unat w)" by (simp add: u64_to_string_def)
  moreover have "parse_u64 (decimal (unat w)) = Some (unat w)"
    using decimal_digits [of "unat w"] unsigned_less [of w] by (simp add: parse_u64_def)
  ultimately show ?thesis by (simp add: u64_from_str_def)
qed

lemma u64_to_string_inj: "u64_to_string a = u64_to_string b \<Longrightarrow> a = b"
  by (metis u64_from_to_string option.inject)

lemma clean_u64 [simp]: "clean (u64_to_string w)"
  using decimal_no_char by (simp add: clean_def u64_to_string_def is_ascii_digit_def)

lemma clean_encode [simp]: "clean (encode b)"
proof -
  have "CHR 0x0A \<notin> set ALPHABET" "CHR 0x0D \<notin> set ALPHABET" by (simp_all add: ALPHABET_def)
  then show ?thesis using encode_valid [of b] by (auto simp: clean_def)
qed

lemma clean_sp [simp]: "sp_wf p \<Longrightarrow> clean (sp_to_string p)"
proof -
  assume p: "sp_wf p"
  then have "clean (sp_name p)"
    by (fastforce simp: clean_def sp_wf_def name_ok_def list_all_iff name_char_match_def)
  then show ?thesis by (simp add: sp_to_string_def)
qed

lemma clean_cahash [simp]: "clean (cahash_to_string c)"
proof -
  have "clean (algo_as_str a)" for a by (cases a) simp_all
  then show ?thesis by (cases c) (simp_all add: cahash_to_string_eq to_nix_nixbase32_def)
qed

section \<open>Flags\<close>

lemmas flag_defs = UNKNOWN_FIELD_def COMPRESSION_DEFAULT_def REFERENCES_OUT_OF_ORDER_def
  NAR_HASH_HEX_def EXPLICIT_UNKNOWN_DERIVER_def REFERENCES_MISSING_def

lemma bit_one_flag: "bit (push_bit k 1 :: u8) n \<longleftrightarrow> n = k \<and> k < 8"
  by (auto simp: bit_simps)

lemma flags_contains_bit: "k < 8 \<Longrightarrow> flags_contains f (push_bit k 1) \<longleftrightarrow> bit f k"
  unfolding flags_contains_def bit_eq_iff [of _ "push_bit k 1 :: u8"] bit_and_iff bit_one_flag by auto

lemma flags_contains_iff [simp]:
  "flags_contains f UNKNOWN_FIELD \<longleftrightarrow> bit f 0" "flags_contains f COMPRESSION_DEFAULT \<longleftrightarrow> bit f 1"
  "flags_contains f REFERENCES_OUT_OF_ORDER \<longleftrightarrow> bit f 2" "flags_contains f NAR_HASH_HEX \<longleftrightarrow> bit f 3"
  "flags_contains f EXPLICIT_UNKNOWN_DERIVER \<longleftrightarrow> bit f 4" "flags_contains f REFERENCES_MISSING \<longleftrightarrow> bit f 5"
  using flags_contains_bit [of 0 f] flags_contains_bit [of 1 f] flags_contains_bit [of 2 f]
    flags_contains_bit [of 3 f] flags_contains_bit [of 4 f] flags_contains_bit [of 5 f]
  by (simp_all add: flag_defs)

lemma bit_flag [simp]:
  "bit UNKNOWN_FIELD n \<longleftrightarrow> n = 0" "bit COMPRESSION_DEFAULT n \<longleftrightarrow> n = 1"
  "bit REFERENCES_OUT_OF_ORDER n \<longleftrightarrow> n = 2" "bit NAR_HASH_HEX n \<longleftrightarrow> n = 3"
  "bit EXPLICIT_UNKNOWN_DERIVER n \<longleftrightarrow> n = 4" "bit REFERENCES_MISSING n \<longleftrightarrow> n = 5"
  by (simp_all only: flag_defs bit_one_flag) auto

lemma flags_eqI: "(\<And>n. n < 8 \<Longrightarrow> bit a n \<longleftrightarrow> bit b n) \<Longrightarrow> a = (b :: u8)"
  by (rule bit_word_eqI) simp

section \<open>Well-formed NARInfos\<close>

text \<open>The references descend somewhere in the order of their texts.\<close>

fun out_of_order :: "string \<Rightarrow> string list \<Rightarrow> bool" where
  "out_of_order prev [] \<longleftrightarrow> False"
| "out_of_order prev (s # ss) \<longleftrightarrow> s \<le> prev \<or> out_of_order s ss"

definition text_field :: "string \<Rightarrow> bool" where
  "text_field s \<longleftrightarrow> s \<noteq> [] \<and> clean s"

text \<open>
  The flags agree with the fields: no unknown field and no hexadecimal hash is recorded, the order
  flag is the order of the references, the two bits above the flags are clear, and what a flag leaves out of the text has the value that
  its absence stands for.
\<close>

definition flags_consistent :: "narinfo \<Rightarrow> bool" where
  "flags_consistent ni \<longleftrightarrow>
     \<not> flags_contains (ni_flags ni) UNKNOWN_FIELD \<and> \<not> flags_contains (ni_flags ni) NAR_HASH_HEX \<and>
     \<not> bit (ni_flags ni) 6 \<and> \<not> bit (ni_flags ni) 7 \<and>
     (flags_contains (ni_flags ni) REFERENCES_OUT_OF_ORDER
        \<longleftrightarrow> out_of_order [] (map sp_to_string (ni_references ni))) \<and>
     (flags_contains (ni_flags ni) EXPLICIT_UNKNOWN_DERIVER \<longrightarrow> ni_deriver ni = None) \<and>
     (flags_contains (ni_flags ni) REFERENCES_MISSING \<longrightarrow> ni_references ni = []) \<and>
     (flags_contains (ni_flags ni) COMPRESSION_DEFAULT \<longrightarrow> ni_compression ni = Some ''bzip2'')"

definition values_wf :: "(nat \<Rightarrow> bool) \<Rightarrow> narinfo \<Rightarrow> bool" where
  "values_wf table ni \<longleftrightarrow>
     sp_wf (ni_store_path ni) \<and> length (ni_nar_hash ni) = 32 \<and> list_all sp_wf (ni_references ni) \<and>
     list_all (\<lambda>sg. signature_wf table sg \<and> clean (sig_name sg)) (ni_signatures ni) \<and>
     pred_option cahash_wf (ni_ca ni) \<and> pred_option text_field (ni_system ni) \<and>
     pred_option sp_wf (ni_deriver ni) \<and> text_field (ni_url ni) \<and>
     pred_option (\<lambda>c. text_field c \<and> c \<noteq> ''none'') (ni_compression ni) \<and>
     pred_option (\<lambda>h. length h = 32) (ni_file_hash ni)"

definition narinfo_wf :: "(nat \<Rightarrow> bool) \<Rightarrow> narinfo \<Rightarrow> bool" where
  "narinfo_wf table ni \<longleftrightarrow> values_wf table ni \<and> flags_consistent ni"

section \<open>Reading what was printed\<close>

text \<open>The lines that \<open>Display\<close> writes.\<close>

definition opt_line :: "('a \<Rightarrow> string) \<Rightarrow> 'a option \<Rightarrow> string list" where
  "opt_line f x = (case x of None \<Rightarrow> [] | Some a \<Rightarrow> [f a])"

definition compression_lines :: "narinfo \<Rightarrow> string list" where
  "compression_lines ni =
     (if bit (ni_flags ni) 1 then [] else [''Compression: '' @ (case ni_compression ni of Some c \<Rightarrow> c | None \<Rightarrow> ''none'')])"

definition references_lines :: "narinfo \<Rightarrow> string list" where
  "references_lines ni =
     (if bit (ni_flags ni) 5 then [] else [''References: '' @ join_with '' '' (map sp_to_string (ni_references ni))])"

definition deriver_lines :: "narinfo \<Rightarrow> string list" where
  "deriver_lines ni =
     (case ni_deriver ni of
        Some d \<Rightarrow> [''Deriver: '' @ sp_to_string d @ ''.drv'']
      | None \<Rightarrow> if bit (ni_flags ni) 4 then [''Deriver: unknown-deriver''] else [])"

definition display_lines :: "data_encoding \<Rightarrow> narinfo \<Rightarrow> string list" where
  "display_lines E ni =
     [''StorePath: /nix/store/'' @ sp_to_string (ni_store_path ni)] @ [''URL: '' @ ni_url ni]
     @ compression_lines ni
     @ opt_line (\<lambda>h. ''FileHash: sha256:'' @ encode h) (ni_file_hash ni)
     @ opt_line (\<lambda>n. ''FileSize: '' @ u64_to_string n) (ni_file_size ni)
     @ [''NarHash: sha256:'' @ encode (ni_nar_hash ni)]
     @ [''NarSize: '' @ u64_to_string (ni_nar_size ni)]
     @ references_lines ni @ deriver_lines ni
     @ opt_line (\<lambda>s. ''System: '' @ s) (ni_system ni)
     @ map (\<lambda>sg. ''Sig: '' @ signature_to_string E sg) (ni_signatures ni)
     @ opt_line (\<lambda>c. ''CA: '' @ cahash_to_string c) (ni_ca ni)"

lemma references_text:
  "(if ps = [] then '' '' else concat (map (\<lambda>p. '' '' @ f p) ps)) = '' '' @ join_with '' '' (map f ps)"
  by (cases ps) (simp_all add: join_with_Cons_concat comp_def)

lemma narinfo_to_string_lines: "narinfo_to_string E ni = concat (map writeln (display_lines E ni))"
proof -
  have "concat (map writeln (references_lines ni)) =
    (if \<not> flags_contains (ni_flags ni) REFERENCES_MISSING
     then writeln (''References:'' @ (if ni_references ni = [] then '' ''
                else concat (map (\<lambda>path. '' '' @ sp_to_string path) (ni_references ni)))) else [])"
    by (simp only: references_text) (simp add: references_lines_def)
  then show ?thesis
    by (simp add: narinfo_to_string_def display_lines_def compression_lines_def deriver_lines_def opt_line_def
        comp_def split: option.splits)
qed

lemma display_lines_clean:
  assumes "values_wf table ni" "list_all (\<lambda>sg. base64_at E (sig_bytes sg)) (ni_signatures ni)"
  shows "list_all clean (display_lines E ni)"
proof -
  have "clean (join_with '' '' (map sp_to_string ps))" if "list_all sp_wf ps" for ps
    using that by (induction ps rule: induct_list012) (simp_all add: join_with_Cons)
  then have "list_all clean (references_lines ni)"
    using assms by (simp add: references_lines_def values_wf_def)
  moreover have "list_all clean (map (\<lambda>sg. ''Sig: '' @ signature_to_string E sg) (ni_signatures ni))"
    using assms by (auto simp: values_wf_def signature_to_string_def base64_at_def list_all_iff
        clean_def [of "base64_encode _ _"])
  moreover have "list_all clean (compression_lines ni)" "list_all clean (deriver_lines ni)"
    using assms
    by (auto simp: values_wf_def compression_lines_def deriver_lines_def text_field_def split: option.splits)
  moreover have "list_all clean (opt_line (\<lambda>s. ''System: '' @ s) (ni_system ni))"
    using assms by (cases "ni_system ni") (simp_all add: values_wf_def text_field_def opt_line_def)
  ultimately show ?thesis
    using assms by (simp add: display_lines_def values_wf_def text_field_def opt_line_def split: option.split)
qed

lemma narinfo_lines_append:
  "narinfo_lines E table (a @ b) st = rbind (narinfo_lines E table a st) (narinfo_lines E table b)"
proof (induction a arbitrary: st)
  case (Cons l a)
  then show ?case by (cases "narinfo_line E table l st") simp_all
qed simp

lemma narinfo_line_tag:
  "CHR '':'' \<notin> set tag \<Longrightarrow> narinfo_line E table (tag @ CHR '':'' # CHR '' '' # val) st = narinfo_field E table tag val st"
  by (simp add: narinfo_line_def)

lemmas narinfo_line_tags [simp] =
  narinfo_line_tag [of "''StorePath''", simplified] narinfo_line_tag [of "''URL''", simplified]
  narinfo_line_tag [of "''Compression''", simplified] narinfo_line_tag [of "''FileHash''", simplified]
  narinfo_line_tag [of "''FileSize''", simplified] narinfo_line_tag [of "''NarHash''", simplified]
  narinfo_line_tag [of "''NarSize''", simplified] narinfo_line_tag [of "''References''", simplified]
  narinfo_line_tag [of "''System''", simplified] narinfo_line_tag [of "''Deriver''", simplified]
  narinfo_line_tag [of "''Sig''", simplified] narinfo_line_tag [of "''CA''", simplified]

lemma narinfo_field_tags [simp]:
  "narinfo_field E table ''StorePath'' val st = store_path_field val st"
  "narinfo_field E table ''URL'' val st = url_field val st"
  "narinfo_field E table ''Compression'' val st = compression_field val st"
  "narinfo_field E table ''FileHash'' val st = file_hash_field val st"
  "narinfo_field E table ''FileSize'' val st = file_size_field val st"
  "narinfo_field E table ''NarHash'' val st = nar_hash_field E val st"
  "narinfo_field E table ''NarSize'' val st = nar_size_field val st"
  "narinfo_field E table ''References'' val st = references_field val st"
  "narinfo_field E table ''System'' val st = system_field val st"
  "narinfo_field E table ''Deriver'' val st = deriver_field val st"
  "narinfo_field E table ''Sig'' val st = sig_field E table val st"
  "narinfo_field E table ''CA'' val st = ca_field val st"
  by (simp_all add: narinfo_field_def)

lemma set_once_iff [simp]: "set_once tag old new = Inr st \<longleftrightarrow> old = None \<and> st = new"
  by (auto simp: set_once_def)

text \<open>One lemma per group of lines: read in a state without the field, they set it.\<close>

lemma read_store_path:
  "sp_wf p \<Longrightarrow> nf_store_path st = None \<Longrightarrow>
   narinfo_lines E table [''StorePath: /nix/store/'' @ sp_to_string p] st = Inr (st\<lparr>nf_store_path := Some p\<rparr>)"
  by (simp add: store_path_field_def sp_from_to_string set_once_def)

lemma read_url:
  "text_field u \<Longrightarrow> nf_url st = None \<Longrightarrow> narinfo_lines E table [''URL: '' @ u] st = Inr (st\<lparr>nf_url := Some u\<rparr>)"
  by (simp add: url_field_def text_field_def)

lemma read_compression:
  assumes "pred_option (\<lambda>c. text_field c \<and> c \<noteq> ''none'') (ni_compression ni)" "nf_compression st = None"
  shows "narinfo_lines E table (compression_lines ni) st =
    Inr (st\<lparr>nf_compression := (if bit (ni_flags ni) 1 then None
          else Some (case ni_compression ni of Some c \<Rightarrow> c | None \<Rightarrow> ''none''))\<rparr>)"
  using assms by (auto simp: compression_lines_def compression_field_def text_field_def split: option.splits)

lemma read_file_hash:
  "pred_option (\<lambda>h. length h = 32) x \<Longrightarrow> nf_file_hash st = None \<Longrightarrow>
   narinfo_lines E table (opt_line (\<lambda>h. ''FileHash: sha256:'' @ encode h) x) st = Inr (st\<lparr>nf_file_hash := x\<rparr>)"
  by (cases x) (simp_all add: opt_line_def file_hash_field_def set_once_def)

lemma read_file_size:
  "nf_file_size st = None \<Longrightarrow>
   narinfo_lines E table (opt_line (\<lambda>n. ''FileSize: '' @ u64_to_string n) x) st = Inr (st\<lparr>nf_file_size := x\<rparr>)"
  by (cases x) (simp_all add: opt_line_def file_size_field_def set_once_def)

lemma read_nar_hash:
  "length h = 32 \<Longrightarrow> hexlower_encode_len E 32 = 64 \<Longrightarrow> nf_nar_hash st = None \<Longrightarrow>
   narinfo_lines E table [''NarHash: sha256:'' @ encode h] st = Inr (st\<lparr>nf_nar_hash := Some h\<rparr>)"
  by (simp add: nar_hash_field_def encode_len_def div_ceil_def set_once_def)

lemma read_nar_size:
  "nf_nar_size st = None \<Longrightarrow>
   narinfo_lines E table [''NarSize: '' @ u64_to_string n] st = Inr (st\<lparr>nf_nar_size := Some n\<rparr>)"
  by (simp add: nar_size_field_def set_once_def)

lemma parse_references_print:
  "list_all sp_wf ps \<Longrightarrow>
   parse_references i prev flags (map sp_to_string ps) =
     Inr (if out_of_order prev (map sp_to_string ps) then flags OR REFERENCES_OUT_OF_ORDER else flags, ps)"
  by (induction ps arbitrary: i prev flags) (simp_all add: sp_from_to_string or.assoc Let_def)

lemma split_references:
  assumes "list_all sp_wf ps" "ps \<noteq> []"
  shows "split_on CHR '' '' (join_with '' '' (map sp_to_string ps)) = map sp_to_string ps"
    "join_with '' '' (map sp_to_string ps) \<noteq> []"
proof -
  show s: "split_on CHR '' '' (join_with '' '' (map sp_to_string ps)) = map sp_to_string ps"
    using assms by (intro split_join_with) (auto simp: list_all_iff sp_string_chars)
  show "join_with '' '' (map sp_to_string ps) \<noteq> []"
  proof
    assume "join_with '' '' (map sp_to_string ps) = []"
    with s have "map sp_to_string ps = [[]]" by simp
    then show False by (auto simp: sp_to_string_def)
  qed
qed

lemma read_references:
  assumes "list_all sp_wf (ni_references ni)" "nf_references st = None"
    "bit (ni_flags ni) 5 \<Longrightarrow> ni_references ni = []"
  shows "narinfo_lines E table (references_lines ni) st =
    Inr (st\<lparr>nf_flags := (if out_of_order [] (map sp_to_string (ni_references ni))
                          then nf_flags st OR REFERENCES_OUT_OF_ORDER else nf_flags st),
            nf_references := (if bit (ni_flags ni) 5 then None else Some (ni_references ni))\<rparr>)"
  using assms split_references [of "ni_references ni"]
  by (cases "ni_references ni = []")
    (auto simp: references_lines_def references_field_def parse_references_print)

lemma read_deriver:
  assumes "pred_option sp_wf (ni_deriver ni)" "nf_deriver st = None"
    "bit (ni_flags ni) 4 \<Longrightarrow> ni_deriver ni = None"
  shows "narinfo_lines E table (deriver_lines ni) st =
    Inr (st\<lparr>nf_flags := (if bit (ni_flags ni) 4 then nf_flags st OR EXPLICIT_UNKNOWN_DERIVER else nf_flags st),
            nf_deriver := ni_deriver ni\<rparr>)"
proof (cases "ni_deriver ni")
  case None
  have "strip_suffix ''.drv'' ''unknown-deriver'' = None" by (simp add: strip_suffix_def)
  with None assms show ?thesis by (simp add: deriver_lines_def deriver_field_def)
next
  case (Some d)
  have "strip_suffix ''.drv'' (sp_to_string d @ ''.drv'') = Some (sp_to_string d)" by (rule strip_suffix_append)
  with Some assms show ?thesis
    by (auto simp: deriver_lines_def deriver_field_def sp_from_to_string set_once_def simp del: strip_suffix_eq_Some)
qed

lemma read_system:
  "pred_option text_field x \<Longrightarrow> nf_system st = None \<Longrightarrow>
   narinfo_lines E table (opt_line (\<lambda>s. ''System: '' @ s) x) st = Inr (st\<lparr>nf_system := x\<rparr>)"
  by (cases x) (simp_all add: opt_line_def system_field_def text_field_def)

lemma read_signatures:
  "list_all (\<lambda>sg. signature_wf table sg \<and> base64_at E (sig_bytes sg)) sgs \<Longrightarrow>
   narinfo_lines E table (map (\<lambda>sg. ''Sig: '' @ signature_to_string E sg) sgs) st =
     Inr (st\<lparr>nf_signatures := nf_signatures st @ sgs\<rparr>)"
  by (induction sgs arbitrary: st) (simp_all add: sig_field_def signature_parse_to_string)

lemma read_ca:
  "pred_option cahash_wf x \<Longrightarrow> nf_ca st = None \<Longrightarrow>
   narinfo_lines E table (opt_line (\<lambda>c. ''CA: '' @ cahash_to_string c) x) st = Inr (st\<lparr>nf_ca := x\<rparr>)"
  by (cases x) (simp_all add: opt_line_def ca_field_def cahash_from_to)

lemmas read_lines = read_store_path read_url read_compression read_file_hash read_file_size read_nar_hash
  read_nar_size read_references read_deriver read_system read_signatures read_ca

lemma flags_roundtrip:
  assumes "flags_consistent ni"
  shows "(((if out_of_order [] (map sp_to_string (ni_references ni)) then REFERENCES_OUT_OF_ORDER else 0)
     OR (if bit (ni_flags ni) 4 then EXPLICIT_UNKNOWN_DERIVER else 0))
     OR (if bit (ni_flags ni) 5 then REFERENCES_MISSING else 0))
     OR (if bit (ni_flags ni) 1 then COMPRESSION_DEFAULT else 0) = ni_flags ni"
proof (rule flags_eqI)
  fix n :: nat
  assume "n < 8"
  then consider "n = 0" | "n = 1" | "n = 2" | "n = 3" | "n = 4" | "n = 5" | "n = 6" | "n = 7" by linarith
  then show "bit ((((if out_of_order [] (map sp_to_string (ni_references ni)) then REFERENCES_OUT_OF_ORDER else 0)
     OR (if bit (ni_flags ni) 4 then EXPLICIT_UNKNOWN_DERIVER else 0))
     OR (if bit (ni_flags ni) 5 then REFERENCES_MISSING else 0))
     OR (if bit (ni_flags ni) 1 then COMPRESSION_DEFAULT else 0)) n \<longleftrightarrow> bit (ni_flags ni) n"
    by cases (use assms in \<open>simp_all add: flags_consistent_def bit_or_iff\<close>)
qed

lemma narinfo_parse_display:
  assumes wf: "narinfo_wf table ni"
    and b64: "list_all (\<lambda>sg. base64_at E (sig_bytes sg)) (ni_signatures ni)"
    and hex: "hexlower_encode_len E 32 = 64"
  shows "narinfo_parse E table (narinfo_to_string E ni) = Inr ni"
proof -
  have v: "values_wf table ni" and f: "flags_consistent ni" using wf by (simp_all add: narinfo_wf_def)
  have sigs: "list_all (\<lambda>sg. signature_wf table sg \<and> base64_at E (sig_bytes sg)) (ni_signatures ni)"
    using v b64 by (simp add: values_wf_def list_all_iff)
  have l: "str_lines (narinfo_to_string E ni) = display_lines E ni"
    using str_lines_concat_writeln [OF display_lines_clean [OF v b64]] by (simp only: narinfo_to_string_lines)
  define st where "st = \<lparr>
      nf_flags = (if out_of_order [] (map sp_to_string (ni_references ni)) then REFERENCES_OUT_OF_ORDER else 0)
         OR (if bit (ni_flags ni) 4 then EXPLICIT_UNKNOWN_DERIVER else 0),
      nf_store_path = Some (ni_store_path ni), nf_url = Some (ni_url ni),
      nf_compression = (if bit (ni_flags ni) 1 then None
          else Some (case ni_compression ni of Some c \<Rightarrow> c | None \<Rightarrow> ''none'')),
      nf_file_hash = ni_file_hash ni, nf_file_size = ni_file_size ni, nf_nar_hash = Some (ni_nar_hash ni),
      nf_nar_size = Some (ni_nar_size ni),
      nf_references = (if bit (ni_flags ni) 5 then None else Some (ni_references ni)),
      nf_system = ni_system ni, nf_deriver = ni_deriver ni, nf_signatures = ni_signatures ni, nf_ca = ni_ca ni\<rparr>"
  have "narinfo_lines E table (display_lines E ni) narinfo_fields_empty = Inr st"
    unfolding display_lines_def narinfo_lines_append
    using v f sigs hex
    by (simp only: read_lines values_wf_def flags_consistent_def flags_contains_iff rbind_simps
        narinfo_fields_empty_def narinfo_fields.simps) (simp add: st_def)
  moreover have "narinfo_finish st = Inr ni"
    using v f flags_roundtrip [OF f]
    by (cases ni) (auto simp: st_def narinfo_finish_def values_wf_def flags_consistent_def text_field_def
        split: option.splits)
  ultimately show ?thesis by (simp add: narinfo_parse_def l)
qed

section \<open>What is parsed is well-formed\<close>

text \<open>\<open>HEXLOWER\<close> writes two characters per byte, and decodes 64 characters to 32 bytes.\<close>

definition hexlower_32 :: "data_encoding \<Rightarrow> bool" where
  "hexlower_32 E \<longleftrightarrow> hexlower_encode_len E 32 = 64 \<and>
     (\<forall>s d. length s = 64 \<longrightarrow> hexlower_decode E s = Inr d \<longrightarrow> length d = 32)"

definition fields_inv :: "(nat \<Rightarrow> bool) \<Rightarrow> narinfo_fields \<Rightarrow> bool" where
  "fields_inv table st \<longleftrightarrow>
     pred_option sp_wf (nf_store_path st) \<and> pred_option text_field (nf_url st) \<and>
     pred_option text_field (nf_compression st) \<and> pred_option (\<lambda>h. length h = 32) (nf_file_hash st) \<and>
     pred_option (\<lambda>h. length h = 32) (nf_nar_hash st) \<and> pred_option (list_all sp_wf) (nf_references st) \<and>
     pred_option text_field (nf_system st) \<and> pred_option sp_wf (nf_deriver st) \<and>
     list_all (\<lambda>sg. signature_wf table sg \<and> clean (sig_name sg)) (nf_signatures st) \<and>
     pred_option cahash_wf (nf_ca st) \<and>
     \<not> bit (nf_flags st) 1 \<and> \<not> bit (nf_flags st) 5 \<and> \<not> bit (nf_flags st) 6 \<and> \<not> bit (nf_flags st) 7 \<and>
     (bit (nf_flags st) 2 \<longleftrightarrow>
        (case nf_references st of None \<Rightarrow> False | Some ps \<Rightarrow> out_of_order [] (map sp_to_string ps)))"

lemma fields_inv_empty: "fields_inv table narinfo_fields_empty"
  by (simp add: fields_inv_def narinfo_fields_empty_def)

lemma parse_references_sound:
  "parse_references i prev flags ss = Inr (f, ps) \<Longrightarrow>
   list_all sp_wf ps \<and> ss = map sp_to_string ps \<and>
   f = (if out_of_order prev ss then flags OR REFERENCES_OUT_OF_ORDER else flags)"
proof (induction ss arbitrary: i prev flags f ps)
  case (Cons s ss)
  then obtain p qs g where s: "sp_from_bytes s = Inr p" and ps: "ps = p # qs"
    and r: "parse_references (i + 1) s (if s \<le> prev then flags OR REFERENCES_OUT_OF_ORDER else flags) ss = Inr (f, qs)"
    by (auto simp: Let_def)
  from Cons.IH [OF r] sp_from_bytes_sound [OF s] show ?case
    by (auto simp: ps or.assoc)
qed simp

lemma references_field_inv:
  assumes "fields_inv table st" "references_field val st = Inr st'"
  shows "fields_inv table st'"
proof -
  from assms(2) obtain f ps where none: "nf_references st = None"
    and st': "st' = st\<lparr>nf_flags := f, nf_references := Some ps\<rparr>"
    and r: "(if val \<noteq> [] then parse_references 0 [] (nf_flags st) (split_on CHR '' '' val)
            else Inr (nf_flags st, [])) = Inr (f, ps)"
    by (auto simp: references_field_def)
  have "list_all sp_wf ps \<and>
    f = (if out_of_order [] (map sp_to_string ps) then nf_flags st OR REFERENCES_OUT_OF_ORDER else nf_flags st)"
    using r parse_references_sound [of 0 "[]" "nf_flags st" "split_on CHR '' '' val" f ps]
    by (cases "val = []") auto
  then show ?thesis using assms(1) none by (auto simp: fields_inv_def st' bit_or_iff)
qed

lemma nar_hash_field_inv:
  assumes "hexlower_32 E" "fields_inv table st" "nar_hash_field E val st = Inr st'"
  shows "fields_inv table st'"
proof -
  from assms(3) obtain v where v: "val = ''sha256:'' @ v" by (auto simp: nar_hash_field_def)
  have h: "hexlower_encode_len E 32 = 64" and d: "\<And>d. length v = 64 \<Longrightarrow> hexlower_decode E v = Inr d \<Longrightarrow> length d = 32"
    using assms(1) by (auto simp: hexlower_32_def)
  show ?thesis
  proof (cases "length v = 64")
    case True
    with assms(3) obtain hash where "hexlower_decode E v = Inr hash"
      "st' = st\<lparr>nf_flags := nf_flags st OR NAR_HASH_HEX, nf_nar_hash := Some hash\<rparr>"
      by (auto simp: nar_hash_field_def v h)
    with d True assms(2) show ?thesis by (simp add: fields_inv_def bit_or_iff)
  next
    case False
    with assms(2,3) show ?thesis by (auto simp: nar_hash_field_def v h fields_inv_def decode_fixed_iff)
  qed
qed

lemma deriver_field_inv:
  assumes "fields_inv table st" "deriver_field val st = Inr st'"
  shows "fields_inv table st'"
  using assms
  by (auto simp: deriver_field_def fields_inv_def bit_or_iff simp del: strip_suffix_eq_Some
      dest: sp_from_bytes_sound split: option.splits if_splits)

lemma sig_field_inv:
  assumes "clean val" "fields_inv table st" "sig_field E table val st = Inr st'"
  shows "fields_inv table st'"
  using assms by (auto simp: sig_field_def fields_inv_def dest!: signature_parse_sound)

lemma text_fields_inv:
  assumes "clean val" "fields_inv table st"
  shows "url_field val st = Inr st' \<Longrightarrow> fields_inv table st'"
    "compression_field val st = Inr st' \<Longrightarrow> fields_inv table st'"
    "system_field val st = Inr st' \<Longrightarrow> fields_inv table st'"
  using assms
  by (auto simp: url_field_def compression_field_def system_field_def fields_inv_def text_field_def
      split: if_splits)

lemma other_fields_inv:
  assumes "fields_inv table st"
  shows "store_path_field val st = Inr st' \<Longrightarrow> fields_inv table st'"
    "file_hash_field val st = Inr st' \<Longrightarrow> fields_inv table st'"
    "file_size_field val st = Inr st' \<Longrightarrow> fields_inv table st'"
    "nar_size_field val st = Inr st' \<Longrightarrow> fields_inv table st'"
    "ca_field val st = Inr st' \<Longrightarrow> fields_inv table st'"
  using assms
  by (auto simp: store_path_field_def file_hash_field_def file_size_field_def nar_size_field_def ca_field_def
      fields_inv_def decode_fixed_iff dest: sp_from_bytes_sound cahash_from_sound)

lemma narinfo_line_inv:
  assumes "hexlower_32 E" "clean line" "fields_inv table st" "narinfo_line E table line st = Inr st'"
  shows "fields_inv table st'"
proof -
  from assms(4) obtain tag val where "line = tag @ CHR '':'' # CHR '' '' # val"
    and r: "narinfo_field E table tag val st = Inr st'"
    by (auto simp: narinfo_line_def split_once_eq_Some)
  then have c: "clean val" using assms(2) by simp
  have u: "fields_inv table (st\<lparr>nf_flags := nf_flags st OR UNKNOWN_FIELD\<rparr>)"
    using assms(3) by (simp add: fields_inv_def bit_or_iff)
  show ?thesis
    using r u
    by (simp add: narinfo_field_def split: if_splits;
        blast intro: references_field_inv nar_hash_field_inv deriver_field_inv sig_field_inv text_fields_inv
          other_fields_inv assms(1,3) c)
qed

lemma narinfo_lines_inv:
  "hexlower_32 E \<Longrightarrow> list_all clean ls \<Longrightarrow> fields_inv table st \<Longrightarrow> narinfo_lines E table ls st = Inr st'
   \<Longrightarrow> fields_inv table st'"
  by (induction ls arbitrary: st) (auto dest: narinfo_line_inv)

text \<open>
  The NARInfo without what its text form does not keep: the flags for an unknown field and for a
  hexadecimal hash, and the mark of an explicitly unknown deriver when there is a deriver after all.
\<close>

definition normalise :: "narinfo \<Rightarrow> narinfo" where
  "normalise ni = ni\<lparr>ni_flags := ni_flags ni AND NOT UNKNOWN_FIELD AND NOT NAR_HASH_HEX
     AND (if ni_deriver ni = None then NOT 0 else NOT EXPLICIT_UNKNOWN_DERIVER)\<rparr>"

lemma bit_normalise:
  "bit (ni_flags (normalise ni)) n \<longleftrightarrow>
     bit (ni_flags ni) n \<and> n \<noteq> 0 \<and> n \<noteq> 3 \<and> (n = 4 \<longrightarrow> ni_deriver ni = None)"
  using bit_imp_le_length [of "ni_flags ni" n]
  by (auto simp: normalise_def bit_and_iff bit_not_iff bit_minus_1_iff)

lemma normalise_sel [simp]:
  "ni_store_path (normalise ni) = ni_store_path ni" "ni_nar_hash (normalise ni) = ni_nar_hash ni"
  "ni_nar_size (normalise ni) = ni_nar_size ni" "ni_references (normalise ni) = ni_references ni"
  "ni_signatures (normalise ni) = ni_signatures ni" "ni_ca (normalise ni) = ni_ca ni"
  "ni_system (normalise ni) = ni_system ni" "ni_deriver (normalise ni) = ni_deriver ni"
  "ni_url (normalise ni) = ni_url ni" "ni_compression (normalise ni) = ni_compression ni"
  "ni_file_hash (normalise ni) = ni_file_hash ni" "ni_file_size (normalise ni) = ni_file_size ni"
  by (simp_all add: normalise_def)

lemma display_normalise: "narinfo_to_string E (normalise ni) = narinfo_to_string E ni"
  by (simp add: narinfo_to_string_def bit_normalise split: option.split)

lemma narinfo_finish_wf:
  assumes inv: "fields_inv table st" and fin: "narinfo_finish st = Inr ni"
  shows "narinfo_wf table (normalise ni)"
proof -
  have "values_wf table (normalise ni)"
    using assms
    by (auto simp: narinfo_finish_def fields_inv_def values_wf_def text_field_def split: if_splits option.splits)
  moreover have "flags_consistent (normalise ni)"
    using assms
    by (auto simp: narinfo_finish_def fields_inv_def flags_consistent_def bit_normalise bit_or_iff
        split: if_splits option.splits)
  ultimately show ?thesis by (simp add: narinfo_wf_def)
qed

lemma narinfo_parse_wf:
  assumes "narinfo_parse E table s = Inr ni" "hexlower_32 E" "CHR 0x0D \<notin> set s"
  shows "narinfo_wf table (normalise ni)"
proof -
  from assms(1) obtain st where "narinfo_lines E table (str_lines s) narinfo_fields_empty = Inr st"
    "narinfo_finish st = Inr ni" by (auto simp: narinfo_parse_def)
  moreover have "list_all clean (str_lines s)" using str_lines_clean [OF assms(3)] by (simp add: list_all_iff)
  ultimately show ?thesis
    using narinfo_lines_inv [OF assms(2) _ fields_inv_empty] narinfo_finish_wf by blast
qed

section \<open>Fingerprints\<close>

lemma fingerprint_references_join: "fingerprint_references rs = join_with '','' (map sp_to_absolute_path rs)"
  by (induction rs rule: induct_list012) simp_all

lemma semicolon_free:
  "sp_wf p \<Longrightarrow> CHR '';'' \<notin> set (sp_to_absolute_path p)" "CHR '';'' \<notin> set (encode b)"
  "CHR '';'' \<notin> set (u64_to_string w)"
proof -
  have e: "CHR '';'' \<notin> set (encode b)" for b
    using encode_valid [of b] by (auto simp: ALPHABET_def)
  show "CHR '';'' \<notin> set (encode b)" by (rule e)
  show "CHR '';'' \<notin> set (u64_to_string w)"
    using decimal_no_char by (simp add: u64_to_string_def is_ascii_digit_def)
  assume "sp_wf p"
  then have "CHR '';'' \<notin> set (sp_name p)"
    by (fastforce simp: sp_wf_def name_ok_def list_all_iff name_char_match_def)
  with e show "CHR '';'' \<notin> set (sp_to_absolute_path p)"
    by (simp add: sp_to_absolute_path_def sp_to_string_def STORE_DIR_WITH_SLASH_def)
qed

lemma join_paths_inj:
  assumes "list_all sp_wf ps" "list_all sp_wf qs" "fingerprint_references ps = fingerprint_references qs"
  shows "ps = qs"
proof -
  have n: "fingerprint_references rs = [] \<longleftrightarrow> rs = []" for rs
    by (cases rs) (simp_all add: sp_to_absolute_path_def STORE_DIR_WITH_SLASH_def)
  have c: "CHR '','' \<notin> set s" if "list_all sp_wf rs" "s \<in> set (map sp_to_absolute_path rs)" for rs s
    using that sp_absolute_path_chars by (auto simp: list_all_iff)
  show ?thesis
  proof (cases "ps = []")
    case True
    then show ?thesis using n [of qs] assms(3) by simp
  next
    case False
    then have "qs \<noteq> []" using n [of ps] n [of qs] assms(3) by simp
    with False have "map sp_to_absolute_path ps = map sp_to_absolute_path qs"
      using join_with_inj [of "CHR '',''" "map sp_to_absolute_path ps" "map sp_to_absolute_path qs"] assms c
      by (simp add: fingerprint_references_join)
    then show ?thesis using map_sp_to_absolute_path_inj [of ps qs] assms(1,2) by (simp add: list_all_iff)
  qed
qed

definition fingerprint_parts :: "store_path \<Rightarrow> u8 list \<Rightarrow> u64 \<Rightarrow> store_path list \<Rightarrow> string list" where
  "fingerprint_parts p h n rs =
     [''1'', sp_to_absolute_path p, ''sha256:'' @ encode h, u64_to_string n, fingerprint_references rs]"

lemma fingerprint_join: "fingerprint p h n rs = join_with '';'' (fingerprint_parts p h n rs)"
  by (simp add: fingerprint_def fingerprint_parts_def)

lemma fingerprint_parts_free:
  assumes "sp_wf p" "list_all sp_wf rs" "s \<in> set (fingerprint_parts p h n rs)"
  shows "CHR '';'' \<notin> set s"
proof -
  have "CHR '';'' \<notin> set (fingerprint_references rs)" if "list_all sp_wf rs" for rs
    using that by (induction rs) (simp_all add: semicolon_free)
  with assms show ?thesis by (auto simp: fingerprint_parts_def semicolon_free)
qed

lemma narinfo_fingerprint_inj:
  assumes "sp_wf p" "list_all sp_wf rs" "sp_wf p'" "list_all sp_wf rs'" "fingerprint p h n rs = fingerprint p' h' n' rs'"
  shows "p = p' \<and> h = h' \<and> n = n' \<and> rs = rs'"
proof -
  have "fingerprint_parts p h n rs = fingerprint_parts p' h' n' rs'"
    using join_with_inj [of "CHR '';''" "fingerprint_parts p h n rs" "fingerprint_parts p' h' n' rs'"] assms
      fingerprint_parts_free
    by (simp add: fingerprint_join) (simp add: fingerprint_parts_def)
  then show ?thesis
    using assms sp_to_absolute_path_inj u64_to_string_inj join_paths_inj by (simp add: fingerprint_parts_def)
qed

section \<open>Properties\<close>

text \<open>
  C16: printing and parsing: a NARInfo whose fields hold what the file can express and whose flags
  agree with them is printed to a text from which \<open>parse\<close> gives back the same NARInfo, flags
  included. The hypotheses on the encoding are those of \<open>data_encoding\<close> at the signatures of this
  NARInfo, and that a hexadecimal digest has 64 characters.
\<close>

theorem narinfo_roundtrip:
  assumes "narinfo_wf table ni" "\<forall>sg \<in> set (ni_signatures ni). base64_at E (sig_bytes sg)"
    "hexlower_encode_len E 32 = 64"
  shows "narinfo_parse E table (narinfo_to_string E ni) = Inr ni"
  using narinfo_parse_display assms by (simp add: list_all_iff)

text \<open>A concrete encoding for the witnesses: nixbase32 in the place of base64.\<close>

definition example_codec :: data_encoding where
  "example_codec =
     \<lparr>hexlower_encode_len = (\<lambda>n. 2 * n), hexlower_encode = (\<lambda>_. []),
      hexlower_decode = (\<lambda>s. Inr (replicate (length s div 2) 0)),
      base64_encode_len = encode_len, base64_encode = encode, base64_decode = decode,
      base64_nopad_encode_len = encode_len, base64_nopad_lax_decode = decode\<rparr>"

definition example_path :: store_path where
  "example_path = \<lparr>sp_digest = replicate 20 0, sp_name = ''hello-2.12''\<rparr>"

definition example_narinfo :: narinfo where
  "example_narinfo =
     \<lparr>ni_flags = COMPRESSION_DEFAULT OR EXPLICIT_UNKNOWN_DERIVER, ni_store_path = example_path,
      ni_nar_hash = replicate 32 7, ni_nar_size = 196040, ni_references = [example_path],
      ni_signatures = [\<lparr>sig_name = ''cache.example.com-1'', sig_bytes = replicate 64 1\<rparr>],
      ni_ca = Some (CAText (replicate 32 3)), ni_system = Some ''x86_64-linux'', ni_deriver = None,
      ni_url = ''nar/0a.nar.xz'', ni_compression = Some ''bzip2'', ni_file_hash = Some (replicate 32 5),
      ni_file_size = Some 68852\<rparr>"

lemma example_base64: "base64_at example_codec b"
  using clean_encode [of b] by (simp add: base64_at_def example_codec_def clean_def)

lemma example_sp_wf: "sp_wf example_path"
  by (simp add: sp_wf_def example_path_def DIGEST_SIZE_def name_ok_def name_char_match_def)

lemma example_key_name: "valid_key_name table ''cache.example.com-1''"
  by (simp add: valid_key_name_def str_chars_ascii is_alphanumeric_def)

lemma example_narinfo_wf: "narinfo_wf table example_narinfo"
proof -
  have "values_wf table example_narinfo"
    using example_key_name
    by (simp add: values_wf_def example_narinfo_def example_sp_wf signature_wf_def SIGNATURE_LENGTH_def
        text_field_def cahash_wf_def nixhash_wf_def)
  moreover have "\<not> sp_to_string example_path \<le> []" by (simp add: sp_to_string_def example_path_def)
  then have "flags_consistent example_narinfo"
    by (simp add: flags_consistent_def example_narinfo_def bit_or_iff)
  ultimately show ?thesis by (simp add: narinfo_wf_def)
qed

theorem narinfo_roundtrip_witness:
  "narinfo_parse example_codec (\<lambda>_. False) (narinfo_to_string example_codec example_narinfo) = Inr example_narinfo"
  by (rule narinfo_roundtrip [OF example_narinfo_wf])
    (simp_all add: example_base64, simp add: example_codec_def)

text \<open>
  C18: parsing is a normal form: whatever text without carriage returns \<open>parse\<close> accepts, what it
  returns is printed to a text that \<open>parse\<close> accepts again, with the same result up to the flags
  for unknown fields, for a hexadecimal hash and for an unknown deriver beside a known one, which
  the printed form has no place for. In particular every accepted NARInfo has store paths, hashes
  and signatures of the right form.
\<close>

theorem narinfo_reparse:
  assumes "narinfo_parse E table s = Inr ni" "CHR 0x0D \<notin> set s" "hexlower_32 E"
    "\<forall>sg \<in> set (ni_signatures ni). base64_at E (sig_bytes sg)"
  shows "narinfo_parse E table (narinfo_to_string E ni) = Inr (normalise ni) \<and> narinfo_wf table (normalise ni)"
proof -
  have wf: "narinfo_wf table (normalise ni)" using narinfo_parse_wf assms(1-3) by blast
  moreover have "hexlower_encode_len E 32 = 64" using assms(3) by (simp add: hexlower_32_def)
  ultimately have "narinfo_parse E table (narinfo_to_string E (normalise ni)) = Inr (normalise ni)"
    using assms(4) by (intro narinfo_parse_display) (simp_all add: list_all_iff)
  then show ?thesis using wf by (simp add: display_normalise)
qed

lemma display_no_cr:
  assumes "values_wf table ni" "list_all (\<lambda>sg. base64_at E (sig_bytes sg)) (ni_signatures ni)"
  shows "CHR 0x0D \<notin> set (narinfo_to_string E ni)"
  using display_lines_clean [OF assms]
  by (auto simp: narinfo_to_string_lines writeln_def list_all_iff clean_def)

theorem narinfo_reparse_witness:
  "narinfo_parse example_codec (\<lambda>_. False) (narinfo_to_string example_codec example_narinfo)
     = Inr (normalise example_narinfo)"
proof -
  have b: "list_all (\<lambda>sg. base64_at example_codec (sig_bytes sg)) (ni_signatures example_narinfo)"
    by (simp add: list_all_iff example_base64)
  have h: "hexlower_32 example_codec" by (simp add: hexlower_32_def example_codec_def)
  have c: "CHR 0x0D \<notin> set (narinfo_to_string example_codec example_narinfo)"
    by (rule display_no_cr [OF _ b, of "\<lambda>_. False"]) (use example_narinfo_wf in \<open>simp add: narinfo_wf_def\<close>)
  have p: "narinfo_parse example_codec (\<lambda>_. False) (narinfo_to_string example_codec example_narinfo) = Inr example_narinfo"
    by (rule narinfo_parse_display [OF example_narinfo_wf b]) (use h in \<open>simp add: hexlower_32_def\<close>)
  show ?thesis using narinfo_reparse [OF p c h] example_base64 by blast
qed

text \<open>
  C39: what a signature covers: two NARInfos with the same fingerprint have the same store path,
  NAR hash, NAR size and references, so a signature made for one is valid for no other content.
\<close>

theorem narinfo_fingerprint_unambiguous:
  assumes "narinfo_wf table a" "narinfo_wf table b" "narinfo_fingerprint a = narinfo_fingerprint b"
  shows "ni_store_path a = ni_store_path b \<and> ni_nar_hash a = ni_nar_hash b \<and> ni_nar_size a = ni_nar_size b \<and>
    ni_references a = ni_references b"
  using assms narinfo_fingerprint_inj
  unfolding narinfo_wf_def values_wf_def narinfo_fingerprint_def by blast

theorem narinfo_fingerprint_unambiguous_witness:
  "narinfo_fingerprint example_narinfo \<noteq> narinfo_fingerprint (example_narinfo\<lparr>ni_nar_size := 1\<rparr>)"
proof
  assume eq: "narinfo_fingerprint example_narinfo = narinfo_fingerprint (example_narinfo\<lparr>ni_nar_size := 1\<rparr>)"
  have "narinfo_wf (\<lambda>_. False) (example_narinfo\<lparr>ni_nar_size := 1\<rparr>)"
    using example_narinfo_wf [of "\<lambda>_. False"] by (simp add: narinfo_wf_def values_wf_def flags_consistent_def)
  from narinfo_fingerprint_unambiguous [OF example_narinfo_wf this eq]
  show False by (simp add: example_narinfo_def)
qed

text \<open>
  C40: a signature line can crash the parser: if the lines so far are accepted and the next is a
  \<open>Sig\<close> with a valid name and a base64 text of the expected length that decodes to another number
  of bytes than 64, \<open>parse\<close> panics instead of returning an error. 88 base64 characters without
  padding, which decode to 66 bytes, are such a text.
\<close>

theorem narinfo_parse_panics:
  assumes "list_all clean ls" "narinfo_lines E table ls narinfo_fields_empty = Inr st"
    and "valid_key_name table name" "CHR '':'' \<notin> set name" "clean name" "clean bytes64"
    and "length bytes64 = base64_encode_len E SIGNATURE_LENGTH"
    and "base64_decode E bytes64 = Inr bytes" "length bytes \<noteq> SIGNATURE_LENGTH"
  shows "narinfo_parse E table (concat (map writeln ls) @ writeln (''Sig: '' @ name @ '':'' @ bytes64) @ rest)
     = Inl NarInfoPanic"
proof -
  let ?l = "''Sig: '' @ name @ '':'' @ bytes64"
  have "str_lines (concat (map writeln ls) @ writeln ?l @ rest) = ls @ ?l # str_lines rest" if "list_all clean ls" for ls
    using that
  proof (induction ls)
    case Nil
    show ?case using assms(5,6) str_lines_writeln [of ?l rest] by simp
  qed (simp add: str_lines_writeln)
  moreover have "narinfo_line E table ?l st = Inl NarInfoPanic"
    using signature_parse_panics [OF assms(3,4,7-9)] by (simp add: sig_field_def)
  ultimately show ?thesis using assms(1,2) by (simp add: narinfo_parse_def narinfo_lines_append)
qed

theorem narinfo_parse_panics_witness:
  "narinfo_parse example_encoding (\<lambda>_. False)
     (concat (map writeln []) @ writeln (''Sig: '' @ ''cache.example.com-1'' @ '':'' @ replicate 88 (CHR ''A'')) @ [])
     = Inl NarInfoPanic"
  by (rule narinfo_parse_panics [OF _ _ example_key_name, where bytes = "replicate 66 0"])
    (simp_all add: example_encoding_def SIGNATURE_LENGTH_def clean_def)

text \<open>
  C17: signing, publishing and verifying compose. From the text of a key pair, made of a secret and the public key derived from it,
  \<open>parse_keypair\<close> reads a signing key. A NARInfo signed with it is read back from its text as it was written, and the key that
  \<open>VerifyingKey::parse\<close> reads from the text of the public key alone accepts the added signature for the fingerprint of
  what was read; a key of another name rejects it. Of ed25519 itself only \<open>ed25519_law\<close> is used. That the public half of the text
  is the derived key is a hypothesis, since \<open>parse_keypair\<close> does not check it (\<open>parse_keypair_halves\<close>).
\<close>

theorem signed_narinfo_verifies:
  assumes "narinfo_wf table ni" "valid_key_name table name" "CHR '':'' \<notin> set name" "clean name" "length secret = 32"
    and "ed25519_law C derive" "\<And>b. base64_at E b" "hexlower_encode_len E 32 = 64"
  shows "\<exists>sk vk vk' ni'.
     parse_keypair E table C (name @ '':'' @ base64_encode E (secret @ derive secret)) = Inr (sk, vk) \<and>
     verifying_key_parse E table C (name @ '':'' @ base64_encode E (derive secret)) = Inr vk' \<and>
     narinfo_parse E table (narinfo_to_string E (add_signature C sk ni)) = Inr ni' \<and>
     ni_signatures ni' \<noteq> [] \<and> butlast (ni_signatures ni') = ni_signatures ni \<and>
     verifying_key_verify C vk' (narinfo_fingerprint ni') (last (ni_signatures ni')) \<and>
     (\<forall>other. vk_name other \<noteq> name \<longrightarrow> \<not> verifying_key_verify C other (narinfo_fingerprint ni') (last (ni_signatures ni')))"
proof -
  obtain vk where vk: "length (derive secret) = 32" "vk_from_bytes C (derive secret) = Some vk"
    "\<And>m. length (sk_sign C (sk_from_bytes C secret) m) = 64" "\<And>m. vk_verify_strict C vk m (sk_sign C (sk_from_bytes C secret) m)"
    using assms(5, 6) by (auto simp: ed25519_law_def)
  let ?sk = "\<lparr>sk_name = name, sk_key = sk_from_bytes C secret\<rparr>" and ?vk = "\<lparr>vk_name = name, vk_key = vk\<rparr>"
  let ?ni = "add_signature C ?sk ni"
  have sg: "ni_signatures ?ni = ni_signatures ni @ [signing_key_sign C ?sk (narinfo_fingerprint ni)]"
    and fp: "narinfo_fingerprint ?ni = narinfo_fingerprint ni"
    by (simp_all add: add_signature_def Let_def narinfo_fingerprint_def)
  have "narinfo_wf table ?ni"
    using assms(1-4) vk(3)
    by (auto simp: narinfo_wf_def values_wf_def flags_consistent_def add_signature_def Let_def signing_key_sign_def
        signature_wf_def SIGNATURE_LENGTH_def)
  then have "narinfo_parse E table (narinfo_to_string E ?ni) = Inr ?ni"
    using narinfo_parse_display assms(7, 8) by (simp add: list_all_iff)
  moreover have "verifying_key_verify C ?vk (narinfo_fingerprint ?ni) (last (ni_signatures ?ni))"
    "\<forall>other. vk_name other \<noteq> name \<longrightarrow> \<not> verifying_key_verify C other (narinfo_fingerprint ?ni) (last (ni_signatures ?ni))"
    using sg fp vk(4) by (simp_all add: verify_sign)
  ultimately show ?thesis
    using parse_keypair_halves [where E = E and C = C and secret = secret, OF assms(2,3,5) vk(1) assms(7) vk(2)]
      verifying_key_parse_text [where E = E and C = C, OF assms(2,3) vk(1) assms(7) vk(2)] sg by (simp add: exI [of _ ?ni])
qed

text \<open>A toy signature scheme: the public key is the secret with every byte incremented.\<close>

definition example_derive :: "u8 list \<Rightarrow> u8 list" where
  "example_derive = map (\<lambda>b. b + 1)"

definition example_tag :: "u8 list \<Rightarrow> string \<Rightarrow> u8 list" where
  "example_tag key m = take 64 (key @ replicate 64 (of_nat (length m)))"

definition example_ed25519 :: "(u8 list, u8 list) ed25519" where
  "example_ed25519 =
     \<lparr>vk_from_bytes = (\<lambda>b. Some b), vk_as_bytes = (\<lambda>b. b), vk_verify_strict = (\<lambda>vk m sg. sg = example_tag vk m),
      sk_from_bytes = (\<lambda>b. b), sk_sign = (\<lambda>sk. example_tag (example_derive sk))\<rparr>"

lemma example_ed25519_law: "ed25519_law example_ed25519 example_derive"
  by (simp add: ed25519_law_def example_ed25519_def example_derive_def example_tag_def)

theorem signed_narinfo_verifies_witness:
  "\<exists>sk vk vk' ni'.
     parse_keypair example_codec (\<lambda>_. False) example_ed25519
       (''cache.example.com-1'' @ '':'' @ encode (replicate 32 7 @ example_derive (replicate 32 7))) = Inr (sk, vk) \<and>
     verifying_key_parse example_codec (\<lambda>_. False) example_ed25519
       (''cache.example.com-1'' @ '':'' @ encode (example_derive (replicate 32 7))) = Inr vk' \<and>
     narinfo_parse example_codec (\<lambda>_. False) (narinfo_to_string example_codec (add_signature example_ed25519 sk example_narinfo)) = Inr ni' \<and>
     verifying_key_verify example_ed25519 vk' (narinfo_fingerprint ni') (last (ni_signatures ni'))"
proof -
  have e: "base64_encode example_codec = encode" by (simp add: example_codec_def)
  have "length (replicate 32 (7 :: u8)) = 32" by simp
  from signed_narinfo_verifies [where name = "''cache.example.com-1''" and E = example_codec,
      OF example_narinfo_wf example_key_name _ _ this example_ed25519_law example_base64, of "\<lambda>_. False"]
  have "\<exists>sk vk vk' ni'.
     parse_keypair example_codec (\<lambda>_. False) example_ed25519
       (''cache.example.com-1'' @ '':'' @ base64_encode example_codec (replicate 32 7 @ example_derive (replicate 32 7))) = Inr (sk, vk) \<and>
     verifying_key_parse example_codec (\<lambda>_. False) example_ed25519
       (''cache.example.com-1'' @ '':'' @ base64_encode example_codec (example_derive (replicate 32 7))) = Inr vk' \<and>
     narinfo_parse example_codec (\<lambda>_. False) (narinfo_to_string example_codec (add_signature example_ed25519 sk example_narinfo)) = Inr ni' \<and>
     verifying_key_verify example_ed25519 vk' (narinfo_fingerprint ni') (last (ni_signatures ni'))"
    by (simp add: clean_def example_codec_def) blast
  then show ?thesis unfolding e .
qed

end
