(* ===== verification/BTree.thy ===== *)
theory BTree
  imports Prelude
begin

text \<open>
  The ordered collections of the Rust standard library that the components use. A \<open>BTreeMap\<close> is
  the list of its entries in the order in which it iterates, a \<open>BTreeSet\<close> the list of its
  elements. Both compare keys with the key type's \<open>Ord\<close> only, here the parameter \<open>lt\<close>: a key that
  is neither smaller nor larger than a stored one counts as present, the stored key is kept and
  the value is replaced, as the standard library documents.

  The locale \<open>key_order\<close> is the contract the key type has to keep (a strict weak order); the laws
  of the collections are proved in it and used through its interpretations.
\<close>

fun btree_insert :: "('k \<Rightarrow> 'k \<Rightarrow> bool) \<Rightarrow> 'k \<Rightarrow> 'v \<Rightarrow> ('k \<times> 'v) list \<Rightarrow> ('k \<times> 'v) list \<times> 'v option" where
  "btree_insert lt k v [] = ([(k, v)], None)"
| "btree_insert lt k v ((k', v') # m) =
     (if lt k' k then (let (m', old) = btree_insert lt k v m in ((k', v') # m', old))
      else if lt k k' then ((k, v) # (k', v') # m, None)
      else ((k', v) # m, Some v'))"

fun btree_get :: "('k \<Rightarrow> 'k \<Rightarrow> bool) \<Rightarrow> 'k \<Rightarrow> ('k \<times> 'v) list \<Rightarrow> 'v option" where
  "btree_get lt k [] = None"
| "btree_get lt k ((k', v') # m) = (if lt k' k \<or> lt k k' then btree_get lt k m else Some v')"

abbreviation btree_put :: "('k \<Rightarrow> 'k \<Rightarrow> bool) \<Rightarrow> 'k \<Rightarrow> 'v \<Rightarrow> ('k \<times> 'v) list \<Rightarrow> ('k \<times> 'v) list" where
  "btree_put lt k v m \<equiv> fst (btree_insert lt k v m)"

definition btree_set_insert :: "('k \<Rightarrow> 'k \<Rightarrow> bool) \<Rightarrow> 'k \<Rightarrow> 'k list \<Rightarrow> 'k list" where
  "btree_set_insert lt k s = map fst (btree_put lt k () (map (\<lambda>x. (x, ())) s))"

definition btree_set_contains :: "('k \<Rightarrow> 'k \<Rightarrow> bool) \<Rightarrow> 'k \<Rightarrow> 'k list \<Rightarrow> bool" where
  "btree_set_contains lt k s \<longleftrightarrow> (\<exists>x\<in>set s. \<not> lt x k \<and> \<not> lt k x)"

definition btree_sorted :: "('k \<Rightarrow> 'k \<Rightarrow> bool) \<Rightarrow> ('k \<times> 'v) list \<Rightarrow> bool" where
  "btree_sorted lt m \<longleftrightarrow> sorted_wrt lt (map fst m)"

lemma btree_insert_sel [simp]:
  "fst (btree_insert lt k v []) = [(k, v)]"
  "fst (btree_insert lt k v (e # m)) =
     (if lt (fst e) k then e # btree_put lt k v m
      else if lt k (fst e) then (k, v) # e # m else (fst e, v) # m)"
  "snd (btree_insert lt k v []) = None"
  "snd (btree_insert lt k v (e # m)) =
     (if lt (fst e) k then snd (btree_insert lt k v m)
      else if lt k (fst e) then None else Some (snd e))"
  by (cases e; simp split: prod.split)+

declare btree_insert.simps [simp del]

lemma btree_insert_keys:
  "fst ` set (btree_put lt k v m) \<subseteq> insert k (fst ` set m)"
  by (induction m) (auto split: if_splits)

lemma btree_put_snoc: "\<forall>x\<in>set m. lt (fst x) k \<Longrightarrow> btree_put lt k v m = m @ [(k, v)]"
  by (induction m) simp_all

lemma btree_get_above: "\<forall>x\<in>set m. lt (fst x) k \<Longrightarrow> btree_get lt k m = None"
  by (induction m) auto

locale key_order =
  fixes lt :: "'k \<Rightarrow> 'k \<Rightarrow> bool"
  assumes irrefl: "\<not> lt x x"
    and trans: "lt x y \<Longrightarrow> lt y z \<Longrightarrow> lt x z"
    and negtrans: "lt x z \<Longrightarrow> lt x y \<or> lt y z"
begin

definition keq :: "'k \<Rightarrow> 'k \<Rightarrow> bool" where
  "keq x y \<longleftrightarrow> \<not> lt x y \<and> \<not> lt y x"

lemma keq_refl: "keq x x"
  by (simp add: keq_def irrefl)

lemma lt_keq: "lt x y \<Longrightarrow> keq y z \<Longrightarrow> lt x z" "keq x y \<Longrightarrow> lt y z \<Longrightarrow> lt x z"
  unfolding keq_def using negtrans by blast+

lemma asym: "lt x y \<Longrightarrow> \<not> lt y x"
  using trans irrefl by blast

lemma insert_sorted:
  "btree_sorted lt m \<Longrightarrow> btree_sorted lt (btree_put lt k v m)"
proof (induction m)
  case (Cons e m)
  obtain k' v' where e: "e = (k', v')" by fastforce
  show ?case
  proof (cases "lt k' k")
    case True
    have "\<forall>x \<in> fst ` set (btree_put lt k v m). lt k' x"
      using btree_insert_keys [of lt k v m] Cons.prems True e by (fastforce simp: btree_sorted_def)
    then show ?thesis using Cons True e by (auto simp: btree_sorted_def)
  next
    case False
    then show ?thesis using Cons.prems e trans
      by (auto simp: btree_sorted_def keq_def dest: lt_keq)
  qed
qed (simp add: btree_sorted_def)

lemma insert_old: "btree_sorted lt m \<Longrightarrow> snd (btree_insert lt k v m) = btree_get lt k m"
proof (induction m)
  case (Cons e m)
  obtain k' v' where e: "e = (k', v')" by fastforce
  show ?case
  proof (cases "lt k k'")
    case True
    then have "\<forall>x\<in>set m. lt k (fst x)"
      using Cons.prems e trans by (auto simp: btree_sorted_def)
    moreover have "(\<forall>x\<in>set m. lt k (fst x)) \<Longrightarrow> btree_get lt k m = None"
      by (induction m) auto
    ultimately show ?thesis using True e asym by simp
  next
    case False
    then show ?thesis using Cons e by (auto simp: btree_sorted_def split: prod.splits)
  qed
qed simp

lemma get_insert:
  "btree_get lt k (btree_put lt k' v m) = (if keq k k' then Some v else btree_get lt k m)"
proof (induction m)
  case Nil
  then show ?case by (auto simp: keq_def)
next
  case (Cons e m)
  obtain a b where e: "e = (a, b)" by fastforce
  show ?case
  proof (cases "keq k k'")
    case True
    then have "lt a k' = lt a k" "lt k' a = lt k a"
      using True negtrans [of a k' k] negtrans [of a k k'] negtrans [of k' a k] negtrans [of k a k']
      by (auto simp: keq_def)
    then show ?thesis using Cons.IH True e by (auto simp: keq_def)
  next
    case False
    have "\<not> lt a k' \<Longrightarrow> \<not> lt k' a \<Longrightarrow> lt a k \<or> lt k a"
      using False negtrans [of k k' a] negtrans [of k' k a] by (auto simp: keq_def)
    then show ?thesis using Cons.IH False e by (auto simp: keq_def)
  qed
qed

lemma get_Some_key: "btree_get lt k m = Some v \<Longrightarrow> \<exists>k'. keq k k' \<and> (k', v) \<in> set m"
  by (induction m) (auto simp: keq_def split: if_splits)

lemma get_entry:
  assumes "btree_sorted lt m" "(k, v) \<in> set m"
  shows "btree_get lt k m = Some v"
  using assms
proof (induction m)
  case (Cons e m)
  obtain a b where e: "e = (a, b)" by fastforce
  show ?case
  proof (cases "(k, v) = e")
    case True
    then show ?thesis using e irrefl by simp
  next
    case False
    then have "(k, v) \<in> set m" using Cons.prems by simp
    moreover from this have "lt a k" using Cons.prems e by (auto simp: btree_sorted_def)
    ultimately show ?thesis using Cons e by (simp add: btree_sorted_def)
  qed
qed simp

lemma get_None_iff: "btree_get lt k m = None \<longleftrightarrow> (\<forall>x\<in>fst ` set m. \<not> keq k x)"
  by (induction m) (auto simp: keq_def split: if_splits)

lemma insert_set:
  assumes "btree_sorted lt m" "btree_get lt k m = None"
  shows "set (btree_put lt k v m) = insert (k, v) (set m)"
  using assms by (induction m) (auto simp: btree_sorted_def split: if_splits)

lemma sorted_distinct: "btree_sorted lt m \<Longrightarrow> distinct (map fst m)"
  unfolding btree_sorted_def by (induction m) (use irrefl in \<open>force+\<close>)

end

interpretation byte_order: key_order "(<) :: 'a::linorder \<Rightarrow> 'a \<Rightarrow> bool"
  by unfold_locales auto

lemma keq_linorder [simp]: "byte_order.keq x y \<longleftrightarrow> x = (y :: 'a::linorder)"
  unfolding byte_order.keq_def by auto

lemma btree_get_map_of: "btree_get (<) (k :: 'a::linorder) m = map_of m k"
  by (induction m) auto

lemma btree_insert_None_iff:
  "btree_sorted (<) m \<Longrightarrow> snd (btree_insert (<) (k :: 'k::linorder) v m) = None \<longleftrightarrow> k \<notin> fst ` set m"
  using byte_order.insert_old [of m k v] by (simp add: btree_get_map_of map_of_eq_None_iff)

lemma btree_insert_fresh:
  assumes "btree_sorted (<) m" "k \<notin> fst ` set m"
  shows "set (btree_put (<) (k :: 'k::linorder) v m) = insert (k, v) (set m)"
    "length (btree_put (<) k v m) = Suc (length m)"
proof -
  show "set (btree_put (<) k v m) = insert (k, v) (set m)"
    using assms by (intro byte_order.insert_set) (auto simp: btree_get_map_of map_of_eq_None_iff)
  show "length (btree_put (<) k v m) = Suc (length m)"
    using assms by (induction m) (auto simp: btree_sorted_def)
qed

text \<open>Sets are maps to the unit value.\<close>

lemma btree_set_insert_snoc: "\<forall>x\<in>set s. lt x k \<Longrightarrow> btree_set_insert lt k s = s @ [k]"
  by (simp add: btree_set_insert_def btree_put_snoc comp_def)

lemma btree_set_contains_above: "\<forall>x\<in>set s. lt x k \<Longrightarrow> \<not> btree_set_contains lt k s"
  by (auto simp: btree_set_contains_def)

lemma btree_set_insert_simps [simp]:
  "btree_set_insert lt k [] = [k]"
  "btree_set_insert lt k (x # s) =
     (if lt x k then x # btree_set_insert lt k s else if lt k x then k # x # s else x # s)"
  by (simp_all add: btree_set_insert_def comp_def)

lemma set_btree_set_insert_subset: "set (btree_set_insert lt k s) \<subseteq> insert k (set s)"
  by (induction s) auto

lemma subset_btree_set_insert: "set s \<subseteq> set (btree_set_insert lt k s)"
  by (induction s) auto

context key_order
begin

lemma set_insert_sorted: "sorted_wrt lt s \<Longrightarrow> sorted_wrt lt (btree_set_insert lt k s)"
  using insert_sorted [of "map (\<lambda>x. (x, ())) s" k "()"]
  by (simp add: btree_sorted_def btree_set_insert_def comp_def)

lemma set_insert_fold_sorted: "sorted_wrt lt s \<Longrightarrow> sorted_wrt lt (fold (btree_set_insert lt) ks s)"
  by (induction ks arbitrary: s) (simp_all add: set_insert_sorted)

lemma set_insert_mem: "\<exists>x\<in>set (btree_set_insert lt k s). keq x k"
  by (induction s) (auto simp: keq_def irrefl)

end

end
