(* ===== verification/Outputs.thy ===== *)
theory Outputs
  imports StorePath BTree
begin

text \<open>
  Outputs of a derivation: output names (\<^verbatim>\<open>output_name.rs\<close>), a single output with its hash
  (\<^verbatim>\<open>output.rs\<close>) and the collection \<open>Outputs\<close> with its invariants and the calculation of output
  paths (\<^verbatim>\<open>outputs.rs\<close>), all of \<^verbatim>\<open>nix-compat/src/derivation\<close>. An \<open>OutputName\<close> is its string,
  with \<open>output_name_ok\<close> what its constructors check. A failing \<open>assert!\<close> is an error value, and
  an operation that updates \<open>self\<close> returns the updated value together with its result.
\<close>

section \<open>Output names\<close>

datatype (plugins only: code size) output_name_error = ONInvalidLength | ONInvalidName | ReservedNameDrv

fun output_name_error_of :: "name_error \<Rightarrow> output_name_error" where
  "output_name_error_of NameLength = ONInvalidLength"
| "output_name_error_of NameName = ONInvalidName"

definition output_name_validate :: "string \<Rightarrow> (output_name_error, unit) res" where
  "output_name_validate s =
     rbind (map_err output_name_error_of (validate_name s)) (\<lambda>_.
       if s = ''drv'' then Inl ReservedNameDrv else Inr ())"

definition output_name_from_str :: "string \<Rightarrow> (output_name_error, string) res" where
  "output_name_from_str s = rbind (output_name_validate s) (\<lambda>_. Inr s)"

definition output_name_out :: string where "output_name_out = ''out''"

definition output_name_ok :: "string \<Rightarrow> bool" where
  "output_name_ok s \<longleftrightarrow> name_ok s \<and> s \<noteq> ''drv''"

lemma output_name_from_str_iff: "output_name_from_str s = Inr n \<longleftrightarrow> n = s \<and> output_name_ok s"
  by (auto simp: output_name_from_str_def output_name_validate_def output_name_ok_def
      validate_name_iff)

section \<open>A single output\<close>

datatype (plugins only: code size) output_hash_mode = OFlat | ORecursive

record output_hash =
  oh_mode :: output_hash_mode
  oh_hash :: nixhash

record drv_output =
  o_path :: "store_path option"
  o_hash :: "output_hash option"

definition output_default :: drv_output where
  "output_default = \<lparr>o_path = None, o_hash = None\<rparr>"

fun as_mode_prefix :: "output_hash_mode \<Rightarrow> string" where
  "as_mode_prefix OFlat = []"
| "as_mode_prefix ORecursive = ''r:''"

datatype (plugins only: code size) parse_output_hash_mode_error = InvalidHashMode string

definition output_hash_mode_from_str ::
  "string \<Rightarrow> (parse_output_hash_mode_error, output_hash_mode) res" where
  "output_hash_mode_from_str s =
     (if s = [] \<or> s = ''flat'' then Inr OFlat
      else if s = ''recursive'' then Inr ORecursive
      else Inl (InvalidHashMode s))"

definition from_mode_algo_and_digest :: "string \<Rightarrow> u8 list \<Rightarrow> (nixhash_error, output_hash) res" where
  "from_mode_algo_and_digest mode_and_algo digest =
     (let (hash_mode, algo_str) =
            (case strip_prefix ''r:'' mode_and_algo of
               Some algo_str \<Rightarrow> (ORecursive, algo_str)
             | None \<Rightarrow> (OFlat, mode_and_algo))
      in rbind (algo_from_str algo_str) (\<lambda>a.
         rbind (from_algo_and_digest a digest) (\<lambda>h. Inr \<lparr>oh_mode = hash_mode, oh_hash = h\<rparr>)))"

definition as_mode_and_algo_str :: "output_hash \<Rightarrow> string" where
  "as_mode_and_algo_str oh =
     (case oh_mode oh of
        OFlat \<Rightarrow> algo_as_str (algo (oh_hash oh))
      | ORecursive \<Rightarrow>
          (case algo (oh_hash oh) of
             AMd5 \<Rightarrow> ''r:md5'' | ASha1 \<Rightarrow> ''r:sha1'' | ASha256 \<Rightarrow> ''r:sha256'' | ASha512 \<Rightarrow> ''r:sha512''))"

definition is_fixed :: "drv_output \<Rightarrow> bool" where
  "is_fixed out \<longleftrightarrow> o_hash out \<noteq> None"

definition output_wf :: "drv_output \<Rightarrow> bool" where
  "output_wf out \<longleftrightarrow> (\<forall>p. o_path out = Some p \<longrightarrow> sp_wf p) \<and>
     (\<forall>oh. o_hash out = Some oh \<longrightarrow> nixhash_wf (oh_hash oh))"

lemma as_mode_and_algo_str_eq:
  "as_mode_and_algo_str oh = as_mode_prefix (oh_mode oh) @ algo_as_str (algo (oh_hash oh))"
  by (auto simp: as_mode_and_algo_str_def split: output_hash_mode.splits hash_algo.splits)

lemma strip_r_algo: "strip_prefix ''r:'' (algo_as_str a) = None"
  by (cases a) simp_all

lemma from_mode_algo_and_digest_as_str:
  "nixhash_wf (oh_hash oh) \<Longrightarrow>
   from_mode_algo_and_digest (as_mode_and_algo_str oh) (digest_as_bytes (oh_hash oh)) = Inr oh"
  by (cases "oh_mode oh")
    (simp_all add: from_mode_algo_and_digest_def as_mode_and_algo_str_eq strip_r_algo
      from_algo_and_digest_def nixhash_wf_def nixhash_of_eq)

section \<open>The collection of outputs\<close>

datatype (plugins only: code size) parse_output_error =
    InvalidOutputPath string parse_store_path_error
  | MissingOutputPath
  | InvalidCAHash cahash

datatype (plugins only: code size) outputs_error =
    NoOutputs
  | InvalidOutputName string
  | DuplicateOutputName string
  | MoreThanOneOutputButFixed
  | InvalidOutputNameForFixed string
  | InvalidOutput string parse_output_error
  | InvalidOutputDerivationPath string parse_store_path_error
  | OutputsPanic  \<comment> \<open>a failed \<open>assert!\<close> of \<open>calculate_output_paths\<close>\<close>

datatype (plugins only: code size) outputs =
    OSingle drv_output
  | OMultiple "(string \<times> drv_output) list"

definition from_fod_hash :: "output_hash \<Rightarrow> outputs" where
  "from_fod_hash output_hash = OSingle \<lparr>o_path = None, o_hash = Some output_hash\<rparr>"

definition with_single_output :: outputs where
  "with_single_output = OSingle \<lparr>o_path = None, o_hash = None\<rparr>"

text \<open>The loop of \<open>try_from_iter\<close> over the third and later entries.\<close>

fun try_from_loop ::
  "(string \<times> drv_output) list \<Rightarrow> (string \<times> drv_output) list \<Rightarrow> (outputs_error, (string \<times> drv_output) list) res" where
  "try_from_loop outputs [] = Inr outputs"
| "try_from_loop outputs ((output_name, output) # it) =
     (if is_fixed output then Inl MoreThanOneOutputButFixed
      else (case btree_insert (<) output_name output outputs of
              (outputs', Some _) \<Rightarrow> Inl (DuplicateOutputName output_name)
            | (outputs', None) \<Rightarrow> try_from_loop outputs' it))"

definition try_from_iter :: "(string \<times> drv_output) list \<Rightarrow> (outputs_error, outputs) res" where
  "try_from_iter it =
     (case it of
        [] \<Rightarrow> Inl NoOutputs
      | [(output_name, output)] \<Rightarrow>
          if output_name = output_name_out then Inr (OSingle output)
          else Inl (InvalidOutputName output_name)
      | (output_name, output) # (second_name, second_output) # it \<Rightarrow>
          if is_fixed output \<or> is_fixed second_output then Inl MoreThanOneOutputButFixed
          else
            (let outputs = btree_put (<) output_name output []
             in case btree_insert (<) second_name second_output outputs of
                  (outputs', Some _) \<Rightarrow> Inl (DuplicateOutputName second_name)
                | (outputs', None) \<Rightarrow> map_ok OMultiple (try_from_loop outputs' it)))"

fun outputs_contains_key :: "outputs \<Rightarrow> string \<Rightarrow> bool" where
  "outputs_contains_key (OSingle _) name \<longleftrightarrow> name = output_name_out"
| "outputs_contains_key (OMultiple outputs) name \<longleftrightarrow> btree_get (<) name outputs \<noteq> None"

fun outputs_get :: "outputs \<Rightarrow> string \<Rightarrow> drv_output option" where
  "outputs_get (OSingle output) name = (if name = output_name_out then Some output else None)"
| "outputs_get (OMultiple outputs) name = btree_get (<) name outputs"

fun outputs_iter :: "outputs \<Rightarrow> (string \<times> drv_output) list" where
  "outputs_iter (OSingle output) = [(output_name_out, output)]"
| "outputs_iter (OMultiple outputs) = outputs"

definition outputs_keys :: "outputs \<Rightarrow> string list" where
  "outputs_keys os = map fst (outputs_iter os)"

definition outputs_values :: "outputs \<Rightarrow> drv_output list" where
  "outputs_values os = map snd (outputs_iter os)"

fun outputs_len :: "outputs \<Rightarrow> nat" where
  "outputs_len (OSingle _) = 1"
| "outputs_len (OMultiple outputs) = length outputs"

definition outputs_is_single :: "outputs \<Rightarrow> bool" where
  "outputs_is_single os \<longleftrightarrow> outputs_len os = 1"

fun outputs_is_fixed :: "outputs \<Rightarrow> bool" where
  "outputs_is_fixed (OSingle out) \<longleftrightarrow> is_fixed out"
| "outputs_is_fixed (OMultiple _) \<longleftrightarrow> False"

text \<open>
  \<open>calculate_output_paths\<close>. The name of an output path is the derivation's name, with
  \<open>-$output\<close> appended for an output other than \<open>out\<close>.
\<close>

definition output_path_name :: "string \<Rightarrow> string \<Rightarrow> string" where
  "output_path_name drv_name output_name =
     (if output_name \<noteq> output_name_out then drv_name @ ''-'' @ output_name else drv_name)"

definition calculate_single_path ::
  "data_encoding \<Rightarrow> (string \<Rightarrow> u8 list) \<Rightarrow> string \<Rightarrow> u8 list \<Rightarrow> drv_output \<Rightarrow> drv_output \<times> (outputs_error, unit) res" where
  "calculate_single_path E sha256 drv_name hash_derivation_modulo output =
     (if o_path output \<noteq> None then (output, Inl OutputsPanic)
      else
        let name = drv_name;
            built = (case o_hash output of
                Some output_hash \<Rightarrow>
                  build_ca_path E sha256 name (oh_mode output_hash = ORecursive) (oh_hash output_hash) [] False
              | None \<Rightarrow> build_output_path E sha256 name hash_derivation_modulo output_name_out)
        in case built of
             Inl e \<Rightarrow> (output, Inl (InvalidOutputDerivationPath name e))
           | Inr store_path \<Rightarrow> (output\<lparr>o_path := Some store_path\<rparr>, Inr ()))"

fun calculate_multiple_paths ::
  "data_encoding \<Rightarrow> (string \<Rightarrow> u8 list) \<Rightarrow> string \<Rightarrow> u8 list \<Rightarrow> (string \<times> drv_output) list
   \<Rightarrow> (string \<times> drv_output) list \<times> (outputs_error, unit) res" where
  "calculate_multiple_paths E sha256 drv_name hash_derivation_modulo [] = ([], Inr ())"
| "calculate_multiple_paths E sha256 drv_name hash_derivation_modulo ((output_name, output) # rest) =
     (if is_fixed output then ((output_name, output) # rest, Inl OutputsPanic)
      else
        let name = output_path_name drv_name output_name
        in case build_output_path E sha256 name hash_derivation_modulo output_name of
             Inl e \<Rightarrow> ((output_name, output) # rest, Inl (InvalidOutputDerivationPath name e))
           | Inr store_path \<Rightarrow>
               (let (rest', r) = calculate_multiple_paths E sha256 drv_name hash_derivation_modulo rest
                in ((output_name, output\<lparr>o_path := Some store_path\<rparr>) # rest', r)))"

fun outputs_calculate_output_paths ::
  "data_encoding \<Rightarrow> (string \<Rightarrow> u8 list) \<Rightarrow> string \<Rightarrow> u8 list \<Rightarrow> outputs \<Rightarrow> outputs \<times> (outputs_error, unit) res" where
  "outputs_calculate_output_paths E sha256 drv_name hash_derivation_modulo (OSingle output) =
     (let (output', r) = calculate_single_path E sha256 drv_name hash_derivation_modulo output
      in (OSingle output', r))"
| "outputs_calculate_output_paths E sha256 drv_name hash_derivation_modulo (OMultiple outputs) =
     (let (outputs', r) = calculate_multiple_paths E sha256 drv_name hash_derivation_modulo outputs
      in (OMultiple outputs', r))"

subsection \<open>Invariant\<close>

text \<open>The documented invariants of \<open>Outputs\<close>.\<close>

fun outputs_inv :: "outputs \<Rightarrow> bool" where
  "outputs_inv (OSingle _) \<longleftrightarrow> True"
| "outputs_inv (OMultiple outputs) \<longleftrightarrow>
     2 \<le> length outputs \<and> btree_sorted (<) outputs \<and> (\<forall>(n, out) \<in> set outputs. \<not> is_fixed out)"

text \<open>What \<open>try_from_iter\<close> accepts.\<close>

definition valid_outputs_list :: "(string \<times> drv_output) list \<Rightarrow> bool" where
  "valid_outputs_list it \<longleftrightarrow>
     it \<noteq> [] \<and> distinct (map fst it) \<and>
     (if length it = 1 then fst (hd it) = output_name_out else (\<forall>(n, out) \<in> set it. \<not> is_fixed out))"

lemma try_from_loop_iff:
  assumes "btree_sorted (<) m"
  shows "try_from_loop m it = Inr m' \<longleftrightarrow>
    (\<forall>(n, out) \<in> set it. \<not> is_fixed out) \<and> distinct (map fst it) \<and> fst ` set m \<inter> fst ` set it = {} \<and>
    m' = fold (\<lambda>(n, out). btree_put (<) n out) it m"
  using assms
proof (induction it arbitrary: m)
  case (Cons e it)
  obtain n out where e: "e = (n, out)" by fastforce
  obtain m1 old where ins: "btree_insert (<) n out m = (m1, old)" by fastforce
  have m1: "m1 = btree_put (<) n out m" using ins by simp
  have old: "old = None \<longleftrightarrow> n \<notin> fst ` set m"
    using btree_insert_None_iff [OF Cons.prems, of n out] ins by simp
  show ?case
  proof (cases "n \<in> fst ` set m")
    case True
    then show ?thesis using e ins old by (auto split: option.splits)
  next
    case False
    then have keys: "fst ` set m1 = insert n (fst ` set m)"
      using btree_insert_fresh(1) [OF Cons.prems False, of out] m1 by simp
    have sorted: "btree_sorted (<) m1" unfolding m1 by (rule byte_order.insert_sorted [OF Cons.prems])
    have step: "try_from_loop m (e # it) = Inr m' \<longleftrightarrow> \<not> is_fixed out \<and> try_from_loop m1 it = Inr m'"
      using old False by (simp add: e ins)
    have fold: "fold (\<lambda>(n, out). btree_put (<) n out) (e # it) m =
        fold (\<lambda>(n, out). btree_put (<) n out) it m1"
      by (simp add: e ins)
    show ?thesis
      unfolding step fold Cons.IH [OF sorted] keys using False e by auto
  qed
qed auto

lemma try_from_loop_inv:
  assumes "btree_sorted (<) m" "try_from_loop m it = Inr m'"
  shows "btree_sorted (<) m' \<and> set m' = set m \<union> set it \<and> length m' = length m + length it"
  using assms
proof (induction it arbitrary: m)
  case (Cons e it)
  obtain n out where e: "e = (n, out)" by fastforce
  define m1 where "m1 = btree_put (<) n out m"
  have rec: "try_from_loop m1 it = Inr m'" and ins: "snd (btree_insert (<) n out m) = None"
    using Cons.prems(2) by (auto simp: m1_def e split: if_splits prod.splits option.splits)
  have fresh: "n \<notin> fst ` set m" using btree_insert_None_iff [OF Cons.prems(1), of n out] ins by simp
  have "set m1 = insert (n, out) (set m)" "length m1 = Suc (length m)" "btree_sorted (<) m1"
    using btree_insert_fresh [OF Cons.prems(1) fresh, of out] m1_def
      byte_order.insert_sorted [OF Cons.prems(1)] by simp_all
  then show ?case using Cons.IH [OF _ rec] e by simp
qed simp

text \<open>The first two entries go through the same insertions as the later ones.\<close>

lemma try_from_iter_two:
  "try_from_iter (a # b # it) =
     (if is_fixed (snd a) \<or> is_fixed (snd b) then Inl MoreThanOneOutputButFixed
      else map_ok OMultiple (try_from_loop [] (a # b # it)))"
  by (cases a; cases b) (simp add: try_from_iter_def btree_insert.simps Let_def)

lemma try_from_iter_iff:
  "try_from_iter it = Inr os \<longleftrightarrow> valid_outputs_list it \<and>
     os = (if length it = 1 then OSingle (snd (hd it))
           else OMultiple (fold (\<lambda>(n, out). btree_put (<) n out) it []))"
proof (cases it rule: remdups_adj.cases)
  case 1
  then show ?thesis by (simp add: try_from_iter_def valid_outputs_list_def)
next
  case (2 a)
  then show ?thesis by (cases a) (auto simp: try_from_iter_def valid_outputs_list_def)
next
  case (3 a b it')
  have "btree_sorted (<) ([] :: (string \<times> drv_output) list)" by (simp add: btree_sorted_def)
  note loop = try_from_loop_iff [OF this, of it]
  have nf: "is_fixed (snd a) \<or> is_fixed (snd b) \<Longrightarrow> \<not> valid_outputs_list it"
    by (cases a; cases b) (auto simp: 3 valid_outputs_list_def)
  show ?thesis
  proof (cases "is_fixed (snd a) \<or> is_fixed (snd b)")
    case True
    then show ?thesis using nf 3 by (simp add: try_from_iter_two)
  next
    case False
    then show ?thesis using loop unfolding 3 try_from_iter_two
      by (auto simp: valid_outputs_list_def)
  qed
qed

lemma try_from_iter_inv:
  assumes "try_from_iter it = Inr os"
  shows "outputs_inv os" "set (outputs_iter os) = set it" "outputs_len os = length it"
proof -
  have v: "valid_outputs_list it" using assms try_from_iter_iff by blast
  have "outputs_inv os \<and> set (outputs_iter os) = set it \<and> outputs_len os = length it"
  proof (cases it rule: remdups_adj.cases)
    case 1
    then show ?thesis using assms by (simp add: try_from_iter_def)
  next
    case (2 a)
    then show ?thesis using assms v by (cases a) (auto simp: try_from_iter_iff valid_outputs_list_def)
  next
    case (3 a b it')
    obtain m where m: "try_from_loop [] it = Inr m" "os = OMultiple m"
      using assms by (auto simp: 3 try_from_iter_two simp del: try_from_loop.simps split: if_splits)
    have "btree_sorted (<) m \<and> set m = set it \<and> length m = length it"
      using try_from_loop_inv [OF _ m(1)] by (simp add: btree_sorted_def)
    then show ?thesis using v m(2) by (auto simp: 3 valid_outputs_list_def)
  qed
  then show "outputs_inv os" "set (outputs_iter os) = set it" "outputs_len os = length it" by auto
qed

subsection \<open>Calculating paths\<close>

text \<open>The store path an output gets: a fixed output from its hash, any other from the derivation's hash.\<close>

definition expected_path ::
  "data_encoding \<Rightarrow> (string \<Rightarrow> u8 list) \<Rightarrow> string \<Rightarrow> u8 list \<Rightarrow> string \<Rightarrow> drv_output
   \<Rightarrow> (parse_store_path_error, store_path) res" where
  "expected_path E sha256 drv_name h n out =
     (case o_hash out of
        Some oh \<Rightarrow> build_ca_path E sha256 (output_path_name drv_name n) (oh_mode oh = ORecursive) (oh_hash oh) [] False
      | None \<Rightarrow> build_output_path E sha256 (output_path_name drv_name n) h n)"

definition with_path ::
  "data_encoding \<Rightarrow> (string \<Rightarrow> u8 list) \<Rightarrow> string \<Rightarrow> u8 list \<Rightarrow> string \<times> drv_output \<Rightarrow> string \<times> drv_output" where
  "with_path E sha256 drv_name h = (\<lambda>(n, out). (n, out\<lparr>o_path := ok (expected_path E sha256 drv_name h n out)\<rparr>))"

lemma build_output_path_built: "built_with_name name (build_output_path E H name h n)"
  by (simp add: build_output_path_def built_fingerprint_parts)

lemma expected_path_built:
  "built_with_name (output_path_name drv n) (expected_path E H drv h n out)"
  by (auto simp: expected_path_def build_output_path_built build_ca_path_def Let_def
      built_fingerprint_parts split: option.split)

lemma expected_path_ok: "(\<exists>p. expected_path E H drv h n out = Inr p) \<longleftrightarrow> name_ok (output_path_name drv n)"
  using expected_path_built [of drv n E H h out]
  by (cases "expected_path E H drv h n out") (auto simp: built_with_name_def)

lemma expected_path_name:
  "expected_path E H drv h n out = Inr p \<Longrightarrow> sp_wf p \<and> sp_name p = output_path_name drv n"
  using expected_path_built [of drv n E H h out] by (simp add: built_with_name_def)

lemma calculate_multiple_ok:
  assumes "\<forall>(n, out) \<in> set l. \<not> is_fixed out"
  shows "snd (calculate_multiple_paths E H drv h l) = Inr () \<longleftrightarrow>
      (\<forall>(n, out) \<in> set l. name_ok (output_path_name drv n))"
    and "snd (calculate_multiple_paths E H drv h l) = Inr () \<Longrightarrow>
      fst (calculate_multiple_paths E H drv h l) = map (with_path E H drv h) l"
    and "snd (calculate_multiple_paths E H drv h l) \<noteq> Inl OutputsPanic"
proof -
  have "(snd (calculate_multiple_paths E H drv h l) = Inr () \<longleftrightarrow>
      (\<forall>(n, out) \<in> set l. name_ok (output_path_name drv n))) \<and>
    (snd (calculate_multiple_paths E H drv h l) = Inr () \<longrightarrow>
      fst (calculate_multiple_paths E H drv h l) = map (with_path E H drv h) l) \<and>
    snd (calculate_multiple_paths E H drv h l) \<noteq> Inl OutputsPanic"
    using assms
  proof (induction l)
    case (Cons e l)
    obtain n out where e: "e = (n, out)" by fastforce
    have nf: "o_hash out = None" using Cons.prems e by (simp add: is_fixed_def)
    note ih = Cons.IH
    show ?case
    proof (cases "build_output_path E H (output_path_name drv n) h n")
      case (Inl x)
      then have "\<not> name_ok (output_path_name drv n)"
        using build_output_path_built [of "output_path_name drv n" E H h n]
        by (simp add: built_with_name_def)
      then show ?thesis using Inl e nf by (simp add: is_fixed_def)
    next
      case (Inr p)
      then have "name_ok (output_path_name drv n)"
        using build_output_path_built [of "output_path_name drv n" E H h n]
        by (simp add: built_with_name_def)
      then show ?thesis using Inr e nf ih Cons.prems
        by (auto simp: is_fixed_def with_path_def expected_path_def split: prod.splits)
    qed
  qed simp
  then show "snd (calculate_multiple_paths E H drv h l) = Inr () \<longleftrightarrow>
      (\<forall>(n, out) \<in> set l. name_ok (output_path_name drv n))"
    and "snd (calculate_multiple_paths E H drv h l) = Inr () \<Longrightarrow>
      fst (calculate_multiple_paths E H drv h l) = map (with_path E H drv h) l"
    and "snd (calculate_multiple_paths E H drv h l) \<noteq> Inl OutputsPanic"
    by blast+
qed

lemma output_path_name_out [simp]: "output_path_name drv output_name_out = drv"
  by (simp add: output_path_name_def)

lemma output_path_name_inj: "output_path_name drv n = output_path_name drv n' \<longleftrightarrow> n = n'"
  by (auto simp: output_path_name_def)

lemma calculate_single_ok:
  assumes "o_path out = None"
  shows "snd (calculate_single_path E H drv h out) = Inr () \<longleftrightarrow> name_ok drv"
    and "snd (calculate_single_path E H drv h out) = Inr () \<Longrightarrow>
      (output_name_out, fst (calculate_single_path E H drv h out)) =
      with_path E H drv h (output_name_out, out)"
    and "snd (calculate_single_path E H drv h out) \<noteq> Inl OutputsPanic"
proof -
  have eq: "calculate_single_path E H drv h out =
    (case expected_path E H drv h output_name_out out of
       Inl e \<Rightarrow> (out, Inl (InvalidOutputDerivationPath drv e))
     | Inr p \<Rightarrow> (out\<lparr>o_path := Some p\<rparr>, Inr ()))"
    using assms by (cases "o_hash out") (simp_all add: calculate_single_path_def expected_path_def Let_def)
  show "snd (calculate_single_path E H drv h out) = Inr () \<longleftrightarrow> name_ok drv"
    using expected_path_ok [of E H drv h output_name_out out] by (auto simp: eq split: sum.split)
  show "snd (calculate_single_path E H drv h out) = Inr () \<Longrightarrow>
      (output_name_out, fst (calculate_single_path E H drv h out)) =
      with_path E H drv h (output_name_out, out)"
    by (auto simp: eq with_path_def split: sum.splits)
  show "snd (calculate_single_path E H drv h out) \<noteq> Inl OutputsPanic"
    by (simp add: eq split: sum.split)
qed

lemma outputs_calculate_sel [simp]:
  "fst (outputs_calculate_output_paths E H drv h (OSingle out)) = OSingle (fst (calculate_single_path E H drv h out))"
  "snd (outputs_calculate_output_paths E H drv h (OSingle out)) = snd (calculate_single_path E H drv h out)"
  "fst (outputs_calculate_output_paths E H drv h (OMultiple l)) = OMultiple (fst (calculate_multiple_paths E H drv h l))"
  "snd (outputs_calculate_output_paths E H drv h (OMultiple l)) = snd (calculate_multiple_paths E H drv h l)"
  by (simp_all split: prod.split)

declare outputs_calculate_output_paths.simps [simp del]

lemma outputs_calculate_ok:
  assumes "outputs_inv os" "\<forall>out \<in> set (outputs_values os). o_path out = None"
  shows "snd (outputs_calculate_output_paths E H drv h os) = Inr () \<longleftrightarrow>
      (\<forall>n \<in> set (outputs_keys os). name_ok (output_path_name drv n))"
    and "snd (outputs_calculate_output_paths E H drv h os) = Inr () \<Longrightarrow>
      outputs_iter (fst (outputs_calculate_output_paths E H drv h os)) =
      map (with_path E H drv h) (outputs_iter os)"
    and "snd (outputs_calculate_output_paths E H drv h os) \<noteq> Inl OutputsPanic"
proof -
  let ?R = "outputs_calculate_output_paths E H drv h os"
  have "(snd ?R = Inr () \<longleftrightarrow> (\<forall>n \<in> set (outputs_keys os). name_ok (output_path_name drv n))) \<and>
    (snd ?R = Inr () \<longrightarrow> outputs_iter (fst ?R) = map (with_path E H drv h) (outputs_iter os)) \<and>
    snd ?R \<noteq> Inl OutputsPanic"
  proof (cases os)
    case (OSingle out)
    then have "o_path out = None" using assms by (simp add: outputs_values_def)
    from calculate_single_ok [OF this, of E H drv h] OSingle show ?thesis
      by (simp add: outputs_keys_def)
  next
    case (OMultiple l)
    then have "\<forall>(n, out) \<in> set l. \<not> is_fixed out" using assms by simp
    from calculate_multiple_ok [OF this, of E H drv h] OMultiple show ?thesis
      by (auto simp: outputs_keys_def)
  qed
  then show "snd ?R = Inr () \<longleftrightarrow> (\<forall>n \<in> set (outputs_keys os). name_ok (output_path_name drv n))"
    and "snd ?R = Inr () \<Longrightarrow> outputs_iter (fst ?R) = map (with_path E H drv h) (outputs_iter os)"
    and "snd ?R \<noteq> Inl OutputsPanic"
    by blast+
qed

lemma with_path_fst [simp]: "fst (with_path E H drv h e) = fst e"
  by (simp add: with_path_def split: prod.split)

lemma with_path_fixed: "is_fixed (snd (with_path E H drv h e)) = is_fixed (snd e)"
  by (simp add: with_path_def is_fixed_def split: prod.split)

lemma outputs_calculate_inv:
  assumes "outputs_inv os" "\<forall>out \<in> set (outputs_values os). o_path out = None"
    "outputs_calculate_output_paths E H drv h os = (os', Inr ())"
  shows "outputs_inv os'" "outputs_keys os' = outputs_keys os"
    "outputs_iter os' = map (with_path E H drv h) (outputs_iter os)"
proof -
  show iter: "outputs_iter os' = map (with_path E H drv h) (outputs_iter os)"
    using outputs_calculate_ok(2) [OF assms(1,2), of E H drv h] assms(3) by simp
  then show "outputs_keys os' = outputs_keys os"
    by (simp add: outputs_keys_def comp_def)
  show "outputs_inv os'"
  proof (cases os)
    case (OSingle out)
    then show ?thesis using assms(3) outputs_calculate_sel(1) [of E H drv h out] by simp
  next
    case (OMultiple l)
    then have os': "os' = OMultiple (map (with_path E H drv h) l)"
      using iter assms(3) outputs_calculate_sel(3) [of E H drv h l] by auto
    have "\<forall>e \<in> set l. \<not> is_fixed (snd (with_path E H drv h e))"
      using assms(1) OMultiple by (auto simp: with_path_fixed)
    then show ?thesis
      using assms(1) OMultiple os' by (auto simp: btree_sorted_def comp_def)
  qed
qed

section \<open>Properties\<close>

text \<open>
  C22: \<open>Outputs::try_from_iter\<close> establishes the documented invariants and loses nothing. It
  succeeds exactly on the lists that are non-empty, have no name twice, name a lone output
  \<open>out\<close> and contain no fixed output among several; the result holds exactly the listed entries,
  sorted by name, and lookups return them.
\<close>

theorem try_from_iter_spec:
  "((\<exists>os. try_from_iter it = Inr os) \<longleftrightarrow> valid_outputs_list it) \<and>
   (try_from_iter it = Inr os \<longrightarrow>
     outputs_inv os \<and> sorted_wrt (<) (outputs_keys os) \<and>
     set (outputs_iter os) = set it \<and> outputs_len os = length it \<and> outputs_get os n = map_of it n)"
proof (rule conjI [OF _ impI])
  show "(\<exists>os. try_from_iter it = Inr os) \<longleftrightarrow> valid_outputs_list it"
    using try_from_iter_iff by blast
  assume os: "try_from_iter it = Inr os"
  note inv = try_from_iter_inv [OF os]
  have sorted: "btree_sorted (<) (outputs_iter os)"
    using inv(1) by (cases os) (simp_all add: btree_sorted_def)
  have "distinct (map fst it)" using os by (simp add: try_from_iter_iff valid_outputs_list_def)
  moreover have "distinct (map fst (outputs_iter os))" using sorted by (rule byte_order.sorted_distinct)
  ultimately have "map_of (outputs_iter os) = map_of it" using inv(2) map_of_inject_set by blast
  moreover have "outputs_get os n = map_of (outputs_iter os) n"
    by (cases os) (simp_all add: btree_get_map_of)
  ultimately show "outputs_inv os \<and> sorted_wrt (<) (outputs_keys os) \<and>
     set (outputs_iter os) = set it \<and> outputs_len os = length it \<and> outputs_get os n = map_of it n"
    using inv sorted by (simp add: btree_sorted_def outputs_keys_def)
qed

theorem try_from_iter_spec_witness:
  "try_from_iter [(''out'', output_default), (''dev'', output_default)] =
     Inr (OMultiple [(''dev'', output_default), (''out'', output_default)]) \<and>
   outputs_get (OMultiple [(''dev'', output_default), (''out'', output_default)]) ''out'' = Some output_default"
proof -
  have ok: "try_from_iter [(''out'', output_default), (''dev'', output_default)] =
     Inr (OMultiple [(''dev'', output_default), (''out'', output_default)])"
    by (simp add: try_from_iter_def output_default_def is_fixed_def btree_insert.simps)
  show ?thesis using ok try_from_iter_spec [THEN conjunct2, rule_format, OF ok, of "''out''"] by simp
qed

text \<open>
  C23: calculating the output paths of outputs that have none yet. It succeeds exactly if every
  output's path name is a valid store path name, and never panics. On success the names, the
  hashes and the invariant stay as they are, and every output has a well-formed path named after
  the derivation and the output: built from the output's hash if it is fixed, from the
  derivation's hash otherwise. Different outputs never share a path.
\<close>

theorem output_paths_calculated:
  assumes "outputs_inv os" "\<forall>out \<in> set (outputs_values os). o_path out = None"
  shows "(snd (outputs_calculate_output_paths E H drv h os) = Inr () \<longleftrightarrow>
      (\<forall>n \<in> set (outputs_keys os). name_ok (output_path_name drv n))) \<and>
    snd (outputs_calculate_output_paths E H drv h os) \<noteq> Inl OutputsPanic \<and>
    (outputs_calculate_output_paths E H drv h os = (os', Inr ()) \<longrightarrow>
      (outputs_inv os' \<and> outputs_keys os' = outputs_keys os \<and>
      (\<forall>(n, out') \<in> set (outputs_iter os'). \<exists>out p.
         (n, out) \<in> set (outputs_iter os) \<and> out' = out\<lparr>o_path := Some p\<rparr> \<and>
         expected_path E H drv h n out = Inr p \<and> sp_wf p \<and> sp_name p = output_path_name drv n)) \<and>
      ((n, o1) \<in> set (outputs_iter os') \<longrightarrow> (n', o2) \<in> set (outputs_iter os') \<longrightarrow>
        o_path o1 = o_path o2 \<longrightarrow> n = n'))"
proof (rule conjI [OF _ conjI [OF _ impI [OF conjI [OF _ impI [OF impI [OF impI]]]]]])
  show success: "snd (outputs_calculate_output_paths E H drv h os) = Inr () \<longleftrightarrow>
      (\<forall>n \<in> set (outputs_keys os). name_ok (output_path_name drv n))"
    by (rule outputs_calculate_ok [OF assms])
  show "snd (outputs_calculate_output_paths E H drv h os) \<noteq> Inl OutputsPanic"
    by (rule outputs_calculate_ok [OF assms])
  assume r: "outputs_calculate_output_paths E H drv h os = (os', Inr ())"
  note inv = outputs_calculate_inv [OF assms r]
  have paths: "\<exists>out p. (n, out) \<in> set (outputs_iter os) \<and> out' = out\<lparr>o_path := Some p\<rparr> \<and>
         expected_path E H drv h n out = Inr p \<and> sp_wf p \<and> sp_name p = output_path_name drv n"
    if n: "(n, out') \<in> set (outputs_iter os')" for n out'
  proof -
    obtain out where out: "(n, out) \<in> set (outputs_iter os)"
      "out' = out\<lparr>o_path := ok (expected_path E H drv h n out)\<rparr>"
      using n inv(3) by (auto simp: with_path_def)
    have "name_ok (output_path_name drv n)"
      using success r out(1) by (force simp: outputs_keys_def)
    then obtain p where "expected_path E H drv h n out = Inr p"
      using expected_path_ok by blast
    then show ?thesis using out expected_path_name by fastforce
  qed
  then show "outputs_inv os' \<and> outputs_keys os' = outputs_keys os \<and>
      (\<forall>(n, out') \<in> set (outputs_iter os'). \<exists>out p.
         (n, out) \<in> set (outputs_iter os) \<and> out' = out\<lparr>o_path := Some p\<rparr> \<and>
         expected_path E H drv h n out = Inr p \<and> sp_wf p \<and> sp_name p = output_path_name drv n)"
    using inv(1,2) by blast
  assume "(n, o1) \<in> set (outputs_iter os')" "(n', o2) \<in> set (outputs_iter os')" "o_path o1 = o_path o2"
  then have "output_path_name drv n = output_path_name drv n'"
    using paths [of n o1] paths [of n' o2] by auto
  then show "n = n'" by (simp add: output_path_name_inj)
qed

theorem output_paths_calculated_witness:
  "snd (outputs_calculate_output_paths example_encoding (\<lambda>_. []) ''n'' []
     (OMultiple [(''dev'', output_default), (''out'', output_default)])) = Inr ()"
  by (subst output_paths_calculated [THEN conjunct1])
    (simp_all add: btree_sorted_def is_fixed_def output_default_def outputs_values_def outputs_keys_def
      output_path_name_def output_name_out_def name_ok_def name_char_match_def)

end
