(* ===== verification/Derivation.thy ===== *)
theory Derivation
  imports Outputs "HOL-Library.Multiset"
begin

text \<open>
  Derivations of \<^verbatim>\<open>nix-compat/src/derivation\<close>: the record and the calculation of its hashes and
  paths (\<^verbatim>\<open>mod.rs\<close>), validation (\<^verbatim>\<open>validate.rs\<close>), the ATerm writer (\<^verbatim>\<open>write.rs\<close>,
  \<^verbatim>\<open>aterm/escape.rs\<close>), and the part of the ATerm parser that turns lists of parsed fields into
  the record's collections (\<^verbatim>\<open>parser.rs\<close>).

  Parameters: \<open>E\<close> for the crate \<open>data_encoding\<close>, \<open>sha256\<close>, and \<open>ac\<close> for the crate
  \<open>aho_corasick\<close> (patterns, replacements, text). The combinators of the crate \<open>nom\<close>, which cut the
  text into fields, are not modelled: the parser functions take the fields.
\<close>

section \<open>The record\<close>

record derivation =
  drv_arguments :: "string list"
  drv_builder :: string
  drv_environment :: "(string \<times> string) list"
  drv_input_derivations :: "(store_path \<times> string list) list"
  drv_input_sources :: "store_path list"
  drv_outputs :: outputs
  drv_system :: string

datatype (plugins only: code size) derivation_error =
    InvalidDerivationName string parse_store_path_error
  | InvalidOutputs outputs_error
  | InvalidInputDerivationPath string parse_store_path_error
  | InvalidInputDerivationPrefix string
  | EmptyInputDerivationOutputNames string
  | InvalidInputDerivationOutputName string string
  | InvalidInputSourcesPath string parse_store_path_error
  | InvalidPlatform string
  | InvalidBuilder string
  | InvalidEnvironmentKey string

interpretation sp_order: key_order sp_less
  by unfold_locales (auto simp: sp_less_def)

lemma sp_keq: "sp_order.keq a b \<longleftrightarrow> sp_digest a = sp_digest b"
  by (auto simp: sp_order.keq_def sp_less_def)

section \<open>Validation\<close>

definition ends_with :: "string \<Rightarrow> string \<Rightarrow> bool" where
  "ends_with suf s \<longleftrightarrow> strip_prefix (rev suf) (rev s) \<noteq> None"

definition validate :: "derivation \<Rightarrow> (derivation_error, unit) res" where
  "validate d =
     (case find (\<lambda>p. \<not> ends_with ''.drv'' (sp_name p)) (map fst (drv_input_derivations d)) of
        Some p \<Rightarrow> Inl (InvalidInputDerivationPrefix (sp_to_string p))
      | None \<Rightarrow>
          if drv_system d = [] then Inl (InvalidPlatform (drv_system d))
          else if drv_builder d = [] then Inl (InvalidBuilder (drv_builder d))
          else (case find (\<lambda>k. k = []) (map fst (drv_environment d)) of
                  Some k \<Rightarrow> Inl (InvalidEnvironmentKey k)
                | None \<Rightarrow> Inr ()))"

section \<open>The ATerm writer\<close>

type_synonym replacer = "string list \<Rightarrow> string list \<Rightarrow> string \<Rightarrow> string"

definition PATTERNS :: "string list" where
  "PATTERNS = [[CHR 0x5C], [CHR 0x0A], [CHR 0x0D], [CHR 0x09], [CHR 0x22]]"

definition REPLACEMENTS :: "string list" where
  "REPLACEMENTS = [[CHR 0x5C, CHR 0x5C], [CHR 0x5C, CHR ''n''], [CHR 0x5C, CHR ''r''],
     [CHR 0x5C, CHR ''t''], [CHR 0x5C, CHR 0x22]]"

definition write_escaped :: "replacer \<Rightarrow> string \<Rightarrow> string" where
  "write_escaped ac s = ac PATTERNS REPLACEMENTS s"

definition DERIVATION_PREFIX :: string where "DERIVATION_PREFIX = ''Derive''"

definition write_field :: "replacer \<Rightarrow> string \<Rightarrow> bool \<Rightarrow> string" where
  "write_field ac s escape =
     CHR 0x22 # (if \<not> escape then s else write_escaped ac s) @ [CHR 0x22]"

definition write_array_elements :: "('a \<Rightarrow> string) \<Rightarrow> 'a list \<Rightarrow> string" where
  "write_array_elements aterm_write elements = join_with '','' (map aterm_write elements)"

text \<open>The implementations of \<open>AtermWriteable\<close>.\<close>

definition aterm_write_store_path :: "store_path \<Rightarrow> string" where
  "aterm_write_store_path p = CHR 0x22 # sp_to_absolute_path p @ [CHR 0x22]"

definition aterm_write_str :: "replacer \<Rightarrow> string \<Rightarrow> string" where
  "aterm_write_str ac s = write_field ac s True"

definition aterm_write_bytes :: "data_encoding \<Rightarrow> replacer \<Rightarrow> u8 list \<Rightarrow> string" where
  "aterm_write_bytes E ac b = write_field ac (hexlower_encode E b) False"

definition aterm_write_output_name :: "replacer \<Rightarrow> string \<Rightarrow> string" where
  "aterm_write_output_name ac n = write_field ac n False"

text \<open>The four fields of an output, then the list of all outputs.\<close>

definition output_fields :: "data_encoding \<Rightarrow> string \<times> drv_output \<Rightarrow> string list" where
  "output_fields E = (\<lambda>(output_name, output).
     let path_str = (case o_path output of Some sp \<Rightarrow> sp_to_absolute_path sp | None \<Rightarrow> [])
     in case o_hash output of
          Some output_hash \<Rightarrow>
            [output_name, path_str, as_mode_and_algo_str output_hash,
             hexlower_encode E (digest_as_bytes (oh_hash output_hash))]
        | None \<Rightarrow> [output_name, path_str, [], []])"

definition write_outputs :: "data_encoding \<Rightarrow> replacer \<Rightarrow> (string \<times> drv_output) list \<Rightarrow> string" where
  "write_outputs E ac outputs =
     ''['' @ join_with '',''
       (map (\<lambda>e. ''('' @ write_array_elements (aterm_write_str ac) (output_fields E e) @ '')'') outputs) @ '']''"

definition write_input_derivations :: "replacer \<Rightarrow> ('k \<Rightarrow> string) \<Rightarrow> ('k \<times> string list) list \<Rightarrow> string" where
  "write_input_derivations ac aterm_write input_derivations_sorted =
     ''['' @ join_with '',''
       (map (\<lambda>(k, output_names).
          ''('' @ aterm_write k @ '','' @
          ''['' @ write_array_elements (aterm_write_output_name ac) output_names @ '']'' @ '')'')
        input_derivations_sorted) @ '']''"

definition write_input_sources :: "store_path list \<Rightarrow> string" where
  "write_input_sources input_sources =
     ''['' @ write_array_elements aterm_write_store_path input_sources @ '']''"

definition write_system :: "replacer \<Rightarrow> string \<Rightarrow> string" where
  "write_system ac platform = write_field ac platform True"

definition write_builder :: "replacer \<Rightarrow> string \<Rightarrow> string" where
  "write_builder ac builder = write_field ac builder True"

definition write_arguments :: "replacer \<Rightarrow> string list \<Rightarrow> string" where
  "write_arguments ac arguments = ''['' @ write_array_elements (aterm_write_str ac) arguments @ '']''"

definition write_environment :: "replacer \<Rightarrow> (string \<times> string) list \<Rightarrow> string" where
  "write_environment ac environment =
     ''['' @ join_with '',''
       (map (\<lambda>(k, v). ''('' @ write_field ac k False @ '','' @ write_field ac v True @ '')'') environment)
     @ '']''"

definition serialize_with_replacements ::
  "data_encoding \<Rightarrow> replacer \<Rightarrow> derivation \<Rightarrow> ('k \<Rightarrow> string) \<Rightarrow> ('k \<times> string list) list \<Rightarrow> string" where
  "serialize_with_replacements E ac d aterm_write input_derivations_sorted =
     DERIVATION_PREFIX @ ''('' @
     write_outputs E ac (outputs_iter (drv_outputs d)) @ '','' @
     write_input_derivations ac aterm_write input_derivations_sorted @ '','' @
     write_input_sources (drv_input_sources d) @ '','' @
     write_system ac (drv_system d) @ '','' @
     write_builder ac (drv_builder d) @ '','' @
     write_arguments ac (drv_arguments d) @ '','' @
     write_environment ac (drv_environment d) @ '')''"

definition to_aterm_bytes :: "data_encoding \<Rightarrow> replacer \<Rightarrow> derivation \<Rightarrow> string" where
  "to_aterm_bytes E ac d =
     serialize_with_replacements E ac d aterm_write_store_path (drv_input_derivations d)"

section \<open>Hashes and paths\<close>

definition calculate_derivation_path ::
  "data_encoding \<Rightarrow> replacer \<Rightarrow> (string \<Rightarrow> u8 list) \<Rightarrow> derivation \<Rightarrow> string
   \<Rightarrow> (derivation_error, store_path) res" where
  "calculate_derivation_path E ac sha256 d name =
     (let references = fold (btree_set_insert sp_less) (map fst (drv_input_derivations d)) [];
          references = fold (btree_set_insert sp_less) (drv_input_sources d) references;
          drv_name = name @ ''.drv''
      in map_err (InvalidDerivationName drv_name)
           (build_text_path E sha256 drv_name (to_aterm_bytes E ac d) references))"

definition drv_fod_digest ::
  "data_encoding \<Rightarrow> (string \<Rightarrow> u8 list) \<Rightarrow> derivation \<Rightarrow> u8 list option" where
  "drv_fod_digest E sha256 d =
     (if outputs_len (drv_outputs d) \<noteq> 1 then None
      else Option.bind (outputs_get (drv_outputs d) output_name_out) (\<lambda>out_output.
           Option.bind (o_hash out_output) (\<lambda>out_output_hash.
             Some (fod_digest E sha256 (oh_mode out_output_hash = ORecursive) (oh_hash out_output_hash)
                     (o_path out_output)))))"

text \<open>
  \<open>hash_derivation_modulo\<close>. The lookup function of the caller may panic (\<open>None\<close>), and then so
  does the call. The argument of \<open>unwrap_or\<close> is evaluated before the call, in every case.
\<close>

fun lookup_replacements ::
  "(store_path \<Rightarrow> u8 list option) \<Rightarrow> (store_path \<times> string list) list \<Rightarrow> (u8 list \<times> string list) list option" where
  "lookup_replacements lookup [] = Some []"
| "lookup_replacements lookup ((drv_path, output_names) # rest) =
     Option.bind (lookup drv_path) (\<lambda>h.
       map_option (\<lambda>l. (h, output_names) # l) (lookup_replacements lookup rest))"

definition hash_derivation_modulo ::
  "data_encoding \<Rightarrow> replacer \<Rightarrow> (string \<Rightarrow> u8 list) \<Rightarrow> (store_path \<Rightarrow> u8 list option) \<Rightarrow> derivation
   \<Rightarrow> u8 list option" where
  "hash_derivation_modulo E ac sha256 lookup d =
     Option.bind (lookup_replacements lookup (drv_input_derivations d)) (\<lambda>replacements.
       let replacements = sort_key fst replacements;
           default = sha256 (serialize_with_replacements E ac d (aterm_write_bytes E ac) replacements)
       in Some (case drv_fod_digest E sha256 d of Some digest \<Rightarrow> digest | None \<Rightarrow> default))"

text \<open>
  \<open>Derivation::calculate_output_paths\<close>: the \<open>unwrap\<close> of a path that is still missing is the
  panic of the loop over the outputs.
\<close>

fun insert_output_paths ::
  "(string \<times> drv_output) list \<Rightarrow> (string \<times> string) list \<Rightarrow> (string \<times> string) list \<times> (derivation_error, unit) res" where
  "insert_output_paths [] env = (env, Inr ())"
| "insert_output_paths ((output_name, output) # rest) env =
     (case o_path output of
        None \<Rightarrow> (env, Inl (InvalidOutputs OutputsPanic))
      | Some p \<Rightarrow> insert_output_paths rest (btree_put (<) output_name (sp_to_absolute_path p) env))"

definition calculate_output_paths ::
  "data_encoding \<Rightarrow> (string \<Rightarrow> u8 list) \<Rightarrow> string \<Rightarrow> u8 list \<Rightarrow> derivation
   \<Rightarrow> derivation \<times> (derivation_error, unit) res" where
  "calculate_output_paths E sha256 drv_name hdm d =
     (case outputs_calculate_output_paths E sha256 drv_name hdm (drv_outputs d) of
        (os', Inl e) \<Rightarrow> (d\<lparr>drv_outputs := os'\<rparr>, Inl (InvalidOutputs e))
      | (os', Inr _) \<Rightarrow>
          (let (env', r) = insert_output_paths (outputs_iter os') (drv_environment d)
           in (d\<lparr>drv_outputs := os', drv_environment := env'\<rparr>, r)))"

section \<open>From parsed fields to the record\<close>

datatype (plugins only: code size) parse_error_kind =
    DuplicateMapKey string
  | DuplicateInputDerivationOutputName string string
  | DuplicateInputSource store_path
  | PInvalidOutputName output_name_error
  | PInvalidOutputs outputs_error
  | NixHashError nixhash_error
  | StorePathError parse_store_path_error
  | ParsePanic  \<comment> \<open>the debug assertion of \<open>string_to_store_path\<close>\<close>

definition string_to_store_path :: "string \<Rightarrow> (parse_error_kind, store_path) res" where
  "string_to_store_path path_str =
     rbind (map_err StorePathError (sp_from_absolute_path path_str)) (\<lambda>path.
       if path_str \<noteq> sp_to_absolute_path path then Inl ParsePanic else Inr path)"

definition parse_output_fields ::
  "data_encoding \<Rightarrow> string \<Rightarrow> string \<Rightarrow> string \<Rightarrow> string \<Rightarrow> (parse_error_kind, string \<times> drv_output) res" where
  "parse_output_fields E output_name_str output_path_str algo_and_mode encoded_digest =
     rbind (map_err PInvalidOutputName (output_name_from_str output_name_str)) (\<lambda>output_name.
     rbind (string_to_store_path output_path_str) (\<lambda>output_path.
     if algo_and_mode = [] \<and> encoded_digest = []
     then Inr (output_name, \<lparr>o_path = Some output_path, o_hash = None\<rparr>)
     else rbind (map_err (\<lambda>e. NixHashError (InvalidBase16Encoding e)) (hexlower_decode E encoded_digest)) (\<lambda>digest.
          rbind (map_err NixHashError (from_mode_algo_and_digest algo_and_mode digest)) (\<lambda>oh.
          Inr (output_name, \<lparr>o_path = Some output_path, o_hash = Some oh\<rparr>)))))"

fun parse_kv_pairs ::
  "(string \<times> 'v) list \<Rightarrow> (string \<times> 'v) list \<Rightarrow> (parse_error_kind, (string \<times> 'v) list) res" where
  "parse_kv_pairs kvs [] = Inr kvs"
| "parse_kv_pairs kvs ((k, v) # pairs) =
     (case btree_get (<) k kvs of
        None \<Rightarrow> parse_kv_pairs (btree_put (<) k v kvs) pairs
      | Some _ \<Rightarrow> Inl (DuplicateMapKey k))"

fun parse_output_names ::
  "string \<Rightarrow> string list \<Rightarrow> string list \<Rightarrow> (parse_error_kind, string list) res" where
  "parse_output_names input_derivation output_names [] = Inr output_names"
| "parse_output_names input_derivation output_names (s # rest) =
     rbind (map_err PInvalidOutputName (output_name_from_str s)) (\<lambda>output_name.
       if btree_set_contains (<) output_name output_names
       then Inl (DuplicateInputDerivationOutputName output_name input_derivation)
       else parse_output_names input_derivation (btree_set_insert (<) output_name output_names) rest)"

fun parse_input_derivations_list ::
  "(store_path \<times> string list) list \<Rightarrow> (string \<times> string list) list
   \<Rightarrow> (parse_error_kind, (store_path \<times> string list) list) res" where
  "parse_input_derivations_list acc [] = Inr acc"
| "parse_input_derivations_list acc ((input_derivation, output_names_strings) # rest) =
     rbind (parse_output_names input_derivation [] output_names_strings) (\<lambda>output_names.
     rbind (string_to_store_path input_derivation) (\<lambda>p.
       parse_input_derivations_list (btree_put sp_less p output_names acc) rest))"

definition parse_input_derivations ::
  "(string \<times> string list) list \<Rightarrow> (parse_error_kind, (store_path \<times> string list) list) res" where
  "parse_input_derivations pairs =
     rbind (parse_kv_pairs [] pairs) (parse_input_derivations_list [])"

fun parse_input_sources_list ::
  "store_path list \<Rightarrow> string list \<Rightarrow> (parse_error_kind, store_path list) res" where
  "parse_input_sources_list acc [] = Inr acc"
| "parse_input_sources_list acc (s # rest) =
     rbind (string_to_store_path s) (\<lambda>input_source.
       if btree_set_contains sp_less input_source acc
       then Inl (DuplicateInputSource input_source)
       else parse_input_sources_list (btree_set_insert sp_less input_source acc) rest)"

text \<open>
  \<open>parse_outputs\<close> hands the parsed entries to the collection's constructor.
\<close>

definition parse_outputs_list :: "(string \<times> drv_output) list \<Rightarrow> (parse_error_kind, outputs) res" where
  "parse_outputs_list outputs_lst = map_err PInvalidOutputs (try_from_iter outputs_lst)"

section \<open>The text determines the derivation\<close>

text \<open>
  Documented behaviour of \<open>try_stream_replace_all\<close> for patterns of one byte: every occurrence is
  replaced by the replacement at the pattern's index, all other bytes are copied.
\<close>

definition replaces_bytes :: "replacer \<Rightarrow> bool" where
  "replaces_bytes ac \<longleftrightarrow>
     (\<forall>s. ac PATTERNS REPLACEMENTS s =
        concat (map (\<lambda>c. case map_of (zip PATTERNS REPLACEMENTS) [c] of Some r \<Rightarrow> r | None \<Rightarrow> [c]) s))"

definition escape_byte :: "char \<Rightarrow> string" where
  "escape_byte c = (case map_of (zip PATTERNS REPLACEMENTS) [c] of Some r \<Rightarrow> r | None \<Rightarrow> [c])"

lemma write_escaped_eq: "replaces_bytes ac \<Longrightarrow> write_escaped ac s = concat (map escape_byte s)"
  by (simp add: replaces_bytes_def write_escaped_def escape_byte_def [abs_def])

lemma escape_byte_eq:
  "escape_byte c =
     (if c = CHR 0x5C then [CHR 0x5C, CHR 0x5C] else if c = CHR 0x0A then [CHR 0x5C, CHR ''n'']
      else if c = CHR 0x0D then [CHR 0x5C, CHR ''r''] else if c = CHR 0x09 then [CHR 0x5C, CHR ''t'']
      else if c = CHR 0x22 then [CHR 0x5C, CHR 0x22] else [c])"
  by (simp add: escape_byte_def PATTERNS_def REPLACEMENTS_def)

lemma escape_byte_prefix: "escape_byte a @ r = escape_byte b @ q \<Longrightarrow> a = b \<and> r = q"
  by (auto simp: escape_byte_eq split: if_splits)

lemma escape_byte_no_quote: "escape_byte a @ r \<noteq> CHR 0x22 # q"
  by (auto simp: escape_byte_eq)

lemma prefix_code_escaped: "prefix_code (\<lambda>s. concat (map escape_byte s) @ [CHR 0x22]) (\<lambda>_. True)"
proof
  fix a b r q
  show "(concat (map escape_byte a) @ [CHR 0x22]) @ r = (concat (map escape_byte b) @ [CHR 0x22]) @ q
    \<Longrightarrow> a = b \<and> r = q"
  proof (induction a arbitrary: b)
    case Nil
    then show ?case
      by (cases b) (auto dest: escape_byte_no_quote [THEN notE, OF sym])
  next
    case (Cons x a)
    then obtain y b' where b: "b = y # b'"
      by (cases b) (auto dest: escape_byte_no_quote [THEN notE])
    with Cons.prems have "escape_byte x @ (concat (map escape_byte a) @ [CHR 0x22]) @ r =
        escape_byte y @ (concat (map escape_byte b') @ [CHR 0x22]) @ q" by simp
    from escape_byte_prefix [OF this] Cons.IH b show ?case by blast
  qed
qed

lemma prefix_code_field: "replaces_bytes ac \<Longrightarrow> prefix_code (\<lambda>s. write_field ac s True) (\<lambda>_. True)"
  by (simp add: write_field_def write_escaped_eq prefix_code_Cons prefix_code_escaped)

lemma prefix_code_plain_field: "prefix_code (\<lambda>s. write_field ac s False) (\<lambda>s. CHR 0x22 \<notin> set s)"
  by (simp add: write_field_def prefix_code_Cons prefix_code_until)

lemma write_field_start: "write_field ac s e \<noteq> []" "hd (write_field ac s e) = CHR 0x22"
  by (simp_all add: write_field_def)

lemma prefix_code_store_path: "prefix_code aterm_write_store_path sp_wf"
proof -
  have "prefix_code (\<lambda>p. CHR 0x22 # sp_to_absolute_path p @ [CHR 0x22]) sp_wf"
    by (rule prefix_code_comp [OF prefix_code_Cons [OF prefix_code_until]])
      (use sp_absolute_path_chars(4) sp_to_absolute_path_inj in auto)
  then show ?thesis by (simp add: aterm_write_store_path_def [abs_def])
qed

lemma list_all_True: "list_all (\<lambda>_. True) = (\<lambda>_. True)"
  by (auto simp: list_all_iff)

text \<open>The fields of the record's parts.\<close>

lemma prefix_code_str_list:
  "replaces_bytes ac \<Longrightarrow>
   prefix_code (\<lambda>l. ''['' @ write_array_elements (aterm_write_str ac) l @ '']'') (\<lambda>_. True)"
  using prefix_code_Cons [OF prefix_code_list [OF prefix_code_field, of ac "CHR '',''" "CHR '']''"], of "CHR ''[''"]
  by (simp add: write_array_elements_def aterm_write_str_def [abs_def] write_field_start list_all_True)

lemma prefix_code_output_fields:
  "replaces_bytes ac \<Longrightarrow>
   prefix_code (\<lambda>l. ''('' @ write_array_elements (aterm_write_str ac) l @ '')'') (\<lambda>_. True)"
  using prefix_code_Cons [OF prefix_code_list [OF prefix_code_field, of ac "CHR '',''" "CHR '')''"], of "CHR ''(''"]
  by (simp add: write_array_elements_def aterm_write_str_def [abs_def] write_field_start list_all_True)

definition output_entry_wf :: "string \<times> drv_output \<Rightarrow> bool" where
  "output_entry_wf = (\<lambda>(n, out). output_name_ok n \<and> output_wf out)"

lemma as_mode_and_algo_str_nonempty: "as_mode_and_algo_str oh \<noteq> []" "[] \<noteq> as_mode_and_algo_str oh"
  by (cases "algo (oh_hash oh)"; simp add: as_mode_and_algo_str_eq)+

lemma output_fields_inj:
  assumes "\<forall>x. hexlower_decode E (hexlower_encode E x) = Inr x"
    "output_entry_wf e" "output_entry_wf e'" "output_fields E e = output_fields E e'"
  shows "e = e'"
proof -
  obtain n out n' out' where e: "e = (n, out)" "e' = (n', out')" by fastforce
  have hash: "o_hash out = o_hash out'"
  proof (cases "o_hash out"; cases "o_hash out'")
    fix a b assume ab: "o_hash out = Some a" "o_hash out' = Some b"
    then have ma: "as_mode_and_algo_str a = as_mode_and_algo_str b"
      and hx: "hexlower_encode E (digest_as_bytes (oh_hash a)) = hexlower_encode E (digest_as_bytes (oh_hash b))"
      using assms(4) e by (simp_all add: output_fields_def Let_def)
    have dg: "digest_as_bytes (oh_hash a) = digest_as_bytes (oh_hash b)"
      using assms(1) hx by (metis sum.inject(2))
    have "nixhash_wf (oh_hash a)" "nixhash_wf (oh_hash b)"
      using assms(2,3) ab e by (simp_all add: output_entry_wf_def output_wf_def)
    then have "a = b"
      using from_mode_algo_and_digest_as_str [of a, unfolded ma dg] from_mode_algo_and_digest_as_str [of b]
      by (metis sum.inject(2))
    then show ?thesis using ab by simp
  qed (use assms(4) e as_mode_and_algo_str_nonempty in \<open>auto simp: output_fields_def Let_def\<close>)
  have abs: "sp_to_absolute_path p \<noteq> []" "[] \<noteq> sp_to_absolute_path p" for p
    by (simp_all add: sp_to_absolute_path_def STORE_DIR_WITH_SLASH_def)
  have str: "(case o_path out of Some sp \<Rightarrow> sp_to_absolute_path sp | None \<Rightarrow> []) =
      (case o_path out' of Some sp \<Rightarrow> sp_to_absolute_path sp | None \<Rightarrow> [])" and "n = n'"
    using assms(4) e hash by (auto simp: output_fields_def Let_def split: option.splits)
  have "o_path out = o_path out'"
    using str abs assms(2,3) sp_to_absolute_path_inj e
    by (cases "o_path out"; cases "o_path out'") (auto simp: output_entry_wf_def output_wf_def)
  then show ?thesis using \<open>n = n'\<close> hash e by simp
qed

lemma prefix_code_outputs:
  assumes "replaces_bytes ac" "\<forall>x. hexlower_decode E (hexlower_encode E x) = Inr x"
  shows "prefix_code (write_outputs E ac) (list_all output_entry_wf)"
proof -
  have "prefix_code (\<lambda>e. ''('' @ write_array_elements (aterm_write_str ac) (output_fields E e) @ '')'')
      output_entry_wf"
    by (rule prefix_code_comp [OF prefix_code_output_fields [OF assms(1)]])
      (use output_fields_inj [OF assms(2)] in auto)
  from prefix_code_Cons [OF prefix_code_list [OF this, of "CHR '',''" "CHR '']''"], of "CHR ''[''"]
  show ?thesis by (simp add: write_outputs_def [abs_def])
qed

definition input_derivation_wf :: "store_path \<times> string list \<Rightarrow> bool" where
  "input_derivation_wf = (\<lambda>(p, ns). sp_wf p \<and> list_all output_name_ok ns)"

lemma prefix_code_output_names:
  "prefix_code (\<lambda>ns. ''['' @ write_array_elements (aterm_write_output_name ac) ns @ '']'') (list_all output_name_ok)"
proof -
  have "prefix_code (\<lambda>s. write_field ac s False) output_name_ok"
    by (rule prefix_code_comp [OF prefix_code_plain_field])
      (use name_ok_chars(5) in \<open>auto simp: output_name_ok_def\<close>)
  from prefix_code_Cons [OF prefix_code_list [OF this, of "CHR '',''" "CHR '']''"], of "CHR ''[''"]
  show ?thesis
    by (simp add: write_array_elements_def aterm_write_output_name_def [abs_def] write_field_start)
qed

lemma prefix_code_input_derivations:
  assumes "prefix_code wr K"
  shows "prefix_code (write_input_derivations ac wr) (list_all (\<lambda>(k, ns). K k \<and> list_all output_name_ok ns))"
proof -
  let ?P = "\<lambda>(k, ns). K k \<and> list_all output_name_ok ns"
  have "prefix_code (\<lambda>(k, ns). wr k @
      CHR '','' # (''['' @ write_array_elements (aterm_write_output_name ac) ns @ '']'') @ '')'') ?P"
    by (rule prefix_code_pair [OF assms prefix_code_Cons [OF prefix_code_right [OF prefix_code_output_names]]])
  then have "prefix_code (\<lambda>(k, ns). CHR ''('' # wr k @
      CHR '','' # (''['' @ write_array_elements (aterm_write_output_name ac) ns @ '']'') @ '')'') ?P"
    using prefix_code_Cons [of "\<lambda>(k, ns). wr k @
      CHR '','' # (''['' @ write_array_elements (aterm_write_output_name ac) ns @ '']'') @ '')''" _ "CHR ''(''"]
    by (simp add: case_prod_unfold)
  from prefix_code_Cons [OF prefix_code_list [OF this, of "CHR '',''" "CHR '']''"], of "CHR ''[''"]
  show ?thesis by (simp add: write_input_derivations_def [abs_def] case_prod_unfold)
qed

lemma prefix_code_input_sources: "prefix_code write_input_sources (list_all sp_wf)"
  using prefix_code_Cons [OF prefix_code_list [OF prefix_code_store_path, of "CHR '',''" "CHR '']''"], of "CHR ''[''"]
  by (simp add: write_input_sources_def [abs_def] write_array_elements_def aterm_write_store_path_def)

definition env_entry_wf :: "string \<times> string \<Rightarrow> bool" where
  "env_entry_wf = (\<lambda>(k, v). CHR 0x22 \<notin> set k)"

lemma prefix_code_environment:
  assumes "replaces_bytes ac"
  shows "prefix_code (write_environment ac) (list_all env_entry_wf)"
proof -
  have "prefix_code (\<lambda>(k, v). write_field ac k False @ CHR '','' # write_field ac v True @ '')'')
      (\<lambda>(k, v). CHR 0x22 \<notin> set k \<and> True)"
    by (rule prefix_code_pair [OF prefix_code_plain_field prefix_code_Cons [OF prefix_code_right [OF prefix_code_field [OF assms]]]])
  then have "prefix_code (\<lambda>(k, v). CHR ''('' # write_field ac k False @ CHR '','' # write_field ac v True @ '')'')
      env_entry_wf"
    using prefix_code_Cons [of "\<lambda>(k, v). write_field ac k False @ CHR '','' # write_field ac v True @ '')''" env_entry_wf "CHR ''(''"]
    by (simp add: case_prod_unfold env_entry_wf_def)
  from prefix_code_Cons [OF prefix_code_list [OF this, of "CHR '',''" "CHR '']''"], of "CHR ''[''"]
  show ?thesis by (simp add: write_environment_def [abs_def] case_prod_unfold)
qed

text \<open>
  A derivation whose collections are as the Rust types keep them, and whose environment keys
  contain no quote, is determined by its text.
\<close>

definition drv_wf :: "derivation \<Rightarrow> bool" where
  "drv_wf d \<longleftrightarrow>
     outputs_inv (drv_outputs d) \<and> list_all output_entry_wf (outputs_iter (drv_outputs d)) \<and>
     list_all input_derivation_wf (drv_input_derivations d) \<and>
     btree_sorted sp_less (drv_input_derivations d) \<and>
     (\<forall>(p, ns) \<in> set (drv_input_derivations d). sorted_wrt (<) ns) \<and>
     list_all sp_wf (drv_input_sources d) \<and> sorted_wrt sp_less (drv_input_sources d) \<and>
     btree_sorted (<) (drv_environment d)"

definition plain_env_keys :: "derivation \<Rightarrow> bool" where
  "plain_env_keys d \<longleftrightarrow> list_all env_entry_wf (drv_environment d)"

lemma outputs_iter_inj: "outputs_inv a \<Longrightarrow> outputs_inv b \<Longrightarrow> outputs_iter a = outputs_iter b \<Longrightarrow> a = b"
  by (cases a; cases b) auto

text \<open>
  The text with any keys for the input derivations determines these keys with the output names, and the other fields: two
  derivations with the same text differ in their input derivations at most.
\<close>

definition replaced_wf :: "('k \<Rightarrow> bool) \<Rightarrow> derivation \<times> ('k \<times> string list) list \<Rightarrow> bool" where
  "replaced_wf K = (\<lambda>(d, l). drv_wf d \<and> plain_env_keys d \<and> drv_input_derivations d = [] \<and>
     list_all (\<lambda>(k, ns). K k \<and> list_all output_name_ok ns) l)"

lemma prefix_code_replaced:
  assumes ac: "replaces_bytes ac" and hex: "\<forall>x. hexlower_decode E (hexlower_encode E x) = Inr x" and wr: "prefix_code wr (K :: 'k \<Rightarrow> bool)"
  shows "prefix_code (\<lambda>(d, l). serialize_with_replacements E ac d wr l) (replaced_wf K)"
proof -
  let ?args = "\<lambda>l. ''['' @ write_array_elements (aterm_write_str ac) l @ '']''"
  define F1 where "F1 = (\<lambda>env. write_environment ac env @ '')'')"
  define F2 where "F2 = (\<lambda>(args, env). ?args args @ CHR '','' # F1 env)"
  define F3 where "F3 = (\<lambda>(bld, x). write_field ac bld True @ CHR '','' # F2 x)"
  define F4 where "F4 = (\<lambda>(sys, x). write_field ac sys True @ CHR '','' # F3 x)"
  define F5 where "F5 = (\<lambda>(srcs, x). write_input_sources srcs @ CHR '','' # F4 x)"
  define F6 where "F6 = (\<lambda>(drvs, x). write_input_derivations ac wr drvs @ CHR '','' # F5 x)"
  define F where "F = (\<lambda>(outs, x). write_outputs E ac outs @ CHR '','' # F6 x)"
  define h where "h = (\<lambda>(d :: derivation, l :: ('k \<times> string list) list). (outputs_iter (drv_outputs d), l, drv_input_sources d,
     drv_system d, drv_builder d, drv_arguments d, drv_environment d))"
  define D where "D = list_all (\<lambda>(k, ns). K k \<and> list_all output_name_ok ns)"
  define P5 where "P5 = (\<lambda>(srcs :: store_path list, sys :: string, bld :: string, args :: string list, env).
     list_all sp_wf srcs \<and> list_all env_entry_wf env)"
  define P where "P = (\<lambda>(outs, drvs, x). list_all output_entry_wf outs \<and> D drvs \<and> P5 x)"
  have F1: "prefix_code F1 (list_all env_entry_wf)"
    unfolding F1_def by (rule prefix_code_right [OF prefix_code_environment [OF ac]])
  have "prefix_code F2 (\<lambda>(a, e). True \<and> list_all env_entry_wf e)"
    unfolding F2_def by (rule prefix_code_pair [OF prefix_code_str_list [OF ac] prefix_code_Cons [OF F1]])
  then have "prefix_code F3 (\<lambda>(b, x). True \<and> (case x of (a, e) \<Rightarrow> True \<and> list_all env_entry_wf e))"
    unfolding F3_def by (rule prefix_code_pair [OF prefix_code_field [OF ac] prefix_code_Cons])
  then have "prefix_code F4 (\<lambda>(s, x). True \<and> (case x of (b, a, e) \<Rightarrow> list_all env_entry_wf e))"
    unfolding F4_def by (intro prefix_code_pair prefix_code_field [OF ac] prefix_code_Cons)
      (simp add: case_prod_unfold)
  then have "prefix_code F5 (\<lambda>(l, x). list_all sp_wf l \<and> (case x of (s, b, a, e) \<Rightarrow> list_all env_entry_wf e))"
    unfolding F5_def by (intro prefix_code_pair prefix_code_input_sources prefix_code_Cons)
      (simp add: case_prod_unfold)
  then have "prefix_code F5 P5" by (simp add: P5_def case_prod_unfold)
  then have "prefix_code F6 (\<lambda>(l, x). D l \<and> P5 x)"
    unfolding F6_def D_def by (rule prefix_code_pair [OF prefix_code_input_derivations [OF wr] prefix_code_Cons])
  then have "prefix_code F (\<lambda>(outs, x). list_all output_entry_wf outs \<and> (case x of (l, x) \<Rightarrow> D l \<and> P5 x))"
    unfolding F_def by (rule prefix_code_pair [OF prefix_code_outputs [OF ac hex] prefix_code_Cons])
  then have F: "prefix_code F P" by (simp add: P_def case_prod_unfold)
  have eq: "(\<lambda>(d, l). serialize_with_replacements E ac d wr l) = (\<lambda>x. ''Derive('' @ F (h x))"
    by (rule ext) (simp add: serialize_with_replacements_def h_def case_prod_unfold
        F_def F6_def F5_def F4_def F3_def F2_def F1_def
        DERIVATION_PREFIX_def write_system_def write_builder_def write_arguments_def)
  have "prefix_code (\<lambda>x. F (h x)) (replaced_wf K)"
  proof (rule prefix_code_comp [OF F])
    show "replaced_wf K x \<Longrightarrow> P (h x)" for x
      by (auto simp: P_def P5_def D_def h_def replaced_wf_def drv_wf_def plain_env_keys_def)
    show "replaced_wf K a \<Longrightarrow> replaced_wf K b \<Longrightarrow> h a = h b \<Longrightarrow> a = b" for a b
      using outputs_iter_inj [of "drv_outputs (fst a)" "drv_outputs (fst b)"]
      by (cases "fst a"; cases "fst b"; cases a; cases b) (simp add: h_def replaced_wf_def drv_wf_def)
  qed
  then show ?thesis unfolding eq by (rule prefix_code_left)
qed

lemma serialize_inputs [simp]:
  "serialize_with_replacements E ac (d\<lparr>drv_input_derivations := l\<rparr>) wr rs = serialize_with_replacements E ac d wr rs"
  by (simp add: serialize_with_replacements_def)

lemma drv_wf_replaced: "drv_wf d \<Longrightarrow> drv_wf (d\<lparr>drv_input_derivations := []\<rparr>)"
  by (simp add: drv_wf_def btree_sorted_def)

lemma serialize_injective:
  assumes "replaces_bytes ac" "\<forall>x. hexlower_decode E (hexlower_encode E x) = Inr x" "prefix_code wr K"
    and "drv_wf d" "drv_wf d'" "plain_env_keys d" "plain_env_keys d'"
    and "list_all (\<lambda>(k, ns). K k \<and> list_all output_name_ok ns) l" "list_all (\<lambda>(k, ns). K k \<and> list_all output_name_ok ns) l'"
    and "serialize_with_replacements E ac d wr l @ rest = serialize_with_replacements E ac d' wr l' @ rest'"
  shows "d\<lparr>drv_input_derivations := []\<rparr> = d'\<lparr>drv_input_derivations := []\<rparr> \<and> l = l' \<and> rest = rest'"
proof -
  have "replaced_wf K (d\<lparr>drv_input_derivations := []\<rparr>, l)" "replaced_wf K (d'\<lparr>drv_input_derivations := []\<rparr>, l')"
    using assms(4-9) by (simp_all add: replaced_wf_def drv_wf_replaced plain_env_keys_def)
  from prefix_code.put_prefix_free [OF prefix_code_replaced [OF assms(1-3)] this] assms(10)
  show ?thesis by simp
qed

section \<open>Reading back the fields\<close>

lemma string_to_store_path_iff: "string_to_store_path s = Inr p \<longleftrightarrow> sp_wf p \<and> s = sp_to_absolute_path p"
  by (auto simp: string_to_store_path_def sp_from_absolute_path_iff)

lemma string_to_store_path_no_panic: "string_to_store_path s \<noteq> Inl ParsePanic"
  by (auto simp: string_to_store_path_def rbind_eq_Inl sp_from_absolute_path_iff)

lemma parse_kv_pairs_sorted:
  "btree_sorted (<) (acc @ l) \<Longrightarrow> parse_kv_pairs acc l = Inr (acc @ l)"
proof (induction l arbitrary: acc)
  case (Cons e l)
  obtain k v where e: "e = (k, v)" by fastforce
  have "\<forall>x\<in>set acc. fst x < k" using Cons.prems e by (auto simp: btree_sorted_def sorted_wrt_append)
  then show ?case
    using Cons.IH [of "acc @ [(k, v)]"] Cons.prems e btree_get_above [of acc "(<)" k]
    by (simp add: btree_put_snoc)
qed simp

lemma fold_put_sorted:
  "btree_sorted (<) (acc @ l) \<Longrightarrow> fold (\<lambda>(k, v). btree_put (<) k v) l acc = acc @ l"
proof (induction l arbitrary: acc)
  case (Cons e l)
  obtain k v where e: "e = (k, v)" by fastforce
  have "\<forall>x\<in>set acc. fst x < k" using Cons.prems e by (auto simp: btree_sorted_def sorted_wrt_append)
  then show ?case using Cons.IH [of "acc @ [(k, v)]"] Cons.prems e by (simp add: btree_put_snoc)
qed simp

lemma parse_outputs_iter: "outputs_inv os \<Longrightarrow> parse_outputs_list (outputs_iter os) = Inr os"
proof (cases os)
  case (OSingle out)
  then show ?thesis by (simp add: parse_outputs_list_def try_from_iter_def)
next
  case (OMultiple l)
  assume inv: "outputs_inv os"
  then have "valid_outputs_list l"
    using OMultiple byte_order.sorted_distinct [of l] by (auto simp: valid_outputs_list_def)
  moreover have "fold (\<lambda>(n, out). btree_put (<) n out) l [] = l"
    using fold_put_sorted [of "[]" l] inv OMultiple by simp
  ultimately have "try_from_iter l = Inr (OMultiple l)"
    using inv OMultiple by (simp add: try_from_iter_iff)
  then show ?thesis using OMultiple by (simp add: parse_outputs_list_def)
qed

lemma parse_output_names_sorted:
  "sorted_wrt (<) (acc @ l) \<Longrightarrow> list_all output_name_ok l \<Longrightarrow> parse_output_names drv acc l = Inr (acc @ l)"
proof (induction l arbitrary: acc)
  case (Cons n l)
  have "\<forall>x\<in>set acc. x < n" using Cons.prems by (auto simp: sorted_wrt_append)
  moreover have "output_name_from_str n = Inr n" using Cons.prems by (simp add: output_name_from_str_iff)
  ultimately show ?case
    using Cons.IH [of "acc @ [n]"] Cons.prems
    by (simp add: btree_set_insert_snoc btree_set_contains_above)
qed simp

lemma parse_input_sources_sorted:
  "sorted_wrt sp_less (acc @ l) \<Longrightarrow> list_all sp_wf l \<Longrightarrow>
   parse_input_sources_list acc (map sp_to_absolute_path l) = Inr (acc @ l)"
proof (induction l arbitrary: acc)
  case (Cons p l)
  have "\<forall>x\<in>set acc. sp_less x p" using Cons.prems by (auto simp: sorted_wrt_append)
  moreover have "string_to_store_path (sp_to_absolute_path p) = Inr p"
    using Cons.prems by (simp add: string_to_store_path_iff)
  ultimately show ?case
    using Cons.IH [of "acc @ [p]"] Cons.prems
    by (simp add: btree_set_insert_snoc btree_set_contains_above)
qed simp

definition input_derivation_fields :: "store_path \<times> string list \<Rightarrow> string \<times> string list" where
  "input_derivation_fields = (\<lambda>(p, ns). (sp_to_absolute_path p, ns))"

lemma parse_input_derivations_list_sorted:
  "btree_sorted sp_less (acc @ l) \<Longrightarrow> list_all input_derivation_wf l \<Longrightarrow>
   \<forall>(p, ns) \<in> set l. sorted_wrt (<) ns \<Longrightarrow>
   parse_input_derivations_list acc (map input_derivation_fields l) = Inr (acc @ l)"
proof (induction l arbitrary: acc)
  case (Cons e l)
  obtain p ns where e: "e = (p, ns)" by fastforce
  have "\<forall>x\<in>set acc. sp_less (fst x) p"
    using Cons.prems e by (auto simp: btree_sorted_def sorted_wrt_append)
  moreover have "string_to_store_path (sp_to_absolute_path p) = Inr p"
    using Cons.prems e by (simp add: string_to_store_path_iff input_derivation_wf_def)
  moreover have "parse_output_names (sp_to_absolute_path p) [] ns = Inr ns"
    using parse_output_names_sorted [of "[]" ns] Cons.prems e by (simp add: input_derivation_wf_def)
  ultimately show ?case
    using Cons.IH [of "acc @ [(p, ns)]"] Cons.prems e
    by (simp add: btree_put_snoc input_derivation_fields_def)
qed simp

lemma sp_less_paths:
  "sp_wf a \<Longrightarrow> sp_wf b \<Longrightarrow> sp_less a b \<Longrightarrow> sp_to_absolute_path a < sp_to_absolute_path b"
  using sp_less_absolute_path [of a b] sp_order.irrefl by (cases "sp_digest a = sp_digest b") (auto simp: sp_less_def)

lemma input_derivation_fields_sorted:
  assumes "btree_sorted sp_less l" "list_all input_derivation_wf l"
  shows "btree_sorted (<) (map input_derivation_fields l)"
proof -
  have "sorted_wrt (\<lambda>x y. fst (input_derivation_fields x) < fst (input_derivation_fields y)) l"
    using assms
  proof (induction l)
    case (Cons e l)
    have "fst (input_derivation_fields e) < fst (input_derivation_fields x)" if "x \<in> set l" for x
      using Cons.prems that sp_less_paths [of "fst e" "fst x"]
      by (auto simp: btree_sorted_def input_derivation_wf_def input_derivation_fields_def list_all_iff
          case_prod_unfold)
    then show ?case using Cons by (simp add: btree_sorted_def)
  qed simp
  then show ?thesis by (simp add: btree_sorted_def sorted_wrt_map comp_def)
qed

lemma parse_input_derivations_fields:
  assumes "btree_sorted sp_less l" "list_all input_derivation_wf l" "\<forall>(p, ns) \<in> set l. sorted_wrt (<) ns"
  shows "parse_input_derivations (map input_derivation_fields l) = Inr l"
  using parse_kv_pairs_sorted [of "[]" "map input_derivation_fields l"]
    input_derivation_fields_sorted [OF assms(1,2)] parse_input_derivations_list_sorted [of "[]" l] assms
  by (simp add: parse_input_derivations_def)

lemma parse_output_fields_roundtrip:
  assumes "\<forall>x. hexlower_decode E (hexlower_encode E x) = Inr x"
    "output_entry_wf (n, out)" "o_path out = Some p" "output_fields E (n, out) = [a, b, c, f]"
  shows "parse_output_fields E a b c f = Inr (n, out)"
proof -
  have wf: "output_name_ok n" "sp_wf p" using assms(2,3) by (simp_all add: output_entry_wf_def output_wf_def)
  show ?thesis
  proof (cases "o_hash out")
    case None
    then show ?thesis using assms wf
      by (cases out) (auto simp: output_fields_def parse_output_fields_def output_name_from_str_iff
          string_to_store_path_iff)
  next
    case (Some oh)
    then have "nixhash_wf (oh_hash oh)" using assms(2) by (simp add: output_entry_wf_def output_wf_def)
    from from_mode_algo_and_digest_as_str [OF this] Some assms wf as_mode_and_algo_str_nonempty
    show ?thesis
      by (cases out) (auto simp: output_fields_def parse_output_fields_def output_name_from_str_iff
          string_to_store_path_iff)
  qed
qed

section \<open>Environment and references\<close>

lemma insert_output_paths_spec:
  assumes "btree_sorted (<) env" "distinct (map fst l)" "\<forall>(n, out) \<in> set l. \<exists>p. o_path out = Some p"
  shows "snd (insert_output_paths l env) = Inr ()"
    "btree_sorted (<) (fst (insert_output_paths l env))"
    "map_of (fst (insert_output_paths l env)) k =
       (case map_of l k of Some out \<Rightarrow> map_option sp_to_absolute_path (o_path out) | None \<Rightarrow> map_of env k)"
proof -
  have "snd (insert_output_paths l env) = Inr () \<and> btree_sorted (<) (fst (insert_output_paths l env)) \<and>
    map_of (fst (insert_output_paths l env)) k =
       (case map_of l k of Some out \<Rightarrow> map_option sp_to_absolute_path (o_path out) | None \<Rightarrow> map_of env k)"
    using assms
  proof (induction l arbitrary: env)
    case (Cons e l)
    obtain n out p where e: "e = (n, out)" "o_path out = Some p" using Cons.prems(3) by fastforce
    let ?env = "btree_put (<) n (sp_to_absolute_path p) env"
    have "btree_sorted (<) ?env" by (rule byte_order.insert_sorted [OF Cons.prems(1)])
    note ih = Cons.IH [OF this]
    have get: "map_of ?env k = (if k = n then Some (sp_to_absolute_path p) else map_of env k)"
      using byte_order.get_insert [of k n "sp_to_absolute_path p" env] by (simp add: btree_get_map_of)
    have "n \<notin> fst ` set l" using Cons.prems(2) e by simp
    then have "map_of l n = None" by (simp add: map_of_eq_None_iff)
    then show ?case using ih e get Cons.prems by (auto split: option.split)
  qed simp
  then show "snd (insert_output_paths l env) = Inr ()"
    "btree_sorted (<) (fst (insert_output_paths l env))"
    "map_of (fst (insert_output_paths l env)) k =
       (case map_of l k of Some out \<Rightarrow> map_option sp_to_absolute_path (o_path out) | None \<Rightarrow> map_of env k)"
    by blast+
qed

lemma set_fold_insert_subset: "set (fold (btree_set_insert lt) ks s) \<subseteq> set ks \<union> set s"
  by (induction ks arbitrary: s) (use set_btree_set_insert_subset in fastforce)+

lemma set_fold_insert_keeps: "set s \<subseteq> set (fold (btree_set_insert lt) ks s)"
  by (induction ks arbitrary: s) (use subset_btree_set_insert in fastforce)+

lemma set_fold_insert_mem:
  "p \<in> set ks \<Longrightarrow> \<exists>x\<in>set (fold (btree_set_insert sp_less) ks s). sp_digest x = sp_digest p"
proof (induction ks arbitrary: s)
  case (Cons k ks)
  then show ?case
    using sp_order.set_insert_mem [of k s] set_fold_insert_keeps [of "btree_set_insert sp_less k s" sp_less ks]
    by (auto simp: sp_keq)
qed simp

section \<open>Replaced inputs\<close>

lemma lookup_replacements_names:
  "lookup_replacements lookup l = Some r \<Longrightarrow> list_all input_derivation_wf l \<Longrightarrow> list_all (\<lambda>(k, ns). list_all output_name_ok ns) r"
  by (induction l arbitrary: r) (auto simp: bind_eq_Some_conv input_derivation_wf_def)

lemma prefix_code_hash:
  assumes "\<forall>x. hexlower_decode E (hexlower_encode E x) = Inr x" "\<forall>x. CHR 0x22 \<notin> set (hexlower_encode E x)"
  shows "prefix_code (aterm_write_bytes E ac) (\<lambda>_. True)"
proof -
  have "prefix_code (\<lambda>b. write_field ac (hexlower_encode E b) False) (\<lambda>_. True)"
    by (rule prefix_code_comp [OF prefix_code_plain_field]) (use assms in \<open>auto dest: arg_cong [of _ _ "hexlower_decode E"]\<close>)
  then show ?thesis by (simp add: aterm_write_bytes_def [abs_def])
qed

lemma sort_by_hash_eq:
  assumes "distinct (map fst r)"
  shows "sort_key fst r = sort_key fst r' \<longleftrightarrow> mset r = mset r'"
proof
  show "sort_key fst r = sort_key fst r' \<Longrightarrow> mset r = mset r'" by (metis mset_sort)
  assume m: "mset r = mset r'"
  show "sort_key fst r = sort_key fst r'"
    by (rule sort_key_inj_key_eq) (use assms m mset_eq_setD [OF m] in \<open>simp_all add: distinct_map\<close>)
qed

section \<open>Properties\<close>

text \<open>Instances of the parameters for the witnesses.\<close>

definition example_replacer :: replacer where
  "example_replacer pats reps s =
     concat (map (\<lambda>c. case map_of (zip pats reps) [c] of Some r \<Rightarrow> r | None \<Rightarrow> [c]) s)"

definition example_bytes :: data_encoding where
  "example_bytes = example_encoding
     \<lparr>hexlower_encode := map (\<lambda>b. char_of (unat b)),
      hexlower_decode := (\<lambda>s. Inr (map (\<lambda>c. of_nat (of_char c)) s))\<rparr>"

definition hex_digit :: "nat \<Rightarrow> char" where
  "hex_digit n = char_of (if n < 10 then 48 + n else 87 + n)"

definition hex_value :: "char \<Rightarrow> nat" where
  "hex_value c = (if of_char c < (58 :: nat) then of_char c - 48 else of_char c - 87)"

fun hex_bytes :: "string \<Rightarrow> u8 list" where
  "hex_bytes (c # c' # s) = of_nat (16 * hex_value c + hex_value c') # hex_bytes s"
| "hex_bytes _ = []"

definition hex_encoding :: data_encoding where
  "hex_encoding = example_encoding
     \<lparr>hexlower_encode := (\<lambda>b. concat (map (\<lambda>x. [hex_digit (unat x div 16), hex_digit (unat x mod 16)]) b)),
      hexlower_decode := (\<lambda>s. Inr (hex_bytes s))\<rparr>"

definition example_drv :: derivation where
  "example_drv = \<lparr>drv_arguments = [''-c'', [CHR 0x22, CHR 0x0A]], drv_builder = ''/bin/sh'',
     drv_environment = [(''out'', ''x'')], drv_input_derivations = [], drv_input_sources = [],
     drv_outputs = with_single_output, drv_system = '':''\<rparr>"

lemma example_replacer_ok: "replaces_bytes example_replacer"
  by (simp add: replaces_bytes_def example_replacer_def)

lemma example_bytes_ok: "hexlower_decode example_bytes (hexlower_encode example_bytes x) = Inr x"
proof -
  have "unat b < 256" for b :: u8 by (rule order_less_le_trans [OF unsigned_less]) simp
  then have "of_nat (of_char (char_of (unat b) :: char)) = b" for b :: u8 by simp
  then show ?thesis by (simp add: example_bytes_def comp_def)
qed

lemma u8_bound: "unat (b :: u8) < 256"
  by (rule order_less_le_trans [OF unsigned_less]) simp

lemma hex_value_digit: "n < 16 \<Longrightarrow> hex_value (hex_digit n) = n" "n < 16 \<Longrightarrow> hex_digit n \<noteq> CHR 0x22"
  by (auto simp: hex_value_def hex_digit_def dest: arg_cong [of _ _ "of_char :: char \<Rightarrow> nat"])

lemma hex_encoding_ok:
  "\<forall>x. hexlower_decode hex_encoding (hexlower_encode hex_encoding x) = Inr x"
  "\<forall>x. CHR 0x22 \<notin> set (hexlower_encode hex_encoding x)"
proof -
  have d: "unat b div 16 < 16" "unat b mod 16 < 16" for b :: u8 using u8_bound [of b] by (simp_all add: less_mult_imp_div_less)
  have "hex_bytes (concat (map (\<lambda>x. [hex_digit (unat x div 16), hex_digit (unat x mod 16)]) b)) = b" for b
    by (induction b) (simp_all add: hex_value_digit d)
  then show "\<forall>x. hexlower_decode hex_encoding (hexlower_encode hex_encoding x) = Inr x" by (simp add: hex_encoding_def)
  show "\<forall>x. CHR 0x22 \<notin> set (hexlower_encode hex_encoding x)"
    by (simp add: hex_encoding_def hex_value_digit(2) [OF d(1), symmetric] hex_value_digit(2) [OF d(2), symmetric])
qed

lemma example_inj: "inj (map (\<lambda>c. of_nat (of_char c) :: u8))"
proof (rule inj_mapI, rule injI)
  fix x y :: char
  assume "(of_nat (of_char x) :: u8) = of_nat (of_char y)"
  then have "unat (of_nat (of_char x) :: u8) = unat (of_nat (of_char y) :: u8)" by simp
  then have "(of_char x :: nat) = of_char y" by (simp add: unat_of_nat take_bit_eq_mod)
  then show "x = y" by simp
qed

lemma example_drv_wf: "drv_wf example_drv" "plain_env_keys example_drv"
  by (simp_all add: drv_wf_def plain_env_keys_def example_drv_def with_single_output_def
      output_entry_wf_def output_name_ok_def output_name_out_def name_ok_def name_char_match_def
      output_wf_def btree_sorted_def env_entry_wf_def)

text \<open>
  C15: the ATerm text determines the derivation. Two derivations that the Rust types can hold and
  whose environment keys contain no quote have the same serialisation only if they are equal, even
  when more text follows; so the derivation path, a hash of this text, identifies the derivation.
  The hypotheses on the crates are the documented behaviour of base16 decoding and of replacing
  single-byte patterns.
\<close>

theorem aterm_injective:
  assumes "replaces_bytes ac" "\<forall>x. hexlower_decode E (hexlower_encode E x) = Inr x"
    and "drv_wf d" "drv_wf d'" "plain_env_keys d" "plain_env_keys d'"
    and "to_aterm_bytes E ac d @ rest = to_aterm_bytes E ac d' @ rest'"
  shows "d = d' \<and> rest = rest'"
proof -
  have "list_all (\<lambda>(k, ns). sp_wf k \<and> list_all output_name_ok ns) (drv_input_derivations x)" if "drv_wf x" for x
    using that by (simp add: drv_wf_def input_derivation_wf_def)
  from serialize_injective [OF assms(1,2) prefix_code_store_path assms(3-6) this [OF assms(3)] this [OF assms(4)]] assms(7)
  show ?thesis by (cases d; cases d') (auto simp: to_aterm_bytes_def)
qed

theorem aterm_injective_witness:
  "to_aterm_bytes example_bytes example_replacer example_drv @ ''x'' \<noteq>
   to_aterm_bytes example_bytes example_replacer (example_drv\<lparr>drv_builder := [CHR 0x22]\<rparr>) @ ''x''"
proof
  assume eq: "to_aterm_bytes example_bytes example_replacer example_drv @ ''x'' =
   to_aterm_bytes example_bytes example_replacer (example_drv\<lparr>drv_builder := [CHR 0x22]\<rparr>) @ ''x''"
  have "drv_wf (example_drv\<lparr>drv_builder := [CHR 0x22]\<rparr>)" "plain_env_keys (example_drv\<lparr>drv_builder := [CHR 0x22]\<rparr>)"
    using example_drv_wf by (simp_all add: drv_wf_def plain_env_keys_def)
  from aterm_injective [OF example_replacer_ok _ example_drv_wf(1) this(1) example_drv_wf(2) this(2) eq]
    example_bytes_ok
  show False by (simp add: example_drv_def)
qed

text \<open>
  C24: environment keys are written without escaping, so a quote in a key breaks the previous
  property: there are two different derivations that pass \<open>validate\<close> and have the same ATerm
  text, for every escaping of the other fields.
\<close>

theorem aterm_env_key_collision:
  "\<exists>d d'. d \<noteq> d' \<and> drv_wf d \<and> drv_wf d' \<and> validate d = Inr () \<and> validate d' = Inr () \<and>
     (\<forall>E ac. replaces_bytes ac \<longrightarrow> to_aterm_bytes E ac d = to_aterm_bytes E ac d')"
proof -
  let ?k = "''a'' @ [CHR 0x22] @ '','' @ [CHR 0x22] @ ''x'' @ [CHR 0x22] @ ''),('' @ [CHR 0x22] @ ''b''"
  let ?d = "example_drv\<lparr>drv_environment := [(?k, ''y'')]\<rparr>"
  let ?d' = "example_drv\<lparr>drv_environment := [(''a'', ''x''), (''b'', ''y'')]\<rparr>"
  have "drv_wf ?d" "drv_wf ?d'" "validate ?d = Inr ()" "validate ?d' = Inr ()"
    using example_drv_wf by (simp_all add: drv_wf_def btree_sorted_def validate_def example_drv_def)
  moreover have "to_aterm_bytes E ac ?d = to_aterm_bytes E ac ?d'" if "replaces_bytes ac" for E ac
    using that by (simp add: to_aterm_bytes_def serialize_with_replacements_def write_environment_def
        write_field_def write_escaped_eq escape_byte_eq)
  moreover have "?d \<noteq> ?d'" by (simp add: example_drv_def)
  ultimately show ?thesis by blast
qed

theorem aterm_env_key_collision_witness:
  "\<exists>d d'. d \<noteq> d' \<and> to_aterm_bytes example_bytes example_replacer d = to_aterm_bytes example_bytes example_replacer d'"
  using aterm_env_key_collision example_replacer_ok by blast

text \<open>
  the fields written for a well-formed derivation are read back by the parser's conversions:
  outputs that have a path, the sorted input derivations with their sorted output names, the
  sorted input sources and the sorted environment all come back as they were.
\<close>

theorem aterm_fields_roundtrip:
  assumes "\<forall>x. hexlower_decode E (hexlower_encode E x) = Inr x" "drv_wf d"
  shows "parse_input_derivations (map input_derivation_fields (drv_input_derivations d)) = Inr (drv_input_derivations d) \<and>
         parse_input_sources_list [] (map sp_to_absolute_path (drv_input_sources d)) = Inr (drv_input_sources d) \<and>
         parse_kv_pairs [] (drv_environment d) = Inr (drv_environment d) \<and>
         parse_outputs_list (outputs_iter (drv_outputs d)) = Inr (drv_outputs d) \<and>
         ((n, out) \<in> set (outputs_iter (drv_outputs d)) \<longrightarrow> o_path out \<noteq> None \<longrightarrow>
         output_fields E (n, out) = [a, b, c, f] \<longrightarrow> parse_output_fields E a b c f = Inr (n, out))"
proof (intro conjI)
  have wf: "output_entry_wf (n, out)" if "(n, out) \<in> set (outputs_iter (drv_outputs d))"
    using assms(2) that by (auto simp: drv_wf_def list_all_iff)
  show "(n, out) \<in> set (outputs_iter (drv_outputs d)) \<longrightarrow> o_path out \<noteq> None \<longrightarrow>
         output_fields E (n, out) = [a, b, c, f] \<longrightarrow> parse_output_fields E a b c f = Inr (n, out)"
    using parse_output_fields_roundtrip [OF assms(1)] wf by auto
  show "parse_input_derivations (map input_derivation_fields (drv_input_derivations d)) = Inr (drv_input_derivations d)"
    using assms(2) by (intro parse_input_derivations_fields) (simp_all add: drv_wf_def)
  show "parse_input_sources_list [] (map sp_to_absolute_path (drv_input_sources d)) = Inr (drv_input_sources d)"
    using parse_input_sources_sorted [of "[]"] assms(2) by (simp add: drv_wf_def)
  show "parse_outputs_list (outputs_iter (drv_outputs d)) = Inr (drv_outputs d)"
    using parse_outputs_iter assms(2) by (simp add: drv_wf_def)
  show "parse_kv_pairs [] (drv_environment d) = Inr (drv_environment d)"
    using parse_kv_pairs_sorted [of "[]" "drv_environment d"] assms(2) by (simp add: drv_wf_def)
qed

theorem aterm_fields_roundtrip_witness:
  "parse_kv_pairs [] (drv_environment example_drv) = Inr (drv_environment example_drv)"
  using aterm_fields_roundtrip [of example_bytes example_drv] example_bytes_ok example_drv_wf by blast

text \<open>
  C25: what the hash modulo fixed-output derivations identifies, for two derivations that are not fixed-output themselves, whose
  environment keys contain no quote, whose inputs the lookups answer, and whose texts do not collide under SHA-256: their hashes
  are equal exactly if they agree in everything but the input derivations and the hashes of these, with the used output names, are
  the same list after sorting by hash. If moreover no two inputs have the same hash, exactly if they are the same collection: the
  paths of the inputs and their order do not matter. (The sort is stable, so inputs with the same hash stay in the order of
  their paths.)
\<close>

theorem hash_derivation_modulo_spec:
  assumes "replaces_bytes ac" "\<forall>x. hexlower_decode E (hexlower_encode E x) = Inr x" "\<forall>x. CHR 0x22 \<notin> set (hexlower_encode E x)"
    and "drv_wf d" "drv_wf d'" "plain_env_keys d" "plain_env_keys d'"
    and "drv_fod_digest E H d = None" "drv_fod_digest E H d' = None"
    and "lookup_replacements lookup (drv_input_derivations d) = Some r" "lookup_replacements lookup' (drv_input_derivations d') = Some r'"
    and "inj_on H {serialize_with_replacements E ac d (aterm_write_bytes E ac) (sort_key fst r),
                   serialize_with_replacements E ac d' (aterm_write_bytes E ac) (sort_key fst r')}"
  shows "(hash_derivation_modulo E ac H lookup d = hash_derivation_modulo E ac H lookup' d' \<longleftrightarrow>
      d' = d\<lparr>drv_input_derivations := drv_input_derivations d'\<rparr> \<and> sort_key fst r = sort_key fst r') \<and>
    (distinct (map fst r) \<longrightarrow>
     (hash_derivation_modulo E ac H lookup d = hash_derivation_modulo E ac H lookup' d' \<longleftrightarrow>
      d' = d\<lparr>drv_input_derivations := drv_input_derivations d'\<rparr> \<and> mset r = mset r'))"
proof -
  let ?text = "\<lambda>d r. serialize_with_replacements E ac d (aterm_write_bytes E ac) (sort_key fst r)"
  have names: "list_all (\<lambda>(k, ns). True \<and> list_all output_name_ok ns) (sort_key fst r)"
    if "drv_wf d" "lookup_replacements lookup (drv_input_derivations d) = Some r" for d lookup r
    using lookup_replacements_names [OF that(2)] that(1) by (simp add: drv_wf_def list_all_iff)
  have "?text d r = ?text d' r' \<Longrightarrow>
      d\<lparr>drv_input_derivations := []\<rparr> = d'\<lparr>drv_input_derivations := []\<rparr> \<and> sort_key fst r = sort_key fst r'"
    using serialize_injective [OF assms(1,2) prefix_code_hash [OF assms(2,3)] assms(4-7)
        names [OF assms(4,10)] names [OF assms(5,11)], where rest = "[]" and rest' = "[]"] by simp
  moreover have "d\<lparr>drv_input_derivations := []\<rparr> = d'\<lparr>drv_input_derivations := []\<rparr> \<longleftrightarrow>
      d' = d\<lparr>drv_input_derivations := drv_input_derivations d'\<rparr>" by (cases d; cases d') auto
  moreover have "d' = d\<lparr>drv_input_derivations := drv_input_derivations d'\<rparr> \<Longrightarrow> ?text d' r' = ?text d r'"
    by (metis serialize_inputs)
  ultimately have "?text d r = ?text d' r' \<longleftrightarrow>
      d' = d\<lparr>drv_input_derivations := drv_input_derivations d'\<rparr> \<and> sort_key fst r = sort_key fst r'" by metis
  moreover have "hash_derivation_modulo E ac H lookup d = hash_derivation_modulo E ac H lookup' d' \<longleftrightarrow> ?text d r = ?text d' r'"
    using inj_on_eq_iff [OF assms(12), of "?text d r" "?text d' r'"] assms(8-11) by (simp add: hash_derivation_modulo_def Let_def)
  moreover have "distinct (map fst r) \<Longrightarrow> sort_key fst r = sort_key fst r' \<longleftrightarrow> mset r = mset r'"
    by (rule sort_by_hash_eq)
  ultimately show ?thesis by blast
qed

text \<open>Two inputs, looked up in the order of their paths, and the same hashes for other paths in the other order.\<close>

definition example_inputs :: "string \<Rightarrow> string \<Rightarrow> (store_path \<times> string list) list" where
  "example_inputs n n' =
     [(\<lparr>sp_digest = replicate 20 0, sp_name = ''a.drv''\<rparr>, [n]), (\<lparr>sp_digest = replicate 20 1, sp_name = ''b.drv''\<rparr>, [n'])]"

lemma example_inputs_wf:
  "n \<in> {''out'', ''dev''} \<Longrightarrow> n' \<in> {''out'', ''dev''} \<Longrightarrow> drv_wf (example_drv\<lparr>drv_input_derivations := example_inputs n n'\<rparr>)"
  using example_drv_wf(1)
  by (auto simp: drv_wf_def example_inputs_def input_derivation_wf_def sp_wf_def DIGEST_SIZE_def output_name_ok_def name_ok_def
      name_char_match_def btree_sorted_def sp_less_def eval_nat_numeral)

theorem hash_derivation_modulo_spec_witness:
  "hash_derivation_modulo hex_encoding example_replacer (map (\<lambda>c. of_nat (of_char c))) (\<lambda>p. Some [hd (sp_digest p)])
     (example_drv\<lparr>drv_input_derivations := example_inputs ''out'' ''dev''\<rparr>) =
   hash_derivation_modulo hex_encoding example_replacer (map (\<lambda>c. of_nat (of_char c))) (\<lambda>p. Some [1 - hd (sp_digest p)])
     (example_drv\<lparr>drv_input_derivations := example_inputs ''dev'' ''out''\<rparr>)"
proof -
  let ?d = "example_drv\<lparr>drv_input_derivations := example_inputs ''out'' ''dev''\<rparr>"
  let ?d' = "example_drv\<lparr>drv_input_derivations := example_inputs ''dev'' ''out''\<rparr>"
  let ?r = "[([0 :: u8], [''out'']), ([1], [''dev''])]"
  let ?r' = "[([1 :: u8], [''dev'']), ([0], [''out''])]"
  have wf: "drv_wf ?d" "drv_wf ?d'" by (simp_all add: example_inputs_wf)
  have env: "plain_env_keys ?d" "plain_env_keys ?d'" using example_drv_wf(2) by (simp_all add: plain_env_keys_def)
  have fod: "drv_fod_digest E H ?d = None" "drv_fod_digest E H ?d' = None" for E H
    by (simp_all add: drv_fod_digest_def example_drv_def with_single_output_def)
  have r: "lookup_replacements (\<lambda>p. Some [hd (sp_digest p)]) (drv_input_derivations ?d) = Some ?r"
    "lookup_replacements (\<lambda>p. Some [1 - hd (sp_digest p)]) (drv_input_derivations ?d') = Some ?r'"
    by (simp_all add: example_inputs_def)
  from hash_derivation_modulo_spec [OF example_replacer_ok hex_encoding_ok wf env fod r inj_on_subset [OF example_inj subset_UNIV]]
  show ?thesis by (simp add: add_mset_commute)
qed

text \<open>
  The lookup function is called for fixed-output derivations too, although the
  documentation promises it is not: there is a fixed-output derivation whose digest is known and
  for which the call panics because the lookup does.
\<close>

theorem hash_derivation_modulo_looks_up_fod:
  "\<exists>d digest. drv_fod_digest E H d = Some digest \<and> hash_derivation_modulo E ac H (\<lambda>_. None) d = None"
  by (intro exI [of _ "example_drv\<lparr>drv_outputs := from_fod_hash \<lparr>oh_mode = OFlat, oh_hash = Sha1 []\<rparr>,
        drv_input_derivations := [(\<lparr>sp_digest = [], sp_name = []\<rparr>, [])]\<rparr>"])
    (simp add: drv_fod_digest_def hash_derivation_modulo_def from_fod_hash_def)

text \<open>
  the path of a derivation is a text path over its ATerm text, named \<open>$name.drv\<close>; its
  references are sorted, come from the input derivations and sources only, and cover all of
  them if no two have the same digest. The only error is an invalid name.
\<close>

theorem calculate_derivation_path_spec:
  "\<exists>refs. calculate_derivation_path E ac H d name =
       map_err (InvalidDerivationName (name @ ''.drv''))
         (build_text_path E H (name @ ''.drv'') (to_aterm_bytes E ac d) refs) \<and>
     sorted_wrt sp_less refs \<and>
     set refs \<subseteq> fst ` set (drv_input_derivations d) \<union> set (drv_input_sources d) \<and>
     (inj_on sp_digest (fst ` set (drv_input_derivations d) \<union> set (drv_input_sources d)) \<longrightarrow>
        set refs = fst ` set (drv_input_derivations d) \<union> set (drv_input_sources d))"
proof -
  define refs0 where "refs0 = fold (btree_set_insert sp_less) (map fst (drv_input_derivations d)) []"
  define refs where "refs = fold (btree_set_insert sp_less) (drv_input_sources d) refs0"
  let ?all = "fst ` set (drv_input_derivations d) \<union> set (drv_input_sources d)"
  have "sorted_wrt sp_less refs"
    unfolding refs_def refs0_def by (intro sp_order.set_insert_fold_sorted) simp
  moreover have sub: "set refs \<subseteq> ?all"
    using set_fold_insert_subset [of sp_less "drv_input_sources d" refs0]
      set_fold_insert_subset [of sp_less "map fst (drv_input_derivations d)" "[]"]
    by (auto simp: refs_def refs0_def)
  moreover have "p \<in> set refs" if inj: "inj_on sp_digest ?all" and p: "p \<in> ?all" for p
  proof -
    have "\<exists>x\<in>set refs. sp_digest x = sp_digest p"
      using p set_fold_insert_mem [of p "drv_input_sources d" refs0]
        set_fold_insert_mem [of p "map fst (drv_input_derivations d)" "[]"]
        set_fold_insert_keeps [of refs0 sp_less "drv_input_sources d"]
      unfolding refs_def refs0_def by auto
    then show ?thesis using inj_onD [OF inj] sub p by blast
  qed
  ultimately show ?thesis
    by (intro exI [of _ refs]) (auto simp: calculate_derivation_path_def refs_def refs0_def Let_def)
qed

theorem calculate_derivation_path_spec_witness:
  "\<exists>refs. calculate_derivation_path example_bytes example_replacer (\<lambda>_. [7]) example_drv ''n'' =
       map_err (InvalidDerivationName (''n'' @ ''.drv''))
         (build_text_path example_bytes (\<lambda>_. [7]) (''n'' @ ''.drv'') (to_aterm_bytes example_bytes example_replacer example_drv) refs) \<and>
     set refs = {}"
  using calculate_derivation_path_spec [of example_bytes example_replacer "\<lambda>_. [7]" example_drv "''n''"]
  by (simp add: example_drv_def)

text \<open>
  after \<open>Derivation::calculate_output_paths\<close> on a derivation without output paths, the
  environment maps every output name to the absolute path of that output and every other key to
  what it was; the outputs are updated as by the collection's own operation, the rest of the
  derivation is unchanged, and the call fails only if that operation does.
\<close>

theorem calculate_output_paths_spec:
  assumes "drv_wf d" "\<forall>out \<in> set (outputs_values (drv_outputs d)). o_path out = None"
    and "outputs_calculate_output_paths E H name h (drv_outputs d) = (os', r)"
  shows "(r = Inl e \<longrightarrow> calculate_output_paths E H name h d = (d\<lparr>drv_outputs := os'\<rparr>, Inl (InvalidOutputs e))) \<and>
    (r = Inr () \<longrightarrow> (\<exists>env.
      calculate_output_paths E H name h d = (d\<lparr>drv_outputs := os', drv_environment := env\<rparr>, Inr ()) \<and>
      btree_sorted (<) env \<and>
      (\<forall>k. map_of env k = (case map_of (outputs_iter os') k of
         Some out \<Rightarrow> map_option sp_to_absolute_path (o_path out)
       | None \<Rightarrow> map_of (drv_environment d) k))))"
proof (rule conjI [OF _ impI])
  show "r = Inl e \<longrightarrow> calculate_output_paths E H name h d = (d\<lparr>drv_outputs := os'\<rparr>, Inl (InvalidOutputs e))"
    using assms(3) by (simp add: calculate_output_paths_def)
  assume "r = Inr ()"
  then have r: "outputs_calculate_output_paths E H name h (drv_outputs d) = (os', Inr ())" using assms(3) by simp
  have inv: "outputs_inv (drv_outputs d)" using assms(1) by (simp add: drv_wf_def)
  note c = outputs_calculate_inv [OF inv assms(2) r]
  have "distinct (map fst (outputs_iter os'))"
    using c(1) byte_order.sorted_distinct by (cases os') auto
  moreover have "\<forall>(n, out) \<in> set (outputs_iter os'). \<exists>p. o_path out = Some p"
  proof -
    have "\<forall>n \<in> set (outputs_keys (drv_outputs d)). name_ok (output_path_name name n)"
      using outputs_calculate_ok(1) [OF inv assms(2), of E H name h] r by simp
    then show ?thesis
      using c(3) expected_path_ok [of E H name h] by (auto simp: with_path_def outputs_keys_def)
  qed
  moreover have "btree_sorted (<) (drv_environment d)" using assms(1) by (simp add: drv_wf_def)
  ultimately show "\<exists>env.
      calculate_output_paths E H name h d = (d\<lparr>drv_outputs := os', drv_environment := env\<rparr>, Inr ()) \<and>
      btree_sorted (<) env \<and>
      (\<forall>k. map_of env k = (case map_of (outputs_iter os') k of
         Some out \<Rightarrow> map_option sp_to_absolute_path (o_path out)
       | None \<Rightarrow> map_of (drv_environment d) k))"
    using insert_output_paths_spec [of "drv_environment d" "outputs_iter os'"] r
    by (intro exI [of _ "fst (insert_output_paths (outputs_iter os') (drv_environment d))"])
      (auto simp: calculate_output_paths_def split: prod.split)
qed

theorem calculate_output_paths_spec_witness:
  "\<exists>e. calculate_output_paths example_bytes (\<lambda>_. []) [] [] example_drv =
     (example_drv\<lparr>drv_outputs := with_single_output\<rparr>, Inl (InvalidOutputs e))"
proof -
  have fail: "outputs_calculate_output_paths example_bytes (\<lambda>_. []) [] [] (drv_outputs example_drv) =
     (with_single_output, Inl (InvalidOutputDerivationPath [] SPLength))"
    by (simp add: example_drv_def with_single_output_def outputs_calculate_output_paths.simps
        calculate_single_path_def build_output_path_def build_store_path_from_fingerprint_parts_def
        sp_from_name_and_digest_fixed_def validate_name_def Let_def)
  have none: "\<forall>out \<in> set (outputs_values (drv_outputs example_drv)). o_path out = None"
    by (simp add: example_drv_def with_single_output_def outputs_values_def)
  from calculate_output_paths_spec [OF example_drv_wf(1) none fail, THEN conjunct1, rule_format, OF refl] show ?thesis by blast
qed

end
