(* ===== verification/NarWire.thy ===== *)
theory NarWire
  imports Prelude
begin

text \<open>
  The wire format of Nix archives, \<^verbatim>\<open>nix-compat/src/nar/wire\<close>, and the helpers that read it from
  a buffered reader, \<^verbatim>\<open>nar/reader/read.rs\<close>.

  A \<open>BufRead\<close> is a source: the bytes that are still to come and a list of events that says how
  the next reads behave: how many bytes are available at once, that the read is interrupted or
  fails. When the list is used up every read delivers all it is asked for. A read may thus return
  any non-empty part of what was asked, as the standard library's contract allows, and the theorems
  hold for all such behaviours. Operations are functions from the source to a result and the new
  source; the source record is extensible, so that the archive reader can add its own state.
\<close>

section \<open>Integers\<close>

fun le_bytes :: "nat \<Rightarrow> nat \<Rightarrow> string" where
  "le_bytes 0 n = []"
| "le_bytes (Suc k) n = char_of (n mod 256) # le_bytes k (n div 256)"

fun from_le_bytes :: "string \<Rightarrow> nat" where
  "from_le_bytes [] = 0"
| "from_le_bytes (c # cs) = of_char c + 256 * from_le_bytes cs"

abbreviation u64_bytes :: "nat \<Rightarrow> string" where
  "u64_bytes \<equiv> le_bytes 8"

lemma length_le_bytes [simp]: "length (le_bytes k n) = k"
  by (induction k n rule: le_bytes.induct) simp_all

lemma from_le_bytes_le_bytes: "n < 256 ^ k \<Longrightarrow> from_le_bytes (le_bytes k n) = n"
  by (induction k n rule: le_bytes.induct) (simp_all add: less_mult_imp_div_less mult.commute)

lemma le_bytes_from_le_bytes: "le_bytes (length cs) (from_le_bytes cs) = cs"
  by (induction cs) simp_all

lemma from_le_bytes_bound: "from_le_bytes cs < 256 ^ length cs"
proof (induction cs)
  case (Cons c cs)
  have "(of_char c :: nat) < 256" by simp
  then have "of_char c + 256 * from_le_bytes cs < 256 + 256 * from_le_bytes cs" by simp
  also have "\<dots> \<le> 256 * 256 ^ length cs" using Cons by (simp add: Suc_leI flip: mult_Suc_right)
  finally show ?case by simp
qed simp

lemma from_u64_bytes [simp]: "n < 2 ^ 64 \<Longrightarrow> from_le_bytes (u64_bytes n) = n"
  by (rule from_le_bytes_le_bytes) simp

lemma u64_bytes_from: "length cs = 8 \<Longrightarrow> u64_bytes (from_le_bytes cs) = cs \<and> from_le_bytes cs < 2 ^ 64"
  using le_bytes_from_le_bytes [of cs] from_le_bytes_bound [of cs] by simp

section \<open>Byte strings and tokens\<close>

definition MAX_NAME_LEN :: nat where "MAX_NAME_LEN = 255"

definition MAX_TARGET_LEN :: nat where "MAX_TARGET_LEN = 4095"

text \<open>The padding after \<open>n\<close> bytes, up to the next multiple of eight.\<close>

definition nar_pad :: "nat \<Rightarrow> string" where
  "nar_pad n = replicate ((8 - n mod 8) mod 8) (CHR 0x00)"

text \<open>A byte string of the wire format: its length, its bytes and the padding.\<close>

definition wire_str :: "string \<Rightarrow> string" where
  "wire_str x = u64_bytes (length x) @ x @ nar_pad (length x)"

text \<open>The tokens, written out as in the source, zero bytes as \<open>z n\<close>.\<close>

abbreviation z :: "nat \<Rightarrow> string" where
  "z n \<equiv> replicate n (CHR 0x00)"

definition TOK_NAR :: string where
  "TOK_NAR = CHR 0x0D # z 7 @ ''nix-archive-1'' @ z 3 @ CHR 0x01 # z 7 @ ''('' @ z 7 @ CHR 0x04 # z 7 @ ''type'' @ z 4"

definition TOK_SYM :: string where
  "TOK_SYM = CHR 0x07 # z 7 @ ''symlink'' @ z 1 @ CHR 0x06 # z 7 @ ''target'' @ z 2"

definition TOK_REG :: string where
  "TOK_REG = CHR 0x07 # z 7 @ ''regular'' @ z 1 @ CHR 0x08 # z 7 @ ''contents''"

definition TOK_EXE :: string where
  "TOK_EXE = CHR 0x07 # z 7 @ ''regular'' @ z 1 @ CHR 0x0A # z 7 @ ''executable'' @ z 6 @ z 8
     @ CHR 0x08 # z 7 @ ''contents''"

definition TOK_DIR :: string where
  "TOK_DIR = CHR 0x09 # z 7 @ ''directory'' @ z 7"

definition TOK_ENT :: string where
  "TOK_ENT = CHR 0x05 # z 7 @ ''entry'' @ z 3 @ CHR 0x01 # z 7 @ ''('' @ z 7 @ CHR 0x04 # z 7 @ ''name'' @ z 4"

definition TOK_NOD :: string where
  "TOK_NOD = CHR 0x04 # z 7 @ ''node'' @ z 4 @ CHR 0x01 # z 7 @ ''('' @ z 7 @ CHR 0x04 # z 7 @ ''type'' @ z 4"

definition TOK_PAR :: string where
  "TOK_PAR = CHR 0x01 # z 7 @ '')'' @ z 7"

lemmas tok_defs = TOK_NAR_def TOK_SYM_def TOK_REG_def TOK_EXE_def TOK_DIR_def TOK_ENT_def TOK_NOD_def TOK_PAR_def

lemma tokens_grammar:
  "TOK_NAR = concat (map wire_str [''nix-archive-1'', ''('', ''type''])"
  "TOK_SYM = concat (map wire_str [''symlink'', ''target''])"
  "TOK_REG = concat (map wire_str [''regular'', ''contents''])"
  "TOK_EXE = concat (map wire_str [''regular'', ''executable'', [], ''contents''])"
  "TOK_DIR = wire_str ''directory''"
  "TOK_ENT = concat (map wire_str [''entry'', ''('', ''name''])"
  "TOK_NOD = concat (map wire_str [''node'', ''('', ''type''])"
  "TOK_PAR = wire_str '')''"
  by code_simp+

lemma token_lengths [simp]:
  "length TOK_NAR = 56" "length TOK_SYM = 32" "length TOK_REG = 32" "length TOK_EXE = 64"
  "length TOK_DIR = 24" "length TOK_ENT = 48" "length TOK_NOD = 48" "length TOK_PAR = 16"
  by (simp_all add: tok_defs)

section \<open>Tags\<close>

text \<open>
  A tag type of the macro \<open>make!\<close>: its variants with their tokens, and the offset of the byte
  that tells them apart.
\<close>

datatype (plugins only: code size) node_tag = TSym | TReg | TExe | TDir
datatype (plugins only: code size) entry_tag = EntryNone | EntrySome

record 't tag_type =
  tag_variants :: "('t \<times> string) list"
  tag_OFF :: nat

definition node_tags :: "node_tag tag_type" where
  "node_tags = \<lparr>tag_variants = [(TSym, TOK_SYM), (TReg, TOK_REG), (TExe, TOK_EXE), (TDir, TOK_DIR)], tag_OFF = 16\<rparr>"

definition entry_tags :: "entry_tag tag_type" where
  "entry_tags = \<lparr>tag_variants = [(EntryNone, TOK_PAR), (EntrySome, TOK_ENT)], tag_OFF = 0\<rparr>"

fun max_of :: "nat \<Rightarrow> nat list \<Rightarrow> nat" where
  "max_of y [] = y"
| "max_of y (x # tail) = max_of (if x > y then x else y) tail"

fun min_of :: "nat \<Rightarrow> nat list \<Rightarrow> nat" where
  "min_of y [] = y"
| "min_of y (x # tail) = min_of (if x < y then x else y) tail"

definition USIZE_MAX :: nat where "USIZE_MAX = 2 ^ 64 - 1"

definition buf_of :: "nat list \<Rightarrow> nat" where
  "buf_of xs = max_of 0 [min_of USIZE_MAX xs, max_of 0 xs - min_of USIZE_MAX xs]"

definition tag_MIN :: "'t tag_type \<Rightarrow> nat" where
  "tag_MIN T = min_of USIZE_MAX (map (\<lambda>v. length (snd v)) (tag_variants T))"

definition tag_from_u8 :: "'t tag_type \<Rightarrow> char \<Rightarrow> ('t \<times> string) option" where
  "tag_from_u8 T x = find (\<lambda>v. snd v ! tag_OFF T = x) (tag_variants T)"

lemma tag_MIN_eq [simp]: "tag_MIN node_tags = 24" "tag_MIN entry_tags = 16"
  by (simp_all add: tag_MIN_def node_tags_def entry_tags_def USIZE_MAX_def)

text \<open>The buffer of a tag holds both the first and the second part of every variant.\<close>

lemma buf_of_eq:
  "buf_of (map (\<lambda>v. length (snd v)) (tag_variants node_tags)) = 40"
  "buf_of (map (\<lambda>v. length (snd v)) (tag_variants entry_tags)) = 32"
  by (simp_all add: buf_of_def node_tags_def entry_tags_def USIZE_MAX_def)

section \<open>Sources\<close>

datatype (plugins only: code size) nar_error =
    InvalidData
  | UnexpectedEof
  | InvalidInput
  | Interrupted
  | IoError
  | NarPanic  \<comment> \<open>a failed assertion\<close>
  | OutOfFuel

datatype (plugins only: code size) io_event = Chunk nat | Interrupt | Fail

record nar_src =
  n_rem :: string
  n_events :: "io_event list"

type_synonym ('s, 'a) nar_op = "'s \<Rightarrow> (nar_error, 'a) res \<times> 's"

definition sret :: "'a \<Rightarrow> ('s, 'a) nar_op" where
  "sret a s = (Inr a, s)"

definition sraise :: "nar_error \<Rightarrow> ('s, 'a) nar_op" where
  "sraise e s = (Inl e, s)"

definition sbind :: "('s, 'a) nar_op \<Rightarrow> ('a \<Rightarrow> ('s, 'b) nar_op) \<Rightarrow> ('s, 'b) nar_op" where
  "sbind m f s = (case m s of (Inl e, s') \<Rightarrow> (Inl e, s') | (Inr a, s') \<Rightarrow> f a s')"

lemma sret_simps [simp]: "sret a s = (Inr a, s)" "sraise e s = (Inl e, s)"
  by (simp_all add: sret_def sraise_def)

lemma sbind_eq_Inr: "sbind m f s = (Inr b, s') \<longleftrightarrow> (\<exists>a s1. m s = (Inr a, s1) \<and> f a s1 = (Inr b, s'))"
  by (auto simp: sbind_def split: prod.splits sum.splits)

lemma sbind_eq_Inl:
  "sbind m f s = (Inl e, s') \<longleftrightarrow> m s = (Inl e, s') \<or> (\<exists>a s1. m s = (Inr a, s1) \<and> f a s1 = (Inl e, s'))"
  by (auto simp: sbind_def split: prod.splits sum.splits)

lemma sbind_ok [simp]: "m s = (Inr a, s1) \<Longrightarrow> sbind m f s = f a s1"
  by (simp add: sbind_def)

text \<open>One \<open>read\<close> into a buffer of \<open>n\<close> bytes, one \<open>fill_buf\<close>, and \<open>consume\<close>.\<close>

definition io_read :: "nat \<Rightarrow> ('z nar_src_scheme, string) nar_op" where
  "io_read n s =
     (case n_events s of
        [] \<Rightarrow> (Inr (take n (n_rem s)), s\<lparr>n_rem := drop n (n_rem s)\<rparr>)
      | Chunk k # es \<Rightarrow>
          (Inr (take (min n (max 1 k)) (n_rem s)),
           s\<lparr>n_rem := drop (min n (max 1 k)) (n_rem s), n_events := es\<rparr>)
      | Interrupt # es \<Rightarrow> (Inl Interrupted, s\<lparr>n_events := es\<rparr>)
      | Fail # es \<Rightarrow> (Inl IoError, s\<lparr>n_events := es\<rparr>))"

definition io_fill_buf :: "('z nar_src_scheme, string) nar_op" where
  "io_fill_buf s =
     (case n_events s of
        [] \<Rightarrow> (Inr (n_rem s), s)
      | Chunk k # es \<Rightarrow> (Inr (take (max 1 k) (n_rem s)), s\<lparr>n_events := es\<rparr>)
      | Interrupt # es \<Rightarrow> (Inl Interrupted, s\<lparr>n_events := es\<rparr>)
      | Fail # es \<Rightarrow> (Inl IoError, s\<lparr>n_events := es\<rparr>))"

definition io_consume :: "nat \<Rightarrow> 'z nar_src_scheme \<Rightarrow> 'z nar_src_scheme" where
  "io_consume n s = s\<lparr>n_rem := drop n (n_rem s)\<rparr>"

text \<open>A source whose reads only ever deliver bytes.\<close>

definition reliable :: "'z nar_src_scheme \<Rightarrow> bool" where
  "reliable s \<longleftrightarrow> (\<forall>e\<in>set (n_events s). \<exists>k. e = Chunk k)"

lemma io_read_ok:
  "io_read n s = (Inr b, s') \<Longrightarrow>
   n_rem s = b @ n_rem s' \<and> length b \<le> n \<and> (b = [] \<longrightarrow> n = 0 \<or> n_rem s = [])"
  by (auto simp: io_read_def split: list.splits io_event.splits)

lemma io_read_events: "io_read n s = (r, s') \<Longrightarrow> length (n_events s') \<le> length (n_events s)"
  by (auto simp: io_read_def split: list.splits io_event.splits)

lemma io_read_err_events: "io_read n s = (Inl e, s') \<Longrightarrow> length (n_events s') < length (n_events s)"
  by (auto simp: io_read_def split: list.splits io_event.splits)

lemma io_read_reliable:
  "reliable s \<Longrightarrow> \<exists>b s'. io_read n s = (Inr b, s') \<and> reliable s'"
  by (cases "n_events s"; cases "hd (n_events s)") (auto simp: io_read_def reliable_def)

text \<open>\<open>read_exact\<close> of the standard library: reads until the buffer is full, retries interrupts.\<close>

function read_exact :: "nat \<Rightarrow> ('z nar_src_scheme, string) nar_op" where
  "read_exact n s =
     (if n = 0 then (Inr [], s)
      else case io_read n s of
        (Inl e, s') \<Rightarrow> if e = Interrupted then read_exact n s' else (Inl e, s')
      | (Inr b, s') \<Rightarrow>
          if b = [] then (Inl UnexpectedEof, s')
          else (case read_exact (n - length b) s' of
                  (Inr b', s'') \<Rightarrow> (Inr (b @ b'), s'')
                | (Inl e, s'') \<Rightarrow> (Inl e, s'')))"
  by pat_completeness auto
termination
  by (relation "measure (\<lambda>(n, s). n + length (n_events s))")
    (auto dest!: sym [of _ "io_read _ _"] dest: io_read_err_events io_read_events
      simp: neq_Nil_conv less_eq_Suc_le)

declare read_exact.simps [simp del]

section \<open>Reading the wire format\<close>

definition read_u64 :: "('z nar_src_scheme, nat) nar_op" where
  "read_u64 = sbind (read_exact 8) (\<lambda>buf. sret (from_le_bytes buf))"

text \<open>\<open>bytes_buf\<close> and \<open>bytes\<close> differ only in where the buffer comes from.\<close>

definition buf_len :: "nat \<Rightarrow> nat" where
  "buf_len len = (len + 7) div 8 * 8"

definition read_bytes :: "nat \<Rightarrow> ('z nar_src_scheme, string) nar_op" where
  "read_bytes max_len =
     sbind read_u64 (\<lambda>len.
       if len > max_len then sraise InvalidData
       else sbind (read_exact (buf_len len)) (\<lambda>buf.
         if list_all (\<lambda>b. b = CHR 0x00) (drop len buf) then sret (take len buf) else sraise InvalidData))"

definition read_bytes_buf :: "nat \<Rightarrow> nat \<Rightarrow> ('z nar_src_scheme, string) nar_op" where
  "read_bytes_buf N max_len =
     (if N mod 8 \<noteq> 0 \<or> N < max_len then sraise NarPanic else read_bytes max_len)"

function read_token :: "string \<Rightarrow> ('z nar_src_scheme, unit) nar_op" where
  "read_token token s =
     (if token = [] then (Inr (), s)
      else case io_read (length token) s of
        (Inr b, s') \<Rightarrow>
          if b = [] then (Inl UnexpectedEof, s')
          else if take (length b) token \<noteq> b then (Inl InvalidData, s')
          else read_token (drop (length b) token) s'
      | (Inl e, s') \<Rightarrow> if e \<noteq> Interrupted then (Inl e, s') else read_token token s')"
  by pat_completeness auto
termination
  by (relation "measure (\<lambda>(t, s). length t + length (n_events s))")
    (auto dest!: sym [of _ "io_read _ _"] dest: io_read_err_events io_read_events
      simp: neq_Nil_conv less_eq_Suc_le)

declare read_token.simps [simp del]

definition read_tag :: "'t tag_type \<Rightarrow> ('z nar_src_scheme, 't) nar_op" where
  "read_tag T =
     sbind (read_exact (tag_MIN T)) (\<lambda>buf.
       case tag_from_u8 T (buf ! tag_OFF T) of
         None \<Rightarrow> sraise InvalidData
       | Some (tag, bytes) \<Rightarrow>
           (let head = take (tag_MIN T) bytes; tail = drop (tag_MIN T) bytes
            in if buf \<noteq> head then sraise InvalidData
               else if tail \<noteq> []
               then sbind (read_exact (length tail)) (\<lambda>rest.
                      if rest \<noteq> tail then sraise InvalidData else sret tag)
               else sret tag))"

section \<open>Correctness of the helpers\<close>

text \<open>An operation that leaves the state beyond the source alone and fails no assertion.\<close>

definition well_behaved :: "('z nar_src_scheme, 'a) nar_op \<Rightarrow> bool" where
  "well_behaved m \<longleftrightarrow>
     (\<forall>s. nar_src.more (snd (m s)) = nar_src.more s \<and> fst (m s) \<noteq> Inl NarPanic \<and> fst (m s) \<noteq> Inl OutOfFuel)"

named_theorems wb "operations that are well behaved"

lemma wb_simple [wb]: "well_behaved (sret a)" "e \<noteq> NarPanic \<Longrightarrow> e \<noteq> OutOfFuel \<Longrightarrow> well_behaved (sraise e)"
  by (simp_all add: well_behaved_def)

lemma wb_sbind [wb]:
  assumes "well_behaved m" "\<And>a. well_behaved (f a)"
  shows "well_behaved (sbind m f)"
  unfolding well_behaved_def
proof
  fix s
  obtain x s1 where m: "m s = (x, s1)" by fastforce
  have "nar_src.more s1 = nar_src.more s" "x \<noteq> Inl NarPanic" "x \<noteq> Inl OutOfFuel"
    using assms(1) m by (auto simp: well_behaved_def dest: spec [of _ s])
  then show "nar_src.more (snd (sbind m f s)) = nar_src.more s \<and>
      fst (sbind m f s) \<noteq> Inl NarPanic \<and> fst (sbind m f s) \<noteq> Inl OutOfFuel"
    using assms(2) m by (cases x) (auto simp: sbind_def well_behaved_def)
qed

lemma wb_if [wb]: "well_behaved m \<Longrightarrow> well_behaved m' \<Longrightarrow> well_behaved (if b then m else m')"
  by simp

lemma wb_frame: "well_behaved m \<Longrightarrow> m s = (x, s') \<Longrightarrow> nar_src.more s' = nar_src.more s"
  unfolding well_behaved_def by (metis snd_conv)

lemma wb_no_panic: "well_behaved m \<Longrightarrow> m s = (Inl e, s') \<Longrightarrow> e \<noteq> NarPanic \<and> e \<noteq> OutOfFuel"
  unfolding well_behaved_def by (metis fst_conv)

text \<open>
  The contract of a reading operation: what it returns is what was encoded at the front of the
  source, however the source chops it up; an encoded value at the front is read if the source is
  reliable; the state beyond the source is not touched and no assertion fails.
\<close>

locale io_codec =
  fixes get :: "('z nar_src_scheme, 'a) nar_op"
    and enc :: "'a \<Rightarrow> string"
    and wf :: "'a \<Rightarrow> bool"
  assumes sound: "get s = (Inr a, s') \<Longrightarrow> wf a \<and> n_rem s = enc a @ n_rem s'"
    and complete: "reliable s \<Longrightarrow> wf a \<Longrightarrow> n_rem s = enc a @ r \<Longrightarrow>
      \<exists>s'. get s = (Inr a, s') \<and> n_rem s' = r \<and> reliable s'"
    and wb: "well_behaved get"
begin

lemma enc_prefix: "wf a \<Longrightarrow> wf b \<Longrightarrow> enc a @ r = enc b @ q \<Longrightarrow> a = b \<and> r = q"
proof -
  assume wf: "wf a" "wf b" and eq: "enc a @ r = enc b @ q"
  obtain m :: 'z where True by blast
  define s where "s = nar_src.extend \<lparr>n_rem = enc a @ r, n_events = []\<rparr> m"
  have s: "reliable s" "n_rem s = enc a @ r" "n_rem s = enc b @ q"
    using eq by (simp_all add: s_def reliable_def nar_src.defs)
  show "a = b \<and> r = q"
    using complete [OF s(1) wf(1) s(2)] complete [OF s(1) wf(2) s(3)] by auto
qed

lemma frame: "get s = (x, s') \<Longrightarrow> nar_src.more s' = nar_src.more s"
  using wb by (rule wb_frame)

lemma no_panic: "get s = (Inl e, s') \<Longrightarrow> e \<noteq> NarPanic \<and> e \<noteq> OutOfFuel"
  using wb by (rule wb_no_panic)

lemma consumes: "get s = (Inr a, s') \<Longrightarrow> length (n_rem s') = length (n_rem s) - length (enc a)"
  by (auto dest: sound)

end

sublocale io_codec \<subseteq> prefix_code enc wf
  by unfold_locales (rule enc_prefix)

lemma io_read_frame: "io_read n s = (x, s') \<Longrightarrow> nar_src.more s' = nar_src.more s"
  by (auto simp: io_read_def split: list.splits io_event.splits)

lemma io_read_err: "io_read n s = (Inl e, s') \<Longrightarrow> e = Interrupted \<or> e = IoError"
  by (auto simp: io_read_def split: list.splits io_event.splits)

lemma append_prefix_split:
  "c @ x = t @ r \<Longrightarrow> length c \<le> length t \<Longrightarrow> take (length c) t = c \<and> t = c @ drop (length c) t \<and> x = drop (length c) t @ r"
  by (auto simp: append_eq_append_conv2)

lemma io_read_Interrupted: "io_read n s = (Inl e, s') \<Longrightarrow> n_rem s' = n_rem s"
  by (auto simp: io_read_def split: list.splits io_event.splits)

lemma read_exact_0 [simp]: "read_exact 0 s = (Inr [], s)"
  by (simp add: read_exact.simps)

lemma read_exact_spec:
  "read_exact n s = (x, s') \<Longrightarrow> nar_src.more s' = nar_src.more s \<and>
     (case x of Inr b \<Rightarrow> length b = n \<and> n_rem s = b @ n_rem s' | Inl e \<Rightarrow> e = UnexpectedEof \<or> e = IoError)"
proof (induction n s arbitrary: x s' rule: read_exact.induct)
  case (1 n s)
  show ?case
  proof (cases "n = 0")
    case True
    then show ?thesis using 1(3) by auto
  next
    case n: False
    obtain y s1 where io: "io_read n s = (y, s1)" by fastforce
    show ?thesis
    proof (cases y)
      case (Inl e)
      then have io': "io_read n s = (Inl e, s1)" using io by simp
      show ?thesis
      proof (cases "e = Interrupted")
        case True
        then have rec: "read_exact n s1 = (x, s')" using 1(3) n io' by (simp add: read_exact.simps [of n s])
        show ?thesis
          using 1(1) [OF n io' [symmetric] refl True rec] io_read_frame [OF io] io_read_Interrupted [OF io']
          by (simp split: sum.splits)
      next
        case False
        then show ?thesis
          using 1(3) n io' io_read_frame [OF io] io_read_err [OF io'] by (auto simp: read_exact.simps [of n s])
      qed
    next
      case (Inr c)
      then have io': "io_read n s = (Inr c, s1)" using io by simp
      obtain y2 s2 where rec: "read_exact (n - length c) s1 = (y2, s2)" by fastforce
      show ?thesis
      proof (cases "c = []")
        case True
        then show ?thesis using 1(3) n io' io_read_frame [OF io] by (auto simp: read_exact.simps [of n s])
      next
        case False
        note ih = 1(2) [OF n io' [symmetric] refl False rec]
        then show ?thesis
          using 1(3) n io' False rec io_read_frame [OF io] io_read_ok [OF io']
          by (auto simp: read_exact.simps [of n s] split: sum.splits)
      qed
    qed
  qed
qed

lemmas read_exact_frame = read_exact_spec [THEN conjunct1]

lemma read_exact_ok: "read_exact n s = (Inr b, s') \<Longrightarrow> length b = n \<and> n_rem s = b @ n_rem s'"
  using read_exact_spec by fastforce

lemma read_exact_err: "read_exact n s = (Inl e, s') \<Longrightarrow> e = UnexpectedEof \<or> e = IoError"
  using read_exact_spec by fastforce

lemma read_exact_complete:
  "reliable s \<Longrightarrow> n_rem s = b @ r \<Longrightarrow> length b = n \<Longrightarrow>
   \<exists>s'. read_exact n s = (Inr b, s') \<and> n_rem s' = r \<and> reliable s'"
proof (induction n s arbitrary: b rule: read_exact.induct)
  case (1 n s)
  show ?case
  proof (cases "n = 0")
    case True
    then show ?thesis using 1 by simp
  next
    case n: False
    obtain c s1 where io: "io_read n s = (Inr c, s1)" and rel: "reliable s1"
      using io_read_reliable [OF 1(3)] by blast
    note ok = io_read_ok [OF io]
    have c: "c \<noteq> []" using ok n 1(4,5) by auto
    have b: "b = c @ drop (length c) b" "n_rem s1 = drop (length c) b @ r"
      using append_prefix_split [of c "n_rem s1" b r] ok 1(4,5) by simp_all
    from 1(2) [OF n io [symmetric] refl c rel b(2)] 1(5)
    obtain s2 where "read_exact (n - length c) s1 = (Inr (drop (length c) b), s2)" "n_rem s2 = r" "reliable s2"
      by auto
    then show ?thesis using n io c b(1) by (simp add: read_exact.simps [of n s])
  qed
qed

lemma read_token_Nil [simp]: "read_token [] s = (Inr (), s)"
  by (simp add: read_token.simps)

lemma read_token_spec:
  "read_token t s = (x, s') \<Longrightarrow> nar_src.more s' = nar_src.more s \<and>
     (case x of Inr _ \<Rightarrow> n_rem s = t @ n_rem s' | Inl e \<Rightarrow> e = UnexpectedEof \<or> e = IoError \<or> e = InvalidData)"
proof (induction t s arbitrary: x rule: read_token.induct)
  case (1 t s)
  show ?case
  proof (cases "t = []")
    case True
    then show ?thesis using 1(3) by auto
  next
    case t: False
    obtain y s1 where io: "io_read (length t) s = (y, s1)" by fastforce
    show ?thesis
    proof (cases y)
      case (Inl e)
      then have io': "io_read (length t) s = (Inl e, s1)" using io by simp
      show ?thesis
      proof (cases "e = Interrupted")
        case True
        then have rec: "read_token t s1 = (x, s')" using 1(3) t io' by (simp add: read_token.simps [of t s])
        show ?thesis
          using 1(1) [OF t io' [symmetric] refl _ rec] True io_read_frame [OF io] io_read_Interrupted [OF io']
          by (simp split: sum.splits)
      next
        case False
        then show ?thesis
          using 1(3) t io' io_read_frame [OF io] io_read_err [OF io'] by (auto simp: read_token.simps [of t s])
      qed
    next
      case (Inr c)
      then have io': "io_read (length t) s = (Inr c, s1)" using io by simp
      show ?thesis
      proof (cases "c = [] \<or> take (length c) t \<noteq> c")
        case True
        then show ?thesis using 1(3) t io' io_read_frame [OF io]
          by (auto simp: read_token.simps [of t s] split: if_splits)
      next
        case False
        then have rec: "read_token (drop (length c) t) s1 = (x, s')" and c: "t = c @ drop (length c) t"
          using 1(3) t io' by (simp_all add: read_token.simps [of t s]) (metis append_take_drop_id)
        have "n_rem s = c @ n_rem s1" using io_read_ok [OF io'] by simp
        then show ?thesis
          using 1(2) [OF t io' [symmetric] refl _ _ rec] False io_read_frame [OF io] c
          by (auto split: sum.splits)
      qed
    qed
  qed
qed

lemma read_token_complete:
  "reliable s \<Longrightarrow> n_rem s = t @ r \<Longrightarrow> \<exists>s'. read_token t s = (Inr (), s') \<and> n_rem s' = r \<and> reliable s'"
proof (induction t s rule: read_token.induct)
  case (1 t s)
  show ?case
  proof (cases "t = []")
    case True
    then show ?thesis using 1 by simp
  next
    case t: False
    obtain c s1 where io: "io_read (length t) s = (Inr c, s1)" and rel: "reliable s1"
      using io_read_reliable [OF 1(3)] by blast
    note ok = io_read_ok [OF io]
    have c: "c \<noteq> []" using ok t 1(4) by auto
    have p: "take (length c) t = c" "n_rem s1 = drop (length c) t @ r"
      using append_prefix_split [of c "n_rem s1" t r] ok 1(4) by simp_all
    from 1(2) [OF t io [symmetric] refl c _ rel p(2)] p(1)
    show ?thesis using t io c by (simp add: read_token.simps [of t s])
  qed
qed

lemma wb_token [wb]: "well_behaved (read_token t :: ('z nar_src_scheme, unit) nar_op)"
proof -
  have "nar_src.more (snd (read_token t s)) = nar_src.more s \<and>
      fst (read_token t s) \<noteq> Inl NarPanic \<and> fst (read_token t s) \<noteq> Inl OutOfFuel" for s :: "'z nar_src_scheme"
    using read_token_spec [of t s "fst (read_token t s)" "snd (read_token t s)"] by auto
  then show ?thesis by (simp add: well_behaved_def)
qed

lemma wb_exact [wb]: "well_behaved (read_exact n :: ('z nar_src_scheme, string) nar_op)"
proof -
  have "nar_src.more (snd (read_exact n s)) = nar_src.more s \<and>
      fst (read_exact n s) \<noteq> Inl NarPanic \<and> fst (read_exact n s) \<noteq> Inl OutOfFuel" for s :: "'z nar_src_scheme"
    using read_exact_spec [of n s "fst (read_exact n s)" "snd (read_exact n s)"] by auto
  then show ?thesis by (simp add: well_behaved_def)
qed

interpretation token: io_codec "read_token t :: ('z nar_src_scheme, unit) nar_op" "\<lambda>_. t" "\<lambda>_. True" for t
proof
  show "read_token t s = (Inr a, s') \<Longrightarrow> True \<and> n_rem s = t @ n_rem s'" for s s' :: "'z nar_src_scheme" and a
    using read_token_spec by fastforce
  show "reliable s \<Longrightarrow> True \<Longrightarrow> n_rem s = t @ r \<Longrightarrow> \<exists>s'. read_token t s = (Inr a, s') \<and> n_rem s' = r \<and> reliable s'"
    for s :: "'z nar_src_scheme" and a :: unit and r
    using read_token_complete by simp
qed (rule wb)

lemma wb_u64 [wb]: "well_behaved read_u64"
  unfolding read_u64_def by (intro wb)

lemma read_u64_sound: "read_u64 s = (Inr a, s') \<Longrightarrow> a < 2 ^ 64 \<and> n_rem s = u64_bytes a @ n_rem s'"
proof -
  assume "read_u64 s = (Inr a, s')"
  then obtain buf where "read_exact 8 s = (Inr buf, s')" "a = from_le_bytes buf"
    by (auto simp: read_u64_def sbind_eq_Inr)
  then show ?thesis using read_exact_ok [of 8 s buf s'] u64_bytes_from [of buf] by simp
qed

interpretation u64: io_codec "read_u64 :: ('z nar_src_scheme, nat) nar_op" u64_bytes "\<lambda>n. n < 2 ^ 64"
proof
  show "read_u64 s = (Inr a, s') \<Longrightarrow> a < 2 ^ 64 \<and> n_rem s = u64_bytes a @ n_rem s'"
    for s s' :: "'z nar_src_scheme" and a by (rule read_u64_sound)
  show "\<exists>s'. read_u64 s = (Inr a, s') \<and> n_rem s' = r \<and> reliable s'"
    if "reliable s" "a < 2 ^ 64" "n_rem s = u64_bytes a @ r" for s :: "'z nar_src_scheme" and a r
    using read_exact_complete [OF that(1,3), of 8] that(2) by (auto simp: read_u64_def sbind_def)
qed (rule wb)

lemma buf_len_pad: "buf_len n = n + length (nar_pad n)"
proof -
  obtain q r where n: "n = 8 * q + r" and "r < 8" by (metis mod_less_divisor mult_div_mod_eq zero_less_numeral)
  then have "r = 0 \<or> r = 1 \<or> r = 2 \<or> r = 3 \<or> r = 4 \<or> r = 5 \<or> r = 6 \<or> r = 7" by arith
  then show ?thesis by (elim disjE) (simp_all add: n buf_len_def nar_pad_def del: add_2_eq_Suc' add_2_eq_Suc)
qed

lemma nar_pad_zero: "set (nar_pad n) \<subseteq> {CHR 0x00}"
  by (auto simp: nar_pad_def)

lemma padded_iff:
  "length buf = buf_len len \<Longrightarrow> list_all (\<lambda>b. b = CHR 0x00) (drop len buf) \<longleftrightarrow> buf = take len buf @ nar_pad len"
proof
  assume len: "length buf = buf_len len" and zero: "list_all (\<lambda>b. b = CHR 0x00) (drop len buf)"
  have "length (drop len buf) = length (nar_pad len)" using len by (simp add: buf_len_pad)
  then have "drop len buf = nar_pad len"
    using zero by (auto simp: nar_pad_def list_all_iff replicate_eqI)
  then show "buf = take len buf @ nar_pad len" by (metis append_take_drop_id)
next
  assume len: "length buf = buf_len len" and eq: "buf = take len buf @ nar_pad len"
  have "length (take len buf) = len" using len by (simp add: buf_len_pad)
  then have "drop len buf = nar_pad len" using eq by (metis append_eq_conv_conj)
  then show "list_all (\<lambda>b. b = CHR 0x00) (drop len buf)" using nar_pad_zero by (auto simp: list_all_iff)
qed

lemma read_bytes_sound:
  assumes "read_bytes m s = (Inr a, s')"
  shows "length a \<le> m \<and> length a < 2 ^ 64 \<and> n_rem s = wire_str a @ n_rem s'"
proof -
  obtain len s1 buf where u: "read_u64 s = (Inr len, s1)" and m: "len \<le> m"
    and e: "read_exact (buf_len len) s1 = (Inr buf, s')"
    and pad: "list_all (\<lambda>b. b = CHR 0x00) (drop len buf)" and a: "a = take len buf"
    using assms by (auto simp: read_bytes_def sbind_eq_Inr not_less split: if_splits)
  have buf: "length buf = buf_len len" "n_rem s1 = buf @ n_rem s'" using read_exact_ok [OF e] by simp_all
  have "buf = take len buf @ nar_pad len" using padded_iff [OF buf(1)] pad by simp
  moreover have "length a = len" using a buf(1) by (simp add: buf_len_pad)
  ultimately show ?thesis using u64.sound [OF u] m a buf(2) by (simp add: wire_str_def)
qed

lemma read_bytes_complete:
  assumes "reliable s" "length a \<le> m" "length a < 2 ^ 64" "n_rem s = wire_str a @ r"
  shows "\<exists>s'. read_bytes m s = (Inr a, s') \<and> n_rem s' = r \<and> reliable s'"
proof -
  have "n_rem s = u64_bytes (length a) @ (a @ nar_pad (length a)) @ r" using assms(4) by (simp add: wire_str_def)
  from u64.complete [OF assms(1,3) this] obtain s1 where
    u: "read_u64 s = (Inr (length a), s1)" "n_rem s1 = (a @ nar_pad (length a)) @ r" "reliable s1" by blast
  have len: "length (a @ nar_pad (length a)) = buf_len (length a)" by (simp add: buf_len_pad)
  from read_exact_complete [OF u(3,2) len] obtain s2 where
    "read_exact (buf_len (length a)) s1 = (Inr (a @ nar_pad (length a)), s2)" "n_rem s2 = r" "reliable s2" by blast
  moreover have "list_all (\<lambda>b. b = CHR 0x00) (nar_pad (length a))"
    using nar_pad_zero by (auto simp: list_all_iff)
  ultimately show ?thesis using u(1) assms(2) by (simp add: read_bytes_def)
qed

lemma wb_bytes [wb]: "well_behaved (read_bytes m)"
  unfolding read_bytes_def by (intro wb) simp_all

interpretation bytes: io_codec "read_bytes m :: ('z nar_src_scheme, string) nar_op" wire_str
  "\<lambda>a. length a \<le> m \<and> length a < 2 ^ 64" for m
  by unfold_locales (use read_bytes_sound read_bytes_complete wb_bytes in blast)+

text \<open>What the macro enforces at compile time: the discriminants tell the tokens apart.\<close>

definition tag_ok :: "'t tag_type \<Rightarrow> bool" where
  "tag_ok T \<longleftrightarrow> tag_OFF T < tag_MIN T \<and>
     (\<forall>v \<in> set (tag_variants T). tag_MIN T \<le> length (snd v) \<and> tag_from_u8 T (snd v ! tag_OFF T) = Some v)"

fun node_tag_bytes :: "node_tag \<Rightarrow> string" where
  "node_tag_bytes TSym = TOK_SYM"
| "node_tag_bytes TReg = TOK_REG"
| "node_tag_bytes TExe = TOK_EXE"
| "node_tag_bytes TDir = TOK_DIR"

fun entry_tag_bytes :: "entry_tag \<Rightarrow> string" where
  "entry_tag_bytes EntryNone = TOK_PAR"
| "entry_tag_bytes EntrySome = TOK_ENT"

lemma tags_ok: "tag_ok node_tags" "tag_ok entry_tags"
  unfolding tag_ok_def tag_MIN_eq by code_simp+

lemma tag_variants_iff:
  "(t, b) \<in> set (tag_variants node_tags) \<longleftrightarrow> b = node_tag_bytes t"
  "(t', b) \<in> set (tag_variants entry_tags) \<longleftrightarrow> b = entry_tag_bytes t'"
  by (cases t; simp add: node_tags_def) (cases t'; simp add: entry_tags_def)

lemma tag_from_u8_mem: "tag_from_u8 T x = Some v \<Longrightarrow> v \<in> set (tag_variants T)"
  by (auto simp: tag_from_u8_def find_Some_iff)

lemma read_tag_sound:
  assumes "read_tag T s = (Inr t, s')"
  shows "\<exists>b. (t, b) \<in> set (tag_variants T) \<and> n_rem s = b @ n_rem s'"
proof -
  obtain buf s1 where e: "read_exact (tag_MIN T) s = (Inr buf, s1)"
    and k: "(case tag_from_u8 T (buf ! tag_OFF T) of None \<Rightarrow> sraise InvalidData
       | Some (tag, bytes) \<Rightarrow>
           (let head = take (tag_MIN T) bytes; tail = drop (tag_MIN T) bytes
            in if buf \<noteq> head then sraise InvalidData
               else if tail \<noteq> []
               then sbind (read_exact (length tail)) (\<lambda>rest.
                      if rest \<noteq> tail then sraise InvalidData else sret tag)
               else sret tag)) s1 = (Inr t, s')"
    using assms unfolding read_tag_def sbind_eq_Inr by blast
  obtain t0 b where v: "tag_from_u8 T (buf ! tag_OFF T) = Some (t0, b)"
    using k by (cases "tag_from_u8 T (buf ! tag_OFF T)") auto
  have h: "buf = take (tag_MIN T) b" and t: "t0 = t"
    and r: "(if drop (tag_MIN T) b \<noteq> [] then
        sbind (read_exact (length (drop (tag_MIN T) b))) (\<lambda>rest.
          if rest \<noteq> drop (tag_MIN T) b then sraise InvalidData else sret t) else sret t) s1 = (Inr t, s')"
    using k v by (auto simp: Let_def sbind_eq_Inr split: if_splits)
  note v = v [unfolded t]
  have "n_rem s1 = drop (tag_MIN T) b @ n_rem s'"
    using r by (auto simp: sbind_eq_Inr dest: read_exact_ok split: if_splits)
  then show ?thesis using read_exact_ok [OF e] tag_from_u8_mem [OF v] h
    by (metis append_assoc append_take_drop_id)
qed

lemma read_tag_complete:
  assumes "tag_ok T" "reliable s" "(t, b) \<in> set (tag_variants T)" "n_rem s = b @ r"
  shows "\<exists>s'. read_tag T s = (Inr t, s') \<and> n_rem s' = r \<and> reliable s'"
proof -
  let ?h = "take (tag_MIN T) b" and ?t = "drop (tag_MIN T) b"
  have ok: "tag_OFF T < tag_MIN T" "tag_MIN T \<le> length b" "tag_from_u8 T (b ! tag_OFF T) = Some (t, b)"
    using assms(1,3) by (force simp: tag_ok_def)+
  have split: "n_rem s = ?h @ ?t @ r" using assms(4) by simp
  from read_exact_complete [OF assms(2) split] ok(2) obtain s1 where
    s1: "read_exact (tag_MIN T) s = (Inr ?h, s1)" "n_rem s1 = ?t @ r" "reliable s1" by auto
  have v: "tag_from_u8 T (?h ! tag_OFF T) = Some (t, b)" using ok by simp
  obtain s2 where "read_exact (length ?t) s1 = (Inr ?t, s2)" "n_rem s2 = r" "reliable s2"
    using read_exact_complete [OF s1(3,2)] by auto
  then show ?thesis using s1 v by (cases "?t = []") (auto simp: read_tag_def Let_def)
qed

lemma wb_tag [wb]: "well_behaved (read_tag T)"
  unfolding read_tag_def Let_def
  by (intro wb allI) (auto split: option.split intro!: wb)

interpretation node_tag: io_codec "read_tag node_tags :: ('z nar_src_scheme, node_tag) nar_op" node_tag_bytes "\<lambda>_. True"
proof
  show "read_tag node_tags s = (Inr a, s') \<Longrightarrow> True \<and> n_rem s = node_tag_bytes a @ n_rem s'"
    for s s' :: "'z nar_src_scheme" and a using read_tag_sound [of node_tags s a s'] by (simp add: tag_variants_iff)
qed (use read_tag_complete [OF tags_ok(1)] wb_tag tag_variants_iff in blast)+

interpretation entry_tag: io_codec "read_tag entry_tags :: ('z nar_src_scheme, entry_tag) nar_op" entry_tag_bytes "\<lambda>_. True"
proof
  show "read_tag entry_tags s = (Inr a, s') \<Longrightarrow> True \<and> n_rem s = entry_tag_bytes a @ n_rem s'"
    for s s' :: "'z nar_src_scheme" and a using read_tag_sound [of entry_tags s a s'] by (simp add: tag_variants_iff)
qed (use read_tag_complete [OF tags_ok(2)] wb_tag tag_variants_iff in blast)+

end
