(* ===== verification/NarReader.thy ===== *)
theory NarReader
  imports NarWire
begin

text \<open>
  The archive reader of \<^verbatim>\<open>nix-compat/src/nar/reader/mod.rs\<close>, with its debug-mode protocol: nodes,
  files and directories are objects on a stack of readers over one source, a level each; an
  object may be used only while nothing it produced is still unread and no error has occurred.
  The state is the source with the shared \<open>poisoned\<close> flag and the \<open>ready\<close> flags of the stack. The
  assertions of \<open>check_correct\<close> are modelled as the error \<open>NarPanic\<close>, as in a build with debug
  assertions; in a release build the same operations never fail there. An object is abandoned
  after an error, so operations return the updated object on success only.
\<close>

record nar_state = nar_src +
  n_poisoned :: bool
  n_ready :: "bool list"

section \<open>Status\<close>

definition status_top :: "nar_src \<Rightarrow> nar_state" where
  "status_top s = nar_src.extend s \<lparr>n_poisoned = False, n_ready = [True]\<rparr>"

definition poison :: "(nar_state, unit) nar_op" where
  "poison s = (Inr (), s\<lparr>n_poisoned := True\<rparr>)"

definition ready_parent :: "nat \<Rightarrow> (nar_state, unit) nar_op" where
  "ready_parent level s =
     (let ready = (n_ready s)[level := False]
      in (Inr (), s\<lparr>n_ready := (if level = 0 then ready else ready[level - 1 := True])\<rparr>))"

text \<open>A child of the object at \<open>level\<close> lives at the next level; older children are gone.\<close>

definition child :: "nat \<Rightarrow> (nar_state, nat) nar_op" where
  "child level s = (Inr (Suc level), s\<lparr>n_ready := take level (n_ready s) @ [False, True]\<rparr>)"

definition check_correct :: "nat \<Rightarrow> (nar_state, unit) nar_op" where
  "check_correct level s =
     (if n_poisoned s \<or> \<not> (level < length (n_ready s) \<and> n_ready s ! level)
      then (Inl NarPanic, s) else (Inr (), s))"

definition try_or_poison :: "(nar_state, 'a) nar_op \<Rightarrow> (nar_state, 'a) nar_op" where
  "try_or_poison ex s =
     (case ex s of
        (Inr x, s') \<Rightarrow> (Inr x, s')
      | (Inl e, s') \<Rightarrow> (Inl e, s'\<lparr>n_poisoned := True\<rparr>))"

section \<open>Nodes\<close>

record file_reader =
  f_level :: nat
  f_len :: nat
  f_pad :: nat

record dir_reader =
  d_level :: nat
  d_prev_name :: string

datatype (plugins only: code size) nar_node =
    NSymlink string
  | NFile bool file_reader
  | NDirectory dir_reader

definition file_reader_new :: "nat \<Rightarrow> nat \<Rightarrow> (nar_state, file_reader) nar_op" where
  "file_reader_new level len =
     (let new = \<lparr>f_level = level, f_len = len, f_pad = len mod 256\<rparr>
      in if len = 0
         then sbind (read_token TOK_PAR) (\<lambda>_. sbind (ready_parent level) (\<lambda>_. sret new))
         else sret new)"

definition dir_reader_new :: "nat \<Rightarrow> dir_reader" where
  "dir_reader_new level = \<lparr>d_level = level, d_prev_name = []\<rparr>"

definition node_new :: "nat \<Rightarrow> (nar_state, nar_node) nar_op" where
  "node_new level =
     sbind (read_tag node_tags) (\<lambda>tag.
       case tag of
         TSym \<Rightarrow>
           sbind (try_or_poison (read_bytes MAX_TARGET_LEN)) (\<lambda>target.
             if target = [] \<or> CHR 0x00 \<in> set target
             then sbind poison (\<lambda>_. sraise InvalidData)
             else sbind (try_or_poison (read_token TOK_PAR)) (\<lambda>_.
                  sbind (ready_parent level) (\<lambda>_. sret (NSymlink target))))
       | TDir \<Rightarrow> sret (NDirectory (dir_reader_new level))
       | _ \<Rightarrow>
           sbind (try_or_poison read_u64) (\<lambda>len.
           sbind (file_reader_new level len) (\<lambda>reader. sret (NFile (tag = TExe) reader))))"

definition nar_open :: "(nar_state, nar_node) nar_op" where
  "nar_open = sbind (read_token TOK_NAR) (\<lambda>_. node_new 0)"

section \<open>Files\<close>

definition file_finish :: "file_reader \<Rightarrow> (nar_state, unit) nar_op" where
  "file_finish fr =
     (let pad = f_pad fr mod 8
      in sbind
           (if pad \<noteq> 0
            then sbind (try_or_poison (read_exact (8 - pad))) (\<lambda>buf.
                   if buf \<noteq> replicate (8 - pad) (CHR 0x00) then sbind poison (\<lambda>_. sraise InvalidData)
                   else sret ())
            else sret ())
           (\<lambda>_. sbind (try_or_poison (read_token TOK_PAR)) (\<lambda>_. ready_parent (f_level fr))))"

text \<open>\<open>Read::read\<close> into a buffer of \<open>n\<close> bytes.\<close>

definition file_read :: "file_reader \<Rightarrow> nat \<Rightarrow> (nar_state, string \<times> file_reader) nar_op" where
  "file_read fr n =
     (if n = 0 \<or> f_len fr = 0 then sret ([], fr)
      else sbind (check_correct (f_level fr)) (\<lambda>_.
           sbind (try_or_poison (io_read (min n (f_len fr)))) (\<lambda>b.
             let fr' = fr\<lparr>f_len := f_len fr - length b\<rparr>
             in if b = [] then sbind poison (\<lambda>_. sraise UnexpectedEof)
                else if f_len fr' = 0 then sbind (file_finish fr') (\<lambda>_. sret (b, fr'))
                else sret (b, fr'))))"

definition file_fill_buf :: "file_reader \<Rightarrow> (nar_state, string) nar_op" where
  "file_fill_buf fr =
     (if f_len fr = 0 then sret []
      else sbind (check_correct (f_level fr)) (\<lambda>_.
           sbind (try_or_poison io_fill_buf) (\<lambda>buf.
             if buf = [] then sbind poison (\<lambda>_. sraise UnexpectedEof)
             else sret (if length buf > f_len fr then take (f_len fr) buf else buf))))"

text \<open>Consuming past the end of the file is the panic of \<open>expect\<close>.\<close>

definition file_consume :: "file_reader \<Rightarrow> nat \<Rightarrow> (nar_state, file_reader) nar_op" where
  "file_consume fr n =
     (if n = 0 then sret fr
      else sbind (check_correct (f_level fr)) (\<lambda>_.
           if f_len fr < n then sraise NarPanic
           else
             let fr' = fr\<lparr>f_len := f_len fr - n\<rparr>
             in sbind (\<lambda>s. (Inr (), io_consume n s)) (\<lambda>_.
                  if f_len fr' = 0 then sbind (file_finish fr') (\<lambda>_. sret fr') else sret fr')))"

text \<open>
  \<open>FileReader::copy\<close> into a destination. A destination has a capacity or is unbounded; one
  \<open>write\<close> takes as much of the buffer as fits and returns how much that was, as the standard
  library's slices and vectors do.
\<close>

record sink =
  sk_out :: string
  sk_cap :: "nat option"

definition sink_write :: "sink \<Rightarrow> string \<Rightarrow> nat \<times> sink" where
  "sink_write dst buf =
     (case sk_cap dst of
        None \<Rightarrow> (length buf, dst\<lparr>sk_out := sk_out dst @ buf\<rparr>)
      | Some c \<Rightarrow> (let n = min c (length buf)
                  in (n, dst\<lparr>sk_out := sk_out dst @ take n buf, sk_cap := Some (c - n)\<rparr>)))"

fun file_copy :: "nat \<Rightarrow> file_reader \<Rightarrow> sink \<Rightarrow> (nar_state, sink) nar_op" where
  "file_copy 0 fr dst = sraise OutOfFuel"
| "file_copy (Suc fuel) fr dst =
     (if f_len fr = 0 then sret dst
      else sbind (file_fill_buf fr) (\<lambda>buf.
           let (n, dst') = sink_write dst buf
           in sbind (file_consume fr n) (\<lambda>fr'. file_copy fuel fr' dst')))"

section \<open>Directories\<close>

definition bad_entry_name :: "string \<Rightarrow> bool" where
  "bad_entry_name name \<longleftrightarrow>
     name = [] \<or> CHR 0x00 \<in> set name \<or> CHR ''/'' \<in> set name \<or> name = ''.'' \<or> name = ''..''"

definition dir_next :: "dir_reader \<Rightarrow> (nar_state, (string \<times> nar_node) option \<times> dir_reader) nar_op" where
  "dir_next dr =
     sbind (check_correct (d_level dr)) (\<lambda>_.
     sbind (if d_prev_name dr \<noteq> [] then try_or_poison (read_token TOK_PAR) else sret ()) (\<lambda>_.
     sbind (try_or_poison (read_tag entry_tags)) (\<lambda>tag.
       if tag = EntryNone then sbind (ready_parent (d_level dr)) (\<lambda>_. sret (None, dr))
       else
         sbind (try_or_poison (read_bytes_buf (MAX_NAME_LEN + 1) MAX_NAME_LEN)) (\<lambda>name.
           if bad_entry_name name then sbind poison (\<lambda>_. sraise InvalidData)
           else if d_prev_name dr \<ge> name then sbind poison (\<lambda>_. sraise InvalidData)
           else
             sbind (try_or_poison (read_token TOK_NOD)) (\<lambda>_.
             sbind (child (d_level dr)) (\<lambda>level.
             sbind (node_new level) (\<lambda>node.
               sret (Some (name, node), dr\<lparr>d_prev_name := name\<rparr>))))))))"

text \<open>What a symlink target and an entry name have to satisfy to be accepted.\<close>

definition target_ok :: "string \<Rightarrow> bool" where
  "target_ok t \<longleftrightarrow> t \<noteq> [] \<and> CHR 0x00 \<notin> set t \<and> length t \<le> MAX_TARGET_LEN"

definition entry_name_ok :: "string \<Rightarrow> bool" where
  "entry_name_ok n \<longleftrightarrow> \<not> bad_entry_name n \<and> length n \<le> MAX_NAME_LEN"

section \<open>Reasoning about the status\<close>

text \<open>The object at \<open>level\<close> may be used.\<close>

definition ready_at :: "nat \<Rightarrow> nar_state \<Rightarrow> bool" where
  "ready_at level s \<longleftrightarrow> \<not> n_poisoned s \<and> level < length (n_ready s) \<and> n_ready s ! level"

text \<open>The object at \<open>level\<close> is done: its parent, if any, may be used again.\<close>

definition done_at :: "nat \<Rightarrow> nar_state \<Rightarrow> bool" where
  "done_at level s \<longleftrightarrow> \<not> n_poisoned s \<and> (\<forall>k. level = Suc k \<longrightarrow> ready_at k s)"

lemma nar_frame:
  "nar_src.more s' = nar_src.more s \<Longrightarrow> n_poisoned s' = n_poisoned s \<and> n_ready s' = n_ready (s :: nar_state)"
  by (cases s; cases s') simp

lemma check_correct_ready [simp]: "ready_at level s \<Longrightarrow> check_correct level s = (Inr (), s)"
  by (simp add: check_correct_def ready_at_def)

lemma ready_at_frame: "nar_src.more s' = nar_src.more s \<Longrightarrow> ready_at level s' = ready_at level s"
  by (auto simp: ready_at_def dest: nar_frame)

lemma ready_parent_eq: "ready_parent level s = (Inr (), snd (ready_parent level s))"
  by (simp add: ready_parent_def Let_def)

lemma ready_parent_src [simp]:
  "n_rem (snd (ready_parent level s)) = n_rem s" "n_events (snd (ready_parent level s)) = n_events s"
  "n_poisoned (snd (ready_parent level s)) = n_poisoned s"
  by (simp_all add: ready_parent_def Let_def)

lemma reliable_update [simp]:
  "reliable (snd (ready_parent level s)) = reliable s"
  "reliable (s\<lparr>n_ready := r\<rparr>) = reliable s"
  by (simp_all add: reliable_def)

lemma done_at_ready_parent: "ready_at level s \<Longrightarrow> done_at level (snd (ready_parent level s))"
  by (auto simp: done_at_def ready_at_def ready_parent_def Let_def)

lemma try_or_poison_eq [simp]: "ex s = (Inr x, s') \<Longrightarrow> try_or_poison ex s = (Inr x, s')"
  by (simp add: try_or_poison_def)

lemma try_or_poison_ok: "try_or_poison ex s = (Inr x, s') \<longleftrightarrow> ex s = (Inr x, s')"
  by (auto simp: try_or_poison_def split: prod.splits sum.splits)

lemma try_or_poison_err: "try_or_poison ex s = (Inl e, s') \<Longrightarrow> \<exists>s1. ex s = (Inl e, s1)"
  by (auto simp: try_or_poison_def split: prod.splits sum.splits)

lemma read_name_eq [simp]: "read_bytes_buf (MAX_NAME_LEN + 1) MAX_NAME_LEN = read_bytes MAX_NAME_LEN"
  by (simp add: read_bytes_buf_def MAX_NAME_LEN_def)

lemma max_lens [simp]: "MAX_NAME_LEN < 2 ^ 64" "MAX_TARGET_LEN < 2 ^ 64"
  by (simp_all add: MAX_NAME_LEN_def MAX_TARGET_LEN_def)

section \<open>Reading a file\<close>

text \<open>
  The contract of an operation of an object at some level: the returned values and the bytes
  consumed satisfy \<open>Q\<close>, and an assertion never fails.
\<close>

definition nar_triple :: "('s \<Rightarrow> bool) \<Rightarrow> ('s, 'a) nar_op \<Rightarrow> ('a \<Rightarrow> 's \<Rightarrow> bool) \<Rightarrow> bool" where
  "nar_triple P m Q \<longleftrightarrow>
     (\<forall>s. P s \<longrightarrow> (case m s of (Inr a, s') \<Rightarrow> Q a s' | (Inl e, _) \<Rightarrow> e \<noteq> NarPanic \<and> e \<noteq> OutOfFuel))"

lemma nar_tripleD:
  "nar_triple P m Q \<Longrightarrow> P s \<Longrightarrow> m s = (Inr a, s') \<Longrightarrow> Q a s'"
  "nar_triple P m Q \<Longrightarrow> P s \<Longrightarrow> m s = (Inl e, s') \<Longrightarrow> e \<noteq> NarPanic \<and> e \<noteq> OutOfFuel"
  unfolding nar_triple_def by fastforce+

named_theorems triples "contracts of archive operations"

lemma triple_sret [triples]: "(\<And>s. P s \<Longrightarrow> Q a s) \<Longrightarrow> nar_triple P (sret a) Q"
  by (simp add: nar_triple_def)

lemma triple_sraise [triples]: "e \<noteq> NarPanic \<Longrightarrow> e \<noteq> OutOfFuel \<Longrightarrow> nar_triple P (sraise e) Q"
  by (simp add: nar_triple_def)

lemma triple_sbind:
  assumes "nar_triple P m R" "\<And>a. nar_triple (R a) (f a) Q"
  shows "nar_triple P (sbind m f) Q"
  unfolding nar_triple_def
proof (intro allI impI)
  fix s assume P: "P s"
  obtain x s1 where m: "m s = (x, s1)" by fastforce
  show "case sbind m f s of (Inr a, s') \<Rightarrow> Q a s' | (Inl e, _) \<Rightarrow> e \<noteq> NarPanic \<and> e \<noteq> OutOfFuel"
  proof (cases x)
    case (Inl e)
    then show ?thesis using nar_tripleD(2) [OF assms(1) P] m by (simp add: sbind_def)
  next
    case (Inr a)
    then have "R a s1" using nar_tripleD(1) [OF assms(1) P] m by simp
    then show ?thesis using assms(2) [of a] m Inr by (simp add: sbind_def nar_triple_def)
  qed
qed

lemma triple_if [triples]:
  "(b \<Longrightarrow> nar_triple P m Q) \<Longrightarrow> (\<not> b \<Longrightarrow> nar_triple P m' Q) \<Longrightarrow> nar_triple P (if b then m else m') Q"
  by simp

lemma triple_pre: "nar_triple P m Q \<Longrightarrow> (\<And>s. P' s \<Longrightarrow> P s) \<Longrightarrow> nar_triple P' m Q"
  by (simp add: nar_triple_def)

lemma triple_try [triples]: "nar_triple P m Q \<Longrightarrow> nar_triple P (try_or_poison m) Q"
  unfolding nar_triple_def try_or_poison_def by (fastforce split: prod.splits sum.splits)

lemma triple_poison_raise [triples]:
  "e \<noteq> NarPanic \<Longrightarrow> e \<noteq> OutOfFuel \<Longrightarrow> nar_triple P (sbind poison (\<lambda>_. sraise e)) Q"
  by (simp add: nar_triple_def poison_def sbind_def)

text \<open>The state relative to the bytes \<open>pre\<close> that have been consumed of the text \<open>all\<close>.\<close>

definition at_ready :: "string \<Rightarrow> nat \<Rightarrow> string \<Rightarrow> nar_state \<Rightarrow> bool" where
  "at_ready all level pre s \<longleftrightarrow> all = pre @ n_rem s \<and> ready_at level s"

definition at_done :: "string \<Rightarrow> nat \<Rightarrow> string \<Rightarrow> nar_state \<Rightarrow> bool" where
  "at_done all level pre s \<longleftrightarrow> all = pre @ n_rem s \<and> done_at level s"

lemma triple_codec:
  assumes "\<And>s a s'. m s = (Inr a, s') \<Longrightarrow> V a \<and> n_rem s = enc a @ n_rem (s' :: nar_state)" "well_behaved m"
  shows "nar_triple (at_ready all level pre) m (\<lambda>a s. V a \<and> at_ready all level (pre @ enc a) s)"
  unfolding nar_triple_def
proof (intro allI impI)
  fix s assume P: "at_ready all level pre s"
  obtain x s1 where m: "m s = (x, s1)" by fastforce
  show "case m s of (Inr a, s') \<Rightarrow> V a \<and> at_ready all level (pre @ enc a) s' | (Inl e, _) \<Rightarrow> e \<noteq> NarPanic \<and> e \<noteq> OutOfFuel"
  proof (cases x)
    case (Inl e)
    then show ?thesis using wb_no_panic [OF assms(2)] m by simp
  next
    case (Inr a)
    then show ?thesis
      using assms(1) [of s a s1] m P ready_at_frame [OF wb_frame [OF assms(2) m], of level]
      by (simp add: at_ready_def)
  qed
qed

lemma triple_post: "nar_triple P m Q \<Longrightarrow> (\<And>a s. Q a s \<Longrightarrow> Q' a s) \<Longrightarrow> nar_triple P m Q'"
  by (fastforce simp: nar_triple_def split: prod.splits sum.splits)

lemma triple_assume: "(b \<Longrightarrow> nar_triple P m Q) \<Longrightarrow> nar_triple (\<lambda>s. b \<and> P s) m Q"
  by (auto simp: nar_triple_def)

lemma triple_token: "nar_triple (at_ready all level pre) (read_token t) (\<lambda>_. at_ready all level (pre @ t))"
  by (rule triple_post, rule triple_codec [of "read_token t" "\<lambda>_. True" "\<lambda>_. t"]) (auto intro: token.sound [THEN conjunct2] wb)

lemma triple_u64:
  "nar_triple (at_ready all level pre) read_u64 (\<lambda>n s. n < 2 ^ 64 \<and> at_ready all level (pre @ u64_bytes n) s)"
  by (rule triple_codec [OF u64.sound wb_u64])

lemma triple_bytes:
  "nar_triple (at_ready all level pre) (read_bytes m)
     (\<lambda>b s. (length b \<le> m \<and> length b < 2 ^ 64) \<and> at_ready all level (pre @ wire_str b) s)"
  by (rule triple_codec [OF bytes.sound wb_bytes])

lemma triple_node_tag:
  "nar_triple (at_ready all level pre) (read_tag node_tags) (\<lambda>t. at_ready all level (pre @ node_tag_bytes t))"
  by (rule triple_post, rule triple_codec [of "read_tag node_tags" "\<lambda>_. True" node_tag_bytes])
    (auto intro: node_tag.sound [THEN conjunct2] wb)

lemma triple_entry_tag:
  "nar_triple (at_ready all level pre) (read_tag entry_tags) (\<lambda>t. at_ready all level (pre @ entry_tag_bytes t))"
  by (rule triple_post, rule triple_codec [of "read_tag entry_tags" "\<lambda>_. True" entry_tag_bytes])
    (auto intro: entry_tag.sound [THEN conjunct2] wb)

lemma triple_exact:
  "nar_triple (at_ready all level pre) (read_exact n) (\<lambda>b s. length b = n \<and> at_ready all level (pre @ b) s)"
  by (rule triple_codec [OF read_exact_ok wb_exact])

lemma triple_ready_parent:
  "nar_triple (at_ready all level pre) (ready_parent level) (\<lambda>_. at_done all level pre)"
  unfolding nar_triple_def
  by (subst ready_parent_eq) (simp add: at_ready_def at_done_def done_at_ready_parent)

lemma triple_check: "nar_triple (at_ready all level pre) (check_correct level) (\<lambda>_. at_ready all level pre)"
  by (simp add: nar_triple_def at_ready_def)

lemma triple_child: "nar_triple (at_ready all level pre) (child level) (\<lambda>l s. l = Suc level \<and> at_ready all (Suc level) pre s)"
  by (auto simp: nar_triple_def child_def at_ready_def ready_at_def nth_append)

text \<open>
  What has been consumed when a node is handed out: a symlink entirely; of a file everything
  before its contents, or all of it if it is empty; of a directory the tag.
\<close>

definition file_tok :: "bool \<Rightarrow> string" where
  "file_tok ex = (if ex then TOK_EXE else TOK_REG)"

definition node_post :: "string \<Rightarrow> nat \<Rightarrow> string \<Rightarrow> nar_node \<Rightarrow> nar_state \<Rightarrow> bool" where
  "node_post all level pre node s =
     (case node of
        NSymlink t \<Rightarrow> target_ok t \<and> at_done all level (pre @ TOK_SYM @ wire_str t @ TOK_PAR) s
      | NFile ex fr \<Rightarrow>
          f_len fr < 2 ^ 64 \<and> f_level fr = level \<and> f_pad fr = f_len fr mod 256 \<and>
          (if f_len fr = 0 then at_done all level (pre @ file_tok ex @ u64_bytes 0 @ TOK_PAR) s
           else at_ready all level (pre @ file_tok ex @ u64_bytes (f_len fr)) s)
      | NDirectory dr \<Rightarrow> dr = dir_reader_new level \<and> at_ready all level (pre @ TOK_DIR) s)"

lemma triple_file_reader_new:
  "nar_triple (at_ready all level pre) (file_reader_new level len)
     (\<lambda>fr s. fr = \<lparr>f_level = level, f_len = len, f_pad = len mod 256\<rparr> \<and>
       (if len = 0 then at_done all level (pre @ TOK_PAR) s else at_ready all level pre s))"
  unfolding file_reader_new_def Let_def
proof (intro triple_if triple_sret)
  assume len: "len = 0"
  show "nar_triple (at_ready all level pre)
     (sbind (read_token TOK_PAR) (\<lambda>_. sbind (ready_parent level) (\<lambda>_. sret \<lparr>f_level = level, f_len = len, f_pad = len mod 256\<rparr>)))
     (\<lambda>fr s. fr = \<lparr>f_level = level, f_len = len, f_pad = len mod 256\<rparr> \<and>
       (if len = 0 then at_done all level (pre @ TOK_PAR) s else at_ready all level pre s))"
    apply (rule triple_sbind [OF triple_token])
    apply (rule triple_sbind [OF triple_ready_parent], rule triple_sret)
    apply (simp add: len)
    done
qed simp

lemma node_new_triple: "nar_triple (at_ready all level pre) (node_new level) (node_post all level pre)"
proof -
  have sym: "nar_triple (at_ready all level (pre @ TOK_SYM))
     (sbind (try_or_poison (read_bytes MAX_TARGET_LEN)) (\<lambda>target.
             if target = [] \<or> CHR 0x00 \<in> set target
             then sbind poison (\<lambda>_. sraise InvalidData)
             else sbind (try_or_poison (read_token TOK_PAR)) (\<lambda>_.
                  sbind (ready_parent level) (\<lambda>_. sret (NSymlink target))))) (node_post all level pre)"
    apply (rule triple_sbind [OF triple_try [OF triple_bytes]], rule triple_assume)
    apply (rule triple_if, rule triple_poison_raise, simp, simp)
    apply (rule triple_sbind [OF triple_try [OF triple_token]])
    apply (rule triple_sbind [OF triple_ready_parent], rule triple_sret)
    apply (auto simp: node_post_def target_ok_def)
    done
  have reg: "nar_triple (at_ready all level (pre @ file_tok ex))
     (sbind (try_or_poison read_u64) (\<lambda>len.
      sbind (file_reader_new level len) (\<lambda>reader. sret (NFile ex reader)))) (node_post all level pre)" for ex
    by (rule triple_sbind [OF triple_try [OF triple_u64]], rule triple_assume,
        rule triple_sbind [OF triple_file_reader_new], rule triple_sret)
      (auto simp: node_post_def split: if_splits)
  show ?thesis
    unfolding node_new_def
  proof (rule triple_sbind [OF triple_node_tag])
    fix tag
    show "nar_triple (at_ready all level (pre @ node_tag_bytes tag))
       (case tag of
         TSym \<Rightarrow>
           sbind (try_or_poison (read_bytes MAX_TARGET_LEN)) (\<lambda>target.
             if target = [] \<or> CHR 0x00 \<in> set target
             then sbind poison (\<lambda>_. sraise InvalidData)
             else sbind (try_or_poison (read_token TOK_PAR)) (\<lambda>_.
                  sbind (ready_parent level) (\<lambda>_. sret (NSymlink target))))
       | TDir \<Rightarrow> sret (NDirectory (dir_reader_new level))
       | _ \<Rightarrow>
           sbind (try_or_poison read_u64) (\<lambda>len.
           sbind (file_reader_new level len) (\<lambda>reader. sret (NFile (tag = TExe) reader))))
       (node_post all level pre)"
      using sym reg [of True] reg [of False]
      by (cases tag) (auto simp: file_tok_def node_post_def intro: triple_sret)
  qed
qed

lemma pad_mod: "n mod 256 mod 8 = n mod (8 :: nat)"
  by (simp add: mod_mod_cancel)

lemma file_finish_triple:
  assumes "f_pad fr = L mod 256" "f_level fr = level"
  shows "nar_triple (at_ready all level pre) (file_finish fr)
     (\<lambda>_. at_done all level (pre @ nar_pad L @ TOK_PAR))"
proof -
  have pad: "f_pad fr mod 8 = L mod 8" using assms(1) by (simp add: pad_mod)
  have 1: "nar_triple (at_ready all level pre)
    (if f_pad fr mod 8 \<noteq> 0
     then sbind (try_or_poison (read_exact (8 - f_pad fr mod 8))) (\<lambda>buf.
            if buf \<noteq> replicate (8 - f_pad fr mod 8) (CHR 0x00) then sbind poison (\<lambda>_. sraise InvalidData)
            else sret ())
     else sret ()) (\<lambda>_. at_ready all level (pre @ nar_pad L))"
    unfolding pad
    apply (rule triple_if)
     apply (rule triple_sbind [OF triple_try [OF triple_exact]], rule triple_assume)
     apply (rule triple_if, rule triple_poison_raise, simp, simp)
    by (rule triple_sret, simp add: nar_pad_def)+
  show ?thesis
    unfolding file_finish_def Let_def assms(2)
    by (rule triple_sbind [OF 1], rule triple_sbind [OF triple_try [OF triple_token]],
        rule triple_post [OF triple_ready_parent]) simp
qed

text \<open>
  A file in progress: \<open>D\<close> has been delivered of the contents of length \<open>L\<close>, the reader still
  expects \<open>f_len\<close> bytes; padding and terminator are consumed together with the last byte.
\<close>

definition file_inv :: "string \<Rightarrow> nat \<Rightarrow> nat \<Rightarrow> string \<Rightarrow> string \<Rightarrow> file_reader \<Rightarrow> nar_state \<Rightarrow> bool" where
  "file_inv all level L pre D fr s \<longleftrightarrow>
     f_level fr = level \<and> f_pad fr = L mod 256 \<and> length D + f_len fr = L \<and>
     (if f_len fr = 0 then at_done all level (pre @ D @ nar_pad L @ TOK_PAR) s
      else at_ready all level (pre @ D) s)"

lemma triple_io_read:
  "nar_triple (at_ready all level pre) (io_read n)
     (\<lambda>b s. length b \<le> n \<and> at_ready all level (pre @ b) s)"
  unfolding nar_triple_def
proof (intro allI impI)
  fix s assume P: "at_ready all level pre s"
  obtain x s1 where m: "io_read n s = (x, s1)" by fastforce
  note fr = ready_at_frame [OF io_read_frame [OF m], of level]
  show "case io_read n s of (Inr b, s') \<Rightarrow> length b \<le> n \<and> at_ready all level (pre @ b) s'
     | (Inl e, _) \<Rightarrow> e \<noteq> NarPanic \<and> e \<noteq> OutOfFuel"
    using m fr P io_read_err [of n s _ s1] io_read_ok [of n s _ s1]
    by (cases x) (auto simp: at_ready_def)
qed

lemma file_read_triple:
  assumes "0 < n"
  shows "nar_triple (file_inv all level L pre D fr) (file_read fr n)
     (\<lambda>(b, fr') s. file_inv all level L pre (D @ b) fr' s \<and> (b = [] \<longleftrightarrow> f_len fr = 0))"
proof (cases "f_len fr = 0")
  case True
  then show ?thesis by (auto simp: file_read_def nar_triple_def file_inv_def)
next
  case False
  show ?thesis
    unfolding nar_triple_def
  proof (intro allI impI)
    fix s assume inv: "file_inv all level L pre D fr s"
    then have P: "at_ready all level (pre @ D) s" and lv: "f_level fr = level" "f_pad fr = L mod 256"
      and len: "length D + f_len fr = L"
      using False by (simp_all add: file_inv_def)
    define m where "m = sbind (try_or_poison (io_read (min n (f_len fr)))) (\<lambda>b.
             let fr' = fr\<lparr>f_len := f_len fr - length b\<rparr>
             in if b = [] then sbind poison (\<lambda>_. sraise UnexpectedEof)
                else if f_len fr' = 0 then sbind (file_finish fr') (\<lambda>_. sret (b, fr'))
                else sret (b, fr'))"
    have "nar_triple (at_ready all level (pre @ D)) m
       (\<lambda>(b, fr') s. file_inv all level L pre (D @ b) fr' s \<and> b \<noteq> [])"
      unfolding m_def Let_def
      apply (rule triple_sbind [OF triple_try [OF triple_io_read]], rule triple_assume)
      apply (rule triple_if, rule triple_poison_raise, simp, simp)
      apply (rule triple_if)
       apply (rule triple_sbind [OF file_finish_triple [of _ L]])
         apply (use lv len False in \<open>simp_all add: file_inv_def triple_sret\<close>)
      done
    then have "nar_triple (at_ready all level (pre @ D)) m
       (\<lambda>(b, fr') s. file_inv all level L pre (D @ b) fr' s \<and> (b = [] \<longleftrightarrow> f_len fr = 0))"
      using False by simp
    moreover have "file_read fr n s = m s"
      using False assms lv P by (simp add: file_read_def m_def at_ready_def)
    ultimately show "case file_read fr n s of
        (Inr a, s') \<Rightarrow> (case a of (b, fr') \<Rightarrow> \<lambda>s. file_inv all level L pre (D @ b) fr' s \<and> (b = [] \<longleftrightarrow> f_len fr = 0)) s'
      | (Inl e, _) \<Rightarrow> e \<noteq> NarPanic \<and> e \<noteq> OutOfFuel"
      using P unfolding nar_triple_def by simp
  qed
qed

lemma dir_next_triple:
  assumes "d_level dr = level"
  shows "nar_triple (at_ready all level pre) (dir_next dr)
     (\<lambda>(entry, dr') s.
        case entry of
          None \<Rightarrow> at_done all level (pre @ (if d_prev_name dr \<noteq> [] then TOK_PAR else []) @ TOK_PAR) s
        | Some (name, node) \<Rightarrow>
            dr' = dr\<lparr>d_prev_name := name\<rparr> \<and> entry_name_ok name \<and> d_prev_name dr < name \<and>
            node_post all (Suc level)
              (pre @ (if d_prev_name dr \<noteq> [] then TOK_PAR else []) @ TOK_ENT @ wire_str name @ TOK_NOD) node s)"
    (is "nar_triple _ _ ?Q")
proof -
  let ?par = "if d_prev_name dr \<noteq> [] then TOK_PAR else []"
  have par: "nar_triple (at_ready all level pre)
     (if d_prev_name dr \<noteq> [] then try_or_poison (read_token TOK_PAR) else sret ())
     (\<lambda>_. at_ready all level (pre @ ?par))"
    by (rule triple_if) (use triple_try [OF triple_token] in \<open>auto intro: triple_sret\<close>)
  have entry: "nar_triple (at_ready all level (pre @ ?par @ TOK_ENT))
     (sbind (try_or_poison (read_bytes_buf (MAX_NAME_LEN + 1) MAX_NAME_LEN)) (\<lambda>name.
           if bad_entry_name name then sbind poison (\<lambda>_. sraise InvalidData)
           else if d_prev_name dr \<ge> name then sbind poison (\<lambda>_. sraise InvalidData)
           else
             sbind (try_or_poison (read_token TOK_NOD)) (\<lambda>_.
             sbind (child level) (\<lambda>level.
             sbind (node_new level) (\<lambda>node.
               sret (Some (name, node), dr\<lparr>d_prev_name := name\<rparr>)))))) ?Q"
    unfolding read_name_eq
    apply (rule triple_sbind [OF triple_try [OF triple_bytes]], rule triple_assume)
    apply (rule triple_if, rule triple_poison_raise, simp, simp)
    apply (rule triple_if, rule triple_poison_raise, simp, simp)
    apply (rule triple_sbind [OF triple_try [OF triple_token]])
    apply (rule triple_sbind [OF triple_child], rule triple_assume)
    apply (simp only:)
    apply (rule triple_sbind [OF node_new_triple], rule triple_sret)
    apply (auto simp: entry_name_ok_def not_le)
    done
  show ?thesis
    unfolding dir_next_def assms
    apply (rule triple_sbind [OF triple_check])
    apply (rule triple_sbind [OF par])
    apply (rule triple_sbind [OF triple_try [OF triple_entry_tag]])
    apply (rule triple_if)
     apply (rule triple_sbind [OF triple_ready_parent], rule triple_sret, simp)
    subgoal for _ _ tag using entry by (cases tag) (simp_all add: append_assoc)
    done
qed

end
