(* ===== verification/NarWriter.thy ===== *)
theory NarWriter
  imports NarReader
begin

text \<open>
  The archive writer of \<^verbatim>\<open>nix-compat/src/nar/writer/sync.rs\<close>, which appends to its output, and
  \<^verbatim>\<open>nix-compat/src/nar/copy.rs\<close>, which reads an archive and writes it back. The output is a
  growable buffer, so writing does not fail; the debug assertions of the writer are the error
  \<open>NarPanic\<close>. \<open>copy_node\<close> recurses over the archive it reads; it carries fuel, and enough of it
  is shown to suffice. The abstract view of an archive is a tree of files, symlinks and directories.
\<close>

section \<open>Trees and their encoding\<close>

datatype (plugins only: code size) nar_tree =
    TreeSymlink string
  | TreeFile bool string
  | TreeDir "(string \<times> nar_tree) list"

text \<open>The restrictions of the format: contents, names, targets, and strictly ascending names.\<close>

fun tree_wf :: "nar_tree \<Rightarrow> bool" where
  "tree_wf (TreeSymlink t) \<longleftrightarrow> target_ok t"
| "tree_wf (TreeFile ex c) \<longleftrightarrow> length c < 2 ^ 64"
| "tree_wf (TreeDir es) \<longleftrightarrow>
     sorted_wrt (<) (map fst es) \<and> list_all entry_name_ok (map fst es) \<and> (\<forall>e\<in>set es. tree_wf (snd e))"

text \<open>The grammar of the format, from the node tag on.\<close>

fun node_bytes :: "nar_tree \<Rightarrow> string" where
  "node_bytes (TreeSymlink t) = TOK_SYM @ wire_str t @ TOK_PAR"
| "node_bytes (TreeFile ex c) = (if ex then TOK_EXE else TOK_REG) @ wire_str c @ TOK_PAR"
| "node_bytes (TreeDir es) =
     TOK_DIR @ concat (map (\<lambda>e. TOK_ENT @ wire_str (fst e) @ TOK_NOD @ node_bytes (snd e) @ TOK_PAR) es) @ TOK_PAR"

definition nar_bytes :: "nar_tree \<Rightarrow> string" where
  "nar_bytes t = TOK_NAR @ node_bytes t"

section \<open>The writer\<close>

definition w_write :: "string \<Rightarrow> (string, unit) nar_op" where
  "w_write data out = (Inr (), out @ data)"

definition w_pad :: "nat \<Rightarrow> (string, unit) nar_op" where
  "w_pad n = (if n mod 8 = 0 then sret () else w_write (drop (n mod 8) (replicate 8 (CHR 0x00))))"

definition w_open :: "(string, unit) nar_op" where
  "w_open = w_write TOK_NAR"

definition debug_assert :: "bool \<Rightarrow> ('s, unit) nar_op" where
  "debug_assert b = (if b then sret () else sraise NarPanic)"

definition w_symlink :: "string \<Rightarrow> (string, unit) nar_op" where
  "w_symlink target =
     sbind (debug_assert (length target \<le> MAX_TARGET_LEN)) (\<lambda>_.
     sbind (debug_assert (target \<noteq> [])) (\<lambda>_.
     sbind (debug_assert (CHR 0x00 \<notin> set target)) (\<lambda>_.
     sbind (w_write TOK_SYM) (\<lambda>_.
     sbind (w_write (u64_bytes (length target))) (\<lambda>_.
     sbind (w_write target) (\<lambda>_.
     sbind (w_pad (length target)) (\<lambda>_.
     w_write TOK_PAR)))))))"

text \<open>
  \<open>Node::file\<close> copies from a buffered reader, given by its \<open>fill_buf\<close> and \<open>consume\<close>; the state
  is the reader and the output.
\<close>

definition on_output :: "(string, 'a) nar_op \<Rightarrow> ('r \<times> string, 'a) nar_op" where
  "on_output m = (\<lambda>(r, out). let (x, out') = m out in (x, (r, out')))"

definition on_reader :: "('r, 'a) nar_op \<Rightarrow> ('r \<times> string, 'a) nar_op" where
  "on_reader m = (\<lambda>(r, out). let (x, r') = m r in (x, (r', out)))"

function w_file_loop ::
  "('r, string) nar_op \<Rightarrow> (nat \<Rightarrow> 'r \<Rightarrow> 'r) \<Rightarrow> nat \<Rightarrow> ('r \<times> string, unit) nar_op" where
  "w_file_loop fill_buf consume need (r, out) =
     (if need = 0 then (Inr (), (r, out))
      else case fill_buf r of
        (Inl e, r') \<Rightarrow> (Inl e, (r', out))
      | (Inr data, r') \<Rightarrow>
          if data = [] then (Inl UnexpectedEof, (r', out))
          else let n = min need (length data)
               in w_file_loop fill_buf consume (need - n) (consume n r', out @ take n data))"
  by pat_completeness auto
termination
  by (relation "measure (\<lambda>(_, _, need, _). need)") (auto simp: min_def)

declare w_file_loop.simps [simp del]

definition w_file ::
  "('r, string) nar_op \<Rightarrow> (nat \<Rightarrow> 'r \<Rightarrow> 'r) \<Rightarrow> bool \<Rightarrow> nat \<Rightarrow> ('r \<times> string, unit) nar_op" where
  "w_file fill_buf consume executable fsize =
     sbind (on_output (w_write (if executable then TOK_EXE else TOK_REG))) (\<lambda>_.
     sbind (on_output (w_write (u64_bytes fsize))) (\<lambda>_.
     sbind (w_file_loop fill_buf consume fsize) (\<lambda>_.
     sbind (on_reader fill_buf) (\<lambda>b.
       if b \<noteq> [] then sraise InvalidInput
       else sbind (on_output (w_pad fsize)) (\<lambda>_. on_output (w_write TOK_PAR))))))"

definition w_file_manual_write :: "bool \<Rightarrow> nat \<Rightarrow> (string, nat) nar_op" where
  "w_file_manual_write executable fsize =
     sbind (w_write (if executable then TOK_EXE else TOK_REG)) (\<lambda>_.
     sbind (w_write (u64_bytes fsize)) (\<lambda>_. sret fsize))"

definition w_file_manual_close :: "nat \<Rightarrow> (string, unit) nar_op" where
  "w_file_manual_close fsize = sbind (w_pad fsize) (\<lambda>_. w_write TOK_PAR)"

record w_dir =
  wd_prev_name :: "string option"

definition w_directory :: "(string, w_dir) nar_op" where
  "w_directory = sbind (w_write TOK_DIR) (\<lambda>_. sret \<lparr>wd_prev_name = None\<rparr>)"

definition w_entry :: "w_dir \<Rightarrow> string \<Rightarrow> (string, w_dir) nar_op" where
  "w_entry wd name =
     sbind (debug_assert (length name \<le> MAX_NAME_LEN)) (\<lambda>_.
     sbind (debug_assert (name \<noteq> [])) (\<lambda>_.
     sbind (debug_assert (CHR 0x00 \<notin> set name)) (\<lambda>_.
     sbind (debug_assert (CHR ''/'' \<notin> set name)) (\<lambda>_.
     sbind (debug_assert (name \<noteq> ''.'')) (\<lambda>_.
     sbind (debug_assert (name \<noteq> ''..'')) (\<lambda>_.
     sbind (case wd_prev_name wd of
              None \<Rightarrow> sret ()
            | Some prev_name \<Rightarrow>
                sbind (debug_assert (prev_name < name)) (\<lambda>_. w_write TOK_PAR)) (\<lambda>_.
     sbind (w_write TOK_ENT) (\<lambda>_.
     sbind (w_write (u64_bytes (length name))) (\<lambda>_.
     sbind (w_write name) (\<lambda>_.
     sbind (w_pad (length name)) (\<lambda>_.
     sbind (w_write TOK_NOD) (\<lambda>_.
     sret \<lparr>wd_prev_name = Some name\<rparr>))))))))))))"

definition w_close :: "w_dir \<Rightarrow> (string, unit) nar_op" where
  "w_close wd =
     sbind (if wd_prev_name wd \<noteq> None then w_write TOK_PAR else sret ()) (\<lambda>_. w_write TOK_PAR)"

section \<open>Copying an archive\<close>

text \<open>The standard library's \<open>BufReader\<close> around a \<open>FileReader\<close>.\<close>

type_synonym buf_file = "string \<times> file_reader \<times> nar_state"

definition BUF_READER_SIZE :: nat where "BUF_READER_SIZE = 8192"

definition buf_file_fill :: "(buf_file, string) nar_op" where
  "buf_file_fill = (\<lambda>(buf, fr, s).
     if buf \<noteq> [] then (Inr buf, (buf, fr, s))
     else case file_read fr BUF_READER_SIZE s of
            (Inl e, s') \<Rightarrow> (Inl e, (buf, fr, s'))
          | (Inr (b, fr'), s') \<Rightarrow> (Inr b, (b, fr', s')))"

definition buf_file_consume :: "nat \<Rightarrow> buf_file \<Rightarrow> buf_file" where
  "buf_file_consume n = (\<lambda>(buf, fr, s). (drop n buf, fr, s))"

definition copy_file :: "bool \<Rightarrow> file_reader \<Rightarrow> (nar_state \<times> string, unit) nar_op" where
  "copy_file executable reader = (\<lambda>(s, out).
     let (x, ((buf, fr, s'), out')) =
           w_file buf_file_fill buf_file_consume executable (f_len reader) (([], reader, s), out)
     in (x, (s', out')))"

fun copy_node :: "nat \<Rightarrow> nar_node \<Rightarrow> (nar_state \<times> string, unit) nar_op"
and copy_dir :: "nat \<Rightarrow> dir_reader \<Rightarrow> w_dir \<Rightarrow> (nar_state \<times> string, unit) nar_op" where
  "copy_node 0 node_r = sraise OutOfFuel"
| "copy_node (Suc fuel) (NSymlink target) = on_output (w_symlink target)"
| "copy_node (Suc fuel) (NFile executable reader) = copy_file executable reader"
| "copy_node (Suc fuel) (NDirectory dir_reader) =
     sbind (on_output w_directory) (\<lambda>directory_w. copy_dir fuel dir_reader directory_w)"
| "copy_dir 0 dir_reader directory_w = sraise OutOfFuel"
| "copy_dir (Suc fuel) dir_reader directory_w =
     sbind (on_reader (dir_next dir_reader)) (\<lambda>(entry, dir_reader).
       case entry of
         Some (name, node) \<Rightarrow>
           sbind (on_output (w_entry directory_w name)) (\<lambda>directory_w.
           sbind (copy_node fuel node) (\<lambda>_. copy_dir fuel dir_reader directory_w))
       | None \<Rightarrow> on_output (w_close directory_w))"

definition nar_copy :: "nat \<Rightarrow> nar_src \<Rightarrow> (nar_error, unit) res \<times> nar_state \<times> string" where
  "nar_copy fuel r =
     sbind (on_reader nar_open) (\<lambda>node_r.
     sbind (on_output w_open) (\<lambda>_. copy_node fuel node_r)) (status_top r, [])"

section \<open>What the writer writes\<close>

lemma w_write_simp [simp]: "w_write d out = (Inr (), out @ d)"
  by (simp add: w_write_def)

lemma w_pad_simp [simp]: "w_pad n out = (Inr (), out @ nar_pad n)"
  by (simp add: w_pad_def nar_pad_def)

lemma debug_assert_simp [simp]: "debug_assert b s = (if b then Inr () else Inl NarPanic, s)"
  by (simp add: debug_assert_def)

lemma on_output_simp [simp]: "on_output m (r, out) = (fst (m out), (r, snd (m out)))"
  by (simp add: on_output_def case_prod_unfold Let_def)

lemma on_reader_simp [simp]: "on_reader m (r, out) = (fst (m r), (snd (m r), out))"
  by (simp add: on_reader_def case_prod_unfold Let_def)

lemma w_symlink_ok: "target_ok t \<Longrightarrow> w_symlink t out = (Inr (), out @ node_bytes (TreeSymlink t))"
  by (simp add: w_symlink_def target_ok_def sbind_def wire_str_def)

lemma w_entry_ok:
  "entry_name_ok n \<Longrightarrow> (\<forall>p. wd_prev_name wd = Some p \<longrightarrow> p < n) \<Longrightarrow>
   w_entry wd n out = (Inr \<lparr>wd_prev_name = Some n\<rparr>,
     out @ (if wd_prev_name wd = None then [] else TOK_PAR) @ TOK_ENT @ wire_str n @ TOK_NOD)"
  by (cases "wd_prev_name wd") (auto simp: w_entry_def entry_name_ok_def bad_entry_name_def sbind_def wire_str_def)

lemma w_close_ok: "w_close wd out = (Inr (), out @ (if wd_prev_name wd = None then [] else TOK_PAR) @ TOK_PAR)"
  by (simp add: w_close_def sbind_def)

section \<open>Copying a file\<close>

definition buf_inv :: "string \<Rightarrow> nat \<Rightarrow> nat \<Rightarrow> string \<Rightarrow> string \<Rightarrow> buf_file \<Rightarrow> bool" where
  "buf_inv all level L pre D = (\<lambda>(buf, fr, s). file_inv all level L pre (D @ buf) fr s)"

lemma file_inv_len: "file_inv all level L pre D fr s \<Longrightarrow> length D + f_len fr = L"
  by (simp add: file_inv_def)

lemma buf_file_fill_triple:
  "nar_triple (buf_inv all level L pre D) buf_file_fill
     (\<lambda>d r. fst r = d \<and> buf_inv all level L pre D r \<and> (d = [] \<longrightarrow> length D = L))"
  unfolding nar_triple_def
proof (intro allI impI)
  fix r assume inv: "buf_inv all level L pre D r"
  obtain buf fr s where r: "r = (buf, fr, s)" by (cases r) blast
  show "case buf_file_fill r of
      (Inr d, r') \<Rightarrow> fst r' = d \<and> buf_inv all level L pre D r' \<and> (d = [] \<longrightarrow> length D = L)
    | (Inl e, _) \<Rightarrow> e \<noteq> NarPanic \<and> e \<noteq> OutOfFuel"
  proof (cases "buf = []")
    case False
    then show ?thesis using inv r by (simp add: buf_file_fill_def)
  next
    case True
    then have I: "file_inv all level L pre D fr s" using inv r by (simp add: buf_inv_def)
    have "0 < BUF_READER_SIZE" by (simp add: BUF_READER_SIZE_def)
    note t = file_read_triple [OF this, of all level L pre D fr]
    obtain x s1 where m: "file_read fr BUF_READER_SIZE s = (x, s1)" by fastforce
    show ?thesis
      using nar_tripleD [OF t I, of _ s1] m r True file_inv_len [OF I]
      by (cases x) (auto simp: buf_file_fill_def buf_inv_def)
  qed
qed

lemma buf_file_consume_inv:
  "buf_inv all level L pre D r \<Longrightarrow> buf_inv all level L pre (D @ take n (fst r)) (buf_file_consume n r)"
  by (cases r) (simp add: buf_inv_def buf_file_consume_def)

lemma buf_inv_len: "buf_inv all level L pre D r \<Longrightarrow> length D + length (fst r) \<le> L"
  by (cases r) (auto simp: buf_inv_def dest: file_inv_len)

lemma w_file_loop_ok:
  assumes "buf_inv all level L pre D r" "need + length D = L"
  shows "case w_file_loop buf_file_fill buf_file_consume need (r, out) of
      (Inr _, (r', out')) \<Rightarrow> \<exists>D'. buf_inv all level L pre (D @ D') r' \<and> length (D @ D') = L \<and> out' = out @ D'
    | (Inl e, _) \<Rightarrow> e \<noteq> NarPanic \<and> e \<noteq> OutOfFuel"
  using assms
proof (induction need arbitrary: D r out rule: less_induct)
  case (less need)
  show ?case
  proof (cases "need = 0")
    case True
    then show ?thesis using less.prems by (simp add: w_file_loop.simps)
  next
    case need: False
    obtain x r1 where m: "buf_file_fill r = (x, r1)" by (cases "buf_file_fill r") blast
    note t = nar_tripleD [OF buf_file_fill_triple less.prems(1), of _ r1]
    show ?thesis
    proof (cases x)
      case (Inl e)
      then show ?thesis using t(2) m need by (simp add: w_file_loop.simps)
    next
      case (Inr d)
      have post: "fst r1 = d" "buf_inv all level L pre D r1" "d = [] \<longrightarrow> length D = L"
        using t(1) [of d] m Inr by auto
      have d: "d \<noteq> []" using post(3) less.prems(2) need by auto
      let ?n = "min need (length d)"
      have "need - ?n < need" using need d by (cases d) auto
      note ih = less.IH [OF this, of "D @ take ?n d" "buf_file_consume ?n r1" "out @ take ?n d"]
      have step: "w_file_loop buf_file_fill buf_file_consume need (r, out) =
          w_file_loop buf_file_fill buf_file_consume (need - ?n) (buf_file_consume ?n r1, out @ take ?n d)"
        using m Inr d need by (subst w_file_loop.simps) (simp add: Let_def)
      have "buf_inv all level L pre (D @ take ?n d) (buf_file_consume ?n r1)"
        using buf_file_consume_inv [OF post(2)] post(1) by simp
      moreover have "need - ?n + length (D @ take ?n d) = L" using less.prems(2) by auto
      ultimately show ?thesis
        using ih unfolding step by (fastforce split: prod.splits sum.splits)
    qed
  qed
qed

lemma copy_file_triple:
  "nar_triple (\<lambda>(s, out). node_post all level pre (NFile ex fr) s \<and> out = Out) (copy_file ex fr)
     (\<lambda>_ (s, out). \<exists>c. length c < 2 ^ 64 \<and> at_done all level (pre @ node_bytes (TreeFile ex c)) s \<and>
        out = Out @ node_bytes (TreeFile ex c))"
  unfolding nar_triple_def
proof (intro allI impI)
  fix st assume "case st of (s, out) \<Rightarrow> node_post all level pre (NFile ex fr) s \<and> out = Out"
  then obtain s where st: "st = (s, Out)" and post: "node_post all level pre (NFile ex fr) s" by (cases st) auto
  let ?L = "f_len fr" and ?pre = "pre @ file_tok ex @ u64_bytes (f_len fr)"
  let ?out = "Out @ file_tok ex @ u64_bytes (f_len fr)"
  have inv: "buf_inv all level ?L ?pre [] ([], fr, s)"
    using post by (auto simp: node_post_def buf_inv_def file_inv_def nar_pad_def split: if_splits)
  obtain x r' out' where loop: "w_file_loop buf_file_fill buf_file_consume ?L (([], fr, s), ?out) = (x, (r', out'))"
    by (cases "w_file_loop buf_file_fill buf_file_consume ?L (([], fr, s), ?out)") auto
  note ok = w_file_loop_ok [OF inv, of ?L ?out, unfolded loop]
  have eq: "copy_file ex fr (s, Out) =
     (let (x, ((buf, fr, s'), out')) = sbind (w_file_loop buf_file_fill buf_file_consume ?L) (\<lambda>_.
        sbind (on_reader buf_file_fill) (\<lambda>b.
          if b \<noteq> [] then sraise InvalidInput
          else sbind (on_output (w_pad ?L)) (\<lambda>_. on_output (w_write TOK_PAR)))) (([], fr, s), ?out)
      in (x, (s', out')))"
    by (simp add: copy_file_def w_file_def sbind_def file_tok_def)
  show "case copy_file ex fr st of
      (Inr a, st') \<Rightarrow> (case st' of (s, out) \<Rightarrow> \<exists>c. length c < 2 ^ 64 \<and>
         at_done all level (pre @ node_bytes (TreeFile ex c)) s \<and> out = Out @ node_bytes (TreeFile ex c))
    | (Inl e, _) \<Rightarrow> e \<noteq> NarPanic \<and> e \<noteq> OutOfFuel"
  proof (cases x)
    case (Inl e)
    then show ?thesis using ok loop st by (cases r') (simp add: eq sbind_def)
  next
    case (Inr u)
    then obtain D where D: "buf_inv all level ?L ?pre D r'" "length D = ?L" "out' = ?out @ D"
      using ok by auto
    obtain buf fr' s' where r': "r' = (buf, fr', s')" by (cases r') blast
    have b: "buf = []" "f_len fr' = 0"
      using D r' file_inv_len [of all level ?L ?pre "D @ buf" fr' s'] by (auto simp: buf_inv_def)
    have fill: "buf_file_fill r' = (Inr [], r')"
      using b r' by (simp add: buf_file_fill_def file_read_def)
    have res: "copy_file ex fr (s, Out) = (Inr (), (s', ?out @ D @ nar_pad ?L @ TOK_PAR))"
      using loop Inr fill r' D(3) by (simp add: eq sbind_def)
    have "at_done all level (?pre @ D @ nar_pad ?L @ TOK_PAR) s'"
      using D(1) b r' by (simp add: buf_inv_def file_inv_def)
    moreover have "length D < 2 ^ 64" using D(2) post by (simp add: node_post_def)
    ultimately show ?thesis
      unfolding st res using D(2)
      by (auto intro!: exI [of _ D] simp: wire_str_def file_tok_def)
  qed
qed

section \<open>Copying a tree\<close>

definition entry_bytes :: "string \<times> nar_tree \<Rightarrow> string" where
  "entry_bytes e = TOK_ENT @ wire_str (fst e) @ TOK_NOD @ node_bytes (snd e) @ TOK_PAR"

lemma node_bytes_dir: "node_bytes (TreeDir es) = TOK_DIR @ concat (map entry_bytes es) @ TOK_PAR"
  by (simp add: entry_bytes_def [abs_def])

declare node_bytes.simps(3) [simp del]

text \<open>What is still to be read of a directory after an entry named \<open>prev\<close>, or none if it is empty.\<close>

definition dir_rest :: "string \<Rightarrow> (string \<times> nar_tree) list \<Rightarrow> string" where
  "dir_rest prev es = (if prev \<noteq> [] then TOK_PAR else []) @ concat (map entry_bytes es) @ TOK_PAR"

definition entries_after :: "string \<Rightarrow> (string \<times> nar_tree) list \<Rightarrow> bool" where
  "entries_after prev es \<longleftrightarrow> sorted_wrt (<) (prev # map fst es) \<and> (\<forall>e\<in>set es. entry_name_ok (fst e) \<and> tree_wf (snd e))"

lemma entries_after_Cons:
  "entry_name_ok n \<Longrightarrow> prev < n \<Longrightarrow> tree_wf t \<Longrightarrow> entries_after n es \<Longrightarrow> entries_after prev ((n, t) # es)"
  by (auto simp: entries_after_def)

lemma dir_rest_Cons:
  "n \<noteq> [] \<Longrightarrow> dir_rest prev ((n, t) # es) =
     (if prev \<noteq> [] then TOK_PAR else []) @ TOK_ENT @ wire_str n @ TOK_NOD @ node_bytes t @ dir_rest n es"
  by (simp add: dir_rest_def entry_bytes_def)

lemma tree_wf_dir: "tree_wf (TreeDir es) \<longleftrightarrow> entries_after [] es"
  by (auto simp: entries_after_def list_all_iff entry_name_ok_def bad_entry_name_def neq_Nil_conv)

lemma on_reader_triple:
  assumes "nar_triple P m Q"
  shows "nar_triple (\<lambda>(s, out). P s \<and> out = Out) (on_reader m) (\<lambda>a (s, out). Q a s \<and> out = Out)"
  unfolding nar_triple_def
proof (intro allI impI)
  fix st assume "case st of (s, out) \<Rightarrow> P s \<and> out = Out"
  then obtain s where st: "st = (s, Out)" "P s" by (cases st) auto
  obtain x s' where m: "m s = (x, s')" by fastforce
  show "case on_reader m st of
      (Inr a, st') \<Rightarrow> (case st' of (s, out) \<Rightarrow> Q a s \<and> out = Out) | (Inl e, _) \<Rightarrow> e \<noteq> NarPanic \<and> e \<noteq> OutOfFuel"
    using nar_tripleD [OF assms st(2), of _ s'] st m by (cases x) auto
qed

definition wd_of :: "string \<Rightarrow> w_dir" where
  "wd_of prev = \<lparr>wd_prev_name = (if prev = [] then None else Some prev)\<rparr>"

lemma w_entry_wd_of:
  "entry_name_ok n \<Longrightarrow> prev < n \<Longrightarrow>
   w_entry (wd_of prev) n out = (Inr (wd_of n), out @ (if prev \<noteq> [] then TOK_PAR else []) @ TOK_ENT @ wire_str n @ TOK_NOD)"
  using w_entry_ok [of n "wd_of prev" out]
  by (auto simp: wd_of_def entry_name_ok_def bad_entry_name_def split: if_splits)

lemma at_done_ready: "at_done all (Suc level) pre s \<Longrightarrow> at_ready all level pre s"
  by (simp add: at_done_def at_ready_def done_at_def)

lemma dir_post_tree:
  "(case st of (s, out) \<Rightarrow> \<exists>es. entries_after [] es \<and>
      at_done all level ((pre @ TOK_DIR) @ dir_rest [] es) s \<and> out = (Out @ TOK_DIR) @ dir_rest [] es) \<Longrightarrow>
   (case st of (s, out) \<Rightarrow> \<exists>t. tree_wf t \<and> at_done all level (pre @ node_bytes t) s \<and> out = Out @ node_bytes t)"
proof -
  have eq: "p @ node_bytes (TreeDir es) = (p @ TOK_DIR) @ dir_rest [] es" for p es
    by (simp add: node_bytes_dir dir_rest_def)
  assume "case st of (s, out) \<Rightarrow> \<exists>es. entries_after [] es \<and>
      at_done all level ((pre @ TOK_DIR) @ dir_rest [] es) s \<and> out = (Out @ TOK_DIR) @ dir_rest [] es"
  then obtain s out es where "st = (s, out)" "tree_wf (TreeDir es)"
    "at_done all level (pre @ node_bytes (TreeDir es)) s" "out = Out @ node_bytes (TreeDir es)"
    unfolding eq by (cases st) (auto simp: tree_wf_dir simp del: tree_wf.simps)
  then show ?thesis by blast
qed

lemma node_post_len: "node_post all level pre node s \<Longrightarrow> length pre \<le> length all"
  by (auto simp: node_post_def at_ready_def at_done_def split: nar_node.splits if_splits)

text \<open>
  The contracts of the two mutually recursive functions, for a bound on the fuel: the fuel covers
  twice the bytes that are left.
\<close>

definition copy_node_spec :: "string \<Rightarrow> nat \<Rightarrow> bool" where
  "copy_node_spec all fuel \<longleftrightarrow> (\<forall>level pre node Out. 2 * (length all - length pre) + 2 \<le> fuel \<longrightarrow>
     nar_triple (\<lambda>(s, out). node_post all level pre node s \<and> out = Out) (copy_node fuel node)
       (\<lambda>_ (s, out). \<exists>t. tree_wf t \<and> at_done all level (pre @ node_bytes t) s \<and> out = Out @ node_bytes t))"

definition copy_dir_spec :: "string \<Rightarrow> nat \<Rightarrow> bool" where
  "copy_dir_spec all fuel \<longleftrightarrow> (\<forall>level pre dr Out.
     2 * (length all - length pre) + 1 \<le> fuel \<longrightarrow> d_level dr = level \<longrightarrow>
     nar_triple (\<lambda>(s, out). at_ready all level pre s \<and> out = Out) (copy_dir fuel dr (wd_of (d_prev_name dr)))
       (\<lambda>_ (s, out). \<exists>es. entries_after (d_prev_name dr) es \<and>
          at_done all level (pre @ dir_rest (d_prev_name dr) es) s \<and> out = Out @ dir_rest (d_prev_name dr) es))"

lemma copy_node_dir:
  assumes "copy_dir_spec all fuel" "2 * (length all - length (pre @ TOK_DIR)) + 1 \<le> fuel"
  shows "nar_triple (\<lambda>(s, out). node_post all level pre (NDirectory dr) s \<and> out = Out)
     (copy_node (Suc fuel) (NDirectory dr))
     (\<lambda>_ (s, out). \<exists>t. tree_wf t \<and> at_done all level (pre @ node_bytes t) s \<and> out = Out @ node_bytes t)"
  unfolding copy_node.simps
proof (rule triple_sbind)
  let ?R = "\<lambda>wd (s, out). (wd = wd_of [] \<and> dr = dir_reader_new level) \<and>
    at_ready all level (pre @ TOK_DIR) s \<and> out = Out @ TOK_DIR"
  show "nar_triple (\<lambda>(s, out). node_post all level pre (NDirectory dr) s \<and> out = Out) (on_output w_directory) ?R"
    by (auto simp: nar_triple_def node_post_def w_directory_def sbind_def wd_of_def)
  fix wd
  show "nar_triple (?R wd) (copy_dir fuel dr wd)
     (\<lambda>_ (s, out). \<exists>t. tree_wf t \<and> at_done all level (pre @ node_bytes t) s \<and> out = Out @ node_bytes t)"
  proof (cases "wd = wd_of [] \<and> dr = dir_reader_new level")
    case True
    have "nar_triple (\<lambda>(s, out). at_ready all level (pre @ TOK_DIR) s \<and> out = Out @ TOK_DIR)
       (copy_dir fuel (dir_reader_new level) (wd_of []))
       (\<lambda>_ (s, out). \<exists>es. entries_after [] es \<and>
          at_done all level ((pre @ TOK_DIR) @ dir_rest [] es) s \<and> out = (Out @ TOK_DIR) @ dir_rest [] es)"
      using assms(1) [unfolded copy_dir_spec_def, rule_format, of "pre @ TOK_DIR" "dir_reader_new level" level "Out @ TOK_DIR"]
        assms(2) by (simp add: dir_reader_new_def)
    from triple_post [OF this dir_post_tree] True show ?thesis by simp
  qed (auto simp: nar_triple_def)
qed

lemma copy_dir_entry:
  assumes "copy_node_spec all fuel" "copy_dir_spec all fuel" "2 * (length all - length pre) + 2 \<le> fuel"
    "d_level dr' = level" "d_prev_name dr' = name"
  shows "nar_triple (\<lambda>(s, out). node_post all (Suc level) pre node s \<and> out = Out)
     (sbind (copy_node fuel node) (\<lambda>_. copy_dir fuel dr' (wd_of name)))
     (\<lambda>_ (s, out). \<exists>t es. tree_wf t \<and> entries_after name es \<and>
        at_done all level ((pre @ node_bytes t) @ dir_rest name es) s \<and> out = (Out @ node_bytes t) @ dir_rest name es)"
    (is "nar_triple _ _ ?Q")
proof (rule triple_sbind)
  show "nar_triple (\<lambda>(s, out). node_post all (Suc level) pre node s \<and> out = Out) (copy_node fuel node)
     (\<lambda>_ (s, out). \<exists>t. tree_wf t \<and> at_done all (Suc level) (pre @ node_bytes t) s \<and> out = Out @ node_bytes t)"
    using assms(1,3) by (simp add: copy_node_spec_def)
  show "nar_triple (\<lambda>(s, out). \<exists>t. tree_wf t \<and> at_done all (Suc level) (pre @ node_bytes t) s \<and> out = Out @ node_bytes t)
     (copy_dir fuel dr' (wd_of name)) ?Q"
    unfolding nar_triple_def
  proof (intro allI impI)
    fix st assume "case st of (s, out) \<Rightarrow> \<exists>t. tree_wf t \<and> at_done all (Suc level) (pre @ node_bytes t) s \<and> out = Out @ node_bytes t"
    then obtain s t where st: "st = (s, Out @ node_bytes t)" and t: "tree_wf t"
      and d: "at_done all (Suc level) (pre @ node_bytes t) s" by (cases st) auto
    have "2 * (length all - length (pre @ node_bytes t)) + 1 \<le> fuel" using assms(3) by auto
    then have "nar_triple (\<lambda>(s, out). at_ready all level (pre @ node_bytes t) s \<and> out = Out @ node_bytes t)
       (copy_dir fuel dr' (wd_of name))
       (\<lambda>_ (s, out). \<exists>es. entries_after name es \<and>
          at_done all level ((pre @ node_bytes t) @ dir_rest name es) s \<and> out = (Out @ node_bytes t) @ dir_rest name es)"
      using assms(2,4,5) unfolding copy_dir_spec_def by blast
    then have "nar_triple (\<lambda>(s, out). at_ready all level (pre @ node_bytes t) s \<and> out = Out @ node_bytes t)
       (copy_dir fuel dr' (wd_of name)) ?Q"
      by (rule triple_post) (use t in auto)
    note T = this [unfolded nar_triple_def, rule_format]
    show "case copy_dir fuel dr' (wd_of name) st of
        (Inr a, s') \<Rightarrow> ?Q a s' | (Inl e, _) \<Rightarrow> e \<noteq> NarPanic \<and> e \<noteq> OutOfFuel"
      by (rule T) (use at_done_ready [OF d] st in simp)
  qed
qed

lemma copy_dir_some:
  fixes name :: string
  assumes "copy_node_spec all fuel" "copy_dir_spec all fuel" "2 * (length all - length pre) + 1 \<le> Suc fuel"
    "d_level dr = level"
  defines "par \<equiv> if d_prev_name dr \<noteq> [] then TOK_PAR else []"
  defines "head \<equiv> par @ TOK_ENT @ wire_str name @ TOK_NOD"
  shows "nar_triple (\<lambda>(s, out). (dr' = dr\<lparr>d_prev_name := name\<rparr> \<and> entry_name_ok name \<and> d_prev_name dr < name \<and>
        node_post all (Suc level) (pre @ head) node s) \<and> out = Out)
     (sbind (on_output (w_entry (wd_of (d_prev_name dr)) name)) (\<lambda>directory_w.
      sbind (copy_node fuel node) (\<lambda>_. copy_dir fuel dr' directory_w)))
     (\<lambda>_ (s, out). \<exists>es. entries_after (d_prev_name dr) es \<and>
        at_done all level (pre @ dir_rest (d_prev_name dr) es) s \<and> out = Out @ dir_rest (d_prev_name dr) es)"
proof (cases "dr' = dr\<lparr>d_prev_name := name\<rparr> \<and> entry_name_ok name \<and> d_prev_name dr < name \<and> length (pre @ head) \<le> length all")
  case ok: True
  then have "length pre + 48 \<le> length all" by (simp add: head_def)
  then have fuel: "2 * (length all - length (pre @ head)) + 2 \<le> fuel" using assms(3) by (auto simp: head_def)
  have dn: "d_level dr' = level" "d_prev_name dr' = name" using ok assms(4) by simp_all
  have n: "name \<noteq> []" using ok by (auto simp: entry_name_ok_def bad_entry_name_def)
  have rest: "p @ dir_rest (d_prev_name dr) ((name, t) # es) = ((p @ head) @ node_bytes t) @ dir_rest name es" for p t es
    by (simp add: dir_rest_Cons [OF n] head_def par_def)
  have "nar_triple (\<lambda>(s, out). node_post all (Suc level) (pre @ head) node s \<and> out = Out @ head)
     (sbind (copy_node fuel node) (\<lambda>_. copy_dir fuel dr' (wd_of name)))
     (\<lambda>_ (s, out). \<exists>es. entries_after (d_prev_name dr) es \<and>
        at_done all level (pre @ dir_rest (d_prev_name dr) es) s \<and> out = Out @ dir_rest (d_prev_name dr) es)"
  proof (rule triple_post [OF copy_dir_entry [OF assms(1,2) fuel dn]], clarify)
    fix s out t es
    assume "tree_wf t" "entries_after name es" "at_done all level (((pre @ head) @ node_bytes t) @ dir_rest name es) s"
    then show "\<exists>es'. entries_after (d_prev_name dr) es' \<and> at_done all level (pre @ dir_rest (d_prev_name dr) es') s \<and>
        ((Out @ head) @ node_bytes t) @ dir_rest name es = Out @ dir_rest (d_prev_name dr) es'"
      using entries_after_Cons [of name "d_prev_name dr" t es] ok rest [of pre t es] rest [of Out t es] by metis
  qed
  moreover have "w_entry (wd_of (d_prev_name dr)) name Out = (Inr (wd_of name), Out @ head)"
    using w_entry_wd_of ok by (simp add: head_def par_def)
  ultimately show ?thesis by (auto simp: nar_triple_def sbind_def)
next
  case False
  then show ?thesis using node_post_len [of all "Suc level" "pre @ head" node] by (auto simp: nar_triple_def)
qed

lemma copy_dir_step:
  assumes "copy_node_spec all fuel" "copy_dir_spec all fuel"
  shows "copy_dir_spec all (Suc fuel)"
  unfolding copy_dir_spec_def copy_dir.simps
proof (intro allI impI)
  fix level and dr :: dir_reader and pre Out :: string
  assume fuel: "2 * (length all - length pre) + 1 \<le> Suc fuel" and lv: "d_level dr = level"
  let ?Q = "\<lambda>_ (s, out). \<exists>es. entries_after (d_prev_name dr) es \<and>
        at_done all level (pre @ dir_rest (d_prev_name dr) es) s \<and> out = Out @ dir_rest (d_prev_name dr) es"
  have none: "entries_after (d_prev_name dr) []" by (simp add: entries_after_def)
  show "nar_triple (\<lambda>(s, out). at_ready all level pre s \<and> out = Out)
     (sbind (on_reader (dir_next dr)) (\<lambda>(entry, dir_reader).
       case entry of
         Some (name, node) \<Rightarrow>
           sbind (on_output (w_entry (wd_of (d_prev_name dr)) name)) (\<lambda>directory_w.
           sbind (copy_node fuel node) (\<lambda>_. copy_dir fuel dir_reader directory_w))
       | None \<Rightarrow> on_output (w_close (wd_of (d_prev_name dr))))) ?Q"
  proof (rule triple_sbind [OF on_reader_triple [OF dir_next_triple [OF lv]]])
    fix a :: "(string \<times> nar_node) option \<times> dir_reader"
    obtain entry dr' where a: "a = (entry, dr')" by fastforce
    show "nar_triple (\<lambda>(s, out). (case a of (entry, dr') \<Rightarrow> \<lambda>s.
        case entry of
          None \<Rightarrow> at_done all level (pre @ (if d_prev_name dr \<noteq> [] then TOK_PAR else []) @ TOK_PAR) s
        | Some (name, node) \<Rightarrow>
            dr' = dr\<lparr>d_prev_name := name\<rparr> \<and> entry_name_ok name \<and> d_prev_name dr < name \<and>
            node_post all (Suc level)
              (pre @ (if d_prev_name dr \<noteq> [] then TOK_PAR else []) @ TOK_ENT @ wire_str name @ TOK_NOD) node s) s \<and> out = Out)
      (case a of (entry, dir_reader) \<Rightarrow>
       case entry of
         Some (name, node) \<Rightarrow>
           sbind (on_output (w_entry (wd_of (d_prev_name dr)) name)) (\<lambda>directory_w.
           sbind (copy_node fuel node) (\<lambda>_. copy_dir fuel dir_reader directory_w))
       | None \<Rightarrow> on_output (w_close (wd_of (d_prev_name dr)))) ?Q"
    proof (cases entry)
      case None
      then show ?thesis using none a
        by (auto simp: nar_triple_def w_close_ok wd_of_def dir_rest_def intro!: exI [of _ "[]"])
    next
      case (Some e)
      obtain name node where e: "e = (name, node)" by fastforce
      show ?thesis unfolding a Some e prod.case option.case
        by (rule copy_dir_some [OF assms fuel lv])
    qed
  qed
qed

lemma copy_node_step:
  assumes "copy_dir_spec all fuel"
  shows "copy_node_spec all (Suc fuel)"
  unfolding copy_node_spec_def
proof (intro allI impI)
  fix level node and pre Out :: string
  assume fuel: "2 * (length all - length pre) + 2 \<le> Suc fuel"
  show "nar_triple (\<lambda>(s, out). node_post all level pre node s \<and> out = Out) (copy_node (Suc fuel) node)
       (\<lambda>_ (s, out). \<exists>t. tree_wf t \<and> at_done all level (pre @ node_bytes t) s \<and> out = Out @ node_bytes t)"
  proof (cases node)
    case (NSymlink t)
    then show ?thesis
      by (auto simp: nar_triple_def node_post_def w_symlink_ok intro!: exI [of _ "TreeSymlink t"])
  next
    case (NFile ex fr)
    show ?thesis unfolding NFile copy_node.simps
    proof (rule triple_post [OF copy_file_triple], clarify)
      fix s c assume "length c < (2 :: nat) ^ 64" "at_done all level (pre @ node_bytes (TreeFile ex c)) s"
      then show "\<exists>t. tree_wf t \<and> at_done all level (pre @ node_bytes t) s \<and>
          Out @ node_bytes (TreeFile ex c) = Out @ node_bytes t"
        by (intro exI [of _ "TreeFile ex c"]) (simp only: tree_wf.simps simp_thms)
    qed
  next
    case (NDirectory dr)
    show ?thesis unfolding NDirectory
      by (rule copy_node_dir [OF assms]) (use fuel in simp)
  qed
qed

lemma copy_specs: "copy_node_spec all fuel \<and> copy_dir_spec all fuel"
proof (induction fuel)
  case 0
  show ?case by (simp add: copy_node_spec_def copy_dir_spec_def)
next
  case (Suc fuel)
  then show ?case by (blast intro: copy_node_step copy_dir_step)
qed

end
