(* ===== verification/NarCopy.thy ===== *)
theory NarCopy
  imports NarWriter
begin

text \<open>
  Reading and writing archives together. The encoding of trees is a prefix code; an archive that
  encodes a well-formed tree is accepted by the reader and copied, whatever the pieces in which
  the source delivers it; whatever is accepted is such an archive. Also \<open>FileReader::copy\<close>, the
  reader's own copy loop.
\<close>

section \<open>The encoding is a prefix code\<close>

fun tree_tag :: "nar_tree \<Rightarrow> node_tag" where
  "tree_tag (TreeSymlink t) = TSym"
| "tree_tag (TreeFile ex c) = (if ex then TExe else TReg)"
| "tree_tag (TreeDir es) = TDir"

fun tree_body :: "nar_tree \<Rightarrow> string" where
  "tree_body (TreeSymlink t) = wire_str t @ TOK_PAR"
| "tree_body (TreeFile ex c) = wire_str c @ TOK_PAR"
| "tree_body (TreeDir es) = concat (map entry_bytes es) @ TOK_PAR"

lemma node_bytes_split: "node_bytes t = node_tag_bytes (tree_tag t) @ tree_body t"
  by (cases t) (simp_all add: node_bytes_dir)

lemma node_bytes_tag:
  "node_bytes t @ r = node_tag_bytes g @ q \<Longrightarrow> g = tree_tag t \<and> q = tree_body t @ r"
  using node_tag.enc_prefix [of "tree_tag t" "tree_body t @ r" g q] by (auto simp: node_bytes_split)

lemma wire_str_prefix:
  "length a < 2 ^ 64 \<Longrightarrow> length b < 2 ^ 64 \<Longrightarrow> wire_str a @ r = wire_str b @ q \<Longrightarrow> a = b \<and> r = q"
  using bytes.enc_prefix [where m = "max (length a) (length b)", of a b r q] by simp

lemma target_ok_len: "target_ok t \<Longrightarrow> length t < 2 ^ 64"
  by (simp add: target_ok_def MAX_TARGET_LEN_def)

lemma entry_name_len: "entry_name_ok n \<Longrightarrow> length n < 2 ^ 64"
  by (simp add: entry_name_ok_def MAX_NAME_LEN_def)

lemma par_ent: "TOK_PAR @ r \<noteq> TOK_ENT @ q" "TOK_ENT @ q \<noteq> TOK_PAR @ r"
  using entry_tag.enc_prefix [of EntryNone r EntrySome q] by auto

lemma entries_prefix:
  assumes "\<And>e t' r r'. e \<in> set es \<Longrightarrow> tree_wf t' \<Longrightarrow> node_bytes (snd e) @ r = node_bytes t' @ r' \<Longrightarrow> snd e = t' \<and> r = r'"
    and "\<forall>e\<in>set es. entry_name_ok (fst e)" "\<forall>e\<in>set es'. entry_name_ok (fst e) \<and> tree_wf (snd e)"
    and "concat (map entry_bytes es) @ TOK_PAR @ r = concat (map entry_bytes es') @ TOK_PAR @ r'"
  shows "es = es' \<and> r = r'"
  using assms
proof (induction es arbitrary: es')
  case Nil
  then show ?case by (cases es') (auto simp: entry_bytes_def par_ent)
next
  case (Cons e es)
  obtain e' es'' where es': "es' = e' # es''" using Cons.prems(4)
    by (cases es') (auto simp: entry_bytes_def par_ent)
  have eq: "wire_str (fst e) @ TOK_NOD @ node_bytes (snd e) @ TOK_PAR @ concat (map entry_bytes es) @ TOK_PAR @ r =
      wire_str (fst e') @ TOK_NOD @ node_bytes (snd e') @ TOK_PAR @ concat (map entry_bytes es'') @ TOK_PAR @ r'"
    using Cons.prems(4) by (simp add: es' entry_bytes_def [of e] entry_bytes_def [of e'])
  then have n: "fst e = fst e'" using Cons.prems(2,3) es' wire_str_prefix [OF entry_name_len entry_name_len eq] by simp
  with eq have "node_bytes (snd e) @ TOK_PAR @ concat (map entry_bytes es) @ TOK_PAR @ r =
      node_bytes (snd e') @ TOK_PAR @ concat (map entry_bytes es'') @ TOK_PAR @ r'" by simp
  with Cons.prems(1) [of e "snd e'"] Cons.prems(3) es'
  have "snd e = snd e' \<and> TOK_PAR @ concat (map entry_bytes es) @ TOK_PAR @ r = TOK_PAR @ concat (map entry_bytes es'') @ TOK_PAR @ r'"
    by (meson list.set_intros(1))
  then have t: "snd e = snd e'" "concat (map entry_bytes es) @ TOK_PAR @ r = concat (map entry_bytes es'') @ TOK_PAR @ r'"
    by simp_all
  have "es = es'' \<and> r = r'"
  proof (rule Cons.IH)
    show "snd x = v \<and> q = q'" if "x \<in> set es" "tree_wf v" "node_bytes (snd x) @ q = node_bytes v @ q'" for x v q q'
      by (rule Cons.prems(1)) (use that in auto)
  qed (use Cons.prems(2,3) es' t(2) in auto)
  then show ?case using es' n t by (simp add: prod_eq_iff)
qed

lemma node_bytes_prefix:
  "tree_wf t \<Longrightarrow> tree_wf t' \<Longrightarrow> node_bytes t @ r = node_bytes t' @ r' \<Longrightarrow> t = t' \<and> r = r'"
proof (induction t arbitrary: t' r r')
  case (TreeDir es)
  have "tree_tag t' = TDir" and b: "tree_body t' @ r' = tree_body (TreeDir es) @ r"
    using node_bytes_tag [of t' r' TDir "tree_body (TreeDir es) @ r"] TreeDir.prems(3)
    by (simp_all add: node_bytes_dir)
  then obtain es' where t': "t' = TreeDir es'" by (cases t') (auto split: if_splits)
  have "es = es' \<and> r = r'"
  proof (rule entries_prefix)
    fix e u :: "string \<times> nar_tree" and q q'
    show "snd e = v \<and> q = q'" if "e \<in> set es" "tree_wf v" "node_bytes (snd e) @ q = node_bytes v @ q'" for v
      using TreeDir.IH [of e "snd e" v q q'] that TreeDir.prems(1) by (cases e) auto
  qed (use TreeDir.prems b t' in \<open>auto simp: list_all_iff\<close>)
  then show ?case using t' by simp
next
  case (TreeSymlink t)
  have "tree_tag t' = TSym" and b: "tree_body t' @ r' = tree_body (TreeSymlink t) @ r"
    using node_bytes_tag [of t' r' TSym "tree_body (TreeSymlink t) @ r"] TreeSymlink.prems(3) by simp_all
  then obtain u where "t' = TreeSymlink u" by (cases t') (auto split: if_splits)
  then show ?case using TreeSymlink.prems b wire_str_prefix [of t u "TOK_PAR @ r" "TOK_PAR @ r'"]
      target_ok_len [of t] target_ok_len [of u] by simp
next
  case (TreeFile ex c)
  have "tree_tag t' = (if ex then TExe else TReg)" and b: "tree_body t' @ r' = tree_body (TreeFile ex c) @ r"
    using node_bytes_tag [of t' r' "if ex then TExe else TReg" "tree_body (TreeFile ex c) @ r"] TreeFile.prems(3)
    by (cases ex; simp)+
  then obtain d where "t' = TreeFile ex d" by (cases t'; cases ex) (auto split: if_splits)
  then show ?case using TreeFile.prems b wire_str_prefix [of c d "TOK_PAR @ r" "TOK_PAR @ r'"] by simp
qed

section \<open>Valid archives are accepted\<close>

lemma ready_parent_complete: "\<exists>s'. ready_parent level s = (Inr (), s') \<and> n_rem s' = n_rem s \<and> reliable s' = reliable s"
  using ready_parent_eq [of level s] ready_parent_src [of level s] reliable_update(1) [of level s] by blast

lemma file_finish_complete:
  assumes "reliable s" "n_rem s = nar_pad L @ TOK_PAR @ r" "f_pad fr = L mod 256"
  shows "\<exists>s'. file_finish fr s = (Inr (), s') \<and> n_rem s' = r \<and> reliable s'"
proof -
  have pad: "f_pad fr mod 8 = L mod 8" using assms(3) by (simp add: pad_mod)
  obtain s1 where s1: "(if f_pad fr mod 8 \<noteq> 0
     then sbind (try_or_poison (read_exact (8 - f_pad fr mod 8))) (\<lambda>buf.
            if buf \<noteq> replicate (8 - f_pad fr mod 8) (CHR 0x00) then sbind poison (\<lambda>_. sraise InvalidData)
            else sret ())
     else sret ()) s = (Inr (), s1)" "n_rem s1 = TOK_PAR @ r" "reliable s1"
  proof (cases "L mod 8 = 0")
    case True
    then show ?thesis using that assms(1,2) pad by (simp add: nar_pad_def)
  next
    case False
    then have p: "nar_pad L = replicate (8 - L mod 8) (CHR 0x00)" by (simp add: nar_pad_def)
    obtain s2 where "read_exact (8 - L mod 8) s = (Inr (nar_pad L), s2)" "n_rem s2 = TOK_PAR @ r" "reliable s2"
      using read_exact_complete [OF assms(1,2), of "8 - L mod 8"] p by auto
    then show ?thesis using that [of s2] False p unfolding pad by simp
  qed
  obtain s2 where s2: "read_token TOK_PAR s1 = (Inr (), s2)" "n_rem s2 = r" "reliable s2"
    using read_token_complete [OF s1(3,2)] by blast
  obtain s3 where "ready_parent (f_level fr) s2 = (Inr (), s3)" "n_rem s3 = n_rem s2" "reliable s3 = reliable s2"
    using ready_parent_complete by blast
  then show ?thesis using s1(1) s2 by (simp add: file_finish_def Let_def)
qed

lemma file_read_complete:
  assumes inv: "file_inv all level L pre D fr s" and rel: "reliable s"
    and all: "all = pre @ C @ nar_pad L @ TOK_PAR @ r" "length C = L" and n: "0 < n"
  shows "\<exists>b fr' s'. file_read fr n s = (Inr (b, fr'), s') \<and> reliable s'"
proof (cases "f_len fr = 0")
  case True
  then show ?thesis using rel by (simp add: file_read_def)
next
  case False
  then have P: "at_ready all level (pre @ D) s" and lv: "f_level fr = level" "f_pad fr = L mod 256"
    and len: "length D + f_len fr = L" using inv by (simp_all add: file_inv_def)
  obtain b s1 where io: "io_read (min n (f_len fr)) s = (Inr b, s1)" and rel1: "reliable s1"
    using io_read_reliable [OF rel] by blast
  note ok = io_read_ok [OF io]
  have rem: "n_rem s = drop (length D) C @ nar_pad L @ TOK_PAR @ r"
    using P all len by (auto simp: at_ready_def append_eq_append_conv2)
  have b: "b \<noteq> []" using ok rem n False len all(2) by auto
  let ?fr = "fr\<lparr>f_len := f_len fr - length b\<rparr>"
  have eq: "file_read fr n s =
      (if f_len ?fr = 0 then sbind (file_finish ?fr) (\<lambda>_. sret (b, ?fr)) else sret (b, ?fr)) s1"
    using False n P lv io b by (simp add: file_read_def at_ready_def Let_def)
  show ?thesis
  proof (cases "f_len ?fr = 0")
    case True
    then have "b = drop (length D) C" "n_rem s1 = nar_pad L @ TOK_PAR @ r"
      using ok rem len all(2) by (auto simp: append_eq_append_conv)
    with file_finish_complete [OF rel1, of L r ?fr] lv(2) show ?thesis using eq True by auto
  next
    case f: False
    then show ?thesis using eq rel1 by auto
  qed
qed

lemma w_file_loop_complete:
  assumes "buf_inv all level L pre D r0" "reliable (snd (snd r0))" "need + length D = L"
    and all: "all = pre @ C @ nar_pad L @ TOK_PAR @ r" "length C = L"
  shows "\<exists>r' out'. w_file_loop buf_file_fill buf_file_consume need (r0, out) = (Inr (), (r', out')) \<and> reliable (snd (snd r'))"
  using assms(1-3)
proof (induction need arbitrary: D r0 out rule: less_induct)
  case (less need)
  show ?case
  proof (cases "need = 0")
    case True
    then show ?thesis using less.prems by (simp add: w_file_loop.simps)
  next
    case need: False
    obtain buf fr s where r0: "r0 = (buf, fr, s)" by (cases r0) blast
    obtain d r1 where m: "buf_file_fill r0 = (Inr d, r1)" and rel: "reliable (snd (snd r1))"
    proof (cases "buf = []")
      case False
      then show ?thesis using that [of buf r0] less.prems(2) r0 by (simp add: buf_file_fill_def)
    next
      case True
      then have "file_inv all level L pre D fr s" "reliable s" using less.prems r0 by (simp_all add: buf_inv_def)
      from file_read_complete [OF this all, of BUF_READER_SIZE] obtain b fr' s'
        where "file_read fr BUF_READER_SIZE s = (Inr (b, fr'), s')" "reliable s'"
        by (auto simp: BUF_READER_SIZE_def)
      then show ?thesis using that [of b "(b, fr', s')"] True r0 by (simp add: buf_file_fill_def)
    qed
    note post = nar_tripleD(1) [OF buf_file_fill_triple less.prems(1) m]
    have d: "d \<noteq> []" using post less.prems(3) need by auto
    let ?n = "min need (length d)"
    have dec: "need - ?n < need" using need d by (cases d) auto
    have step: "w_file_loop buf_file_fill buf_file_consume need (r0, out) =
        w_file_loop buf_file_fill buf_file_consume (need - ?n) (buf_file_consume ?n r1, out @ take ?n d)"
      using m d need by (subst w_file_loop.simps) (simp add: Let_def)
    have "buf_inv all level L pre (D @ take ?n d) (buf_file_consume ?n r1)"
      using buf_file_consume_inv [of all level L pre D r1] post by simp
    moreover have "need - ?n + length (D @ take ?n d) = L" using less.prems(3) by auto
    moreover have "reliable (snd (snd (buf_file_consume ?n r1)))"
      using rel by (cases r1) (simp add: buf_file_consume_def)
    ultimately show ?thesis unfolding step using less.IH [OF dec] by blast
  qed
qed

text \<open>The node that the reader hands out for a tree.\<close>

fun node_matches :: "nat \<Rightarrow> nar_tree \<Rightarrow> nar_node \<Rightarrow> bool" where
  "node_matches level (TreeSymlink x) node \<longleftrightarrow> node = NSymlink x"
| "node_matches level (TreeFile ex c) node \<longleftrightarrow> (\<exists>fr. node = NFile ex fr \<and> f_len fr = length c)"
| "node_matches level (TreeDir es) node \<longleftrightarrow> node = NDirectory (dir_reader_new level)"

lemma file_reader_new_complete:
  assumes "reliable s" "n_rem s = (if len = 0 then TOK_PAR else []) @ r"
  shows "\<exists>s'. file_reader_new level len s = (Inr \<lparr>f_level = level, f_len = len, f_pad = len mod 256\<rparr>, s') \<and> reliable s'"
proof (cases "len = 0")
  case True
  obtain s1 where s1: "read_token TOK_PAR s = (Inr (), s1)" "reliable s1"
    using read_token_complete [of s TOK_PAR r] assms True by auto
  obtain s2 where "ready_parent level s1 = (Inr (), s2)" "reliable s2 = reliable s1"
    using ready_parent_complete by blast
  then show ?thesis using s1 True by (simp add: file_reader_new_def)
next
  case False
  then show ?thesis using assms by (simp add: file_reader_new_def)
qed

lemma node_new_complete:
  assumes rel: "reliable s" and rem: "n_rem s = node_bytes t @ r" and t: "tree_wf t"
  shows "\<exists>node s'. node_new level s = (Inr node, s') \<and> reliable s' \<and> node_matches level t node"
proof -
  obtain s1 where s1: "read_tag node_tags s = (Inr (tree_tag t), s1)" "n_rem s1 = tree_body t @ r" "reliable s1"
    using node_tag.complete [OF rel TrueI, of "tree_tag t" "tree_body t @ r"] rem by (auto simp: node_bytes_split)
  show ?thesis
  proof (cases t)
    case (TreeSymlink x)
    then have x: "target_ok x" "length x \<le> MAX_TARGET_LEN" "length x < 2 ^ 64"
      using t target_ok_len by (auto simp: target_ok_def)
    obtain s2 where s2: "read_bytes MAX_TARGET_LEN s1 = (Inr x, s2)" "n_rem s2 = TOK_PAR @ r" "reliable s2"
      using read_bytes_complete [OF s1(3) x(2,3), of "TOK_PAR @ r"] s1(2) TreeSymlink by auto
    obtain s3 where s3: "read_token TOK_PAR s2 = (Inr (), s3)" "reliable s3"
      using read_token_complete [OF s2(3,2)] by blast
    obtain s4 where "ready_parent level s3 = (Inr (), s4)" "reliable s4 = reliable s3"
      using ready_parent_complete by blast
    then show ?thesis using s1(1) s2(1) s3 x(1) TreeSymlink by (simp add: node_new_def target_ok_def)
  next
    case (TreeFile ex c)
    then have c: "length c < 2 ^ 64" using t by simp
    obtain s2 where s2: "read_u64 s1 = (Inr (length c), s2)" "n_rem s2 = c @ nar_pad (length c) @ TOK_PAR @ r" "reliable s2"
      using u64.complete [OF s1(3) c, of "c @ nar_pad (length c) @ TOK_PAR @ r"] s1(2) TreeFile
      by (auto simp: wire_str_def)
    have "n_rem s2 = (if length c = 0 then TOK_PAR else []) @ (if length c = 0 then r else n_rem s2)"
      using s2(2) by (simp add: nar_pad_def)
    from file_reader_new_complete [OF s2(3) this] obtain s3 where
      "file_reader_new level (length c) s2 = (Inr \<lparr>f_level = level, f_len = length c, f_pad = length c mod 256\<rparr>, s3)" "reliable s3"
      by blast
    then show ?thesis using s1(1) s2(1) TreeFile by (cases ex) (simp_all add: node_new_def)
  next
    case (TreeDir es)
    then show ?thesis using s1 by (simp add: node_new_def)
  qed
qed

lemma dir_next_complete:
  assumes rdy: "at_ready all level pre s" and rel: "reliable s" and rem: "n_rem s = dir_rest (d_prev_name dr) es @ r"
    and es: "entries_after (d_prev_name dr) es" and lv: "d_level dr = level"
  shows "\<exists>s'. reliable s' \<and> (case es of
      [] \<Rightarrow> dir_next dr s = (Inr (None, dr), s')
    | (n, t) # _ \<Rightarrow> \<exists>node. dir_next dr s = (Inr (Some (n, node), dr\<lparr>d_prev_name := n\<rparr>), s') \<and>
        node_matches (Suc level) t node)"
proof -
  let ?q = "concat (map entry_bytes es) @ TOK_PAR @ r"
  obtain s1 where s1: "(if d_prev_name dr \<noteq> [] then try_or_poison (read_token TOK_PAR) else sret ()) s = (Inr (), s1)"
      "n_rem s1 = ?q" "reliable s1"
    using rem rel read_token_complete [OF rel, of TOK_PAR ?q]
    by (cases "d_prev_name dr = []") (auto simp: dir_rest_def)
  have chk: "check_correct (d_level dr) s = (Inr (), s)" using rdy lv by (simp add: at_ready_def)
  show ?thesis
  proof (cases es)
    case Nil
    obtain s2 where s2: "read_tag entry_tags s1 = (Inr EntryNone, s2)" "reliable s2"
      using entry_tag.complete [OF s1(3) TrueI, of EntryNone r] s1(2) Nil by auto
    obtain s3 where "ready_parent (d_level dr) s2 = (Inr (), s3)" "reliable s3 = reliable s2"
      using ready_parent_complete by blast
    then show ?thesis using chk s1(1) s2 Nil by (simp add: dir_next_def)
  next
    case (Cons e es')
    obtain n t where e: "e = (n, t)" by fastforce
    then have n: "entry_name_ok n" "d_prev_name dr < n" "tree_wf t" "length n \<le> MAX_NAME_LEN" "\<not> bad_entry_name n"
      using es Cons by (auto simp: entries_after_def entry_name_ok_def)
    let ?t = "node_bytes t @ TOK_PAR @ concat (map entry_bytes es') @ TOK_PAR @ r"
    have rem1: "n_rem s1 = TOK_ENT @ wire_str n @ TOK_NOD @ ?t"
      using s1(2) e Cons by (simp add: entry_bytes_def [of "(n, t)"])
    obtain s2 where s2: "read_tag entry_tags s1 = (Inr EntrySome, s2)" "n_rem s2 = wire_str n @ TOK_NOD @ ?t" "reliable s2"
      using entry_tag.complete [OF s1(3) TrueI, of EntrySome] rem1 by auto
    obtain s3 where s3: "read_bytes MAX_NAME_LEN s2 = (Inr n, s3)" "n_rem s3 = TOK_NOD @ ?t" "reliable s3"
      using read_bytes_complete [OF s2(3) n(4) entry_name_len [OF n(1)] s2(2)] by blast
    obtain s4 where s4: "read_token TOK_NOD s3 = (Inr (), s4)" "n_rem s4 = ?t" "reliable s4"
      using read_token_complete [OF s3(3,2)] by blast
    let ?s5 = "s4\<lparr>n_ready := take (d_level dr) (n_ready s4) @ [False, True]\<rparr>"
    have ch: "child (d_level dr) s4 = (Inr (Suc level), ?s5)" by (simp add: child_def lv)
    obtain node s6 where s6: "node_new (Suc level) ?s5 = (Inr node, s6)" "reliable s6" "node_matches (Suc level) t node"
      using node_new_complete [OF _ _ n(3), of ?s5 "TOK_PAR @ concat (map entry_bytes es') @ TOK_PAR @ r" "Suc level"]
        s4(2,3) by auto
    have "dir_next dr s = (Inr (Some (n, node), dr\<lparr>d_prev_name := n\<rparr>), s6)"
      unfolding dir_next_def read_name_eq using chk s1(1) s2(1) s3(1) s4(1) ch s6(1) n(2,5) by simp
    then show ?thesis using s6 e Cons by auto
  qed
qed


lemma copy_file_complete:
  assumes post: "node_post all level pre (NFile ex fr) s" and rel: "reliable s"
    and all: "all = pre @ node_bytes (TreeFile ex c) @ r" and len: "f_len fr = length c"
  shows "\<exists>s' out'. copy_file ex fr (s, Out) = (Inr (), (s', out')) \<and> reliable s'"
proof -
  let ?L = "length c" and ?pre = "pre @ file_tok ex @ u64_bytes (length c)"
  let ?out = "Out @ file_tok ex @ u64_bytes (length c)"
  have inv: "buf_inv all level ?L ?pre [] ([], fr, s)"
    using post len by (auto simp: node_post_def buf_inv_def file_inv_def nar_pad_def split: if_splits)
  have all': "all = ?pre @ c @ nar_pad ?L @ TOK_PAR @ r"
    using all by (simp add: wire_str_def file_tok_def)
  obtain r' out' where loop: "w_file_loop buf_file_fill buf_file_consume ?L (([], fr, s), ?out) = (Inr (), (r', out'))"
      "reliable (snd (snd r'))"
    using w_file_loop_complete [OF inv _ _ all' refl, of ?L ?out] rel by auto
  obtain buf fr' s' where r': "r' = (buf, fr', s')" by (cases r') blast
  obtain D where "buf_inv all level ?L ?pre D r'" "length D = ?L"
    using w_file_loop_ok [OF inv, of ?L ?out] loop(1) by auto
  then have b: "buf = []" "f_len fr' = 0"
    using r' file_inv_len [of all level ?L ?pre "D @ buf" fr' s'] by (auto simp: buf_inv_def)
  have "copy_file ex fr (s, Out) = (Inr (), (s', out' @ nar_pad ?L @ TOK_PAR))"
    using loop(1) b r' len
    by (simp add: copy_file_def w_file_def sbind_def file_tok_def buf_file_fill_def file_read_def)
  then show ?thesis using loop(2) r' by simp
qed

text \<open>
  Acceptance of one tree; with the contract \<open>copy_specs\<close> and the prefix code, the result is
  determined.
\<close>

definition accepts :: "nar_tree \<Rightarrow> bool" where
  "accepts t \<longleftrightarrow> (\<forall>all fuel level pre node s Out r.
     node_post all level pre node s \<longrightarrow> node_matches level t node \<longrightarrow> reliable s \<longrightarrow>
     all = pre @ node_bytes t @ r \<longrightarrow> 2 * (length all - length pre) + 2 \<le> fuel \<longrightarrow>
     (\<exists>s' out'. copy_node fuel node (s, Out) = (Inr (), (s', out')) \<and> reliable s'))"

lemma copy_node_exact:
  assumes "accepts t" "tree_wf t" "node_post all level pre node s" "node_matches level t node" "reliable s"
    and all: "all = pre @ node_bytes t @ r" and fuel: "2 * (length all - length pre) + 2 \<le> fuel"
  shows "\<exists>s'. copy_node fuel node (s, Out) = (Inr (), (s', Out @ node_bytes t)) \<and> reliable s' \<and>
     n_rem s' = r \<and> at_done all level (pre @ node_bytes t) s'"
proof -
  obtain s' out' where c: "copy_node fuel node (s, Out) = (Inr (), (s', out'))" "reliable s'"
    using assms unfolding accepts_def by blast
  have "nar_triple (\<lambda>(s, out). node_post all level pre node s \<and> out = Out) (copy_node fuel node)
       (\<lambda>_ (s, out). \<exists>t. tree_wf t \<and> at_done all level (pre @ node_bytes t) s \<and> out = Out @ node_bytes t)"
    using copy_specs fuel unfolding copy_node_spec_def by blast
  from nar_tripleD(1) [OF this, of "(s, Out)" "()" "(s', out')"] c(1) assms(3)
  obtain t' where t': "tree_wf t'" "at_done all level (pre @ node_bytes t') s'" "out' = Out @ node_bytes t'" by auto
  then have "node_bytes t @ r = node_bytes t' @ n_rem s'" using all by (simp add: at_done_def)
  with node_bytes_prefix [OF assms(2) t'(1)] have "t = t'" "r = n_rem s'" by blast+
  with t' c show ?thesis by (intro exI [of _ s']) simp
qed

lemma copy_dir_complete:
  assumes "at_ready all level pre s" "reliable s" "all = pre @ dir_rest (d_prev_name dr) es @ r"
    "entries_after (d_prev_name dr) es" "d_level dr = level" "2 * (length all - length pre) + 1 \<le> fuel"
    "\<forall>e\<in>set es. accepts (snd e)"
  shows "\<exists>s' out'. copy_dir fuel dr (wd_of (d_prev_name dr)) (s, Out) = (Inr (), (s', out')) \<and> reliable s'"
  using assms
proof (induction es arbitrary: pre s dr fuel Out)
  case Nil
  have rem: "n_rem s = dir_rest (d_prev_name dr) [] @ r" using Nil.prems(1,3) by (simp add: at_ready_def)
  from dir_next_complete [OF Nil.prems(1,2) rem Nil.prems(4,5)] obtain s' where
    "dir_next dr s = (Inr (None, dr), s')" "reliable s'" by auto
  moreover obtain f where "fuel = Suc f" using Nil.prems(6) by (cases fuel) auto
  ultimately show ?case by (simp add: sbind_def w_close_ok)
next
  case (Cons e es)
  obtain n t where e: "e = (n, t)" by fastforce
  have n: "entry_name_ok n" "d_prev_name dr < n" "tree_wf t" "entries_after n es" "n \<noteq> []"
    using Cons.prems(4) e by (auto simp: entries_after_def entry_name_ok_def bad_entry_name_def)
  let ?dr = "dr\<lparr>d_prev_name := n\<rparr>"
  let ?head = "(if d_prev_name dr \<noteq> [] then TOK_PAR else []) @ TOK_ENT @ wire_str n @ TOK_NOD"
  have rem: "n_rem s = dir_rest (d_prev_name dr) (e # es) @ r" using Cons.prems(1,3) by (simp add: at_ready_def)
  from dir_next_complete [OF Cons.prems(1,2) rem Cons.prems(4,5)] obtain s1 node where
    nx: "dir_next dr s = (Inr (Some (n, node), ?dr), s1)" "reliable s1" "node_matches (Suc level) t node"
    using e by auto
  have np: "node_post all (Suc level) (pre @ ?head) node s1"
    using nar_tripleD(1) [OF dir_next_triple [OF Cons.prems(5)] Cons.prems(1) nx(1)] by simp
  have all: "all = (pre @ ?head) @ node_bytes t @ dir_rest n es @ r"
    using Cons.prems(3) e dir_rest_Cons [OF n(5)] by simp
  obtain f where f: "fuel = Suc f" "2 * (length all - length (pre @ ?head)) + 2 \<le> f"
    using Cons.prems(6) arg_cong [OF all, of length] by (cases fuel) auto
  have acc: "accepts t" using Cons.prems(7) e by simp
  obtain s2 where s2: "copy_node f node (s1, Out @ ?head) = (Inr (), (s2, (Out @ ?head) @ node_bytes t))" "reliable s2"
    "at_done all (Suc level) ((pre @ ?head) @ node_bytes t) s2"
    using copy_node_exact [OF acc n(3) np nx(3,2) all f(2), of "Out @ ?head"] by blast
  have "\<exists>s' out'. copy_dir f ?dr (wd_of (d_prev_name ?dr)) (s2, (Out @ ?head) @ node_bytes t) = (Inr (), (s', out')) \<and> reliable s'"
    by (rule Cons.IH [OF at_done_ready [OF s2(3)] s2(2)])
      (use all n(4) Cons.prems(5,7) f(2) in auto)
  moreover have "copy_dir fuel dr (wd_of (d_prev_name dr)) (s, Out) =
      copy_dir f ?dr (wd_of n) (s2, (Out @ ?head) @ node_bytes t)"
    unfolding f(1) copy_dir.simps using nx(1) s2(1) w_entry_wd_of [OF n(1,2), of Out] by (simp add: sbind_def)
  ultimately show ?case by simp
qed

lemma all_accepted: "tree_wf t \<Longrightarrow> accepts t"
proof (induction t)
  case (TreeSymlink x)
  show ?case unfolding accepts_def
  proof (intro allI impI)
    fix all fuel level pre node and s :: nar_state and Out :: string and r assume "node_matches level (TreeSymlink x) node" "reliable s"
      "2 * (length all - length pre) + 2 \<le> fuel"
    then show "\<exists>s' out'. copy_node fuel node (s, Out) = (Inr (), (s', out')) \<and> reliable s'"
      using TreeSymlink w_symlink_ok [of x Out] by (cases fuel) auto
  qed
next
  case (TreeFile ex c)
  show ?case unfolding accepts_def
  proof (intro allI impI)
    fix all fuel level pre node s and Out :: string and r assume "node_post all level pre node s"
      "node_matches level (TreeFile ex c) node" "reliable s" "all = pre @ node_bytes (TreeFile ex c) @ r"
      "2 * (length all - length pre) + 2 \<le> fuel"
    then show "\<exists>s' out'. copy_node fuel node (s, Out) = (Inr (), (s', out')) \<and> reliable s'"
      using copy_file_complete [of all level pre ex _ s c r Out] by (cases fuel) auto
  qed
next
  case (TreeDir es)
  have sub: "\<forall>e\<in>set es. accepts (snd e)"
    using TreeDir by (auto simp: snds.simps)
  show ?case unfolding accepts_def
  proof (intro allI impI)
    fix all fuel level pre node s and Out :: string and r assume post: "node_post all level pre node s"
      and m: "node_matches level (TreeDir es) node" and rel: "reliable s" and all: "all = pre @ node_bytes (TreeDir es) @ r"
      and fuel: "2 * (length all - length pre) + 2 \<le> fuel"
    obtain f where f: "fuel = Suc f" "2 * (length all - length (pre @ TOK_DIR)) + 1 \<le> f"
      using fuel by (cases fuel) auto
    let ?dr = "dir_reader_new level"
    have "\<exists>s' out'. copy_dir f ?dr (wd_of (d_prev_name ?dr)) (s, Out @ TOK_DIR) = (Inr (), (s', out')) \<and> reliable s'"
      by (rule copy_dir_complete [where es = es and r = r and pre = "pre @ TOK_DIR" and all = all and level = level])
        (use post m rel all f(2) sub TreeDir.prems in
          \<open>auto simp: node_post_def dir_reader_new_def node_bytes_dir dir_rest_def tree_wf_dir simp del: tree_wf.simps\<close>)
    then show "\<exists>s' out'. copy_node fuel node (s, Out) = (Inr (), (s', out')) \<and> reliable s'"
      using f m by (simp add: w_directory_def sbind_def wd_of_def dir_reader_new_def)
  qed
qed


section \<open>Copying an archive\<close>

lemma status_top_ready: "at_ready (n_rem r) 0 [] (status_top r)"
  by (simp add: at_ready_def ready_at_def status_top_def nar_src.defs)

lemma nar_open_triple: "nar_triple (at_ready all 0 []) nar_open (node_post all 0 TOK_NAR)"
  unfolding nar_open_def using triple_sbind [OF triple_token node_new_triple, of all 0 "[]" TOK_NAR] by simp

lemma nar_copy_triple:
  assumes "2 * length all + 2 \<le> fuel"
  shows "nar_triple (\<lambda>(s, out). at_ready all 0 [] s \<and> out = [])
     (sbind (on_reader nar_open) (\<lambda>node_r. sbind (on_output w_open) (\<lambda>_. copy_node fuel node_r)))
     (\<lambda>_ (s, out). \<exists>t. tree_wf t \<and> at_done all 0 (nar_bytes t) s \<and> out = nar_bytes t)"
proof (rule triple_sbind [OF on_reader_triple [OF nar_open_triple]])
  fix node
  have "nar_triple (\<lambda>(s, out). node_post all 0 TOK_NAR node s \<and> out = TOK_NAR) (copy_node fuel node)
     (\<lambda>_ (s, out). \<exists>t. tree_wf t \<and> at_done all 0 (TOK_NAR @ node_bytes t) s \<and> out = TOK_NAR @ node_bytes t)"
    using copy_specs [of all fuel] assms unfolding copy_node_spec_def by simp
  then show "nar_triple (\<lambda>(s, out). node_post all 0 TOK_NAR node s \<and> out = [])
     (sbind (on_output w_open) (\<lambda>_. copy_node fuel node))
     (\<lambda>_ (s, out). \<exists>t. tree_wf t \<and> at_done all 0 (nar_bytes t) s \<and> out = nar_bytes t)"
    by (auto simp: nar_triple_def sbind_def w_open_def nar_bytes_def)
qed

lemma nar_copy_spec:
  assumes "2 * length (n_rem r) + 2 \<le> fuel"
  shows "case nar_copy fuel r of
     (Inr _, s, out) \<Rightarrow> \<exists>t. tree_wf t \<and> n_rem r = nar_bytes t @ n_rem s \<and> out = nar_bytes t
   | (Inl e, _) \<Rightarrow> e \<noteq> NarPanic \<and> e \<noteq> OutOfFuel"
proof -
  note t = nar_copy_triple [OF assms]
  obtain x s out where c: "nar_copy fuel r = (x, s, out)" by (cases "nar_copy fuel r")
  have "(case (status_top r, []) of (s, out) \<Rightarrow> at_ready (n_rem r) 0 [] s \<and> out = [])"
    using status_top_ready by simp
  note d = nar_tripleD [OF t this, folded nar_copy_def, unfolded c]
  show ?thesis
  proof (cases x)
    case (Inl e)
    then show ?thesis using d(2) c by auto
  next
    case (Inr u)
    then show ?thesis using d(1) [of u "(s, out)"] c by (auto simp: at_done_def)
  qed
qed

lemma nar_copy_accepts:
  assumes "tree_wf t" "reliable r" "n_rem r = nar_bytes t @ rest" "2 * length (n_rem r) + 2 \<le> fuel"
  shows "\<exists>s. nar_copy fuel r = (Inr (), s, nar_bytes t) \<and> n_rem s = rest"
proof -
  let ?s = "status_top r" and ?all = "n_rem r"
  have rel: "reliable ?s" and rem: "n_rem ?s = TOK_NAR @ node_bytes t @ rest"
    using assms(2,3) by (simp_all add: reliable_def status_top_def nar_src.defs nar_bytes_def)
  obtain s1 where s1: "read_token TOK_NAR ?s = (Inr (), s1)" "n_rem s1 = node_bytes t @ rest" "reliable s1"
    using read_token_complete [OF rel rem] by blast
  obtain node s2 where s2: "node_new 0 s1 = (Inr node, s2)" "reliable s2" "node_matches 0 t node"
    using node_new_complete [OF s1(3,2) assms(1)] by blast
  have op: "nar_open ?s = (Inr node, s2)" using s1(1) s2(1) by (simp add: nar_open_def)
  have post: "node_post ?all 0 TOK_NAR node s2"
    using nar_tripleD(1) [OF nar_open_triple status_top_ready op] .
  obtain s3 where "copy_node fuel node (s2, TOK_NAR) = (Inr (), (s3, TOK_NAR @ node_bytes t))" "n_rem s3 = rest"
    using copy_node_exact [OF all_accepted [OF assms(1)] assms(1) post s2(3,2), of rest fuel TOK_NAR] assms(3,4)
    by (auto simp: nar_bytes_def)
  then show ?thesis using op by (simp add: nar_copy_def sbind_def w_open_def nar_bytes_def)
qed

text \<open>
  C1: Whatever archive \<open>copy\<close> accepts, however the source chops it up and whatever follows it, is
  the canonical encoding of a well-formed tree, exactly that encoding has been consumed, and the
  output is the same bytes: the reader accepts no other encoding of any tree. The fuel covers the
  input.
\<close>

theorem nar_copy_sound:
  assumes "nar_copy fuel r = (Inr (), s, out)" "2 * length (n_rem r) + 2 \<le> fuel"
  shows "\<exists>t. tree_wf t \<and> out = nar_bytes t \<and> n_rem r = out @ n_rem s"
  using nar_copy_spec [OF assms(2)] assms(1) by auto

text \<open>
  C26: On any input, from any source, \<open>copy\<close> ends in success or an I/O error: the recursion ends
  (fuel twice the length of the input is enough), and neither the protocol assertions of the
  reader nor the debug assertions of the writer ever fail.
\<close>

theorem nar_copy_total:
  assumes "2 * length (n_rem r) + 2 \<le> fuel"
  shows "fst (nar_copy fuel r) \<noteq> Inl NarPanic \<and> fst (nar_copy fuel r) \<noteq> Inl OutOfFuel"
  using nar_copy_spec [OF assms] by (auto split: prod.splits)

text \<open>
  C2: Every encoding of a well-formed tree is accepted: from a source that fails no read but may
  deliver the bytes in any pieces, \<open>copy\<close> reproduces the archive and leaves what
  follows it in the source.
\<close>

theorem nar_copy_complete:
  assumes "tree_wf t" "reliable r" "n_rem r = nar_bytes t @ rest" "2 * length (n_rem r) + 2 \<le> fuel"
  shows "\<exists>s. nar_copy fuel r = (Inr (), s, nar_bytes t) \<and> n_rem s = rest"
  by (rule nar_copy_accepts [OF assms])

text \<open>
  The encoding of archives is injective, and no archive is a proper prefix of another one:
  equal concatenations have equal trees and equal rests.
\<close>

theorem nar_bytes_prefix_code:
  assumes "tree_wf t" "tree_wf t'" "nar_bytes t @ r = nar_bytes t' @ r'"
  shows "t = t' \<and> r = r'"
  using node_bytes_prefix [OF assms(1,2)] assms(3) by (simp add: nar_bytes_def)


text \<open>An archive, delivered one byte at a time at first, with a byte after it.\<close>

definition sample_tree :: nar_tree where
  "sample_tree = TreeDir [(''a'', TreeFile True ''hi''), (''b'', TreeSymlink ''a'')]"

definition sample_src :: nar_src where
  "sample_src = \<lparr>n_rem = nar_bytes sample_tree @ ''x'', n_events = [Chunk 1, Chunk 3]\<rparr>"

lemma sample_facts:
  "tree_wf sample_tree" "reliable sample_src" "n_rem sample_src = nar_bytes sample_tree @ ''x''"
  "2 * length (n_rem sample_src) + 2 \<le> 4000"
proof -
  show "tree_wf sample_tree"
    by (simp add: sample_tree_def target_ok_def MAX_TARGET_LEN_def entry_name_ok_def bad_entry_name_def MAX_NAME_LEN_def
        less_char_def)
  show "2 * length (n_rem sample_src) + 2 \<le> 4000"
    by (simp add: sample_src_def sample_tree_def nar_bytes_def node_bytes_dir entry_bytes_def wire_str_def nar_pad_def)
qed (simp_all add: reliable_def sample_src_def)

theorem nar_copy_sound_witness:
  "\<exists>t s. tree_wf t \<and> nar_bytes sample_tree = nar_bytes t \<and> n_rem sample_src = nar_bytes sample_tree @ n_rem (s :: nar_state)"
proof -
  obtain s where "nar_copy 4000 sample_src = (Inr (), s, nar_bytes sample_tree)"
    using nar_copy_accepts [OF sample_facts] by blast
  from nar_copy_sound [OF this sample_facts(4)] show ?thesis by blast
qed

theorem nar_copy_total_witness: "fst (nar_copy 4000 sample_src) \<noteq> Inl NarPanic"
  using nar_copy_total [OF sample_facts(4)] by blast

theorem nar_copy_complete_witness:
  "\<exists>s. nar_copy 4000 sample_src = (Inr (), s, nar_bytes sample_tree) \<and> n_rem s = ''x''"
  by (rule nar_copy_complete [OF sample_facts])

theorem nar_bytes_prefix_code_witness:
  "tree_wf sample_tree \<and> sample_tree = TreeDir [(''a'', TreeFile True ''hi''), (''b'', TreeSymlink ''a'')] \<and> ''x'' = ''x''"
  using nar_bytes_prefix_code [OF sample_facts(1,1), of "''x''" "''x''"] sample_facts(1) by (simp add: sample_tree_def)

section \<open>The reader's copy loop\<close>

lemma io_fill_buf_spec:
  "io_fill_buf s = (x, s') \<Longrightarrow> n_rem s' = n_rem s \<and> nar_src.more s' = nar_src.more s \<and>
     (case x of Inr b \<Rightarrow> (\<exists>q. n_rem s = b @ q) \<and> (b = [] \<longleftrightarrow> n_rem s = []) | Inl e \<Rightarrow> e \<noteq> NarPanic \<and> e \<noteq> OutOfFuel)"
  by (auto simp: io_fill_buf_def split: list.splits io_event.splits sum.splits intro: append_take_drop_id [symmetric])

lemma file_fill_buf_triple:
  assumes "f_len fr \<noteq> 0" "f_level fr = level"
  shows "nar_triple (at_ready all level pre) (file_fill_buf fr)
     (\<lambda>b s. b \<noteq> [] \<and> length b \<le> f_len fr \<and> (\<exists>q. n_rem s = b @ q) \<and> at_ready all level pre s)"
  unfolding nar_triple_def
proof (intro allI impI)
  fix s assume P: "at_ready all level pre s"
  obtain x s1 where m: "io_fill_buf s = (x, s1)" by fastforce
  note sp = io_fill_buf_spec [OF m]
  have P1: "at_ready all level pre s1"
    using P sp ready_at_frame [of s1 s level] by (simp add: at_ready_def)
  have c: "check_correct (f_level fr) s = (Inr (), s)" using P assms by (simp add: at_ready_def)
  show "case file_fill_buf fr s of
      (Inr b, s') \<Rightarrow> b \<noteq> [] \<and> length b \<le> f_len fr \<and> (\<exists>q. n_rem s' = b @ q) \<and> at_ready all level pre s'
    | (Inl e, _) \<Rightarrow> e \<noteq> NarPanic \<and> e \<noteq> OutOfFuel"
  proof (cases x)
    case (Inl e)
    then show ?thesis using c m sp assms by (simp add: file_fill_buf_def try_or_poison_def sbind_def)
  next
    case (Inr b)
    then obtain q where "n_rem s1 = b @ q" using sp by auto
    then have "n_rem s1 = take (f_len fr) b @ (drop (f_len fr) b @ q)" by simp
    then have "\<exists>q. n_rem s1 = take (f_len fr) b @ q" by blast
    then show ?thesis using c m sp assms Inr P1
      by (auto simp: file_fill_buf_def poison_def try_or_poison_def sbind_def)
  qed
qed


lemma file_consume_triple:
  assumes "f_level fr = level" "f_pad fr = L mod 256" "0 < n" "n \<le> f_len fr" "length D + f_len fr = L" "length b = n"
  shows "nar_triple (\<lambda>s. at_ready all level (pre @ D) s \<and> (\<exists>q. n_rem s = b @ q)) (file_consume fr n)
     (\<lambda>fr' s. fr' = fr\<lparr>f_len := f_len fr - n\<rparr> \<and> file_inv all level L pre (D @ b) fr' s)"
  unfolding nar_triple_def
proof (intro allI impI)
  fix s assume P: "at_ready all level (pre @ D) s \<and> (\<exists>q. n_rem s = b @ q)"
  let ?fr = "fr\<lparr>f_len := f_len fr - n\<rparr>" and ?s = "io_consume n s"
  have R: "at_ready all level (pre @ D @ b) ?s"
    using P assms(6) by (auto simp: at_ready_def io_consume_def ready_at_def)
  have eq: "file_consume fr n s = (if f_len ?fr = 0 then sbind (file_finish ?fr) (\<lambda>_. sret ?fr) else sret ?fr) ?s"
    using P assms by (simp add: file_consume_def at_ready_def sbind_def Let_def)
  have "nar_triple (at_ready all level (pre @ D @ b))
     (if f_len ?fr = 0 then sbind (file_finish ?fr) (\<lambda>_. sret ?fr) else sret ?fr)
     (\<lambda>fr' s. fr' = ?fr \<and> file_inv all level L pre (D @ b) fr' s)"
    apply (rule triple_if)
     apply (rule triple_sbind [OF file_finish_triple [of _ L level]])
       apply (use assms in \<open>simp_all add: file_inv_def triple_sret\<close>)
    done
  from this [unfolded nar_triple_def, rule_format, OF R]
  show "case file_consume fr n s of
      (Inr fr', s') \<Rightarrow> fr' = ?fr \<and> file_inv all level L pre (D @ b) fr' s'
    | (Inl e, _) \<Rightarrow> e \<noteq> NarPanic \<and> e \<noteq> OutOfFuel"
    unfolding eq .
qed

lemma file_copy_triple:
  assumes "f_len fr < fuel" "sk_cap dst = None"
  shows "nar_triple (file_inv all level L pre D fr) (file_copy fuel fr dst)
     (\<lambda>dst' s. \<exists>C. length (D @ C) = L \<and> sk_out dst' = sk_out dst @ C \<and> at_done all level (pre @ D @ C @ nar_pad L @ TOK_PAR) s)"
  using assms
proof (induction fuel arbitrary: fr dst D)
  case (Suc fuel)
  let ?Q = "\<lambda>dst' s. \<exists>C. length (D @ C) = L \<and> sk_out dst' = sk_out dst @ C \<and>
      at_done all level (pre @ D @ C @ nar_pad L @ TOK_PAR) s"
  show ?case
  proof (cases "f_len fr = 0")
    case True
    then show ?thesis by (auto simp: nar_triple_def file_inv_def)
  next
    case False
    show ?thesis unfolding nar_triple_def
    proof (intro allI impI)
      fix s assume inv: "file_inv all level L pre D fr s"
      then have P: "at_ready all level (pre @ D) s" and lv: "f_level fr = level" "f_pad fr = L mod 256"
        "length D + f_len fr = L" using False by (simp_all add: file_inv_def)
      have "nar_triple (at_ready all level (pre @ D))
        (sbind (file_fill_buf fr) (\<lambda>buf. let (n, dst') = sink_write dst buf
           in sbind (file_consume fr n) (\<lambda>fr'. file_copy fuel fr' dst'))) ?Q"
      proof (rule triple_sbind [OF file_fill_buf_triple [OF False lv(1)]])
        fix b
        let ?dst = "dst\<lparr>sk_out := sk_out dst @ b\<rparr>" and ?fr = "fr\<lparr>f_len := f_len fr - length b\<rparr>"
        have w: "sink_write dst b = (length b, ?dst)" using Suc.prems(2) by (simp add: sink_write_def)
        show "nar_triple (\<lambda>s. b \<noteq> [] \<and> length b \<le> f_len fr \<and> (\<exists>q. n_rem s = b @ q) \<and> at_ready all level (pre @ D) s)
          (let (n, dst') = sink_write dst b in sbind (file_consume fr n) (\<lambda>fr'. file_copy fuel fr' dst')) ?Q"
        proof (cases "b \<noteq> [] \<and> length b \<le> f_len fr")
          case b: True
          have fuel: "f_len ?fr < fuel" using Suc.prems(1) b False by (cases b) auto
          have IH: "nar_triple (file_inv all level L pre (D @ b) ?fr) (file_copy fuel ?fr ?dst) ?Q"
            by (rule triple_post [OF Suc.IH [OF fuel]]) (use Suc.prems(2) in auto)
          have "nar_triple (\<lambda>s. at_ready all level (pre @ D) s \<and> (\<exists>q. n_rem s = b @ q))
            (sbind (file_consume fr (length b)) (\<lambda>fr'. file_copy fuel fr' ?dst)) ?Q"
          proof (rule triple_sbind [OF file_consume_triple [where n = "length b" and b = b]])
            fix fr'
            show "nar_triple (\<lambda>s. fr' = ?fr \<and> file_inv all level L pre (D @ b) fr' s) (file_copy fuel fr' ?dst) ?Q"
              by (rule triple_assume) (use IH in simp)
          qed (use lv b in auto)
          then show ?thesis unfolding w prod.case Let_def by (rule triple_pre) auto
        qed (auto simp: nar_triple_def)
      qed
      then show "case file_copy (Suc fuel) fr dst s of (Inr a, s') \<Rightarrow> ?Q a s' | (Inl e, _) \<Rightarrow> e \<noteq> NarPanic \<and> e \<noteq> OutOfFuel"
        using P False unfolding nar_triple_def by simp
    qed
  qed
qed simp


text \<open>
  \<open>FileReader::copy\<close> into a growing destination always ends, without failing an assertion;
  when it succeeds the destination has received exactly the bytes of the file that were left, and
  the padding and the terminator have been consumed. One round of the loop per byte is enough.
\<close>

theorem file_copy_delivers:
  assumes "file_inv all level L pre D fr s" "f_len fr < fuel" "sk_cap dst = None"
  shows "case file_copy fuel fr dst s of
     (Inr dst', s') \<Rightarrow> \<exists>C. length (D @ C) = L \<and> sk_out dst' = sk_out dst @ C \<and>
        all = pre @ D @ C @ nar_pad L @ TOK_PAR @ n_rem s' \<and> done_at level s'
   | (Inl e, _) \<Rightarrow> e \<noteq> NarPanic \<and> e \<noteq> OutOfFuel"
  using file_copy_triple [OF assms(2,3), unfolded nar_triple_def, rule_format, OF assms(1)]
  by (auto simp: at_done_def split: prod.splits sum.splits)

definition sample_reader :: file_reader where
  "sample_reader = \<lparr>f_level = 0, f_len = 2, f_pad = 2\<rparr>"

definition sample_state :: nar_state where
  "sample_state = \<lparr>n_rem = ''hi'' @ nar_pad 2 @ TOK_PAR, n_events = [], n_poisoned = False, n_ready = [True]\<rparr>"

theorem file_copy_delivers_witness:
  "fst (file_copy 3 sample_reader \<lparr>sk_out = [], sk_cap = None\<rparr> sample_state) \<noteq> Inl OutOfFuel"
proof -
  have "file_inv (n_rem sample_state) 0 2 [] [] sample_reader sample_state"
    by (simp add: file_inv_def sample_reader_def sample_state_def at_ready_def ready_at_def)
  from file_copy_delivers [OF this, of 3 "\<lparr>sk_out = [], sk_cap = None\<rparr>"] show ?thesis
    by (auto simp: sample_reader_def split: prod.splits sum.splits)
qed

lemma file_fill_buf_reliable:
  assumes "f_len fr \<noteq> 0" "ready_at (f_level fr) s" "reliable s" "n_rem s \<noteq> []"
  shows "\<exists>b s'. file_fill_buf fr s = (Inr b, s') \<and> ready_at (f_level fr) s' \<and> reliable s' \<and> n_rem s' = n_rem s"
proof -
  obtain b s1 where m: "io_fill_buf s = (Inr b, s1)" "reliable s1"
    using assms(3) by (cases "n_events s") (auto simp: io_fill_buf_def reliable_def split: io_event.splits)
  note sp = io_fill_buf_spec [OF m(1)]
  then have "ready_at (f_level fr) s1" using ready_at_frame [of s1 s] assms(2) by simp
  then show ?thesis using m sp assms by (auto simp: file_fill_buf_def)
qed

text \<open>
  C27: \<open>FileReader::copy\<close> into a destination that is full (a slice whose \<open>write\<close> returns zero) while
  bytes of the file are left never returns: no number of rounds is enough.
\<close>

theorem file_copy_full_sink_diverges:
  assumes "f_len fr \<noteq> 0" "ready_at (f_level fr) s" "reliable s" "n_rem s \<noteq> []" "sk_cap dst = Some 0"
  shows "fst (file_copy fuel fr dst s) = Inl OutOfFuel"
  using assms
proof (induction fuel arbitrary: s dst)
  case (Suc fuel)
  obtain b s' where f: "file_fill_buf fr s = (Inr b, s')" "ready_at (f_level fr) s'" "reliable s'" "n_rem s' = n_rem s"
    using file_fill_buf_reliable [OF Suc.prems(1-4)] by blast
  let ?dst = "dst\<lparr>sk_out := sk_out dst, sk_cap := Some 0\<rparr>"
  have "file_copy (Suc fuel) fr dst s = file_copy fuel fr ?dst s'"
    using f(1) Suc.prems by (simp add: sink_write_def Let_def file_consume_def)
  then show ?case using Suc.IH [of s' ?dst] f(2-4) Suc.prems(1,4) by simp
qed simp

theorem file_copy_full_sink_diverges_witness:
  "fst (file_copy 1000000 sample_reader \<lparr>sk_out = [], sk_cap = Some 0\<rparr> sample_state) = Inl OutOfFuel"
  by (rule file_copy_full_sink_diverges)
    (simp_all add: sample_reader_def sample_state_def ready_at_def reliable_def)

end
