(* ===== verification/CastorePath.thy ===== *)
theory CastorePath
  imports Prelude
begin

text \<open>
  Paths of the content-addressed store: \<^verbatim>\<open>castore/src/path/component.rs\<close> and
  \<^verbatim>\<open>castore/src/path/mod.rs\<close>. A path is kept as bytes, its validated names separated by slashes;
  \<open>Path\<close> and \<open>PathBuf\<close> have the same representation and are both byte strings here. The lemmas
  show that the byte-level operations implement those on the list of names.
\<close>

section \<open>Path components\<close>

datatype (plugins only: code size) path_component_error =
    PcEmpty
  | PcNull
  | PcCurDir
  | PcParent
  | PcSlashes
  | PcTooLong
  | PcConvert string path_component_error

definition PC_MAX_NAME_LEN :: nat where "PC_MAX_NAME_LEN = 255"

definition pc_validate_name :: "string \<Rightarrow> (path_component_error, unit) res" where
  "pc_validate_name name =
     (if name = [] then Inl PcEmpty
      else if name = ''..'' then Inl PcParent
      else if name = ''.'' then Inl PcCurDir
      else if length name > PC_MAX_NAME_LEN then Inl PcTooLong
      else if CHR 0x00 \<in> set name then Inl PcNull
      else if CHR ''/'' \<in> set name then Inl PcSlashes
      else Inr ())"

type_synonym path_component = string

definition pc_try_from :: "string \<Rightarrow> (path_component_error, path_component) res" where
  "pc_try_from value =
     (case pc_validate_name value of Inl e \<Rightarrow> Inl (PcConvert value e) | Inr _ \<Rightarrow> Inr value)"

text \<open>What is before and after the last occurrence of a byte.\<close>

definition rsplit_once :: "'a \<Rightarrow> 'a list \<Rightarrow> ('a list \<times> 'a list) option" where
  "rsplit_once c s = map_option (\<lambda>(a, b). (rev b, rev a)) (split_once c (rev s))"

definition pc_extension :: "path_component \<Rightarrow> string option" where
  "pc_extension name = map_option snd (rsplit_once (CHR ''.'') name)"

section \<open>Paths\<close>

type_synonym castore_path = string

definition path_ROOT :: castore_path where "path_ROOT = []"

definition path_from_bytes :: "string \<Rightarrow> castore_path option" where
  "path_from_bytes bytes =
     (if bytes \<noteq> [] \<and> (\<exists>c\<in>set (split_on (CHR ''/'') bytes). \<exists>e. pc_validate_name c = Inl e)
      then None else Some bytes)"

definition path_parent :: "castore_path \<Rightarrow> castore_path option" where
  "path_parent inner =
     (if inner = [] then None
      else Some (case rsplit_once (CHR ''/'') inner of
                   Some (parent, file_name) \<Rightarrow> parent
                 | None \<Rightarrow> path_ROOT))"

text \<open>The kinds of invalid data that are reported.\<close>

datatype (plugins only: code size) path_error = InvalidName | DisallowedRootDir | DotDotTooFar | DisallowedDotDot | InvalidSubPathNode

definition path_try_push :: "castore_path \<Rightarrow> string \<Rightarrow> (path_error, castore_path) res" where
  "path_try_push inner name =
     (case pc_validate_name name of
        Inl _ \<Rightarrow> Inl InvalidName
      | Inr _ \<Rightarrow> Inr ((if inner \<noteq> [] then inner @ ''/'' else inner) @ name))"

definition path_try_join :: "castore_path \<Rightarrow> string \<Rightarrow> (path_error, castore_path) res" where
  "path_try_join inner name = path_try_push ([] @ inner) name"

definition path_components :: "castore_path \<Rightarrow> path_component list" where
  "path_components inner =
     (let iter = split_on (CHR ''/'') inner in if inner = [] then tl iter else iter)"

definition path_file_name :: "castore_path \<Rightarrow> path_component option" where
  "path_file_name inner =
     (let cs = path_components inner in if cs = [] then None else Some (last cs))"

definition path_extension :: "castore_path \<Rightarrow> string option" where
  "path_extension inner =
     (let file_name = (case rsplit_once (CHR ''/'') inner of Some (_, r) \<Rightarrow> r | None \<Rightarrow> inner)
      in map_option snd (rsplit_once (CHR ''.'') file_name))"

definition path_from_str :: "string \<Rightarrow> (path_error, castore_path) res" where
  "path_from_str s = ok_or InvalidName (path_from_bytes s)"

fun from_host_components :: "bool \<Rightarrow> castore_path \<Rightarrow> component list \<Rightarrow> (path_error, castore_path) res" where
  "from_host_components canonicalize_dotdot p [] = Inr p"
| "from_host_components canonicalize_dotdot p (RootDir # cs) = Inl DisallowedRootDir"
| "from_host_components canonicalize_dotdot p (CurDir # cs) = from_host_components canonicalize_dotdot p cs"
| "from_host_components canonicalize_dotdot p (ParentDir # cs) =
     (if canonicalize_dotdot
      then rbind (ok_or DotDotTooFar (path_parent p)) (\<lambda>p. from_host_components canonicalize_dotdot p cs)
      else Inl DisallowedDotDot)"
| "from_host_components canonicalize_dotdot p (Normal s # cs) =
     rbind (map_err (\<lambda>_. InvalidSubPathNode) (path_try_push p s))
       (\<lambda>p. from_host_components canonicalize_dotdot p cs)"

definition from_host_path :: "string \<Rightarrow> bool \<Rightarrow> (path_error, castore_path) res" where
  "from_host_path host_path canonicalize_dotdot =
     from_host_components canonicalize_dotdot path_ROOT (host_components host_path)"

section \<open>Names and the path they form\<close>

definition pc_ok :: "string \<Rightarrow> bool" where
  "pc_ok n \<longleftrightarrow> pc_validate_name n = Inr ()"

definition path_rep :: "path_component list \<Rightarrow> castore_path" where
  "path_rep cs = join_with ''/'' cs"

lemma path_rep_Nil [simp]: "path_rep [] = []"
  by (simp add: path_rep_def)

lemma pc_okD: "pc_ok n \<Longrightarrow> n \<noteq> [] \<and> n \<noteq> ''.'' \<and> n \<noteq> ''..'' \<and> CHR ''/'' \<notin> set n"
  by (auto simp: pc_ok_def pc_validate_name_def split: if_splits)

lemma pc_ok_case: "(case pc_validate_name n of Inl e \<Rightarrow> a e | Inr u \<Rightarrow> b) = (if pc_ok n then b else a (projl (pc_validate_name n)))"
  by (cases "pc_validate_name n") (auto simp: pc_ok_def)

lemma pc_ok_iff_no_error: "(\<exists>e. pc_validate_name n = Inl e) \<longleftrightarrow> \<not> pc_ok n"
  by (cases "pc_validate_name n") (auto simp: pc_ok_def)

lemma rsplit_once_eq_Some: "rsplit_once c s = Some (a, b) \<longleftrightarrow> s = a @ c # b \<and> c \<notin> set b"
proof -
  have "rsplit_once c s = Some (a, b) \<longleftrightarrow> split_once c (rev s) = Some (rev b, rev a)"
    by (cases "split_once c (rev s)") (auto simp: rsplit_once_def)
  also have "\<dots> \<longleftrightarrow> s = a @ c # b \<and> c \<notin> set b"
    by (auto simp: split_once_eq_Some rev_swap)
  finally show ?thesis .
qed

lemma rsplit_once_absent [simp]: "c \<notin> set s \<Longrightarrow> rsplit_once c s = None"
  by (simp add: rsplit_once_def)

lemma path_rep_Nil_iff: "list_all pc_ok cs \<Longrightarrow> path_rep cs = [] \<longleftrightarrow> cs = []"
  by (cases cs; cases "tl cs") (auto simp: path_rep_def join_with_Cons dest: pc_okD)

lemma split_path_rep: "list_all pc_ok cs \<Longrightarrow> cs \<noteq> [] \<Longrightarrow> split_on (CHR ''/'') (path_rep cs) = cs"
  unfolding path_rep_def by (rule split_join_with) (auto simp: list_all_iff dest: pc_okD)

lemma rsplit_path_rep:
  assumes "list_all pc_ok (cs @ [n])"
  shows "rsplit_once (CHR ''/'') (path_rep (cs @ [n])) = (if cs = [] then None else Some (path_rep cs, n))"
  using assms pc_okD [of n] by (auto simp: path_rep_def join_with_append rsplit_once_eq_Some)

lemma path_rep_snoc:
  "list_all pc_ok cs \<Longrightarrow> path_rep (cs @ [n]) = (if path_rep cs \<noteq> [] then path_rep cs @ ''/'' else path_rep cs) @ n"
  using path_rep_Nil_iff [of cs] by (auto simp: path_rep_def join_with_append)

lemma path_from_bytes_iff: "path_from_bytes b = Some p \<longleftrightarrow> p = b \<and> (\<exists>cs. list_all pc_ok cs \<and> b = path_rep cs)"
proof (cases "b = []")
  case True
  then show ?thesis by (auto simp: path_from_bytes_def path_rep_def intro!: exI [of _ "[]"])
next
  case False
  have "path_from_bytes b = Some p \<longleftrightarrow> p = b \<and> list_all pc_ok (split_on (CHR ''/'') b)"
    using False by (auto simp: path_from_bytes_def pc_ok_iff_no_error list_all_iff)
  also have "list_all pc_ok (split_on (CHR ''/'') b) \<longleftrightarrow> (\<exists>cs. list_all pc_ok cs \<and> b = path_rep cs)"
    using False split_path_rep [of "split_on (CHR ''/'') b"]
    by (metis join_split_on join_with.simps(1) path_rep_def split_path_rep)
  finally show ?thesis .
qed

lemma path_parent_rep:
  assumes "list_all pc_ok cs"
  shows "path_parent (path_rep cs) = (if cs = [] then None else Some (path_rep (butlast cs)))"
proof (cases cs rule: rev_cases)
  case (snoc ds n)
  then show ?thesis using assms rsplit_path_rep [of ds n] path_rep_Nil_iff [of cs]
    by (cases "ds = []") (simp_all add: path_parent_def path_ROOT_def)
qed (simp add: path_parent_def)

lemma path_try_push_rep:
  "list_all pc_ok cs \<Longrightarrow>
   path_try_push (path_rep cs) n = (if pc_ok n then Inr (path_rep (cs @ [n])) else Inl InvalidName)"
  by (simp add: path_try_push_def pc_ok_case path_rep_snoc)

lemma path_components_rep: "list_all pc_ok cs \<Longrightarrow> path_components (path_rep cs) = cs"
  using path_rep_Nil_iff [of cs] split_path_rep [of cs]
  by (cases "cs = []") (simp_all add: path_components_def path_rep_def Let_def)

lemma path_extension_rep:
  assumes "list_all pc_ok cs"
  shows "path_extension (path_rep cs) = (if cs = [] then None else pc_extension (last cs))"
proof (cases cs rule: rev_cases)
  case Nil
  then show ?thesis by (simp add: path_extension_def path_rep_def)
next
  case (snoc ds n)
  then show ?thesis using assms rsplit_path_rep [of ds n]
    by (cases "ds = []") (simp_all add: path_extension_def pc_extension_def path_rep_def)
qed

text \<open>
  C28: The byte-level paths implement lists of valid names. A byte string is accepted exactly if it
  consists of valid names separated by slashes, and on such paths the components, the parent,
  the file name, the extension and joining are those of the list of names; joining rejects
  exactly the invalid names.
\<close>

theorem path_refines_names:
  "(path_from_bytes b = Some p \<longleftrightarrow> p = b \<and> (\<exists>cs. list_all pc_ok cs \<and> b = path_rep cs)) \<and>
   (list_all pc_ok cs \<longrightarrow>
      path_components (path_rep cs) = cs \<and>
      path_parent (path_rep cs) = (if cs = [] then None else Some (path_rep (butlast cs))) \<and>
      path_file_name (path_rep cs) = (if cs = [] then None else Some (last cs)) \<and>
      path_extension (path_rep cs) = (if cs = [] then None else pc_extension (last cs)) \<and>
      path_try_join (path_rep cs) n = (if pc_ok n then Inr (path_rep (cs @ [n])) else Inl InvalidName))"
  using path_from_bytes_iff path_components_rep path_parent_rep path_extension_rep path_try_push_rep
  by (simp add: path_file_name_def path_try_join_def Let_def)

theorem path_refines_names_witness:
  "path_parent (path_rep [''a'', ''b.txt'']) = Some (path_rep [''a'']) \<and> path_extension (path_rep [''a'', ''b.txt'']) = Some ''txt''"
proof -
  have "list_all pc_ok [''a'', ''b.txt'']" by (simp add: pc_ok_def pc_validate_name_def PC_MAX_NAME_LEN_def)
  with path_refines_names [of b p "[''a'', ''b.txt'']" n for b p n] show ?thesis
    by (simp add: pc_extension_def rsplit_once_def)
qed

section \<open>Host paths\<close>

text \<open>The names that are left of a host path when \<open>..\<close> removes the name before it.\<close>

fun resolve_dotdot :: "path_component list \<Rightarrow> component list \<Rightarrow> (path_error, path_component list) res" where
  "resolve_dotdot cs [] = Inr cs"
| "resolve_dotdot cs (RootDir # hs) = Inl DisallowedRootDir"
| "resolve_dotdot cs (CurDir # hs) = resolve_dotdot cs hs"
| "resolve_dotdot cs (ParentDir # hs) = (if cs = [] then Inl DotDotTooFar else resolve_dotdot (butlast cs) hs)"
| "resolve_dotdot cs (Normal n # hs) = (if pc_ok n then resolve_dotdot (cs @ [n]) hs else Inl InvalidSubPathNode)"

lemma from_host_components_resolve:
  "list_all pc_ok cs \<Longrightarrow> from_host_components True (path_rep cs) hs = map_ok path_rep (resolve_dotdot cs hs)"
proof (induction cs hs rule: resolve_dotdot.induct)
  case (4 cs hs)
  have "list_all pc_ok (butlast cs)" using 4(2) by (auto simp: list_all_iff dest: in_set_butlastD)
  then show ?case using 4 by (auto simp: path_parent_rep ok_or_def)
next
  case (5 cs n hs)
  then show ?case by (simp add: path_try_push_rep)
qed simp_all

lemma resolve_dotdot_ok: "list_all pc_ok cs \<Longrightarrow> resolve_dotdot cs hs = Inr ds \<Longrightarrow> list_all pc_ok ds"
  by (induction cs hs rule: resolve_dotdot.induct)
    (auto simp: list_all_iff split: if_splits dest: in_set_butlastD)

lemma from_host_components_strict:
  "list_all pc_ok cs \<Longrightarrow> from_host_components False (path_rep cs) (normal_components ps) = Inr p \<longleftrightarrow>
     (let ns = filter (\<lambda>p. p \<noteq> [] \<and> p \<noteq> ''.'') ps in list_all pc_ok ns \<and> p = path_rep (cs @ ns))"
proof (induction ps arbitrary: cs)
  case (Cons q ps)
  consider "q = [] \<or> q = ''.''" | "q = ''..''" | "q \<noteq> []" "q \<noteq> ''.''" "q \<noteq> ''..''" by blast
  then show ?case
  proof cases
    case 1
    then show ?thesis using Cons by (auto simp: normal_components_Cons)
  next
    case 2
    then show ?thesis using Cons by (auto simp: normal_components_Cons Let_def dest: pc_okD)
  next
    case 3
    then show ?thesis using Cons
      by (cases "pc_ok q") (auto simp: normal_components_Cons path_try_push_rep Let_def)
  qed
qed (auto simp: normal_components_def)

text \<open>
  Converting a host path. Without canonicalisation it succeeds exactly on relative paths whose
  pieces, the empty ones and \<open>.\<close> left out, are all valid names (so none is \<open>..\<close>), and yields
  the path of these names. With canonicalisation every \<open>..\<close> removes the last name collected and
  fails at the root; the result always consists of valid names.
\<close>

theorem from_host_path_spec:
  "(from_host_path s False = Inr p \<longleftrightarrow>
      (let ns = filter (\<lambda>p. p \<noteq> [] \<and> p \<noteq> ''.'') (split_on (CHR ''/'') s)
       in (s = [] \<or> hd s \<noteq> CHR ''/'') \<and> list_all pc_ok ns \<and> p = path_rep ns)) \<and>
   from_host_path s True = map_ok path_rep (resolve_dotdot [] (host_components s)) \<and>
   (resolve_dotdot [] (host_components s) = Inr cs \<longrightarrow> list_all pc_ok cs)"
proof (intro conjI impI)
  show "from_host_path s False = Inr p \<longleftrightarrow>
      (let ns = filter (\<lambda>p. p \<noteq> [] \<and> p \<noteq> ''.'') (split_on (CHR ''/'') s)
       in (s = [] \<or> hd s \<noteq> CHR ''/'') \<and> list_all pc_ok ns \<and> p = path_rep ns)"
    using from_host_components_strict [of "[]" "split_on (CHR ''/'') s" p]
    by (auto simp: from_host_path_def path_ROOT_def host_components_def Let_def)
  show "from_host_path s True = map_ok path_rep (resolve_dotdot [] (host_components s))"
    using from_host_components_resolve [of "[]"] by (simp add: from_host_path_def path_ROOT_def)
  show "list_all pc_ok cs" if "resolve_dotdot [] (host_components s) = Inr cs"
    using resolve_dotdot_ok [OF _ that] by simp
qed

theorem from_host_path_spec_witness:
  "from_host_path ''a//./b/..'' True = Inr ''a'' \<and> list_all pc_ok [''a'']"
proof -
  have r: "resolve_dotdot [] (host_components ''a//./b/..'') = Inr [''a'']"
    by (simp add: host_components_def normal_components_def pc_ok_def pc_validate_name_def PC_MAX_NAME_LEN_def)
  show ?thesis
    using from_host_path_spec [of "''a//./b/..''" "[]" "[''a'']"] r by (simp add: path_rep_def)
qed

end
