(* ===== verification/CastoreDirectory.thy ===== *)
theory CastoreDirectory
  imports CastorePath BTree
begin

text \<open>
  Directories of the content-addressed store and their wire form: \<^verbatim>\<open>castore/src/nodes\<close>,
  \<^verbatim>\<open>castore/src/digests.rs\<close> and the conversions of \<^verbatim>\<open>castore/src/proto/mod.rs\<close>. Digests are byte
  strings; sizes are 64-bit numbers, kept as naturals with the overflow checks written out, and an
  unchecked addition that overflows is the panic of a build with overflow checks. A directory is
  the entry list of its \<open>BTreeMap\<close>.
\<close>

section \<open>Digests, targets and nodes\<close>

type_synonym b3_digest = string

definition B3_LENGTH :: nat where "B3_LENGTH = 32"

datatype (plugins only: code size) digest_error = InvalidDigestLen nat | InvalidHashType

definition b3_try_from :: "string \<Rightarrow> (digest_error, b3_digest) res" where
  "b3_try_from value = (if length value = B3_LENGTH then Inr value else Inl (InvalidDigestLen (length value)))"

datatype (plugins only: code size) symlink_target_error = TargetEmpty | TargetNull | TargetTooLong | TargetConvert string symlink_target_error

definition SYMLINK_MAX_TARGET_LEN :: nat where "SYMLINK_MAX_TARGET_LEN = 4095"

definition validate_symlink_target :: "string \<Rightarrow> (symlink_target_error, string) res" where
  "validate_symlink_target v =
     (if v = [] then Inl TargetEmpty
      else if length v > SYMLINK_MAX_TARGET_LEN then Inl TargetTooLong
      else if CHR 0x00 \<in> set v then Inl TargetNull
      else Inr v)"

definition symlink_target_try_from :: "string \<Rightarrow> (symlink_target_error, string) res" where
  "symlink_target_try_from value = map_err (TargetConvert value) (validate_symlink_target value)"

datatype (plugins only: code size) cnode =
    CDirectory b3_digest nat
  | CFile b3_digest nat bool
  | CSymlink string

datatype (plugins only: code size) validate_node_error =
    NodeInvalidDigestLen nat
  | NodeInvalidSymlinkTarget symlink_target_error
  | NodeInvalidHashType

fun node_error_of_digest_error :: "digest_error \<Rightarrow> validate_node_error" where
  "node_error_of_digest_error (InvalidDigestLen n) = NodeInvalidDigestLen n"
| "node_error_of_digest_error InvalidHashType = NodeInvalidHashType"

datatype (plugins only: code size) directory_error =
    DirDuplicateName path_component
  | DirInvalidNode string validate_node_error
  | DirSizeOverflow
  | DirInvalidName path_component_error
  | DirNameInAnonymousNode
  | DirWrongSorting string
  | DirNoEntrySet
  | DirPanic

section \<open>Directories\<close>

type_synonym cdirectory = "(path_component \<times> cnode) list"

definition U64_MAX :: nat where "U64_MAX = 2 ^ 64 - 1"

definition checked_add :: "nat \<Rightarrow> nat \<Rightarrow> nat option" where
  "checked_add a b = (if a + b \<le> U64_MAX then Some (a + b) else None)"

fun checked_sum_from :: "nat \<Rightarrow> nat list \<Rightarrow> nat option" where
  "checked_sum_from acc [] = Some acc"
| "checked_sum_from acc (i # is) =
     (case checked_add acc i of None \<Rightarrow> None | Some acc \<Rightarrow> checked_sum_from acc is)"

definition checked_sum :: "nat list \<Rightarrow> nat option" where
  "checked_sum is = checked_sum_from 0 is"

fun node_dir_size :: "cnode \<Rightarrow> nat" where
  "node_dir_size (CDirectory digest n) = n"
| "node_dir_size _ = 0"

definition check_insert_node ::
  "nat \<Rightarrow> cdirectory \<Rightarrow> path_component \<Rightarrow> cnode \<Rightarrow> (directory_error, nat \<times> cdirectory) res" where
  "check_insert_node current_size nodes name node =
     rbind (ok_or DirSizeOverflow (checked_sum [current_size, 1, node_dir_size node])) (\<lambda>new_size.
       if btree_get (<) name nodes = None then Inr (new_size, btree_put (<) name node nodes)
       else Inl (DirDuplicateName name))"

fun try_from_nodes :: "nat \<Rightarrow> cdirectory \<Rightarrow> (path_component \<times> cnode) list \<Rightarrow> (directory_error, cdirectory) res" where
  "try_from_nodes acc nodes [] = Inr nodes"
| "try_from_nodes acc nodes ((name, node) # it) =
     rbind (check_insert_node acc nodes name node) (\<lambda>(acc, nodes). try_from_nodes acc nodes it)"

definition directory_try_from_iter :: "(path_component \<times> cnode) list \<Rightarrow> (directory_error, cdirectory) res" where
  "directory_try_from_iter it = try_from_nodes 0 [] it"

text \<open>\<open>Directory::size\<close> adds without checks: \<open>None\<close> is the panic on overflow of a build with overflow checks; other builds wrap around.\<close>

fun entry_size :: "cnode \<Rightarrow> nat option" where
  "entry_size (CDirectory digest n) = checked_add 1 n"
| "entry_size _ = Some 1"

fun sum_entry_sizes :: "nat \<Rightarrow> cdirectory \<Rightarrow> nat option" where
  "sum_entry_sizes acc [] = Some acc"
| "sum_entry_sizes acc ((name, n) # d) =
     (case entry_size n of
        None \<Rightarrow> None
      | Some k \<Rightarrow> (case checked_add acc k of None \<Rightarrow> None | Some acc \<Rightarrow> sum_entry_sizes acc d))"

definition directory_size :: "cdirectory \<Rightarrow> nat option" where
  "directory_size d = Option.bind (sum_entry_sizes 0 d) (\<lambda>s. checked_add (length d) s)"

definition directory_add :: "cdirectory \<Rightarrow> path_component \<Rightarrow> cnode \<Rightarrow> (directory_error, cdirectory) res" where
  "directory_add d name node =
     rbind (ok_or DirPanic (directory_size d)) (\<lambda>current_size.
       map_ok snd (check_insert_node current_size d name node))"

section \<open>The wire form\<close>

record directory_entry =
  de_name :: string
  de_digest :: string
  de_size :: nat

record file_entry =
  fe_name :: string
  fe_digest :: string
  fe_size :: nat
  fe_executable :: bool

record symlink_entry =
  se_name :: string
  se_target :: string

record proto_directory =
  pd_directories :: "directory_entry list"
  pd_files :: "file_entry list"
  pd_symlinks :: "symlink_entry list"

datatype (plugins only: code size) proto_entry =
    EntryDirectory directory_entry
  | EntryFile file_entry
  | EntrySymlink symlink_entry

definition proto_size_checked :: "proto_directory \<Rightarrow> nat option" where
  "proto_size_checked p =
     Option.bind (checked_sum (map de_size (pd_directories p))) (\<lambda>s.
       checked_sum [length (pd_files p), length (pd_symlinks p), length (pd_directories p), s])"

fun try_into_unchecked_name_and_checked_node :: "proto_entry option \<Rightarrow> (directory_error, string \<times> cnode) res" where
  "try_into_unchecked_name_and_checked_node None = Inl DirNoEntrySet"
| "try_into_unchecked_name_and_checked_node (Some (EntryDirectory n)) =
     rbind (map_err (\<lambda>e. DirInvalidNode (de_name n) (node_error_of_digest_error e)) (b3_try_from (de_digest n)))
       (\<lambda>digest. Inr (de_name n, CDirectory digest (de_size n)))"
| "try_into_unchecked_name_and_checked_node (Some (EntryFile n)) =
     rbind (map_err (\<lambda>e. DirInvalidNode (fe_name n) (node_error_of_digest_error e)) (b3_try_from (fe_digest n)))
       (\<lambda>digest. Inr (fe_name n, CFile digest (fe_size n) (fe_executable n)))"
| "try_into_unchecked_name_and_checked_node (Some (EntrySymlink n)) =
     rbind (map_err (\<lambda>e. DirInvalidNode (se_name n) (NodeInvalidSymlinkTarget e)) (symlink_target_try_from (se_target n)))
       (\<lambda>target. Inr (se_name n, CSymlink target))"

definition try_into_name_and_node :: "proto_entry option \<Rightarrow> (directory_error, path_component \<times> cnode) res" where
  "try_into_name_and_node e =
     rbind (try_into_unchecked_name_and_checked_node e) (\<lambda>(name_bytes, node).
     rbind (map_err DirInvalidName (pc_try_from name_bytes)) (\<lambda>name. Inr (name, node)))"

definition try_into_anonymous_node :: "proto_entry option \<Rightarrow> (directory_error, cnode) res" where
  "try_into_anonymous_node e =
     rbind (try_into_unchecked_name_and_checked_node e) (\<lambda>(name, node).
       if name \<noteq> [] then Inl DirNameInAnonymousNode else Inr node)"

fun from_name_and_node :: "string \<Rightarrow> cnode \<Rightarrow> proto_entry option" where
  "from_name_and_node name (CDirectory digest n) = Some (EntryDirectory \<lparr>de_name = name, de_digest = digest, de_size = n\<rparr>)"
| "from_name_and_node name (CFile digest n ex) =
     Some (EntryFile \<lparr>fe_name = name, fe_digest = digest, fe_size = n, fe_executable = ex\<rparr>)"
| "from_name_and_node name (CSymlink target) = Some (EntrySymlink \<lparr>se_name = name, se_target = target\<rparr>)"

fun check_names_sorted :: "string \<Rightarrow> string list \<Rightarrow> (directory_error, unit) res" where
  "check_names_sorted prev_name [] = Inr ()"
| "check_names_sorted prev_name (name # names) =
     (if name < prev_name then Inl (DirWrongSorting name)
      else if name = prev_name then rbind (map_err DirInvalidName (pc_try_from name)) (\<lambda>c. Inl (DirDuplicateName c))
      else check_names_sorted name names)"

fun convert_entries :: "proto_entry list \<Rightarrow> (directory_error, (path_component \<times> cnode) list) res" where
  "convert_entries [] = Inr []"
| "convert_entries (e # es) =
     rbind (try_into_name_and_node (Some e)) (\<lambda>x. map_ok ((#) x) (convert_entries es))"

definition proto_try_into_directory :: "proto_directory \<Rightarrow> (directory_error, cdirectory) res" where
  "proto_try_into_directory value =
     rbind (check_names_sorted [] (map de_name (pd_directories value))) (\<lambda>_.
     rbind (check_names_sorted [] (map fe_name (pd_files value))) (\<lambda>_.
     rbind (check_names_sorted [] (map se_name (pd_symlinks value))) (\<lambda>_.
     rbind (convert_entries (map EntryDirectory (pd_directories value)
         @ map EntryFile (pd_files value) @ map EntrySymlink (pd_symlinks value))) (\<lambda>elems.
     directory_try_from_iter elems))))"

fun proto_from_nodes :: "cdirectory \<Rightarrow> proto_directory" where
  "proto_from_nodes [] = \<lparr>pd_directories = [], pd_files = [], pd_symlinks = []\<rparr>"
| "proto_from_nodes ((name, CFile digest n ex) # d) =
     (proto_from_nodes d)\<lparr>pd_files :=
        \<lparr>fe_name = name, fe_digest = digest, fe_size = n, fe_executable = ex\<rparr> # pd_files (proto_from_nodes d)\<rparr>"
| "proto_from_nodes ((name, CDirectory digest n) # d) =
     (proto_from_nodes d)\<lparr>pd_directories :=
        \<lparr>de_name = name, de_digest = digest, de_size = n\<rparr> # pd_directories (proto_from_nodes d)\<rparr>"
| "proto_from_nodes ((name, CSymlink target) # d) =
     (proto_from_nodes d)\<lparr>pd_symlinks := \<lparr>se_name = name, se_target = target\<rparr> # pd_symlinks (proto_from_nodes d)\<rparr>"

section \<open>Building directories\<close>

text \<open>The documented size: the number of entries, and the sizes of the directories among them.\<close>

definition dir_total :: "(path_component \<times> cnode) list \<Rightarrow> nat" where
  "dir_total d = length d + sum_list (map (node_dir_size \<circ> snd) d)"

lemma dir_total_simps [simp]:
  "dir_total [] = 0" "dir_total (e # d) = 1 + node_dir_size (snd e) + dir_total d"
  by (simp_all add: dir_total_def)

lemma checked_sum_from_eq: "acc \<le> U64_MAX \<Longrightarrow>
  checked_sum_from acc is = (if acc + sum_list is \<le> U64_MAX then Some (acc + sum_list is) else None)"
  by (induction "is" arbitrary: acc) (auto simp: checked_add_def)

lemma checked_sum_eq: "checked_sum is = (if sum_list is \<le> U64_MAX then Some (sum_list is) else None)"
  by (simp add: checked_sum_def checked_sum_from_eq)

lemma check_insert_node_iff:
  assumes "btree_sorted (<) nodes"
  shows "check_insert_node n nodes name node = Inr (n', nodes') \<longleftrightarrow>
    n' = n + 1 + node_dir_size node \<and> n' \<le> U64_MAX \<and> name \<notin> fst ` set nodes \<and> nodes' = btree_put (<) name node nodes"
  using assms by (auto simp: check_insert_node_def checked_sum_eq ok_or_def btree_get_map_of map_of_eq_None_iff)

lemma sorted_unique:
  "btree_sorted (<) d \<Longrightarrow> btree_sorted (<) d' \<Longrightarrow> set d = set d' \<Longrightarrow> d = (d' :: ('k::linorder \<times> 'v) list)"
proof (induction d arbitrary: d')
  case (Cons e d)
  then obtain e' ds' where d': "d' = e' # ds'" by (cases d') auto
  have "e \<in> set d'" "e' \<in> set (e # d)" using Cons.prems(3) d' by auto
  then have "e = e' \<or> fst e' < fst e" "e = e' \<or> fst e < fst e'"
    using Cons.prems(1,2) d' by (auto simp: btree_sorted_def)
  then have "e = e'" by auto
  moreover have "e \<notin> set d" "e' \<notin> set ds'" using Cons.prems d' by (auto simp: btree_sorted_def)
  ultimately show ?case using Cons.IH [of ds'] Cons.prems d' by (auto simp: btree_sorted_def insert_ident)
qed simp

lemma try_from_nodes_iff:
  assumes "btree_sorted (<) nodes" "acc \<le> U64_MAX"
  shows "try_from_nodes acc nodes it = Inr d \<longleftrightarrow>
    distinct (map fst it) \<and> fst ` set it \<inter> fst ` set nodes = {} \<and> acc + dir_total it \<le> U64_MAX \<and>
    btree_sorted (<) d \<and> set d = set it \<union> set nodes"
  using assms
proof (induction it arbitrary: acc nodes)
  case Nil
  then show ?case using sorted_unique [of d nodes] by auto
next
  case (Cons e it)
  obtain name node where e: "e = (name, node)" by fastforce
  let ?acc = "acc + 1 + node_dir_size node" and ?nodes = "btree_put (<) name node nodes"
  show ?case
  proof (cases "?acc \<le> U64_MAX \<and> name \<notin> fst ` set nodes")
    case True
    then have ins: "check_insert_node acc nodes name node = Inr (?acc, ?nodes)"
      using check_insert_node_iff [OF Cons.prems(1)] by blast
    have s: "set ?nodes = insert (name, node) (set nodes)"
      using btree_insert_fresh(1) [OF Cons.prems(1)] True by blast
    have "btree_sorted (<) ?nodes" by (rule byte_order.insert_sorted [OF Cons.prems(1)])
    from Cons.IH [OF this, of ?acc] True show ?thesis
      by (auto simp: e ins s)
  next
    case False
    then have "\<exists>err. check_insert_node acc nodes name node = Inl err"
      using check_insert_node_iff [OF Cons.prems(1), of acc name node]
      by (cases "check_insert_node acc nodes name node") auto
    then show ?thesis using False by (auto simp: e)
  qed
qed

lemma directory_try_from_iter_iff:
  "directory_try_from_iter it = Inr d \<longleftrightarrow>
    distinct (map fst it) \<and> dir_total it \<le> U64_MAX \<and> btree_sorted (<) d \<and> set d = set it"
  using try_from_nodes_iff [of "[]" 0 it d] by (simp add: directory_try_from_iter_def btree_sorted_def)


lemma sum_entry_sizes_eq: "acc \<le> U64_MAX \<Longrightarrow>
  sum_entry_sizes acc d = (if acc + dir_total d \<le> U64_MAX then Some (acc + dir_total d) else None)"
proof (induction d arbitrary: acc)
  case (Cons e d)
  obtain name n where e: "e = (name, n)" by fastforce
  then show ?case using Cons by (cases n) (auto simp: checked_add_def)
qed simp

lemma directory_size_eq:
  "directory_size d = (if length d + dir_total d \<le> U64_MAX then Some (length d + dir_total d) else None)"
  by (auto simp: directory_size_def sum_entry_sizes_eq checked_add_def)

text \<open>
  C29: A directory is built from entries exactly if their names are distinct and the documented total
  size fits 64 bits, and it then holds exactly these entries, sorted by name. Adding to a directory
  does the same for one more entry, but measures the directory with \<open>Directory::size\<close>.
\<close>

theorem directory_build_spec:
  "(directory_try_from_iter it = Inr d \<longleftrightarrow>
      distinct (map fst it) \<and> dir_total it \<le> U64_MAX \<and> btree_sorted (<) d \<and> set d = set it) \<and>
   (btree_sorted (<) d \<longrightarrow>
      (directory_add d name node = Inr d' \<longleftrightarrow>
         name \<notin> fst ` set d \<and> length d + dir_total d + 1 + node_dir_size node \<le> U64_MAX \<and>
         btree_sorted (<) d' \<and> set d' = insert (name, node) (set d)))"
proof (intro conjI impI)
  show "directory_try_from_iter it = Inr d \<longleftrightarrow>
      distinct (map fst it) \<and> dir_total it \<le> U64_MAX \<and> btree_sorted (<) d \<and> set d = set it"
    by (rule directory_try_from_iter_iff)
  assume s: "btree_sorted (<) d"
  let ?d = "btree_put (<) name node d"
  have put: "btree_sorted (<) ?d" "name \<notin> fst ` set d \<Longrightarrow> set ?d = insert (name, node) (set d)"
    using byte_order.insert_sorted [OF s] btree_insert_fresh(1) [OF s] by blast+
  have "directory_add d name node = Inr d' \<longleftrightarrow>
      name \<notin> fst ` set d \<and> length d + dir_total d + 1 + node_dir_size node \<le> U64_MAX \<and> d' = ?d"
    using check_insert_node_iff [OF s, of "length d + dir_total d" name node]
    by (cases "check_insert_node (length d + dir_total d) d name node")
      (auto simp: directory_add_def directory_size_eq ok_or_def)
  then show "directory_add d name node = Inr d' \<longleftrightarrow>
         name \<notin> fst ` set d \<and> length d + dir_total d + 1 + node_dir_size node \<le> U64_MAX \<and>
         btree_sorted (<) d' \<and> set d' = insert (name, node) (set d)"
    using put sorted_unique [of d' ?d] by auto
qed

theorem directory_build_spec_witness:
  "directory_add [] ''a'' (CSymlink ''t'') = Inr [(''a'', CSymlink ''t'')]"
  using directory_build_spec [of "[]" "[]" "''a''" "CSymlink ''t''" "[(''a'', CSymlink ''t'')]"]
  by (simp add: btree_sorted_def U64_MAX_def)

section \<open>Conversion to and from the wire form\<close>

text \<open>A directory as it can be received: sorted, valid names, digests, targets and sizes.\<close>

fun cnode_wf :: "cnode \<Rightarrow> bool" where
  "cnode_wf (CDirectory digest n) \<longleftrightarrow> length digest = B3_LENGTH"
| "cnode_wf (CFile digest n ex) \<longleftrightarrow> length digest = B3_LENGTH"
| "cnode_wf (CSymlink target) \<longleftrightarrow> validate_symlink_target target = Inr target"

definition cdir_wf :: "cdirectory \<Rightarrow> bool" where
  "cdir_wf d \<longleftrightarrow> btree_sorted (<) d \<and> (\<forall>(name, n) \<in> set d. pc_ok name \<and> cnode_wf n) \<and> dir_total d \<le> U64_MAX"

lemma pc_try_from_iff: "pc_try_from v = Inr c \<longleftrightarrow> pc_ok v \<and> c = v"
  by (cases "pc_validate_name v") (auto simp: pc_try_from_def pc_ok_def)

lemma try_into_name_and_node_iff:
  "try_into_name_and_node e = Inr (name, node) \<longleftrightarrow>
     e = from_name_and_node name node \<and> pc_ok name \<and> cnode_wf node"
proof -
  have t: "symlink_target_try_from v = Inr t \<longleftrightarrow> t = v \<and> validate_symlink_target v = Inr v" for v t
    by (auto simp: symlink_target_try_from_def validate_symlink_target_def split: if_splits)
  have b: "b3_try_from v = Inr x \<longleftrightarrow> x = v \<and> length v = B3_LENGTH" for v x
    by (auto simp: b3_try_from_def)
  show ?thesis
    by (cases e rule: try_into_unchecked_name_and_checked_node.cases; cases node)
      (auto simp: try_into_name_and_node_def pc_try_from_iff t b)
qed

lemma check_names_sorted_iff:
  "check_names_sorted prev ns = Inr () \<longleftrightarrow> sorted_wrt (<) (prev # ns)"
proof (induction prev ns rule: check_names_sorted.induct)
  case (2 prev name names)
  have "rbind (map_err DirInvalidName (pc_try_from name)) (\<lambda>c. Inl (DirDuplicateName c)) \<noteq> Inr ()"
    by auto
  then show ?case using 2 by (auto intro: order.strict_trans)
qed simp

lemma convert_entries_iff:
  "convert_entries es = Inr xs \<longleftrightarrow>
     map Some es = map (\<lambda>(name, n). from_name_and_node name n) xs \<and> (\<forall>(name, n) \<in> set xs. pc_ok name \<and> cnode_wf n)"
proof (induction es arbitrary: xs)
  case (Cons e es)
  show ?case
  proof (cases xs)
    case Nil
    then show ?thesis by (cases "try_into_name_and_node (Some e)"; cases "convert_entries es") auto
  next
    case c: (Cons x ys)
    obtain name n where x: "x = (name, n)" by fastforce
    have "convert_entries (e # es) = Inr xs \<longleftrightarrow> try_into_name_and_node (Some e) = Inr (name, n) \<and> convert_entries es = Inr ys"
      by (cases "try_into_name_and_node (Some e)"; cases "convert_entries es") (auto simp: c x)
    then show ?thesis using Cons.IH [of ys] try_into_name_and_node_iff [of "Some e" name n] by (auto simp: c x)
  qed
qed auto


fun is_dir_node :: "cnode \<Rightarrow> bool" where
  "is_dir_node (CDirectory _ _) = True"
| "is_dir_node _ = False"

fun is_file_node :: "cnode \<Rightarrow> bool" where
  "is_file_node (CFile _ _ _) = True"
| "is_file_node _ = False"

fun is_symlink_node :: "cnode \<Rightarrow> bool" where
  "is_symlink_node (CSymlink _) = True"
| "is_symlink_node _ = False"

lemma node_kind: "is_dir_node n \<or> is_file_node n \<or> is_symlink_node n"
  by (cases n) auto

lemma proto_from_nodes_parts:
  "map (\<lambda>e. Some (EntryDirectory e)) (pd_directories (proto_from_nodes d)) =
     map (\<lambda>(name, n). from_name_and_node name n) (filter (is_dir_node \<circ> snd) d)"
  "map (\<lambda>e. Some (EntryFile e)) (pd_files (proto_from_nodes d)) =
     map (\<lambda>(name, n). from_name_and_node name n) (filter (is_file_node \<circ> snd) d)"
  "map (\<lambda>e. Some (EntrySymlink e)) (pd_symlinks (proto_from_nodes d)) =
     map (\<lambda>(name, n). from_name_and_node name n) (filter (is_symlink_node \<circ> snd) d)"
  by (induction d rule: proto_from_nodes.induct) simp_all

lemma map_eq_map_transfer:
  "map f ds = map g xs \<Longrightarrow> (\<And>e x. f e = g x \<Longrightarrow> h e = k x \<and> P x) \<Longrightarrow> map h ds = map k xs \<and> (\<forall>x\<in>set xs. P x)"
proof (induction ds arbitrary: xs)
  case (Cons e ds)
  then show ?case by (cases xs) auto
qed simp

lemma entries_of_kind:
  "map (\<lambda>e. Some (EntryDirectory e)) ds = map (\<lambda>(name, n). from_name_and_node name n) xs \<Longrightarrow>
     map de_name ds = map fst xs \<and> (\<forall>x\<in>set xs. is_dir_node (snd x))"
  "map (\<lambda>e. Some (EntryFile e)) fs = map (\<lambda>(name, n). from_name_and_node name n) xs \<Longrightarrow>
     map fe_name fs = map fst xs \<and> (\<forall>x\<in>set xs. is_file_node (snd x))"
  "map (\<lambda>e. Some (EntrySymlink e)) ss = map (\<lambda>(name, n). from_name_and_node name n) xs \<Longrightarrow>
     map se_name ss = map fst xs \<and> (\<forall>x\<in>set xs. is_symlink_node (snd x))"
proof -
  have k: "Some (EntryDirectory e) = (\<lambda>(name, n). from_name_and_node name n) x \<Longrightarrow> de_name e = fst x \<and> is_dir_node (snd x)"
    "Some (EntryFile f) = (\<lambda>(name, n). from_name_and_node name n) x \<Longrightarrow> fe_name f = fst x \<and> is_file_node (snd x)"
    "Some (EntrySymlink l) = (\<lambda>(name, n). from_name_and_node name n) x \<Longrightarrow> se_name l = fst x \<and> is_symlink_node (snd x)"
    for e f l x
    by (cases x; cases "snd x"; simp)+
  show "map (\<lambda>e. Some (EntryDirectory e)) ds = map (\<lambda>(name, n). from_name_and_node name n) xs \<Longrightarrow>
     map de_name ds = map fst xs \<and> (\<forall>x\<in>set xs. is_dir_node (snd x))"
    "map (\<lambda>e. Some (EntryFile e)) fs = map (\<lambda>(name, n). from_name_and_node name n) xs \<Longrightarrow>
     map fe_name fs = map fst xs \<and> (\<forall>x\<in>set xs. is_file_node (snd x))"
    "map (\<lambda>e. Some (EntrySymlink e)) ss = map (\<lambda>(name, n). from_name_and_node name n) xs \<Longrightarrow>
     map se_name ss = map fst xs \<and> (\<forall>x\<in>set xs. is_symlink_node (snd x))"
    by (erule map_eq_map_transfer, erule k)+
qed

lemma entry_maps_inj:
  "map (\<lambda>e. Some (EntryDirectory e)) ds = map (\<lambda>e. Some (EntryDirectory e)) ds' \<longleftrightarrow> ds = ds'"
  "map (\<lambda>e. Some (EntryFile e)) fs = map (\<lambda>e. Some (EntryFile e)) fs' \<longleftrightarrow> fs = fs'"
  "map (\<lambda>e. Some (EntrySymlink e)) ss = map (\<lambda>e. Some (EntrySymlink e)) ss' \<longleftrightarrow> ss = ss'"
  by (intro inj_map_eq_map injI; simp)+

lemma dir_total_set: "distinct d \<Longrightarrow> dir_total d = (\<Sum>e\<in>set d. 1 + node_dir_size (snd e))"
  by (induction d) auto

text \<open>What a successful conversion is made of.\<close>

lemma proto_try_into_parts:
  "proto_try_into_directory p = Inr d \<longleftrightarrow> (\<exists>D F S.
     map (\<lambda>e. Some (EntryDirectory e)) (pd_directories p) = map (\<lambda>(name, n). from_name_and_node name n) D \<and>
     map (\<lambda>e. Some (EntryFile e)) (pd_files p) = map (\<lambda>(name, n). from_name_and_node name n) F \<and>
     map (\<lambda>e. Some (EntrySymlink e)) (pd_symlinks p) = map (\<lambda>(name, n). from_name_and_node name n) S \<and>
     sorted_wrt (<) ([] # map fst D) \<and> sorted_wrt (<) ([] # map fst F) \<and> sorted_wrt (<) ([] # map fst S) \<and>
     (\<forall>(name, n) \<in> set (D @ F @ S). pc_ok name \<and> cnode_wf n) \<and>
     distinct (map fst (D @ F @ S)) \<and> dir_total (D @ F @ S) \<le> U64_MAX \<and>
     btree_sorted (<) d \<and> set d = set (D @ F @ S))" (is "?L \<longleftrightarrow> ?R")
proof
  assume ?L
  then obtain xs where srt: "sorted_wrt (<) ([] # map de_name (pd_directories p))"
      "sorted_wrt (<) ([] # map fe_name (pd_files p))" "sorted_wrt (<) ([] # map se_name (pd_symlinks p))"
    and conv: "map Some (map EntryDirectory (pd_directories p) @ map EntryFile (pd_files p) @ map EntrySymlink (pd_symlinks p)) =
      map (\<lambda>(name, n). from_name_and_node name n) xs" "\<forall>(name, n) \<in> set xs. pc_ok name \<and> cnode_wf n"
    and it: "directory_try_from_iter xs = Inr d"
    by (auto simp: proto_try_into_directory_def check_names_sorted_iff convert_entries_iff simp del: map_append)
  from conv(1) obtain D F S where xs: "xs = D @ F @ S"
    and eq: "map (\<lambda>e. Some (EntryDirectory e)) (pd_directories p) = map (\<lambda>(name, n). from_name_and_node name n) D"
      "map (\<lambda>e. Some (EntryFile e)) (pd_files p) = map (\<lambda>(name, n). from_name_and_node name n) F"
      "map (\<lambda>e. Some (EntrySymlink e)) (pd_symlinks p) = map (\<lambda>(name, n). from_name_and_node name n) S"
    by (auto simp: append_eq_map_conv comp_def)
  show ?R
    using srt conv(2) it entries_of_kind(1) [OF eq(1)] entries_of_kind(2) [OF eq(2)] entries_of_kind(3) [OF eq(3)]
    by (intro exI [of _ D] exI [of _ F] exI [of _ S]) (simp add: xs eq directory_try_from_iter_iff)
next
  assume ?R
  then obtain D F S where eq: "map (\<lambda>e. Some (EntryDirectory e)) (pd_directories p) = map (\<lambda>(name, n). from_name_and_node name n) D"
      "map (\<lambda>e. Some (EntryFile e)) (pd_files p) = map (\<lambda>(name, n). from_name_and_node name n) F"
      "map (\<lambda>e. Some (EntrySymlink e)) (pd_symlinks p) = map (\<lambda>(name, n). from_name_and_node name n) S"
    and srt: "sorted_wrt (<) ([] # map fst D)" "sorted_wrt (<) ([] # map fst F)" "sorted_wrt (<) ([] # map fst S)"
    and ok: "\<forall>(name, n) \<in> set (D @ F @ S). pc_ok name \<and> cnode_wf n"
    and it: "directory_try_from_iter (D @ F @ S) = Inr d"
    by (auto simp: directory_try_from_iter_iff)
  have "map Some (map EntryDirectory (pd_directories p) @ map EntryFile (pd_files p) @ map EntrySymlink (pd_symlinks p)) =
      map (\<lambda>(name, n). from_name_and_node name n) (D @ F @ S)"
    using eq by (simp add: comp_def)
  then have "convert_entries (map EntryDirectory (pd_directories p) @ map EntryFile (pd_files p) @ map EntrySymlink (pd_symlinks p))
      = Inr (D @ F @ S)"
    using ok convert_entries_iff by blast
  moreover have "check_names_sorted [] (map de_name (pd_directories p)) = Inr ()"
    "check_names_sorted [] (map fe_name (pd_files p)) = Inr ()" "check_names_sorted [] (map se_name (pd_symlinks p)) = Inr ()"
    using srt entries_of_kind(1) [OF eq(1)] entries_of_kind(2) [OF eq(2)] entries_of_kind(3) [OF eq(3)]
    by (simp_all add: check_names_sorted_iff)
  ultimately show ?L using it by (simp add: proto_try_into_directory_def)
qed


lemma filter_kinds_set:
  "set (filter (is_dir_node \<circ> snd) d @ filter (is_file_node \<circ> snd) d @ filter (is_symlink_node \<circ> snd) d) = set d"
  using node_kind by auto

lemma filter_kind_distinct:
  "distinct (map fst d) \<Longrightarrow>
   distinct (map fst (filter (is_dir_node \<circ> snd) d @ filter (is_file_node \<circ> snd) d @ filter (is_symlink_node \<circ> snd) d))"
proof (induction d)
  case (Cons e d)
  then show ?case by (cases "snd e") auto
qed simp

lemma sorted_filter_names: "btree_sorted (<) d \<Longrightarrow> btree_sorted (<) (filter P d)"
  by (induction d) (auto simp: btree_sorted_def)

lemma names_nonempty: "(\<forall>(name, n) \<in> set d. pc_ok name \<and> cnode_wf n) \<Longrightarrow> btree_sorted (<) d \<Longrightarrow> sorted_wrt (<) ([] # map fst d)"
  by (auto simp: btree_sorted_def neq_Nil_conv dest!: pc_okD bspec)

text \<open>
  C11: The wire form is canonical: a directory message is accepted exactly if it is the message of
  a well-formed directory (names valid, distinct and sorted, digests of the right length, valid
  symlink targets, documented size within 64 bits), which is then the result.
\<close>

theorem proto_directory_canonical:
  "proto_try_into_directory p = Inr d \<longleftrightarrow> cdir_wf d \<and> p = proto_from_nodes d"
proof
  assume "proto_try_into_directory p = Inr d"
  then obtain D F S where eq: "map (\<lambda>e. Some (EntryDirectory e)) (pd_directories p) = map (\<lambda>(name, n). from_name_and_node name n) D"
      "map (\<lambda>e. Some (EntryFile e)) (pd_files p) = map (\<lambda>(name, n). from_name_and_node name n) F"
      "map (\<lambda>e. Some (EntrySymlink e)) (pd_symlinks p) = map (\<lambda>(name, n). from_name_and_node name n) S"
    and srt: "btree_sorted (<) D" "btree_sorted (<) F" "btree_sorted (<) S" "btree_sorted (<) d"
    and ok: "\<forall>(name, n) \<in> set (D @ F @ S). pc_ok name \<and> cnode_wf n" and dist: "distinct (map fst (D @ F @ S))"
    and tot: "dir_total (D @ F @ S) \<le> U64_MAX" and d: "set d = set (D @ F @ S)"
    unfolding proto_try_into_parts by (auto simp: btree_sorted_def)
  have kinds: "\<forall>x\<in>set D. is_dir_node (snd x)" "\<forall>x\<in>set F. is_file_node (snd x)" "\<forall>x\<in>set S. is_symlink_node (snd x)"
    using entries_of_kind(1) [OF eq(1)] entries_of_kind(2) [OF eq(2)] entries_of_kind(3) [OF eq(3)] by blast+
  have excl: "\<not> (is_dir_node n \<and> is_file_node n)" "\<not> (is_dir_node n \<and> is_symlink_node n)"
    "\<not> (is_file_node n \<and> is_symlink_node n)" for n by (cases n; simp)+
  have "set (filter (is_dir_node \<circ> snd) d) = set D" "set (filter (is_file_node \<circ> snd) d) = set F"
    "set (filter (is_symlink_node \<circ> snd) d) = set S"
    using kinds d excl by fastforce+
  then have "filter (is_dir_node \<circ> snd) d = D" "filter (is_file_node \<circ> snd) d = F" "filter (is_symlink_node \<circ> snd) d = S"
    using sorted_unique sorted_filter_names srt by blast+
  then have "pd_directories p = pd_directories (proto_from_nodes d)" "pd_files p = pd_files (proto_from_nodes d)"
    "pd_symlinks p = pd_symlinks (proto_from_nodes d)"
    using proto_from_nodes_parts [of d] eq entry_maps_inj by metis+
  then have "p = proto_from_nodes d" by simp
  moreover have "dir_total d = dir_total (D @ F @ S)"
    using dir_total_set [of d] dir_total_set [of "D @ F @ S"] d byte_order.sorted_distinct [OF srt(4)] dist
    by (simp only: distinct_map)
  ultimately show "cdir_wf d \<and> p = proto_from_nodes d"
    using srt ok tot d by (simp add: cdir_wf_def)
next
  let ?D = "filter (is_dir_node \<circ> snd) d" and ?F = "filter (is_file_node \<circ> snd) d" and ?S = "filter (is_symlink_node \<circ> snd) d"
  assume "cdir_wf d \<and> p = proto_from_nodes d"
  then have d: "btree_sorted (<) d" "\<forall>(name, n) \<in> set d. pc_ok name \<and> cnode_wf n" "dir_total d \<le> U64_MAX"
    and p: "p = proto_from_nodes d" by (auto simp: cdir_wf_def)
  have dist: "distinct (map fst (?D @ ?F @ ?S))"
    using filter_kind_distinct byte_order.sorted_distinct [OF d(1)] by blast
  then have "dir_total (?D @ ?F @ ?S) = dir_total d"
    using dir_total_set [of "?D @ ?F @ ?S"] dir_total_set [of d] byte_order.sorted_distinct [OF d(1)]
    by (simp only: distinct_map filter_kinds_set)
  moreover have "sorted_wrt (<) ([] # map fst (filter P d))" for P
    using names_nonempty [of "filter P d"] sorted_filter_names [OF d(1)] d(2) by (auto simp: btree_sorted_def)
  moreover have "\<forall>(name, n) \<in> set (?D @ ?F @ ?S). pc_ok name \<and> cnode_wf n" using d(2) by auto
  ultimately have "sorted_wrt (<) ([] # map fst ?D) \<and> sorted_wrt (<) ([] # map fst ?F) \<and> sorted_wrt (<) ([] # map fst ?S) \<and>
     (\<forall>(name, n) \<in> set (?D @ ?F @ ?S). pc_ok name \<and> cnode_wf n) \<and>
     distinct (map fst (?D @ ?F @ ?S)) \<and> dir_total (?D @ ?F @ ?S) \<le> U64_MAX \<and>
     btree_sorted (<) d \<and> set d = set (?D @ ?F @ ?S)"
    using dist d(1,3) filter_kinds_set [of d] by (simp only: simp_thms)
  with proto_from_nodes_parts [of d] show "proto_try_into_directory p = Inr d"
    unfolding proto_try_into_parts p by blast
qed


section \<open>The two notions of size\<close>

lemma proto_size_eq:
  "proto_size_checked (proto_from_nodes d) = (if dir_total d \<le> U64_MAX then Some (dir_total d) else None)"
proof -
  have "length (pd_files (proto_from_nodes d)) + length (pd_symlinks (proto_from_nodes d)) +
      length (pd_directories (proto_from_nodes d)) + sum_list (map de_size (pd_directories (proto_from_nodes d))) = dir_total d"
    by (induction d rule: proto_from_nodes.induct) simp_all
  then show ?thesis by (auto simp: proto_size_checked_def checked_sum_eq)
qed

text \<open>
  C30: \<open>Directory::size\<close> counts every entry twice: where it returns at all it exceeds the size of the
  wire form, which is the documented one, by the number of entries. There are directories that
  pass every check on construction and conversion for which it panics.
\<close>

theorem directory_size_counts_twice:
  "(directory_size d = Some n \<longrightarrow> proto_size_checked (proto_from_nodes d) = Some (n - length d) \<and> length d \<le> n) \<and>
   (\<exists>it d'. directory_try_from_iter it = Inr d' \<and> cdir_wf d' \<and> directory_size d' = None)"
proof (intro conjI impI)
  show "proto_size_checked (proto_from_nodes d) = Some (n - length d)" "length d \<le> n" if "directory_size d = Some n"
    using that by (auto simp: directory_size_eq proto_size_eq split: if_splits)
  let ?d = "[(''a'', CDirectory (replicate 32 (CHR ''d'')) (2 ^ 64 - 2))]"
  show "\<exists>it d'. directory_try_from_iter it = Inr d' \<and> cdir_wf d' \<and> directory_size d' = None"
    by (intro exI [of _ ?d])
      (simp add: directory_try_from_iter_iff cdir_wf_def btree_sorted_def directory_size_eq U64_MAX_def B3_LENGTH_def
        pc_ok_def pc_validate_name_def PC_MAX_NAME_LEN_def)
qed

theorem directory_size_counts_twice_witness:
  "proto_size_checked (proto_from_nodes [(''a'', CSymlink ''t'')]) = Some 1 \<and> directory_size [(''a'', CSymlink ''t'')] = Some 2"
proof -
  have "directory_size [(''a'', CSymlink ''t'')] = Some 2" by (simp add: directory_size_eq U64_MAX_def)
  with directory_size_counts_twice [of "[(''a'', CSymlink ''t'')]" 2] show ?thesis by simp
qed

end
