(* ===== verification/OrderValidator.thy ===== *)
theory OrderValidator
  imports CastoreDirectory
begin

text \<open>
  The validators of directory streams, \<^verbatim>\<open>castore/src/directoryservice/order_validator.rs\<close>. The digest
  of a directory (blake3 over its protobuf encoding) is the parameter \<open>H\<close>. Hash maps are maps, hash
  sets are sets. An assertion that fails, or a size that overflows, is the error \<open>OrdPanic\<close>, as in a
  build with debug assertions and overflow checks. A validated stream is the list of directories it
  yields together with how it ends.
\<close>

datatype (plugins only: code size) ordering_error =
    OrdWrongSize b3_digest nat
  | OrdUnknownLTR b3_digest b3_digest path_component
  | OrdUnexpected cdirectory
  | OrdDirectoriesMissing "b3_digest set"
  | OrdEmptySet
  | OrdPanic

section \<open>Root to leaves\<close>

record rtl_validator =
  rtl_root_digest :: b3_digest
  rtl_referenced :: "b3_digest \<rightharpoonup> nat"
  rtl_pending :: "b3_digest set"
  rtl_poison :: bool

definition rtl_new :: "b3_digest \<Rightarrow> rtl_validator" where
  "rtl_new root_digest =
     \<lparr>rtl_root_digest = root_digest, rtl_referenced = Map.empty, rtl_pending = {root_digest}, rtl_poison = False\<rparr>"

definition rtl_would_accept :: "rtl_validator \<Rightarrow> b3_digest \<Rightarrow> (ordering_error, bool) res" where
  "rtl_would_accept v digest =
     (if rtl_poison v then Inl OrdPanic
      else Inr (digest = rtl_root_digest v \<or> rtl_referenced v digest \<noteq> None))"

fun rtl_introduce_children_of :: "cdirectory \<Rightarrow> rtl_validator \<Rightarrow> rtl_validator" where
  "rtl_introduce_children_of [] v = v"
| "rtl_introduce_children_of ((_, CDirectory digest n) # d) v =
     rtl_introduce_children_of d
       (v\<lparr>rtl_referenced := (rtl_referenced v)(digest \<mapsto> n),
          rtl_pending := (if rtl_referenced v digest = None then insert digest (rtl_pending v) else rtl_pending v)\<rparr>)"
| "rtl_introduce_children_of (_ # d) v = rtl_introduce_children_of d v"

definition rtl_try_accept ::
  "(cdirectory \<Rightarrow> b3_digest) \<Rightarrow> rtl_validator \<Rightarrow> cdirectory \<Rightarrow> (ordering_error, unit) res \<times> rtl_validator" where
  "rtl_try_accept H v directory =
     (if rtl_poison v then (Inl OrdPanic, v)
      else case directory_size directory of
        None \<Rightarrow> (Inl OrdPanic, v)
      | Some n \<Rightarrow>
          (let digest = H directory
           in case rtl_referenced v digest of
                Some s \<Rightarrow>
                  if s = n
                  then (Inr (), rtl_introduce_children_of directory (v\<lparr>rtl_pending := rtl_pending v - {digest}\<rparr>))
                  else (Inl (OrdWrongSize digest n), v\<lparr>rtl_poison := True\<rparr>)
              | None \<Rightarrow>
                  if digest = rtl_root_digest v
                  then (let v' = rtl_introduce_children_of directory v
                        in (Inr (), v'\<lparr>rtl_pending := rtl_pending v' - {rtl_root_digest v'}\<rparr>))
                  else (Inl (OrdUnexpected directory), v\<lparr>rtl_poison := True\<rparr>)))"

definition rtl_finalize :: "rtl_validator \<Rightarrow> (ordering_error, unit) res" where
  "rtl_finalize v =
     (if rtl_pending v \<noteq> {} then Inl (OrdDirectoriesMissing (rtl_pending v)) else Inr ())"

fun rtl_stream ::
  "(cdirectory \<Rightarrow> b3_digest) \<Rightarrow> rtl_validator \<Rightarrow> cdirectory list \<Rightarrow> cdirectory list \<times> (ordering_error, unit) res" where
  "rtl_stream H v [] = ([], rtl_finalize v)"
| "rtl_stream H v (directory # directories) =
     (case rtl_try_accept H v directory of
        (Inl e, _) \<Rightarrow> ([], Inl e)
      | (Inr _, v') \<Rightarrow> (let (ys, r) = rtl_stream H v' directories in (directory # ys, r)))"

definition rtl_validate_stream ::
  "(cdirectory \<Rightarrow> b3_digest) \<Rightarrow> b3_digest \<Rightarrow> cdirectory list \<Rightarrow> cdirectory list \<times> (ordering_error, unit) res" where
  "rtl_validate_stream H root_digest directories = rtl_stream H (rtl_new root_digest) directories"

section \<open>Leaves to root\<close>

record ltr_validator =
  ltr_accepted :: "b3_digest \<rightharpoonup> nat"
  ltr_pending :: "b3_digest set"
  ltr_last_inserted :: "b3_digest option"
  ltr_poison :: bool

definition ltr_new :: ltr_validator where
  "ltr_new = \<lparr>ltr_accepted = Map.empty, ltr_pending = {}, ltr_last_inserted = None, ltr_poison = False\<rparr>"

fun ltr_check_nodes ::
  "b3_digest \<Rightarrow> cdirectory \<Rightarrow> ltr_validator \<Rightarrow> (ordering_error, unit) res \<times> ltr_validator" where
  "ltr_check_nodes parent_digest [] v = (Inr (), v)"
| "ltr_check_nodes parent_digest ((name, CDirectory digest n) # d) v =
     (case ltr_accepted v digest of
        Some s \<Rightarrow>
          if s = n then ltr_check_nodes parent_digest d (v\<lparr>ltr_pending := ltr_pending v - {digest}\<rparr>)
          else (Inl (OrdWrongSize digest s), v\<lparr>ltr_poison := True\<rparr>)
      | None \<Rightarrow> (Inl (OrdUnknownLTR digest parent_digest name), v\<lparr>ltr_poison := True\<rparr>))"
| "ltr_check_nodes parent_digest (_ # d) v = ltr_check_nodes parent_digest d v"

definition ltr_try_accept ::
  "(cdirectory \<Rightarrow> b3_digest) \<Rightarrow> ltr_validator \<Rightarrow> cdirectory \<Rightarrow> (ordering_error, unit) res \<times> ltr_validator" where
  "ltr_try_accept H v directory =
     (if ltr_poison v then (Inl OrdPanic, v)
      else case ltr_check_nodes (H directory) directory v of
        (Inl e, v') \<Rightarrow> (Inl e, v')
      | (Inr _, v') \<Rightarrow>
          (let directory_digest = H directory
           in if ltr_accepted v' directory_digest \<noteq> None then (Inr (), v')
              else case directory_size directory of
                None \<Rightarrow> (Inl OrdPanic, v')
              | Some n \<Rightarrow>
                  (Inr (), v'\<lparr>ltr_accepted := (ltr_accepted v')(directory_digest \<mapsto> n),
                              ltr_last_inserted := Some directory_digest,
                              ltr_pending := insert directory_digest (ltr_pending v')\<rparr>)))"

definition ltr_finalize :: "ltr_validator \<Rightarrow> (ordering_error, unit) res" where
  "ltr_finalize v =
     (if ltr_poison v then Inl OrdPanic
      else if ltr_accepted v = Map.empty then Inl OrdEmptySet
      else if card (ltr_pending v) \<noteq> 1 then Inl (OrdDirectoriesMissing (ltr_pending v))
      else case ltr_last_inserted v of
        None \<Rightarrow> Inl OrdPanic
      | Some last_inserted_digest \<Rightarrow>
          if last_inserted_digest \<in> ltr_pending v then Inr () else Inl OrdPanic)"

fun ltr_stream ::
  "(cdirectory \<Rightarrow> b3_digest) \<Rightarrow> ltr_validator \<Rightarrow> cdirectory list \<Rightarrow> cdirectory list \<times> (ordering_error, unit) res" where
  "ltr_stream H v [] = ([], ltr_finalize v)"
| "ltr_stream H v (directory # directories) =
     (case ltr_try_accept H v directory of
        (Inl e, _) \<Rightarrow> ([], Inl e)
      | (Inr _, v') \<Rightarrow> (let (ys, r) = ltr_stream H v' directories in (directory # ys, r)))"

definition ltr_validate_stream ::
  "(cdirectory \<Rightarrow> b3_digest) \<Rightarrow> cdirectory list \<Rightarrow> cdirectory list \<times> (ordering_error, unit) res" where
  "ltr_validate_stream H directories = ltr_stream H ltr_new directories"

section \<open>Pointers\<close>

text \<open>The digests and sizes by which a directory refers to others.\<close>

definition dir_pointers :: "cdirectory \<Rightarrow> (b3_digest \<times> nat) set" where
  "dir_pointers d = {(g, n). \<exists>name. (name, CDirectory g n) \<in> set d}"

lemma dir_pointers_simps [simp]:
  "dir_pointers [] = {}"
  "dir_pointers ((name, CDirectory g n) # d) = insert (g, n) (dir_pointers d)"
  "dir_pointers ((name, CFile g n ex) # d) = dir_pointers d"
  "dir_pointers ((name, CSymlink t) # d) = dir_pointers d"
  by (auto simp: dir_pointers_def)

definition targets :: "cdirectory set \<Rightarrow> b3_digest set" where
  "targets R = fst ` (\<Union>d\<in>R. dir_pointers d)"

lemma targets_simps [simp]: "targets {} = {}" "targets (insert d R) = fst ` dir_pointers d \<union> targets R"
  by (auto simp: targets_def)

section \<open>Leaves to root: what is accepted\<close>

lemma ltr_check_nodes_spec:
  "case ltr_check_nodes p d v of
     (Inr _, v') \<Rightarrow> (\<forall>(g, n) \<in> dir_pointers d. ltr_accepted v g = Some n) \<and>
        v' = v\<lparr>ltr_pending := ltr_pending v - fst ` dir_pointers d\<rparr>
   | (Inl e, v') \<Rightarrow> \<not> (\<forall>(g, n) \<in> dir_pointers d. ltr_accepted v g = Some n) \<and> e \<noteq> OrdPanic"
proof (induction p d v rule: ltr_check_nodes.induct)
  case (2 p name g n d v)
  show ?case
  proof (cases "ltr_accepted v g = Some n")
    case True
    let ?v = "v\<lparr>ltr_pending := ltr_pending v - {g}\<rparr>"
    have "ltr_pending v - {g} - A = ltr_pending v - insert g A" for A by blast
    moreover have "ltr_check_nodes p ((name, CDirectory g n) # d) v = ltr_check_nodes p d ?v" using True by simp
    ultimately show ?thesis using 2(1) [OF True refl] True by (auto split: prod.splits sum.splits)
  next
    case False
    then show ?thesis by (cases "ltr_accepted v g") auto
  qed
qed (auto split: prod.splits sum.splits)

text \<open>The state after the directories \<open>R\<close> have been accepted.\<close>

definition ltr_inv :: "(cdirectory \<Rightarrow> b3_digest) \<Rightarrow> cdirectory set \<Rightarrow> ltr_validator \<Rightarrow> bool" where
  "ltr_inv H R v \<longleftrightarrow>
     \<not> ltr_poison v \<and> dom (ltr_accepted v) = H ` R \<and>
     (\<forall>d\<in>R. ltr_accepted v (H d) = directory_size d) \<and>
     targets R \<subseteq> H ` R \<and> ltr_pending v = H ` R - targets R \<and>
     (case ltr_last_inserted v of None \<Rightarrow> R = {} | Some g \<Rightarrow> g \<in> H ` R - targets R)"

text \<open>Every directory refers to earlier ones only, with their sizes, and no size overflows.\<close>

fun children_first :: "(cdirectory \<Rightarrow> b3_digest) \<Rightarrow> cdirectory set \<Rightarrow> cdirectory list \<Rightarrow> bool" where
  "children_first H R [] = True"
| "children_first H R (d # ds) =
     (directory_size d \<noteq> None \<and>
      (\<forall>(g, n) \<in> dir_pointers d. \<exists>r\<in>R. g = H r \<and> directory_size r = Some n) \<and>
      children_first H (insert d R) ds)"

lemma children_first_append:
  "children_first H R (xs @ ys) \<longleftrightarrow> children_first H R xs \<and> children_first H (set xs \<union> R) ys"
  by (induction xs arbitrary: R) (auto simp: insert_commute)

lemma ltr_accepted_iff:
  assumes "ltr_inv H R v"
  shows "ltr_accepted v g = Some n \<longleftrightarrow> (\<exists>r\<in>R. g = H r \<and> directory_size r = Some n)"
proof
  assume a: "ltr_accepted v g = Some n"
  then have "g \<in> H ` R" using assms by (auto simp: ltr_inv_def)
  then show "\<exists>r\<in>R. g = H r \<and> directory_size r = Some n" using a assms by (auto simp: ltr_inv_def)
qed (use assms in \<open>auto simp: ltr_inv_def\<close>)

lemma ltr_try_accept_step:
  assumes inv: "ltr_inv H R v" and inj: "inj_on H (insert d R)"
  shows "case ltr_try_accept H v d of
     (Inr _, v') \<Rightarrow> children_first H R [d] \<and> ltr_inv H (insert d R) v'
   | (Inl e, _) \<Rightarrow> \<not> children_first H R [d] \<and> (e = OrdPanic \<longrightarrow> directory_size d = None)"
proof -
  note acc = ltr_accepted_iff [OF inv]
  obtain x v1 where c: "ltr_check_nodes (H d) d v = (x, v1)" by fastforce
  note cs = ltr_check_nodes_spec [where p = "H d" and d = d and v = v, unfolded c]
  have np: "\<not> ltr_poison v" using inv by (simp add: ltr_inv_def)
  show ?thesis
  proof (cases x)
    case (Inl e)
    then show ?thesis using cs c np acc by (fastforce simp: ltr_try_accept_def)
  next
    case (Inr u)
    then have ptr: "\<forall>(g, n) \<in> dir_pointers d. \<exists>r\<in>R. g = H r \<and> directory_size r = Some n"
      and v1: "v1 = v\<lparr>ltr_pending := ltr_pending v - fst ` dir_pointers d\<rparr>"
      using cs acc by auto
    have tgt: "fst ` dir_pointers d \<subseteq> H ` R" using ptr by fastforce
    show ?thesis
    proof (cases "H d \<in> H ` R")
      case True
      then have dR: "d \<in> R" using inj by (auto simp: inj_on_def)
      then have "insert d R = R" "fst ` dir_pointers d \<subseteq> targets R" by (auto simp: targets_def)
      moreover have some: "ltr_accepted v (H d) \<noteq> None"
      proof -
        have "H d \<in> dom (ltr_accepted v)" using inv True by (simp only: ltr_inv_def)
        then show ?thesis by auto
      qed
      moreover have "directory_size d \<noteq> None" using inv dR some by (simp add: ltr_inv_def)
      moreover have "ltr_pending v - fst ` dir_pointers d = ltr_pending v" using inv calculation(2) by (auto simp: ltr_inv_def)
      then have "v1 = v" using v1 by simp
      ultimately show ?thesis using Inr c np ptr inv by (simp add: ltr_try_accept_def)
    next
      case False
      then have none: "ltr_accepted v1 (H d) = None" using inv v1 by (auto simp: ltr_inv_def dom_def)
      show ?thesis
      proof (cases "directory_size d")
        case None
        then show ?thesis using Inr c np none by (simp add: ltr_try_accept_def)
      next
        case (Some n)
        let ?v = "v1\<lparr>ltr_accepted := (ltr_accepted v1)(H d \<mapsto> n), ltr_last_inserted := Some (H d),
            ltr_pending := insert (H d) (ltr_pending v1)\<rparr>"
        have "ltr_try_accept H v d = (Inr (), ?v)" using Inr c np none Some by (simp add: ltr_try_accept_def Let_def)
        moreover have "\<forall>e\<in>R. H e \<noteq> H d" using False by (metis image_eqI)
        then have "ltr_inv H (insert d R) ?v"
          using inv False tgt Some v1 by (auto simp: ltr_inv_def)
        ultimately show ?thesis using ptr Some by simp
      qed
    qed
  qed
qed


text \<open>Exactly one directory is not referred to: the root.\<close>

definition single_root :: "(cdirectory \<Rightarrow> b3_digest) \<Rightarrow> cdirectory set \<Rightarrow> bool" where
  "single_root H R \<longleftrightarrow> (\<exists>!g. g \<in> H ` R \<and> g \<notin> targets R)"

lemma card_1_iff_ex1: "card A = 1 \<longleftrightarrow> (\<exists>!x. x \<in> A)"
  unfolding One_nat_def card_1_singleton_iff by auto

lemma ltr_finalize_spec:
  assumes "ltr_inv H R v"
  shows "(ltr_finalize v = Inr () \<longleftrightarrow> single_root H R) \<and> ltr_finalize v \<noteq> Inl OrdPanic"
proof (cases "R = {}")
  case True
  then show ?thesis using assms by (auto simp: ltr_inv_def ltr_finalize_def single_root_def)
next
  case False
  then obtain g where g: "ltr_last_inserted v = Some g" "g \<in> ltr_pending v"
    using assms by (auto simp: ltr_inv_def split: option.splits)
  have "dom (ltr_accepted v) \<noteq> {}" using assms False by (simp add: ltr_inv_def)
  then have ne: "ltr_accepted v \<noteq> Map.empty" by auto
  have "single_root H R \<longleftrightarrow> card (ltr_pending v) = 1"
    using assms by (simp add: single_root_def ltr_inv_def card_1_iff_ex1 del: One_nat_def)
  then show ?thesis using g ne assms by (simp add: ltr_finalize_def ltr_inv_def)
qed

lemma ltr_stream_spec:
  assumes "ltr_inv H R v" "inj_on H (R \<union> set ds)"
  shows "(snd (ltr_stream H v ds) = Inr () \<longleftrightarrow> children_first H R ds \<and> single_root H (R \<union> set ds)) \<and>
    (snd (ltr_stream H v ds) = Inr () \<longrightarrow> fst (ltr_stream H v ds) = ds) \<and>
    (snd (ltr_stream H v ds) = Inl OrdPanic \<longrightarrow> (\<exists>d\<in>set ds. directory_size d = None))"
  using assms
proof (induction ds arbitrary: R v)
  case Nil
  then show ?case using ltr_finalize_spec [OF Nil.prems(1)] by auto
next
  case (Cons d ds)
  obtain x v1 where t: "ltr_try_accept H v d = (x, v1)" by fastforce
  have "inj_on H (insert d R)" by (rule inj_on_subset [OF Cons.prems(2)]) auto
  note step = ltr_try_accept_step [OF Cons.prems(1) this, unfolded t]
  show ?case
  proof (cases x)
    case (Inl e)
    then show ?thesis using step t by auto
  next
    case (Inr u)
    then have inv: "ltr_inv H (insert d R) v1" and cf: "children_first H R [d]" using step by auto
    have U: "insert d R \<union> set ds = R \<union> set (d # ds)" by auto
    note ih = Cons.IH [OF inv, unfolded U, OF Cons.prems(2)]
    obtain ys r where rec: "ltr_stream H v1 ds = (ys, r)" by fastforce
    then show ?thesis using ih cf t Inr by auto
  qed
qed

lemma ltr_new_inv: "ltr_inv H {} ltr_new"
  by (simp add: ltr_inv_def ltr_new_def)

text \<open>
  C13: The leaves-to-root validator yields a whole stream without an error exactly if every
  directory refers only to directories sent before it, with their actual sizes, and exactly one
  directory is not referred to by another one (so no unconnected directories are left over). Its
  internal assertions never fail; the only panic is a directory whose size overflows. The digests
  are assumed not to collide on the stream.
\<close>

theorem ltr_validate_stream_spec:
  assumes "inj_on H (set ds)"
  shows "(ltr_validate_stream H ds = (ds, Inr ()) \<longleftrightarrow> children_first H {} ds \<and> single_root H (set ds)) \<and>
    (snd (ltr_validate_stream H ds) = Inl OrdPanic \<longrightarrow> (\<exists>d\<in>set ds. directory_size d = None))"
  using ltr_stream_spec [OF ltr_new_inv, of H ds] assms
  by (auto simp: ltr_validate_stream_def prod_eq_iff)

definition leaf_dir :: cdirectory where "leaf_dir = []"

definition parent_dir :: "b3_digest \<Rightarrow> cdirectory" where
  "parent_dir g = [(''a'', CDirectory g 0), (''b'', CDirectory g 0)]"

theorem ltr_validate_stream_spec_witness:
  "ltr_validate_stream (\<lambda>d. if d = [] then ''x'' else ''y'') [leaf_dir, parent_dir ''x''] = ([leaf_dir, parent_dir ''x''], Inr ())"
proof -
  let ?H = "\<lambda>d :: cdirectory. if d = [] then ''x'' else ''y''"
  have "children_first ?H {} [leaf_dir, parent_dir ''x'']"
    by (simp add: leaf_dir_def parent_dir_def directory_size_eq U64_MAX_def)
  moreover have "single_root ?H (set [leaf_dir, parent_dir ''x''])"
    by (auto simp: single_root_def leaf_dir_def parent_dir_def)
  moreover have "inj_on ?H (set [leaf_dir, parent_dir ''x''])"
    by (simp add: leaf_dir_def parent_dir_def)
  ultimately show ?thesis using ltr_validate_stream_spec by blast
qed

section \<open>Root to leaves: what is accepted\<close>

lemma rtl_introduce_spec:
  "rtl_root_digest (rtl_introduce_children_of d v) = rtl_root_digest v \<and>
   rtl_poison (rtl_introduce_children_of d v) = rtl_poison v \<and>
   rtl_pending (rtl_introduce_children_of d v) =
     rtl_pending v \<union> {g \<in> fst ` dir_pointers d. rtl_referenced v g = None} \<and>
   dom (rtl_referenced (rtl_introduce_children_of d v)) = dom (rtl_referenced v) \<union> fst ` dir_pointers d \<and>
   (\<forall>g n. rtl_referenced (rtl_introduce_children_of d v) g = Some n \<longrightarrow>
      rtl_referenced v g = Some n \<or> (g, n) \<in> dir_pointers d)"
proof (induction d v rule: rtl_introduce_children_of.induct)
  case (2 name g n d v)
  let ?v = "v\<lparr>rtl_referenced := (rtl_referenced v)(g \<mapsto> n),
          rtl_pending := (if rtl_referenced v g = None then insert g (rtl_pending v) else rtl_pending v)\<rparr>"
  have eq: "rtl_introduce_children_of ((name, CDirectory g n) # d) v = rtl_introduce_children_of d ?v" by simp
  have pend: "rtl_pending ?v \<union> {x \<in> fst ` dir_pointers d. rtl_referenced ?v x = None} =
      rtl_pending v \<union> {x \<in> fst ` dir_pointers ((name, CDirectory g n) # d). rtl_referenced v x = None}"
    by auto
  have ref: "rtl_referenced ?v x = Some m \<Longrightarrow> rtl_referenced v x = Some m \<or> (x, m) = (g, n)" for x m
    by (simp split: if_splits)
  have "\<forall>x m. rtl_referenced (rtl_introduce_children_of d ?v) x = Some m \<longrightarrow>
      rtl_referenced v x = Some m \<or> (x, m) \<in> dir_pointers ((name, CDirectory g n) # d)"
    using 2 [THEN conjunct2, THEN conjunct2, THEN conjunct2, THEN conjunct2] ref by (simp only: dir_pointers_simps insert_iff) blast
  moreover have "dom (rtl_referenced ?v) \<union> fst ` dir_pointers d =
      dom (rtl_referenced v) \<union> fst ` dir_pointers ((name, CDirectory g n) # d)" by auto
  ultimately show ?case
    unfolding eq pend [symmetric] using 2 by (simp only: simp_thms) simp
qed auto


text \<open>The state after the directories \<open>R\<close> have been received.\<close>

definition rtl_inv :: "(cdirectory \<Rightarrow> b3_digest) \<Rightarrow> b3_digest \<Rightarrow> cdirectory set \<Rightarrow> rtl_validator \<Rightarrow> bool" where
  "rtl_inv H r R v \<longleftrightarrow>
     \<not> rtl_poison v \<and> rtl_root_digest v = r \<and> dom (rtl_referenced v) = targets R \<and>
     (\<forall>g n. rtl_referenced v g = Some n \<longrightarrow> (\<exists>d\<in>R. (g, n) \<in> dir_pointers d)) \<and>
     H ` R \<subseteq> insert r (targets R) \<and> rtl_pending v = insert r (targets R) - H ` R"

text \<open>Every directory is the root or is referred to by an earlier one, and no size overflows.\<close>

fun parents_first :: "(cdirectory \<Rightarrow> b3_digest) \<Rightarrow> b3_digest \<Rightarrow> cdirectory set \<Rightarrow> cdirectory list \<Rightarrow> bool" where
  "parents_first H r R [] = True"
| "parents_first H r R (d # ds) =
     (directory_size d \<noteq> None \<and> (H d = r \<or> H d \<in> targets R) \<and> parents_first H r (insert d R) ds)"

definition sizes_consistent :: "(cdirectory \<Rightarrow> b3_digest) \<Rightarrow> cdirectory set \<Rightarrow> bool" where
  "sizes_consistent H R \<longleftrightarrow> (\<forall>d\<in>R. \<forall>(g, n) \<in> dir_pointers d. \<forall>e\<in>R. H e = g \<longrightarrow> directory_size e = Some n)"

lemma rtl_invD:
  assumes "rtl_inv H r R v"
  shows "\<not> rtl_poison v" "rtl_root_digest v = r" "dom (rtl_referenced v) = targets R"
    "rtl_referenced v g = Some n \<Longrightarrow> \<exists>d\<in>R. (g, n) \<in> dir_pointers d"
    "H ` R \<subseteq> insert r (targets R)" "rtl_pending v = insert r (targets R) - H ` R"
  using assms unfolding rtl_inv_def by simp_all

lemma pending_set:
  "A \<subseteq> insert r T \<and> r \<notin> Q \<longrightarrow> (insert r T - A - {h}) \<union> (Q - T - {h}) = insert r (Q \<union> T) - insert h A"
  by blast

lemma rtl_inv_accept:
  assumes inv: "rtl_inv H r R v" and r: "r \<notin> targets (insert d R)" and d: "H d = r \<or> H d \<in> targets R"
    and v': "v' = rtl_introduce_children_of d (v\<lparr>rtl_pending := P\<rparr>)" and P: "P - {H d} = rtl_pending v - {H d}"
  shows "rtl_inv H r (insert d R) (v'\<lparr>rtl_pending := rtl_pending v' - {H d}\<rparr>)"
proof -
  note sp = rtl_introduce_spec [of d "v\<lparr>rtl_pending := P\<rparr>", folded v']
  let ?new = "{g \<in> fst ` dir_pointers d. rtl_referenced v g = None}"
  have new: "?new = fst ` dir_pointers d - targets R" using inv by (auto simp: rtl_inv_def domIff)
  have ref: "\<exists>e\<in>insert d R. (g, n) \<in> dir_pointers e" if "rtl_referenced v' g = Some n" for g n
  proof -
    from that sp have "rtl_referenced (v\<lparr>rtl_pending := P\<rparr>) g = Some n \<or> (g, n) \<in> dir_pointers d" by blast
    then show ?thesis using rtl_invD(4) [OF inv, of g n] by auto
  qed
  have sub: "H ` insert d R \<subseteq> insert r (targets (insert d R))" using inv d by (auto simp: rtl_inv_def)
  have "rtl_pending v' - {H d} = (rtl_pending v - {H d}) \<union> (fst ` dir_pointers d - targets R - {H d})"
    using sp P new by auto
  also have "\<dots> = insert r (targets (insert d R)) - H ` insert d R"
  proof -
    note rtl_invD(5,6) [OF inv]
    moreover have "r \<notin> fst ` dir_pointers d" using r by simp
    ultimately show ?thesis
      using pending_set [of "H ` R" r "targets R" "fst ` dir_pointers d" "H d"] by (simp only: targets_simps image_insert simp_thms)
  qed
  finally show ?thesis using sp ref sub inv unfolding rtl_inv_def by (simp add: Un_commute [of "targets R"])
qed

lemma rtl_try_accept_step:
  assumes inv: "rtl_inv H r R v" and r: "r \<notin> targets (insert d R)"
  shows "case rtl_try_accept H v d of
     (Inr _, v') \<Rightarrow> parents_first H r R [d] \<and> rtl_inv H r (insert d R) v'
   | (Inl e, _) \<Rightarrow> \<not> (parents_first H r R [d] \<and> sizes_consistent H (insert d R)) \<and> (e = OrdPanic \<longrightarrow> directory_size d = None)"
proof (cases "directory_size d")
  case None
  then show ?thesis by (simp add: rtl_try_accept_def)
next
  case (Some n)
  have np: "\<not> rtl_poison v" and root: "rtl_root_digest v = r" and dom: "dom (rtl_referenced v) = targets R"
    using inv by (simp_all add: rtl_inv_def)
  show ?thesis
  proof (cases "rtl_referenced v (H d)")
    case None
    have "H d \<notin> targets R" using None dom by auto
    show ?thesis
    proof (cases "H d = r")
      case True
      let ?v = "rtl_introduce_children_of d v"
      have "rtl_inv H r (insert d R) (?v\<lparr>rtl_pending := rtl_pending ?v - {H d}\<rparr>)"
        by (rule rtl_inv_accept [OF inv r, where P = "rtl_pending v"]) (simp_all add: True)
      moreover have "rtl_try_accept H v d = (Inr (), ?v\<lparr>rtl_pending := rtl_pending ?v - {H d}\<rparr>)"
        using None np Some root True rtl_introduce_spec [of d v] by (simp add: rtl_try_accept_def Let_def)
      ultimately show ?thesis using Some True by simp
    next
      case False
      then show ?thesis using None np Some root \<open>H d \<notin> targets R\<close> by (simp add: rtl_try_accept_def)
    qed
  next
    case ref: (Some s)
    then have t: "H d \<in> targets R" using dom by blast
    obtain e where e: "e \<in> R" "(H d, s) \<in> dir_pointers e" using rtl_invD(4) [OF inv ref] by blast
    let ?v = "rtl_introduce_children_of d (v\<lparr>rtl_pending := rtl_pending v - {H d}\<rparr>)"
    have "rtl_pending ?v = (rtl_pending v - {H d}) \<union> {g \<in> fst ` dir_pointers d. rtl_referenced v g = None}"
      using rtl_introduce_spec [of d "v\<lparr>rtl_pending := rtl_pending v - {H d}\<rparr>", THEN conjunct2, THEN conjunct2, THEN conjunct1]
      by simp
    then have "H d \<notin> rtl_pending ?v" using ref by simp
    then have "rtl_pending ?v - {H d} = rtl_pending ?v" by blast
    moreover have "rtl_inv H r (insert d R) (?v\<lparr>rtl_pending := rtl_pending ?v - {H d}\<rparr>)"
      by (rule rtl_inv_accept [OF inv r, where P = "rtl_pending v - {H d}"]) (use t in auto)
    ultimately have inv': "rtl_inv H r (insert d R) ?v" by simp
    show ?thesis
    proof (cases "s = n")
      case True
      then show ?thesis using ref np Some inv' t by (simp add: rtl_try_accept_def Let_def)
    next
      case False
      then have "\<not> sizes_consistent H (insert d R)" using e Some unfolding sizes_consistent_def by fastforce
      then show ?thesis using ref np Some False by (simp add: rtl_try_accept_def)
    qed
  qed
qed

lemma sizes_consistent_mono: "sizes_consistent H R \<Longrightarrow> S \<subseteq> R \<Longrightarrow> sizes_consistent H S"
  unfolding sizes_consistent_def by blast

lemma rtl_stream_spec:
  assumes "rtl_inv H r R v" "r \<notin> targets (R \<union> set ds)"
  defines "closed \<equiv> insert r (targets (R \<union> set ds)) \<subseteq> H ` (R \<union> set ds)"
  shows "(rtl_stream H v ds = (ds, Inr ()) \<longrightarrow> parents_first H r R ds \<and> closed) \<and>
    (sizes_consistent H (R \<union> set ds) \<and> parents_first H r R ds \<and> closed \<longrightarrow> rtl_stream H v ds = (ds, Inr ())) \<and>
    (snd (rtl_stream H v ds) = Inl OrdPanic \<longrightarrow> (\<exists>d\<in>set ds. directory_size d = None))"
  using assms(1,2) unfolding closed_def
proof (induction ds arbitrary: R v)
  case Nil
  then have "rtl_pending v = insert r (targets R) - H ` R" by (simp add: rtl_inv_def)
  then show ?case by (auto simp: rtl_finalize_def)
next
  case (Cons d ds)
  have U: "insert d R \<union> set ds = R \<union> set (d # ds)" by auto
  have "r \<notin> targets (insert d R)" using Cons.prems(2) by (auto simp: targets_def)
  note step = rtl_try_accept_step [OF Cons.prems(1) this]
  obtain x v1 where t: "rtl_try_accept H v d = (x, v1)" by fastforce
  show ?case
  proof (cases x)
    case (Inl e)
    have "sizes_consistent H (R \<union> set (d # ds)) \<Longrightarrow> sizes_consistent H (insert d R)"
      by (rule sizes_consistent_mono) auto
    then show ?thesis using step t Inl by auto
  next
    case (Inr u)
    then have inv: "rtl_inv H r (insert d R) v1" and pf: "parents_first H r R [d]" using step t by auto
    define C S where "C \<longleftrightarrow> insert r (targets (R \<union> set (d # ds))) \<subseteq> H ` (R \<union> set (d # ds))"
      and "S \<longleftrightarrow> sizes_consistent H (R \<union> set (d # ds))"
    obtain ys rr where rec: "rtl_stream H v1 ds = (ys, rr)" by fastforce
    have eq: "rtl_stream H v (d # ds) = (d # ys, rr)" using t Inr rec by simp
    note ih = Cons.IH [OF inv, unfolded U, OF Cons.prems(2), folded C_def S_def, unfolded rec]
    have pfeq: "parents_first H r R (d # ds) \<longleftrightarrow> parents_first H r (insert d R) ds" using pf by simp
    have e1: "(d # ys, rr) = (d # ds, Inr ()) \<longleftrightarrow> (ys, rr) = (ds, Inr ())" by simp
    have "snd (d # ys, rr) = Inl OrdPanic \<longrightarrow> (\<exists>d\<in>set (d # ds). directory_size d = None)"
      using ih [THEN conjunct2, THEN conjunct2] by auto
    with ih [THEN conjunct1] ih [THEN conjunct2, THEN conjunct1] show ?thesis
      unfolding eq pfeq C_def [symmetric] S_def [symmetric] e1 by (intro conjI)
  qed
qed

lemma rtl_new_inv: "rtl_inv H r {} (rtl_new r)"
  by (simp add: rtl_inv_def rtl_new_def)

text \<open>
  C14: The root-to-leaves validator yields a whole stream without an error only if every directory is
  the root or referred to by an earlier one, and the closure is complete: the root and every
  directory referred to have been received. Conversely every such stream whose pointers carry the
  right sizes is accepted. The only panic is a directory whose size overflows. No directory of the
  stream points back to the root, as a digest that contains itself would.
\<close>

theorem rtl_validate_stream_spec:
  assumes "r \<notin> targets (set ds)"
  shows "(rtl_validate_stream H r ds = (ds, Inr ()) \<longrightarrow>
      parents_first H r {} ds \<and> insert r (targets (set ds)) \<subseteq> H ` set ds) \<and>
    (sizes_consistent H (set ds) \<and> parents_first H r {} ds \<and> insert r (targets (set ds)) \<subseteq> H ` set ds \<longrightarrow>
      rtl_validate_stream H r ds = (ds, Inr ())) \<and>
    (snd (rtl_validate_stream H r ds) = Inl OrdPanic \<longrightarrow> (\<exists>d\<in>set ds. directory_size d = None))"
  using rtl_stream_spec [OF rtl_new_inv [of H r], of ds] assms unfolding rtl_validate_stream_def Un_empty_left by blast

theorem rtl_validate_stream_spec_witness:
  "rtl_validate_stream (\<lambda>d. if d = [] then ''x'' else ''y'') ''y'' [parent_dir ''x'', leaf_dir] =
     ([parent_dir ''x'', leaf_dir], Inr ())"
proof -
  let ?H = "\<lambda>d :: cdirectory. if d = [] then ''x'' else ''y''" and ?ds = "[parent_dir ''x'', leaf_dir]"
  have "sizes_consistent ?H (set ?ds)"
    by (auto simp: sizes_consistent_def parent_dir_def leaf_dir_def directory_size_eq U64_MAX_def)
  moreover have "parents_first ?H ''y'' {} ?ds"
    by (simp add: parent_dir_def leaf_dir_def directory_size_eq U64_MAX_def)
  moreover have "insert ''y'' (targets (set ?ds)) \<subseteq> ?H ` set ?ds" "''y'' \<notin> targets (set ?ds)"
    by (auto simp: parent_dir_def leaf_dir_def)
  ultimately show ?thesis using rtl_validate_stream_spec [of "''y''" ?ds ?H] by blast
qed

definition lying_root :: "b3_digest \<Rightarrow> cdirectory" where
  "lying_root g = [(''a'', CDirectory g 5), (''b'', CDirectory g 0)]"

text \<open>
  A pointer with a wrong size can go unnoticed: a later pointer to the same directory replaces
  the recorded size, so a stream is accepted although the root claims a size its child does not
  have. The digests of the two directories only have to differ.
\<close>

theorem rtl_accepts_wrong_size:
  assumes "H (lying_root (H leaf_dir)) \<noteq> H leaf_dir"
  defines "root \<equiv> lying_root (H leaf_dir)"
  shows "rtl_validate_stream H (H root) [root, leaf_dir] = ([root, leaf_dir], Inr ()) \<and>
    (H leaf_dir, 5) \<in> dir_pointers root \<and> directory_size leaf_dir = Some 0"
proof -
  have sz: "directory_size root = Some 9" "directory_size [] = Some 0"
    by (simp_all add: root_def lying_root_def directory_size_eq U64_MAX_def)
  have ne: "H root \<noteq> H []" using assms by (simp add: leaf_dir_def)
  have "root = [(''a'', CDirectory (H []) 5), (''b'', CDirectory (H []) 0)]"
    by (simp add: root_def lying_root_def leaf_dir_def)
  then have intro: "rtl_introduce_children_of root v =
      v\<lparr>rtl_referenced := (rtl_referenced v)(H [] \<mapsto> 0),
        rtl_pending := (if rtl_referenced v (H []) = None then insert (H []) (rtl_pending v) else rtl_pending v)\<rparr>" for v
    by simp
  let ?v = "\<lparr>rtl_root_digest = H root, rtl_referenced = [H [] \<mapsto> 0], rtl_pending = {H []}, rtl_poison = False\<rparr>"
  have 1: "rtl_try_accept H (rtl_new (H root)) root = (Inr (), ?v)"
    using ne sz(1) by (simp add: rtl_try_accept_def rtl_new_def intro Let_def insert_Diff_if)
  have 2: "rtl_try_accept H ?v [] = (Inr (), ?v\<lparr>rtl_pending := {}\<rparr>)"
    using sz(2) by (simp add: rtl_try_accept_def)
  have "(H leaf_dir, 5) \<in> dir_pointers root" by (simp add: root_def lying_root_def)
  then show ?thesis using 1 2 sz(2) by (simp add: rtl_validate_stream_def leaf_dir_def rtl_finalize_def)
qed

theorem rtl_accepts_wrong_size_witness:
  "fst (rtl_validate_stream (\<lambda>d. if d = [] then ''x'' else ''y'') ''y'' [lying_root ''x'', leaf_dir]) = [lying_root ''x'', leaf_dir]"
  using rtl_accepts_wrong_size [of "\<lambda>d. if d = [] then ''x'' else ''y''"] by (simp add: leaf_dir_def lying_root_def)

end
