(* ===== verification/Ingest.thy ===== *)
theory Ingest
  imports OrderValidator "HOL-Library.Multiset"
begin

text \<open>
  Ingestion of a stream of entries into the store, \<^verbatim>\<open>castore/src/import/mod.rs\<close>. The directory
  putter that receives finished directories is a parameter (\<open>start\<close>, \<open>put\<close>, \<open>close\<close>), as the trait is
  in the code; the digest of a directory is the parameter \<open>H\<close>. The stream is a list of results of
  the producer. Failed assertions are the error \<open>IngestPanic\<close>, as in a build with debug assertions.
  The putter is returned with the result, so that what it has received can be stated.
\<close>

datatype (plugins only: code size) ('e, 'u) ingestion_error =
    Producer 'e
  | IngestInvalidSymlinkTarget castore_path symlink_target_error
  | UploadDirectoryError castore_path 'u
  | ConstructDirectoryError castore_path directory_error
  | FinalizeDirectoryUpload 'u
  | UnexpectedEndOfStream
  | IngestPanic

datatype (plugins only: code size) ingestion_entry =
    IRegular castore_path nat bool b3_digest
  | ISymlink castore_path string
  | IDir castore_path

record 'p ingest_state =
  ing_directories :: "castore_path \<rightharpoonup> cdirectory"
  ing_putter :: "'p option"
  ing_sent :: "b3_digest set"

definition ingest_directory ::
  "(cdirectory \<Rightarrow> b3_digest) \<Rightarrow> 'p \<Rightarrow> ('p \<Rightarrow> cdirectory \<Rightarrow> ('u, 'p) res) \<Rightarrow> 'p ingest_state \<Rightarrow> castore_path \<Rightarrow>
   (('e, 'u) ingestion_error, cnode \<times> 'p ingest_state) res" where
  "ingest_directory H start put st path =
     (let directory = (case ing_directories st path of None \<Rightarrow> [] | Some d \<Rightarrow> d);
          st = st\<lparr>ing_directories := (ing_directories st)(path := None)\<rparr>
      in case directory_size directory of
           None \<Rightarrow> Inl IngestPanic
         | Some dsize \<Rightarrow>
             (let directory_digest = H directory;
                  directory_putter = (case ing_putter st of None \<Rightarrow> start | Some p \<Rightarrow> p);
                  node = CDirectory directory_digest dsize
              in if directory_digest \<in> ing_sent st then Inr (node, st\<lparr>ing_putter := Some directory_putter\<rparr>)
                 else case put directory_putter directory of
                        Inl e \<Rightarrow> Inl (UploadDirectoryError path e)
                      | Inr directory_putter \<Rightarrow>
                          Inr (node, st\<lparr>ing_putter := Some directory_putter,
                                        ing_sent := insert directory_digest (ing_sent st)\<rparr>)))"

fun ingest_entry_node ::
  "(cdirectory \<Rightarrow> b3_digest) \<Rightarrow> 'p \<Rightarrow> ('p \<Rightarrow> cdirectory \<Rightarrow> ('u, 'p) res) \<Rightarrow> 'p ingest_state \<Rightarrow> ingestion_entry \<Rightarrow>
   (('e, 'u) ingestion_error, castore_path \<times> cnode \<times> 'p ingest_state) res" where
  "ingest_entry_node H start put st (IDir path) =
     map_ok (\<lambda>(node, st). (path, node, st)) (ingest_directory H start put st path)"
| "ingest_entry_node H start put st (ISymlink path target) =
     map_ok (\<lambda>target. (path, CSymlink target, st))
       (map_err (IngestInvalidSymlinkTarget path) (symlink_target_try_from target))"
| "ingest_entry_node H start put st (IRegular path fsize executable digest) =
     Inr (path, CFile digest fsize executable, st)"

text \<open>Record a node in its parent; a node of a single component is the root and ends the loop.\<close>

definition ingest_record ::
  "'p ingest_state \<Rightarrow> castore_path \<Rightarrow> cnode \<Rightarrow> (('e, 'u) ingestion_error, cnode option \<times> 'p ingest_state) res" where
  "ingest_record st path node =
     (case path_parent path of
        None \<Rightarrow> Inl IngestPanic
      | Some parent \<Rightarrow>
          if parent = path_ROOT then Inr (Some node, st)
          else case path_file_name path of
                 None \<Rightarrow> Inl IngestPanic
               | Some name \<Rightarrow>
                   rbind (map_err (ConstructDirectoryError path)
                       (directory_add (case ing_directories st parent of None \<Rightarrow> [] | Some d \<Rightarrow> d) name node))
                     (\<lambda>d. Inr (None, st\<lparr>ing_directories := (ing_directories st)(parent \<mapsto> d)\<rparr>)))"

fun ingest_loop ::
  "(cdirectory \<Rightarrow> b3_digest) \<Rightarrow> 'p \<Rightarrow> ('p \<Rightarrow> cdirectory \<Rightarrow> ('u, 'p) res) \<Rightarrow> 'p ingest_state \<Rightarrow>
   ('e, ingestion_entry) res list \<Rightarrow>
   (('e, 'u) ingestion_error, cnode \<times> 'p ingest_state \<times> ('e, ingestion_entry) res list) res" where
  "ingest_loop H start put st [] = Inl UnexpectedEndOfStream"
| "ingest_loop H start put st (Inl e # entries) = Inl (Producer e)"
| "ingest_loop H start put st (Inr entry # entries) =
     (case ingest_entry_node H start put st entry of
        Inl e \<Rightarrow> Inl e
      | Inr (path, node, st) \<Rightarrow>
          (case ingest_record st path node of
             Inl e \<Rightarrow> Inl e
           | Inr (Some root_node, st) \<Rightarrow> Inr (root_node, st, entries)
           | Inr (None, st) \<Rightarrow> ingest_loop H start put st entries))"

definition ingest_entries ::
  "(cdirectory \<Rightarrow> b3_digest) \<Rightarrow> 'p \<Rightarrow> ('p \<Rightarrow> cdirectory \<Rightarrow> ('u, 'p) res) \<Rightarrow> ('p \<Rightarrow> ('u, b3_digest) res) \<Rightarrow>
   ('e, ingestion_entry) res list \<Rightarrow> (('e, 'u) ingestion_error, cnode \<times> 'p option) res" where
  "ingest_entries H start put close entries =
     rbind (ingest_loop H start put \<lparr>ing_directories = Map.empty, ing_putter = None, ing_sent = {}\<rparr> entries)
       (\<lambda>(root_node, st, rest).
          if rest \<noteq> [] then Inl IngestPanic
          else if ing_directories st \<noteq> Map.empty then Inl IngestPanic
          else case ing_putter st of
                 None \<Rightarrow> Inr (root_node, None)
               | Some directory_putter \<Rightarrow>
                   (case close directory_putter of
                      Inl e \<Rightarrow> Inl (FinalizeDirectoryUpload e)
                    | Inr root_directory_digest \<Rightarrow>
                        (case root_node of
                           CDirectory digest _ \<Rightarrow>
                             if root_directory_digest = digest then Inr (root_node, Some directory_putter)
                             else Inl IngestPanic
                         | _ \<Rightarrow> Inl IngestPanic)))"

section \<open>Trees of files\<close>

datatype (plugins only: code size) fs_tree =
    FsFile b3_digest nat bool
  | FsSymlink string
  | FsDir "(path_component \<times> fs_tree) list"

text \<open>The entries of a tree, children before their parents, as the producers send them.\<close>

fun fs_entries :: "path_component list \<Rightarrow> fs_tree \<Rightarrow> ingestion_entry list" where
  "fs_entries cs (FsFile g n ex) = [IRegular (path_rep cs) n ex g]"
| "fs_entries cs (FsSymlink t) = [ISymlink (path_rep cs) t]"
| "fs_entries cs (FsDir es) = concat (map (\<lambda>e. fs_entries (cs @ [fst e]) (snd e)) es) @ [IDir (path_rep cs)]"

text \<open>The node of a tree, and the directory made of its entries.\<close>

fun fs_node :: "(cdirectory \<Rightarrow> b3_digest) \<Rightarrow> fs_tree \<Rightarrow> cnode" where
  "fs_node H (FsFile g n ex) = CFile g n ex"
| "fs_node H (FsSymlink t) = CSymlink t"
| "fs_node H (FsDir es) =
     (let d = sort_key fst (map (\<lambda>e. (fst e, fs_node H (snd e))) es)
      in CDirectory (H d) (the (directory_size d)))"

definition fs_dir :: "(cdirectory \<Rightarrow> b3_digest) \<Rightarrow> (path_component \<times> fs_tree) list \<Rightarrow> cdirectory" where
  "fs_dir H es = sort_key fst (map (\<lambda>e. (fst e, fs_node H (snd e))) es)"

fun fs_dirs :: "(cdirectory \<Rightarrow> b3_digest) \<Rightarrow> fs_tree \<Rightarrow> cdirectory set" where
  "fs_dirs H (FsDir es) = insert (fs_dir H es) (\<Union>e\<in>set es. fs_dirs H (snd e))"
| "fs_dirs H _ = {}"

fun fs_wf :: "(cdirectory \<Rightarrow> b3_digest) \<Rightarrow> fs_tree \<Rightarrow> bool" where
  "fs_wf H (FsFile g n ex) = True"
| "fs_wf H (FsSymlink t) \<longleftrightarrow> validate_symlink_target t = Inr t"
| "fs_wf H (FsDir es) \<longleftrightarrow>
     distinct (map fst es) \<and> list_all pc_ok (map fst es) \<and> directory_size (fs_dir H es) \<noteq> None \<and>
     (\<forall>e\<in>set es. fs_wf H (snd e))"

lemma fs_node_dir: "fs_node H (FsDir es) = CDirectory (H (fs_dir H es)) (the (directory_size (fs_dir H es)))"
  by (simp add: fs_dir_def Let_def)

declare fs_node.simps(3) [simp del]

lemma fs_dir_set: "set (fs_dir H es) = (\<lambda>e. (fst e, fs_node H (snd e))) ` set es"
  by (simp add: fs_dir_def)

lemma fs_dir_names: "fst ` set (fs_dir H es) = fst ` set es"
  by (simp add: fs_dir_set image_image)

lemma fs_dir_sorted: "distinct (map fst es) \<Longrightarrow> btree_sorted (<) (fs_dir H es)"
proof -
  assume d: "distinct (map fst es)"
  have "sorted (map fst (fs_dir H es))" by (simp add: fs_dir_def)
  moreover have "distinct (map fst (sort_key fst ys)) \<longleftrightarrow> distinct (map fst ys)" for ys :: cdirectory
    by (simp add: distinct_map)
  then have "distinct (map fst (fs_dir H es))" using d by (simp add: fs_dir_def comp_def)
  ultimately show ?thesis unfolding btree_sorted_def by (simp add: strict_sorted_iff)
qed


lemma fs_dir_snoc:
  assumes "distinct (map fst (es @ [(n, t)]))"
  shows "btree_put (<) n (fs_node H t) (fs_dir H es) = fs_dir H (es @ [(n, t)])"
proof (rule sorted_unique)
  have s: "btree_sorted (<) (fs_dir H es)" using assms by (simp add: fs_dir_sorted)
  then show "btree_sorted (<) (btree_put (<) n (fs_node H t) (fs_dir H es))" by (rule byte_order.insert_sorted)
  show "btree_sorted (<) (fs_dir H (es @ [(n, t)]))" using assms by (rule fs_dir_sorted)
  have "n \<notin> fst ` set (fs_dir H es)" using assms by (simp add: fs_dir_names)
  from btree_insert_fresh(1) [OF s this] show "set (btree_put (<) n (fs_node H t) (fs_dir H es)) = set (fs_dir H (es @ [(n, t)]))"
    by (simp add: fs_dir_set)
qed

lemma dir_total_fs_dir: "dir_total (fs_dir H es) = length es + sum_list (map (\<lambda>e. node_dir_size (fs_node H (snd e))) es)"
proof -
  have "mset (map (node_dir_size \<circ> snd) (sort_key fst ys)) = mset (map (node_dir_size \<circ> snd) ys)" for ys :: cdirectory
    by simp
  then have "sum_list (map (node_dir_size \<circ> snd) (sort_key fst ys)) = sum_list (map (node_dir_size \<circ> snd) ys)" for ys :: cdirectory
    by (metis sum_mset_sum_list)
  then show ?thesis by (simp add: dir_total_def fs_dir_def comp_def)
qed

lemma length_fs_dir [simp]: "length (fs_dir H es) = length es"
  by (simp add: fs_dir_def)

text \<open>Adding the entries one after the other succeeds if the whole directory has a size.\<close>

lemma directory_add_fs_dir:
  assumes "distinct (map fst (es @ (n, t) # es'))" "directory_size (fs_dir H (es @ (n, t) # es')) \<noteq> None"
  shows "directory_add (fs_dir H es) n (fs_node H t) = Inr (fs_dir H (es @ [(n, t)]))"
proof -
  let ?d = "fs_dir H es"
  have s: "btree_sorted (<) ?d" using assms(1) by (intro fs_dir_sorted) simp
  have fresh: "n \<notin> fst ` set ?d" using assms(1) by (simp add: fs_dir_names)
  have bound: "length ?d + dir_total ?d + 1 + node_dir_size (fs_node H t) \<le> U64_MAX"
    using assms(2) by (simp add: directory_size_eq dir_total_fs_dir split: if_splits)
  then have "check_insert_node (length ?d + dir_total ?d) ?d n (fs_node H t) =
      Inr (length ?d + dir_total ?d + 1 + node_dir_size (fs_node H t), btree_put (<) n (fs_node H t) ?d)"
    using fresh s by (simp add: check_insert_node_iff)
  moreover have "directory_size ?d = Some (length ?d + dir_total ?d)" using bound by (simp add: directory_size_eq)
  ultimately show ?thesis
    using fs_dir_snoc [of es n t H] assms(1) by (simp add: directory_add_def ok_or_def)
qed


lemma path_rep_inj: "list_all pc_ok cs \<Longrightarrow> list_all pc_ok ds \<Longrightarrow> path_rep cs = path_rep ds \<longleftrightarrow> cs = ds"
  using path_components_rep by metis

section \<open>The putter\<close>

text \<open>
  What the ingestion relies on: a putter that has received \<open>log p\<close> takes another directory if it
  refers to received ones only, and when it is closed reports the only directory no other one
  refers to.
\<close>

locale directory_putter =
  fixes H :: "cdirectory \<Rightarrow> b3_digest"
    and start :: 'p
    and put :: "'p \<Rightarrow> cdirectory \<Rightarrow> ('u, 'p) res"
    and close :: "'p \<Rightarrow> ('u, b3_digest) res"
    and log :: "'p \<Rightarrow> cdirectory list"
    and inv :: "'p \<Rightarrow> bool"
  assumes start: "inv start \<and> log start = []"
    and put: "inv p \<Longrightarrow> inj_on H (set (log p @ [d])) \<Longrightarrow> children_first H {} (log p @ [d]) \<Longrightarrow>
      \<exists>p'. put p d = Inr p' \<and> inv p' \<and> log p' = log p @ [d]"
    and close: "inv p \<Longrightarrow> inj_on H (set (log p)) \<Longrightarrow> single_root H (set (log p)) \<Longrightarrow>
      g \<in> H ` set (log p) \<Longrightarrow> g \<notin> targets (set (log p)) \<Longrightarrow> close p = Inr g"
begin

text \<open>The ingestion state when the directories \<open>L\<close> have been uploaded.\<close>

definition ing_ok :: "cdirectory list \<Rightarrow> 'p ingest_state \<Rightarrow> bool" where
  "ing_ok L st \<longleftrightarrow>
     ing_sent st = H ` set L \<and> children_first H {} L \<and> distinct L \<and>
     (case ing_putter st of None \<Rightarrow> L = [] | Some p \<Rightarrow> inv p \<and> log p = L)"

lemma ingest_directory_ok:
  assumes ok: "ing_ok L st" and inj: "inj_on H (insert d (set L))"
    and d: "(case ing_directories st path of None \<Rightarrow> [] | Some d \<Rightarrow> d) = d" and n: "directory_size d = Some n"
    and ptr: "\<forall>(g, m) \<in> dir_pointers d. \<exists>r\<in>set L. g = H r \<and> directory_size r = Some m"
  shows "\<exists>st' L'. ingest_directory H start put st path = Inr (CDirectory (H d) n, st') \<and> ing_ok L' st' \<and>
     set L' = insert d (set L) \<and> ing_directories st' = (ing_directories st)(path := None) \<and> ing_putter st' \<noteq> None"
proof -
  let ?st = "st\<lparr>ing_directories := (ing_directories st)(path := None)\<rparr>"
  let ?p = "case ing_putter st of None \<Rightarrow> start | Some p \<Rightarrow> p"
  have p: "inv ?p" "log ?p = L" using ok start by (auto simp: ing_ok_def split: option.splits)
  show ?thesis
  proof (cases "H d \<in> H ` set L")
    case True
    then have "d \<in> set L" using inj by (auto simp: inj_on_def)
    then have "ing_ok L (?st\<lparr>ing_putter := Some ?p\<rparr>)" "set L = insert d (set L)"
      using ok p by (auto simp: ing_ok_def)
    moreover have "ingest_directory H start put st path = Inr (CDirectory (H d) n, ?st\<lparr>ing_putter := Some ?p\<rparr>)"
      using True ok d n by (simp add: ingest_directory_def ing_ok_def Let_def)
    ultimately show ?thesis by (intro exI [of _ "?st\<lparr>ing_putter := Some ?p\<rparr>"] exI [of _ L]) simp
  next
    case False
    have cf: "children_first H {} (log ?p @ [d])"
      using ok ptr n unfolding p(2) by (simp add: ing_ok_def children_first_append)
    have "inj_on H (set (log ?p @ [d]))" using inj unfolding p(2) by simp
    from put [OF p(1) this cf] obtain p' where p': "put ?p d = Inr p'" "inv p'" "log p' = L @ [d]"
      unfolding p(2) by blast
    let ?st' = "?st\<lparr>ing_putter := Some p', ing_sent := insert (H d) (ing_sent st)\<rparr>"
    have "ing_ok (L @ [d]) ?st'"
      using ok p' cf False unfolding p(2) by (auto simp: ing_ok_def)
    moreover have "ingest_directory H start put st path = Inr (CDirectory (H d) n, ?st')"
      using False ok d n p' by (simp add: ingest_directory_def ing_ok_def Let_def)
    ultimately show ?thesis by (intro exI [of _ ?st'] exI [of _ "L @ [d]"]) simp
  qed
qed

text \<open>The entries of a tree below the root, read off a stream, add its node to its parent.\<close>

definition runs :: "'e itself \<Rightarrow> fs_tree \<Rightarrow> bool" where
  "runs (_ :: 'e itself) t \<longleftrightarrow> (\<forall>cs n st L d' rest.
     cs \<noteq> [] \<longrightarrow> list_all pc_ok (cs @ [n]) \<longrightarrow> ing_ok L st \<longrightarrow> inj_on H (set L \<union> fs_dirs H t) \<longrightarrow>
     (\<forall>ms. list_all pc_ok ms \<longrightarrow> ing_directories st (path_rep (cs @ n # ms)) = None) \<longrightarrow>
     directory_add (case ing_directories st (path_rep cs) of None \<Rightarrow> [] | Some d \<Rightarrow> d) n (fs_node H t) = Inr d' \<longrightarrow>
     (\<exists>st' L'. ingest_loop H start put st (map Inr (fs_entries (cs @ [n]) t) @ rest) =
          (ingest_loop H start put st' rest
            :: (('e, 'u) ingestion_error, cnode \<times> 'p ingest_state \<times> ('e, ingestion_entry) res list) res) \<and>
        ing_ok L' st' \<and> set L' = set L \<union> fs_dirs H t \<and>
        ing_directories st' = (ing_directories st)(path_rep cs \<mapsto> d')))"

lemma ingest_record_below:
  assumes "cs \<noteq> []" "list_all pc_ok (cs @ [n])"
    "directory_add (case ing_directories st (path_rep cs) of None \<Rightarrow> [] | Some d \<Rightarrow> d) n node = Inr d'"
  shows "ingest_record st (path_rep (cs @ [n])) node =
     Inr (None, st\<lparr>ing_directories := (ing_directories st)(path_rep cs \<mapsto> d')\<rparr>)"
proof -
  have ok: "list_all pc_ok cs" using assms(2) by simp
  have "path_parent (path_rep (cs @ [n])) = Some (path_rep cs)" using path_parent_rep [OF assms(2)] by simp
  moreover have "path_rep cs \<noteq> path_ROOT" using path_rep_Nil_iff [OF ok] assms(1) by (simp add: path_ROOT_def)
  moreover have "path_file_name (path_rep (cs @ [n])) = Some n"
    using path_components_rep [OF assms(2)] by (simp add: path_file_name_def Let_def)
  ultimately show ?thesis using assms(3) by (simp add: ingest_record_def)
qed

lemma children_run:
  assumes "\<forall>e\<in>set es2. runs TYPE('e) (snd e)" "q \<noteq> []" "list_all pc_ok q" "distinct (map fst (es1 @ es2))"
    "list_all pc_ok (map fst es2)" "directory_size (fs_dir H (es1 @ es2)) \<noteq> None"
    "ing_ok L st" "inj_on H (set L \<union> (\<Union>e\<in>set es2. fs_dirs H (snd e)))"
    "\<forall>ms. list_all pc_ok ms \<longrightarrow> ms \<noteq> [] \<longrightarrow> ing_directories st (path_rep (q @ ms)) = None"
    "ing_directories st (path_rep q) = (if es1 = [] then None else Some (fs_dir H es1))"
  shows "\<exists>st' L'. ingest_loop H start put st (map Inr (concat (map (\<lambda>e. fs_entries (q @ [fst e]) (snd e)) es2)) @ rest) =
        (ingest_loop H start put st' rest
          :: (('e, 'u) ingestion_error, cnode \<times> 'p ingest_state \<times> ('e, ingestion_entry) res list) res) \<and>
     ing_ok L' st' \<and> set L' = set L \<union> (\<Union>e\<in>set es2. fs_dirs H (snd e)) \<and>
     ing_directories st' = (ing_directories st)(path_rep q := (if es1 @ es2 = [] then None else Some (fs_dir H (es1 @ es2))))"
  using assms
proof (induction es2 arbitrary: es1 st L)
  case Nil
  then have "(ing_directories st)(path_rep q := (if es1 @ [] = [] then None else Some (fs_dir H (es1 @ [])))) = ing_directories st"
    by (auto simp: fun_eq_iff)
  then show ?case using Nil.prems by auto
next
  case (Cons e es2)
  obtain n t where e: "e = (n, t)" by fastforce
  let ?add = "fs_dir H (es1 @ [(n, t)])"
  have ok: "list_all pc_ok (q @ [n])" using Cons.prems(3,5) e by simp
  have empty: "fs_dir H [] = []" by (simp add: fs_dir_def)
  have "(case ing_directories st (path_rep q) of None \<Rightarrow> [] | Some d \<Rightarrow> d) = fs_dir H es1"
    using Cons.prems(10) empty by simp
  then have add: "directory_add (case ing_directories st (path_rep q) of None \<Rightarrow> [] | Some d \<Rightarrow> d) n (fs_node H t) = Inr ?add"
    using directory_add_fs_dir [of es1 n t es2 H] Cons.prems(4,6) e by simp
  have fresh: "\<forall>ms. list_all pc_ok ms \<longrightarrow> ing_directories st (path_rep (q @ n # ms)) = None"
    using Cons.prems(9) [rule_format, of "n # ms" for ms] ok by simp
  have inj: "inj_on H (set L \<union> fs_dirs H t)" by (rule inj_on_subset [OF Cons.prems(8)]) (use e in auto)
  have "runs TYPE('e) t" using Cons.prems(1) e by simp
  from this [unfolded runs_def, rule_format, OF Cons.prems(2) ok Cons.prems(7) inj _ add,
      of "map Inr (concat (map (\<lambda>e. fs_entries (q @ [fst e]) (snd e)) es2)) @ rest"] fresh
  obtain st1 L1 where r1: "ingest_loop H start put st (map Inr (fs_entries (q @ [n]) t) @
        map Inr (concat (map (\<lambda>e. fs_entries (q @ [fst e]) (snd e)) es2)) @ rest) =
      (ingest_loop H start put st1 (map Inr (concat (map (\<lambda>e. fs_entries (q @ [fst e]) (snd e)) es2)) @ rest)
        :: (('e, 'u) ingestion_error, cnode \<times> 'p ingest_state \<times> ('e, ingestion_entry) res list) res)"
    and L1: "ing_ok L1 st1" "set L1 = set L \<union> fs_dirs H t"
    and d1: "ing_directories st1 = (ing_directories st)(path_rep q \<mapsto> ?add)" by blast
  have "\<exists>st' L'. ingest_loop H start put st1 (map Inr (concat (map (\<lambda>e. fs_entries (q @ [fst e]) (snd e)) es2)) @ rest) =
        (ingest_loop H start put st' rest
          :: (('e, 'u) ingestion_error, cnode \<times> 'p ingest_state \<times> ('e, ingestion_entry) res list) res) \<and>
     ing_ok L' st' \<and> set L' = set L1 \<union> (\<Union>e\<in>set es2. fs_dirs H (snd e)) \<and>
     ing_directories st' = (ing_directories st1)(path_rep q :=
       (if (es1 @ [(n, t)]) @ es2 = [] then None else Some (fs_dir H ((es1 @ [(n, t)]) @ es2))))"
  proof (rule Cons.IH)
    show "\<forall>ms. list_all pc_ok ms \<longrightarrow> ms \<noteq> [] \<longrightarrow> ing_directories st1 (path_rep (q @ ms)) = None"
      using Cons.prems(3,9) d1 path_rep_inj by auto
    show "inj_on H (set L1 \<union> (\<Union>e\<in>set es2. fs_dirs H (snd e)))"
      by (rule inj_on_subset [OF Cons.prems(8)]) (use L1(2) e in auto)
  qed (use Cons.prems L1 d1 e in auto)
  then obtain st2 L2 where "ingest_loop H start put st1 (map Inr (concat (map (\<lambda>e. fs_entries (q @ [fst e]) (snd e)) es2)) @ rest) =
        (ingest_loop H start put st2 rest
          :: (('e, 'u) ingestion_error, cnode \<times> 'p ingest_state \<times> ('e, ingestion_entry) res list) res)"
    "ing_ok L2 st2" "set L2 = set L1 \<union> (\<Union>e\<in>set es2. fs_dirs H (snd e))"
    "ing_directories st2 = (ing_directories st1)(path_rep q := Some (fs_dir H (es1 @ (n, t) # es2)))" by auto
  then show ?case using r1 L1(2) d1 e by (intro exI [of _ st2] exI [of _ L2]) auto
qed

lemma fs_dir_pointers:
  assumes "fs_wf H (FsDir es)" "(g, m) \<in> dir_pointers (fs_dir H es)" "(\<Union>e\<in>set es. fs_dirs H (snd e)) \<subseteq> R"
  shows "\<exists>r\<in>R. g = H r \<and> directory_size r = Some m"
proof -
  obtain name t where e: "(name, t) \<in> set es" "CDirectory g m = fs_node H t"
    using assms(2) by (auto simp: dir_pointers_def fs_dir_set)
  then obtain es2 where t: "t = FsDir es2" by (cases t) auto
  have "\<forall>e\<in>set es. fs_wf H (snd e)" using assms(1) by simp
  from bspec [OF this e(1)] have "fs_wf H (FsDir es2)" using t by (simp del: fs_wf.simps)
  then have "directory_size (fs_dir H es2) = Some m" "g = H (fs_dir H es2)"
    using e(2) t by (auto simp: fs_node_dir)
  moreover have "fs_dir H es2 \<in> fs_dirs H (snd (name, t))" using t by simp
  then have "fs_dir H es2 \<in> R" using UN_upper [OF e(1), of "\<lambda>e. fs_dirs H (snd e)"] assms(3) by blast
  ultimately show ?thesis by blast
qed

text \<open>The children of a directory, followed by the entry of the directory itself.\<close>

lemma dir_run:
  assumes sub: "\<forall>e\<in>set es. runs TYPE('e) (snd e)" and wf: "fs_wf H (FsDir es)" and q: "q \<noteq> []" "list_all pc_ok q"
    and ok: "ing_ok L st" and inj: "inj_on H (set L \<union> fs_dirs H (FsDir es))"
    and free: "\<forall>ms. list_all pc_ok ms \<longrightarrow> ing_directories st (path_rep (q @ ms)) = None"
  shows "\<exists>st1 st2 L'. ingest_loop H start put st (map Inr (fs_entries q (FsDir es)) @ rest) =
        (ingest_loop H start put st1 (Inr (IDir (path_rep q)) # rest)
          :: (('e, 'u) ingestion_error, cnode \<times> 'p ingest_state \<times> ('e, ingestion_entry) res list) res) \<and>
     ingest_directory H start put st1 (path_rep q) =
       (Inr (fs_node H (FsDir es), st2) :: (('e, 'u) ingestion_error, cnode \<times> 'p ingest_state) res) \<and>
     ing_ok L' st2 \<and> set L' = set L \<union> fs_dirs H (FsDir es) \<and> ing_directories st2 = ing_directories st \<and> ing_putter st2 \<noteq> None"
proof -
  let ?D = "\<Union>e\<in>set es. fs_dirs H (snd e)" and ?d = "fs_dir H es"
  have q0: "ing_directories st (path_rep q) = None" using free [rule_format, of "[]"] by simp
  have injD: "inj_on H (set L \<union> ?D)" by (rule inj_on_subset [OF inj]) auto
  obtain st1 L1 where r: "ingest_loop H start put st (map Inr (concat (map (\<lambda>e. fs_entries (q @ [fst e]) (snd e)) es)) @ Inr (IDir (path_rep q)) # rest) =
        (ingest_loop H start put st1 (Inr (IDir (path_rep q)) # rest)
          :: (('e, 'u) ingestion_error, cnode \<times> 'p ingest_state \<times> ('e, ingestion_entry) res list) res)"
    and L1: "ing_ok L1 st1" "set L1 = set L \<union> ?D"
    and d1: "ing_directories st1 = (ing_directories st)(path_rep q := (if es = [] then None else Some ?d))"
    using children_run [OF sub q, of "[]" L st "Inr (IDir (path_rep q)) # rest"] wf ok injD free q0 by auto
  have dir: "(case ing_directories st1 (path_rep q) of None \<Rightarrow> [] | Some d \<Rightarrow> d) = ?d"
    using d1 by (auto simp: fs_dir_def)
  obtain n where n: "directory_size ?d = Some n" using wf by auto
  have inj1: "inj_on H (insert ?d (set L1))" by (rule inj_on_subset [OF inj]) (use L1(2) in auto)
  have ptr: "\<forall>(g, m) \<in> dir_pointers ?d. \<exists>r\<in>set L1. g = H r \<and> directory_size r = Some m"
    using fs_dir_pointers [OF wf] L1(2) by blast
  from ingest_directory_ok [OF L1(1) inj1 dir n ptr] obtain st2 L' where
    "ingest_directory H start put st1 (path_rep q) =
       (Inr (CDirectory (H ?d) n, st2) :: (('e, 'u) ingestion_error, cnode \<times> 'p ingest_state) res)"
    "ing_ok L' st2" "set L' = insert ?d (set L1)" "ing_directories st2 = (ing_directories st1)(path_rep q := None)"
    "ing_putter st2 \<noteq> None" by blast
  moreover have "(ing_directories st1)(path_rep q := None) = ing_directories st" using d1 q0 by auto
  ultimately show ?thesis using r n L1(2)
    by (intro exI [of _ st1] exI [of _ st2] exI [of _ L']) (auto simp: fs_node_dir)
qed

lemma tree_runs: "fs_wf H t \<Longrightarrow> runs TYPE('e) t"
proof (induction t)
  case (FsFile g k ex)
  show ?case
    unfolding runs_def
    apply (intro allI impI)
    subgoal for cs n st L d' rest
      by (rule exI [of _ "st\<lparr>ing_directories := (ing_directories st)(path_rep cs \<mapsto> d')\<rparr>"], rule exI [of _ L])
        (simp add: ingest_record_below ing_ok_def)
    done
next
  case (FsSymlink t)
  then show ?case
    unfolding runs_def
    apply (intro allI impI)
    subgoal for cs n st L d' rest
      by (rule exI [of _ "st\<lparr>ing_directories := (ing_directories st)(path_rep cs \<mapsto> d')\<rparr>"], rule exI [of _ L])
        (simp add: ingest_record_below ing_ok_def symlink_target_try_from_def)
    done
next
  case (FsDir es)
  have sub: "\<forall>e\<in>set es. runs TYPE('e) (snd e)" using FsDir by (auto simp: snds.simps)
  show ?case unfolding runs_def
  proof (intro allI impI)
    fix cs n L d' and st :: "'p ingest_state" and rest :: "('e, ingestion_entry) res list"
    assume a: "cs \<noteq> []" "list_all pc_ok (cs @ [n])" "ing_ok L st" "inj_on H (set L \<union> fs_dirs H (FsDir es))"
      "\<forall>ms. list_all pc_ok ms \<longrightarrow> ing_directories st (path_rep (cs @ n # ms)) = None"
      "directory_add (case ing_directories st (path_rep cs) of None \<Rightarrow> [] | Some d \<Rightarrow> d) n (fs_node H (FsDir es)) = Inr d'"
    from dir_run [OF sub FsDir.prems _ a(2,3,4), of rest] a(5) obtain st1 st2 L' where
      r: "ingest_loop H start put st (map Inr (fs_entries (cs @ [n]) (FsDir es)) @ rest) =
        (ingest_loop H start put st1 (Inr (IDir (path_rep (cs @ [n]))) # rest)
          :: (('e, 'u) ingestion_error, cnode \<times> 'p ingest_state \<times> ('e, ingestion_entry) res list) res)"
        "ingest_directory H start put st1 (path_rep (cs @ [n])) =
          (Inr (fs_node H (FsDir es), st2) :: (('e, 'u) ingestion_error, cnode \<times> 'p ingest_state) res)"
      and L': "ing_ok L' st2" "set L' = set L \<union> fs_dirs H (FsDir es)" "ing_directories st2 = ing_directories st"
      by auto
    have add: "directory_add (case ing_directories st2 (path_rep cs) of None \<Rightarrow> [] | Some d \<Rightarrow> d) n (fs_node H (FsDir es)) = Inr d'"
      using a(6) L'(3) by simp
    let ?st = "st2\<lparr>ing_directories := (ing_directories st2)(path_rep cs \<mapsto> d')\<rparr>"
    have "ingest_loop H start put st (map Inr (fs_entries (cs @ [n]) (FsDir es)) @ rest) =
        (ingest_loop H start put ?st rest
          :: (('e, 'u) ingestion_error, cnode \<times> 'p ingest_state \<times> ('e, ingestion_entry) res list) res)"
    proof -
      have "(ingest_record st2 (path_rep (cs @ [n])) (fs_node H (FsDir es))
          :: (('e, 'u) ingestion_error, cnode option \<times> 'p ingest_state) res) = Inr (None, ?st)"
        by (rule ingest_record_below [OF a(1,2) add])
      then show ?thesis unfolding r(1) using r(2) by simp
    qed
    moreover have "ing_ok L' ?st" using L'(1) by (simp add: ing_ok_def)
    ultimately show "\<exists>st' L'. ingest_loop H start put st (map Inr (fs_entries (cs @ [n]) (FsDir es)) @ rest) =
        (ingest_loop H start put st' rest
          :: (('e, 'u) ingestion_error, cnode \<times> 'p ingest_state \<times> ('e, ingestion_entry) res list) res) \<and>
        ing_ok L' st' \<and> set L' = set L \<union> fs_dirs H (FsDir es) \<and>
        ing_directories st' = (ing_directories st)(path_rep cs \<mapsto> d')"
      using L' by (intro exI [of _ ?st] exI [of _ L']) simp
  qed
qed

text \<open>The root directory is uploaded once and is the only one that no directory refers to.\<close>

lemma takeWhile_shorter: "r \<in> set xs \<Longrightarrow> length (takeWhile (\<lambda>x. x \<noteq> r) xs) < length xs"
  by (induction xs) auto

lemma children_first_index:
  assumes "children_first H {} L" "inj_on H (set L)" "d \<in> set L" "(g, m) \<in> dir_pointers d" "r \<in> set L" "H r = g"
  shows "length (takeWhile (\<lambda>x. x \<noteq> r) L) < length (takeWhile (\<lambda>x. x \<noteq> d) L)"
proof -
  obtain xs ys where L: "L = xs @ d # ys" "d \<notin> set xs" using assms(3) by (meson split_list_first)
  have "\<exists>r'\<in>set xs. g = H r'" using assms(1,4) L by (auto simp: children_first_append)
  then have r: "r \<in> set xs" using assms(2,5,6) L by (auto simp: inj_on_def)
  have "length (takeWhile (\<lambda>x. x \<noteq> r) L) < length xs"
    using L(1) takeWhile_shorter [OF r] by (simp add: takeWhile_append1 [OF r])
  moreover have "takeWhile (\<lambda>x. x \<noteq> d) L = xs" unfolding L(1) by (subst takeWhile_append2) (use L(2) in auto)
  ultimately show ?thesis by simp
qed

lemma fs_dirs_below:
  assumes cf: "children_first H {} L" "inj_on H (set L)"
  shows "fs_dirs H t \<subseteq> set L \<Longrightarrow> t = FsDir es \<Longrightarrow> c \<in> (\<Union>e\<in>set es. fs_dirs H (snd e)) \<Longrightarrow>
    length (takeWhile (\<lambda>x. x \<noteq> c) L) < length (takeWhile (\<lambda>x. x \<noteq> fs_dir H es) L) \<and> H c \<in> targets (fs_dirs H t)"
proof (induction t arbitrary: es c)
  case (FsDir es0)
  then obtain e where e: "e \<in> set es" "c \<in> fs_dirs H (snd e)" by blast
  then obtain es2 where s: "snd e = FsDir es2" by (cases "snd e") auto
  let ?d2 = "fs_dir H es2"
  have sub: "fs_dirs H (snd e) \<subseteq> set L" using FsDir.prems(1,2) e(1) by auto
  have d2: "?d2 \<in> set L" "fs_dir H es \<in> set L" using sub s FsDir.prems(1,2) by auto
  obtain m where ptr: "(H ?d2, m) \<in> dir_pointers (fs_dir H es)"
    using e(1) s by (force simp: dir_pointers_def fs_dir_set fs_node_dir)
  note i = children_first_index [OF cf d2(2) ptr d2(1) refl]
  have t2: "H ?d2 \<in> targets (fs_dirs H (FsDir es0))" using ptr FsDir.prems(2) by (force simp: targets_def)
  show ?case
  proof (cases "c = ?d2")
    case True
    then show ?thesis using i t2 by simp
  next
    case False
    then have "c \<in> (\<Union>e\<in>set es2. fs_dirs H (snd e))" using e(2) s by auto
    from FsDir.IH [of e "snd e" es2 c, OF _ _ sub s this] e(1) FsDir.prems(2)
    have "length (takeWhile (\<lambda>x. x \<noteq> c) L) < length (takeWhile (\<lambda>x. x \<noteq> ?d2) L)" "H c \<in> targets (fs_dirs H (snd e))"
      by (auto simp: snds.simps)
    moreover have "targets (fs_dirs H (snd e)) \<subseteq> targets (fs_dirs H (FsDir es0))"
      using e(1) FsDir.prems(2) by (auto simp: targets_def)
    ultimately show ?thesis using i by auto
  qed
qed auto

lemma tree_single_root:
  assumes cf: "children_first H {} L" "inj_on H (set L)" and L: "set L = fs_dirs H (FsDir es)"
  shows "single_root H (set L) \<and> H (fs_dir H es) \<in> H ` set L \<and> H (fs_dir H es) \<notin> targets (set L)"
proof -
  let ?d = "fs_dir H es"
  have d: "?d \<in> set L" using L by simp
  have below: "length (takeWhile (\<lambda>x. x \<noteq> c) L) < length (takeWhile (\<lambda>x. x \<noteq> ?d) L) \<and> H c \<in> targets (set L)"
    if "c \<in> set L" "c \<noteq> ?d" for c
    using fs_dirs_below [OF cf, of "FsDir es" es c] that L by auto
  have "H ?d \<notin> targets (set L)"
  proof
    assume "H ?d \<in> targets (set L)"
    then obtain c m where c: "c \<in> set L" "(H ?d, m) \<in> dir_pointers c" by (auto simp: targets_def)
    from children_first_index [OF cf c d refl] below [OF c(1)] show False by (cases "c = ?d") auto
  qed
  moreover from this have "single_root H (set L)"
    unfolding single_root_def using d below by (intro ex1I [of _ "H ?d"]) auto
  ultimately show ?thesis using d by blast
qed

lemma ingest_tree:
  assumes name: "pc_ok name" and wf: "fs_wf H t" and inj: "inj_on H (fs_dirs H t)"
  shows "\<exists>po. (ingest_entries H start put close (map Inr (fs_entries [name] t))
      :: (('e, 'u) ingestion_error, cnode \<times> 'p option) res) = Inr (fs_node H t, po) \<and>
    (case po of None \<Rightarrow> fs_dirs H t = {}
     | Some p \<Rightarrow> children_first H {} (log p) \<and> distinct (log p) \<and> set (log p) = fs_dirs H t)"
proof -
  let ?st = "\<lparr>ing_directories = Map.empty, ing_putter = None, ing_sent = {}\<rparr> :: 'p ingest_state"
  have ok: "list_all pc_ok [name]" using name by simp
  have rec: "(ingest_record st (path_rep [name]) node :: (('e, 'u) ingestion_error, cnode option \<times> 'p ingest_state) res) =
      Inr (Some node, st)" for st node
    using path_parent_rep [OF ok] by (simp add: ingest_record_def path_ROOT_def)
  show ?thesis
  proof (cases t)
    case (FsFile g n ex)
    then show ?thesis by (simp add: ingest_entries_def rec)
  next
    case (FsSymlink x)
    then show ?thesis using wf by (simp add: ingest_entries_def rec symlink_target_try_from_def)
  next
    case (FsDir es)
    have sub: "\<forall>e\<in>set es. runs TYPE('e) (snd e)" using wf FsDir tree_runs by auto
    have "ing_ok [] ?st" by (simp add: ing_ok_def)
    from dir_run [OF sub wf [unfolded FsDir] _ ok this, of "[]"] inj FsDir obtain st1 st2 L where
      r: "ingest_loop H start put ?st (map Inr (fs_entries [name] (FsDir es)) @ []) =
        (ingest_loop H start put st1 (Inr (IDir (path_rep [name])) # [])
          :: (('e, 'u) ingestion_error, cnode \<times> 'p ingest_state \<times> ('e, ingestion_entry) res list) res)"
        "ingest_directory H start put st1 (path_rep [name]) =
          (Inr (fs_node H (FsDir es), st2) :: (('e, 'u) ingestion_error, cnode \<times> 'p ingest_state) res)"
      and L: "ing_ok L st2" "set L = fs_dirs H (FsDir es)" "ing_directories st2 = Map.empty" "ing_putter st2 \<noteq> None"
      by auto
    obtain p where p: "ing_putter st2 = Some p" "inv p" "log p = L" "children_first H {} L" "distinct L"
      using L(1,4) by (auto simp: ing_ok_def)
    have injL: "inj_on H (set L)" using inj L(2) FsDir by simp
    have "close p = Inr (H (fs_dir H es))"
      using close [OF p(2)] tree_single_root [OF p(4) injL L(2)] injL p(3) by blast
    moreover have "ingest_loop H start put ?st (map Inr (fs_entries [name] t)) =
        (Inr (fs_node H t, st2, []) :: (('e, 'u) ingestion_error, cnode \<times> 'p ingest_state \<times> ('e, ingestion_entry) res list) res)"
      using r rec FsDir by simp
    ultimately have "(ingest_entries H start put close (map Inr (fs_entries [name] t))
      :: (('e, 'u) ingestion_error, cnode \<times> 'p option) res) = Inr (fs_node H t, Some p)"
      using p(1) L(3) FsDir by (simp add: ingest_entries_def fs_node_dir)
    then show ?thesis using p L(2) FsDir by (intro exI [of _ "Some p"]) simp
  qed
qed

end

section \<open>A validating putter\<close>

text \<open>
  The receiving side of an upload: every directory is checked by the leaves-to-root validator
  before it is stored, as in the gRPC service, and closing the upload finalises the validator.
\<close>

definition validated_put ::
  "(cdirectory \<Rightarrow> b3_digest) \<Rightarrow> ltr_validator \<times> cdirectory list \<Rightarrow> cdirectory \<Rightarrow>
   (ordering_error, ltr_validator \<times> cdirectory list) res" where
  "validated_put H p directory =
     (case ltr_try_accept H (fst p) directory of
        (Inl e, _) \<Rightarrow> Inl e
      | (Inr _, v) \<Rightarrow> Inr (v, snd p @ [directory]))"

definition validated_close :: "ltr_validator \<times> cdirectory list \<Rightarrow> (ordering_error, b3_digest) res" where
  "validated_close p = rbind (ltr_finalize (fst p)) (\<lambda>_. ok_or OrdPanic (ltr_last_inserted (fst p)))"

interpretation validated: directory_putter H "(ltr_new, [])" "validated_put H" validated_close snd
  "\<lambda>p. ltr_inv H (set (snd p)) (fst p)" for H
proof unfold_locales
  show "ltr_inv H (set (snd (ltr_new, []))) (fst (ltr_new, [])) \<and> snd (ltr_new, []) = []"
    using ltr_new_inv by simp
next
  fix p d assume p: "ltr_inv H (set (snd p)) (fst p)" "inj_on H (set (snd p @ [d]))" "children_first H {} (snd p @ [d])"
  have cf: "children_first H (set (snd p)) [d]" using p(3) by (simp add: children_first_append)
  have "inj_on H (insert d (set (snd p)))" using p(2) by simp
  from ltr_try_accept_step [OF p(1) this] cf
  obtain v where "ltr_try_accept H (fst p) d = (Inr (), v)" "ltr_inv H (insert d (set (snd p))) v"
    by (cases "ltr_try_accept H (fst p) d"; cases "fst (ltr_try_accept H (fst p) d)") auto
  then show "\<exists>p'. validated_put H p d = Inr p' \<and> ltr_inv H (set (snd p')) (fst p') \<and> snd p' = snd p @ [d]"
    by (simp add: validated_put_def)
next
  fix p g assume p: "ltr_inv H (set (snd p)) (fst p)" "single_root H (set (snd p))"
    and g: "g \<in> H ` set (snd p)" "g \<notin> targets (set (snd p))"
  have fin: "ltr_finalize (fst p) = Inr ()" using ltr_finalize_spec [OF p(1)] p(2) by simp
  have "set (snd p) \<noteq> {}" using g(1) by auto
  then obtain g' where "ltr_last_inserted (fst p) = Some g'" "g' \<in> H ` set (snd p)" "g' \<notin> targets (set (snd p))"
    using p(1) by (auto simp: ltr_inv_def split: option.splits)
  then show "validated_close p = Inr g"
    using fin p(2) g unfolding single_root_def validated_close_def by (auto simp: ok_or_def)
qed

text \<open>
  C6: Ingesting the entries of a file tree, children before parents, into a validating putter
  succeeds and returns the node of the tree. Exactly the directories of the tree have been
  uploaded, each once, however often it occurs in the tree, and children before parents; no
  assertion fails. The sizes must not overflow, and the digests of the tree's directories must not
  collide.
\<close>

theorem ingest_tree_validated:
  assumes "pc_ok name" "fs_wf H t" "inj_on H (fs_dirs H t)"
  shows "\<exists>po. (ingest_entries H (ltr_new, []) (validated_put H) validated_close (map Inr (fs_entries [name] t))
      :: (('e, ordering_error) ingestion_error, cnode \<times> (ltr_validator \<times> cdirectory list) option) res) = Inr (fs_node H t, po) \<and>
    (case po of None \<Rightarrow> fs_dirs H t = {}
     | Some p \<Rightarrow> children_first H {} (snd p) \<and> distinct (snd p) \<and> set (snd p) = fs_dirs H t)"
  by (rule validated.ingest_tree [OF assms])

definition sample_fs :: fs_tree where
  "sample_fs = FsDir [(''b'', FsDir []), (''a'', FsSymlink ''b''), (''c'', FsDir [])]"

theorem ingest_tree_validated_witness:
  "\<exists>po. (ingest_entries (\<lambda>d. if d = [] then ''x'' else ''y'') (ltr_new, []) (validated_put (\<lambda>d. if d = [] then ''x'' else ''y''))
      validated_close (map Inr (fs_entries [''root''] sample_fs))
      :: ((unit, ordering_error) ingestion_error, cnode \<times> (ltr_validator \<times> cdirectory list) option) res) =
    Inr (fs_node (\<lambda>d. if d = [] then ''x'' else ''y'') sample_fs, po)"
proof -
  let ?H = "\<lambda>d :: cdirectory. if d = [] then ''x'' else ''y''"
  have "fs_dir ?H [] = []" by (simp add: fs_dir_def)
  then have "fs_wf ?H sample_fs" "inj_on ?H (fs_dirs ?H sample_fs)" "pc_ok ''root''"
    by (auto simp: sample_fs_def fs_node_dir dir_total_fs_dir directory_size_eq U64_MAX_def pc_ok_def pc_validate_name_def
        PC_MAX_NAME_LEN_def validate_symlink_target_def SYMLINK_MAX_TARGET_LEN_def)
  from ingest_tree_validated [OF this(3,1,2)] show ?thesis by blast
qed

end
