(* ===== verification/EvalScope.thy ===== *)
theory EvalScope
  imports Prelude
begin

text \<open>
  The scope tracking of the compiler (\<open>eval/src/compiler/scope.rs\<close>).

  A scope simulates at compile time where the locals of a lambda will be on the runtime stack. The
  vector of locals is the primary data; the map \<open>by_name\<close> is a secondary index from a name to the
  positions of the locals of that name. A span is a value of a parameter type, a local index a
  natural number, and \<open>None\<close> is a panic: a vector index out of range, an \<open>unwrap\<close> of nothing, or an
  unsigned subtraction below zero.

  The lemmas show that the index always agrees with the vector, so that resolving a name gives its
  innermost declaration; that closing a scope undoes everything that was declared since it was
  opened; and that the stack index of a local counts the values beneath it.
\<close>

section \<open>Locals and their index\<close>

datatype (plugins only: code size) local_name = LIdent string | LPhantom

record 'sp local =
  l_name :: local_name
  l_span :: "'sp option"
  l_depth :: nat
  l_initialised :: bool
  l_used :: bool
  l_needs_finaliser :: bool
  l_must_thunk :: bool

definition local_name_of :: "'sp local \<Rightarrow> string option" where
  "local_name_of l = (case l_name l of LPhantom \<Rightarrow> None | LIdent name \<Rightarrow> Some name)"

definition local_is_ignored :: "'sp local \<Rightarrow> bool" where
  "local_is_ignored l = (case l_name l of LIdent name \<Rightarrow> (name \<noteq> [] \<and> hd name = CHR ''_'') | LPhantom \<Rightarrow> False)"

definition local_is_used :: "'sp local \<Rightarrow> bool" where
  "local_is_used l \<longleftrightarrow> l_depth l = 0 \<or> l_used l \<or> local_is_ignored l"

datatype (plugins only: code size) local_position = LUnknown | LKnown nat | LRecursive nat

datatype (plugins only: code size) upvalue_kind = UpLocal nat | UpUpvalue nat

datatype (plugins only: code size) by_name = Single nat | Shadowed "nat list"

fun by_name_add_idx :: "nat \<Rightarrow> by_name \<Rightarrow> by_name" where
  "by_name_add_idx new (Shadowed indices) = Shadowed (indices @ [new])"
| "by_name_add_idx new (Single idx) = Shadowed [idx, new]"

fun by_name_remove_idx :: "by_name \<Rightarrow> bool \<times> by_name" where
  "by_name_remove_idx (Single idx) = (False, Single idx)"
| "by_name_remove_idx (Shadowed [a, b]) = (True, Single a)"
| "by_name_remove_idx (Shadowed indices) = (True, Shadowed (butlast indices))"

fun by_name_index :: "by_name \<Rightarrow> nat option" where
  "by_name_index (Single idx) = Some idx"
| "by_name_index (Shadowed v) = (if v = [] then None else Some (last v))"

section \<open>Scopes\<close>

record 'sp scope =
  sc_locals :: "'sp local list"
  sc_upvalues :: "upvalue_kind list"
  sc_by_name :: "string \<rightharpoonup> by_name"
  sc_scope_depth :: nat
  sc_with_stack_size :: nat

definition scope_default :: "'sp scope" where
  "scope_default = \<lparr>sc_locals = [], sc_upvalues = [], sc_by_name = Map.empty, sc_scope_depth = 0, sc_with_stack_size = 0\<rparr>"

definition scope_inherit :: "'sp scope \<Rightarrow> 'sp scope" where
  "scope_inherit s = scope_default\<lparr>sc_scope_depth := sc_scope_depth s + 1, sc_with_stack_size := sc_with_stack_size s\<rparr>"

definition scope_push_with :: "'sp scope \<Rightarrow> 'sp scope" where
  "scope_push_with s = s\<lparr>sc_with_stack_size := sc_with_stack_size s + 1\<rparr>"

definition scope_pop_with :: "'sp scope \<Rightarrow> 'sp scope option" where
  "scope_pop_with s =
     (if sc_with_stack_size s = 0 then None else Some (s\<lparr>sc_with_stack_size := sc_with_stack_size s - 1\<rparr>))"

definition scope_has_with :: "'sp scope \<Rightarrow> bool" where
  "scope_has_with s \<longleftrightarrow> sc_with_stack_size s > 0"

definition resolve_local :: "'sp scope \<Rightarrow> string \<Rightarrow> local_position option" where
  "resolve_local s name =
     (case sc_by_name s name of
        None \<Rightarrow> Some LUnknown
      | Some by_name \<Rightarrow>
          Option.bind (by_name_index by_name) (\<lambda>idx.
            if idx < length (sc_locals s)
            then Some (if \<not> l_initialised (sc_locals s ! idx) then LRecursive idx else LKnown idx)
            else None))"

definition declare_phantom :: "'sp \<Rightarrow> bool \<Rightarrow> 'sp scope \<Rightarrow> nat \<times> 'sp scope" where
  "declare_phantom span initialised s =
     (length (sc_locals s),
      s\<lparr>sc_locals := sc_locals s @
          [\<lparr>l_name = LPhantom, l_span = Some span, l_depth = sc_scope_depth s, l_initialised = initialised,
            l_used = True, l_needs_finaliser = False, l_must_thunk = False\<rparr>]\<rparr>)"

definition scope_declare_local :: "string \<Rightarrow> 'sp \<Rightarrow> 'sp scope \<Rightarrow> ((nat \<times> nat option) \<times> 'sp scope) option" where
  "scope_declare_local name span s =
     (let idx = length (sc_locals s);
          s = s\<lparr>sc_locals := sc_locals s @
                 [\<lparr>l_name = LIdent name, l_span = Some span, l_depth = sc_scope_depth s, l_initialised = False,
                   l_used = False, l_needs_finaliser = False, l_must_thunk = False\<rparr>]\<rparr>
      in case sc_by_name s name of
           Some existing \<Rightarrow>
             Option.bind (by_name_index existing) (\<lambda>shadowed.
               Some ((idx, Some shadowed), s\<lparr>sc_by_name := (sc_by_name s)(name \<mapsto> by_name_add_idx idx existing)\<rparr>))
         | None \<Rightarrow> Some ((idx, None), s\<lparr>sc_by_name := (sc_by_name s)(name \<mapsto> Single idx)\<rparr>))"

definition declare_constant :: "string \<Rightarrow> 'sp scope \<Rightarrow> nat \<times> 'sp scope" where
  "declare_constant name s =
     (let idx = length (sc_locals s)
      in (idx, s\<lparr>sc_locals := sc_locals s @
                   [\<lparr>l_name = LIdent name, l_span = None, l_depth = 0, l_initialised = True,
                     l_used = False, l_needs_finaliser = False, l_must_thunk = False\<rparr>],
                 sc_by_name := (sc_by_name s)(name \<mapsto> Single idx)\<rparr>))"

text \<open>The four operations that set a flag of a local.\<close>

definition update_local :: "('sp local \<Rightarrow> 'sp local) \<Rightarrow> nat \<Rightarrow> 'sp scope \<Rightarrow> 'sp scope option" where
  "update_local f idx s =
     (if idx < length (sc_locals s) then Some (s\<lparr>sc_locals := (sc_locals s)[idx := f (sc_locals s ! idx)]\<rparr>)
      else None)"

definition mark_initialised :: "nat \<Rightarrow> 'sp scope \<Rightarrow> 'sp scope option" where
  "mark_initialised = update_local (\<lambda>l. l\<lparr>l_initialised := True\<rparr>)"

definition mark_used :: "nat \<Rightarrow> 'sp scope \<Rightarrow> 'sp scope option" where
  "mark_used = update_local (\<lambda>l. l\<lparr>l_used := True\<rparr>)"

definition mark_needs_finaliser :: "nat \<Rightarrow> 'sp scope \<Rightarrow> 'sp scope option" where
  "mark_needs_finaliser = update_local (\<lambda>l. l\<lparr>l_needs_finaliser := True\<rparr>)"

definition mark_must_thunk :: "nat \<Rightarrow> 'sp scope \<Rightarrow> 'sp scope option" where
  "mark_must_thunk = update_local (\<lambda>l. l\<lparr>l_must_thunk := True\<rparr>)"

text \<open>
  \<open>stack_index\<close>: the filter looks up the local itself only when it meets one that is not
  initialised.
\<close>

fun uninitialised_count :: "'sp local list \<Rightarrow> nat \<Rightarrow> 'sp local list \<Rightarrow> nat option" where
  "uninitialised_count locals idx [] = Some 0"
| "uninitialised_count locals idx (l # ls) =
     (if l_initialised l then uninitialised_count locals idx ls
      else if idx < length locals
      then map_option (\<lambda>n. if l_depth l < l_depth (locals ! idx) then Suc n else n) (uninitialised_count locals idx ls)
      else None)"

definition stack_index :: "'sp scope \<Rightarrow> nat \<Rightarrow> nat option" where
  "stack_index s idx =
     (if length (sc_locals s) < idx then None
      else map_option (\<lambda>n. idx - n) (uninitialised_count (sc_locals s) idx (take idx (sc_locals s))))"

definition begin_scope :: "'sp scope \<Rightarrow> 'sp scope" where
  "begin_scope s = s\<lparr>sc_scope_depth := sc_scope_depth s + 1\<rparr>"

text \<open>The removal of a name from the index when its local is dropped.\<close>

definition remove_by_name :: "local_name \<Rightarrow> (string \<rightharpoonup> by_name) \<Rightarrow> (string \<rightharpoonup> by_name)" where
  "remove_by_name n m =
     (case n of
        LPhantom \<Rightarrow> m
      | LIdent name \<Rightarrow>
          (case m name of
             None \<Rightarrow> m
           | Some entry \<Rightarrow>
               (let (removed, entry') = by_name_remove_idx entry
                in if removed then m(name \<mapsto> entry') else m(name := None))))"

text \<open>The loop of \<open>end_scope\<close>, on the vector of locals with its last element first.\<close>

fun end_scope_loop ::
  "nat \<Rightarrow> 'sp local list \<Rightarrow> (string \<rightharpoonup> by_name) \<Rightarrow> nat \<Rightarrow> 'sp list \<Rightarrow>
   ('sp local list \<times> (string \<rightharpoonup> by_name) \<times> nat \<times> 'sp list) option" where
  "end_scope_loop depth [] by_name pops unused_spans = None"
| "end_scope_loop depth (local # locals) by_name pops unused_spans =
     (if l_depth local = depth
      then end_scope_loop depth locals (remove_by_name (l_name local) by_name)
             (if l_initialised local then pops + 1 else pops)
             (if \<not> local_is_used local then unused_spans @ (case l_span local of Some span \<Rightarrow> [span] | None \<Rightarrow> [])
              else unused_spans)
      else Some (local # locals, by_name, pops, unused_spans))"

definition end_scope :: "'sp scope \<Rightarrow> ((nat \<times> 'sp list) \<times> 'sp scope) option" where
  "end_scope s =
     (if sc_scope_depth s = 0 then None
      else map_option
        (\<lambda>(locals, by_name, pops, unused_spans).
          ((pops, unused_spans),
           s\<lparr>sc_locals := rev locals, sc_by_name := by_name, sc_scope_depth := sc_scope_depth s - 1\<rparr>))
        (end_scope_loop (sc_scope_depth s) (rev (sc_locals s)) (sc_by_name s) 0 []))"

section \<open>The index agrees with the vector\<close>

text \<open>The positions of the locals called \<open>n\<close>, outermost first, and the entry that holds them.\<close>

definition named :: "string \<Rightarrow> 'sp local list \<Rightarrow> nat list" where
  "named n ls = filter (\<lambda>i. l_name (ls ! i) = LIdent n) [0..<length ls]"

fun by_name_of :: "nat list \<Rightarrow> by_name option" where
  "by_name_of [] = None"
| "by_name_of [i] = Some (Single i)"
| "by_name_of is = Some (Shadowed is)"

definition scope_inv :: "'sp scope \<Rightarrow> bool" where
  "scope_inv s \<longleftrightarrow>
     (\<forall>n. sc_by_name s n = by_name_of (named n (sc_locals s))) \<and>
     sorted (map l_depth (sc_locals s)) \<and>
     (\<forall>l \<in> set (sc_locals s). l_depth l \<le> sc_scope_depth s)"

lemma scope_invD:
  assumes "scope_inv s"
  shows "sc_by_name s n = by_name_of (named n (sc_locals s))" "sorted (map l_depth (sc_locals s))"
    "l \<in> set (sc_locals s) \<Longrightarrow> l_depth l \<le> sc_scope_depth s"
  using assms by (auto simp: scope_inv_def)

lemma named_Nil [simp]: "named n [] = []"
  by (simp add: named_def)

lemma named_snoc [simp]:
  "named n (ls @ [l]) = named n ls @ (if l_name l = LIdent n then [length ls] else [])"
proof -
  have "filter (\<lambda>i. l_name ((ls @ [l]) ! i) = LIdent n) [0..<length ls] = named n ls"
    unfolding named_def by (rule filter_cong) (auto simp: nth_append)
  then show ?thesis by (simp add: named_def)
qed

lemma named_less: "i \<in> set (named n ls) \<Longrightarrow> i < length ls"
  by (auto simp: named_def)

lemma named_cong: "map l_name ls = map l_name ls' \<Longrightarrow> named n ls = named n ls'"
proof -
  assume eq: "map l_name ls = map l_name ls'"
  then have len: "length ls = length ls'" by (rule map_eq_imp_length_eq)
  have "l_name (ls ! i) = l_name (ls' ! i)" if "i < length ls'" for i
    using arg_cong [OF eq, of "\<lambda>xs. xs ! i"] that len by simp
  then show ?thesis unfolding named_def len by (intro filter_cong) auto
qed

lemma by_name_of_index: "by_name_of is = Some b \<Longrightarrow> by_name_index b = Some (last is) \<and> is \<noteq> []"
  by (cases "is" rule: by_name_of.cases) auto

lemma by_name_of_add: "by_name_of is = Some b \<Longrightarrow> by_name_of (is @ [i]) = Some (by_name_add_idx i b)"
  by (cases "is" rule: by_name_of.cases) auto

lemma by_name_of_eq_None [simp]: "by_name_of is = None \<longleftrightarrow> is = []" "None = by_name_of is \<longleftrightarrow> is = []"
  by (cases "is" rule: by_name_of.cases; simp)+

lemma by_name_of_remove:
  "by_name_of (is @ [i]) = Some b \<Longrightarrow>
   (case by_name_remove_idx b of (True, b') \<Rightarrow> by_name_of is = Some b' | (False, b') \<Rightarrow> is = [])"
proof (cases "is" rule: by_name_of.cases)
  case (3 v w vs)
  assume "by_name_of (is @ [i]) = Some b"
  then show ?thesis using 3 by (cases vs) auto
qed auto

text \<open>Dropping the last local from the index restores the index of the others.\<close>

lemma remove_by_name_snoc:
  assumes "\<And>n. m n = by_name_of (named n (ls @ [l]))"
  shows "remove_by_name (l_name l) m n = by_name_of (named n ls)"
proof (cases "l_name l")
  case LPhantom
  then show ?thesis using assms [of n] by (simp add: remove_by_name_def)
next
  case (LIdent name)
  have m: "m name = by_name_of (named name ls @ [length ls])" using assms [of name] LIdent by simp
  then have "m name \<noteq> None" by (simp only: by_name_of_eq_None) simp
  then obtain b where b: "m name = Some b" by blast
  note r = by_name_of_remove [of "named name ls" "length ls" b, folded m, OF b]
  show ?thesis
  proof (cases "n = name")
    case True
    then show ?thesis using r b LIdent
      by (cases "by_name_remove_idx b"; cases "fst (by_name_remove_idx b)") (auto simp: remove_by_name_def)
  next
    case False
    then show ?thesis using b LIdent assms [of n]
      by (cases "by_name_remove_idx b") (auto simp: remove_by_name_def)
  qed
qed

lemma end_scope_loop_spec:
  assumes "\<And>n. m n = by_name_of (named n (rev ls))"
    and "end_scope_loop d ls m p sp = Some (ls', m', p', sp')"
  shows "ls' = dropWhile (\<lambda>l. l_depth l = d) ls \<and>
    (\<forall>n. m' n = by_name_of (named n (rev ls'))) \<and>
    p' = p + length (filter l_initialised (takeWhile (\<lambda>l. l_depth l = d) ls)) \<and>
    sp' = sp @ concat (map (\<lambda>l. case l_span l of Some x \<Rightarrow> [x] | None \<Rightarrow> [])
                (filter (\<lambda>l. \<not> local_is_used l) (takeWhile (\<lambda>l. l_depth l = d) ls)))"
  using assms
proof (induction d ls m p sp rule: end_scope_loop.induct)
  case (2 d l ls m p sp)
  show ?case
  proof (cases "l_depth l = d")
    case True
    have rem: "remove_by_name (l_name l) m n = by_name_of (named n (rev ls))" for n
      using 2(2) by (intro remove_by_name_snoc) simp
    note IH = 2(1) [OF True rem]
    have "end_scope_loop d ls (remove_by_name (l_name l) m) (if l_initialised l then p + 1 else p)
        (if \<not> local_is_used l then sp @ (case l_span l of Some x \<Rightarrow> [x] | None \<Rightarrow> []) else sp) =
      Some (ls', m', p', sp')"
      using 2(3) True by simp
    from IH [OF this] show ?thesis using True by (simp split: if_splits)
  qed (use 2 in auto)
qed simp

lemma end_scope_loop_total:
  "(\<exists>l \<in> set ls. l_depth l \<noteq> d) \<Longrightarrow> end_scope_loop d ls m p sp \<noteq> None"
  by (induction d ls m p sp rule: end_scope_loop.induct) auto

text \<open>What is fixed about a local when it is declared.\<close>

definition skeleton :: "'sp local list \<Rightarrow> (local_name \<times> 'sp option \<times> nat) list" where
  "skeleton = map (\<lambda>l. (l_name l, l_span l, l_depth l))"

lemma skeleton_snoc: "skeleton (ls @ [l]) = skeleton ls @ [(l_name l, l_span l, l_depth l)]"
  by (simp add: skeleton_def)

lemma skeleton_names: "skeleton ls = skeleton ls' \<Longrightarrow> map l_name ls = map l_name ls'"
proof -
  have names: "map l_name ls = map fst (skeleton ls)" for ls :: "'a local list"
    by (simp add: skeleton_def)
  show "skeleton ls = skeleton ls' \<Longrightarrow> map l_name ls = map l_name ls'" by (simp only: names)
qed

lemma skeleton_depths: "map l_depth ls = map (snd \<circ> snd) (skeleton ls)"
  by (simp add: skeleton_def comp_def)

lemma scope_inv_skeleton:
  assumes "scope_inv s" "skeleton (sc_locals t) = skeleton (sc_locals s)" "sc_by_name t = sc_by_name s"
    "sc_scope_depth t = sc_scope_depth s"
  shows "scope_inv t"
proof -
  have d: "map l_depth (sc_locals t) = map l_depth (sc_locals s)"
    using assms(2) by (simp add: skeleton_depths)
  have "l_depth l \<le> sc_scope_depth s" if "l \<in> set (sc_locals t)" for l
  proof -
    have "l_depth l \<in> set (map l_depth (sc_locals s))" using that d by (metis image_eqI set_map)
    then show ?thesis using scope_invD(3) [OF assms(1)] by auto
  qed
  then show ?thesis
    using scope_invD(1,2) [OF assms(1)] assms(3,4) d named_cong [OF skeleton_names [OF assms(2)]]
    by (simp add: scope_inv_def)
qed

lemma scope_inv_snoc:
  assumes "scope_inv s" "l_depth l = sc_scope_depth s"
    and "\<And>n. m n = by_name_of (named n (sc_locals s @ [l]))"
  shows "scope_inv (s\<lparr>sc_locals := sc_locals s @ [l], sc_by_name := m\<rparr>)"
  using scope_invD(2,3) [OF assms(1)] assms(2,3) by (auto simp: scope_inv_def sorted_append)

lemma scope_inv_default [simp]: "scope_inv scope_default"
  by (simp add: scope_inv_def scope_default_def)

lemma scope_inv_inherit [simp]: "scope_inv (scope_inherit s)"
  by (simp add: scope_inv_def scope_inherit_def scope_default_def)

lemma scope_inv_begin [simp]: "scope_inv s \<Longrightarrow> scope_inv (begin_scope s)"
  by (auto simp: scope_inv_def begin_scope_def)

lemma scope_inv_phantom: "scope_inv s \<Longrightarrow> scope_inv (snd (declare_phantom sp b s))"
  using scope_inv_snoc [of s "\<lparr>l_name = LPhantom, l_span = Some sp, l_depth = sc_scope_depth s, l_initialised = b,
            l_used = True, l_needs_finaliser = False, l_must_thunk = False\<rparr>" "sc_by_name s"]
  by (simp add: declare_phantom_def scope_invD(1))

lemma declare_local_spec:
  assumes "scope_inv s"
  shows "\<exists>shadowed u. scope_declare_local n sp s = Some ((length (sc_locals s), shadowed), u) \<and> scope_inv u \<and>
    shadowed = (if named n (sc_locals s) = [] then None else Some (last (named n (sc_locals s)))) \<and>
    u = s\<lparr>sc_locals := sc_locals u, sc_by_name := sc_by_name u\<rparr> \<and>
    sc_locals u = sc_locals s @ [\<lparr>l_name = LIdent n, l_span = Some sp, l_depth = sc_scope_depth s,
      l_initialised = False, l_used = False, l_needs_finaliser = False, l_must_thunk = False\<rparr>]"
proof -
  let ?l = "\<lparr>l_name = LIdent n, l_span = Some sp, l_depth = sc_scope_depth s,
      l_initialised = False, l_used = False, l_needs_finaliser = False, l_must_thunk = False\<rparr>"
  note m = scope_invD(1) [OF assms]
  show ?thesis
  proof (cases "sc_by_name s n")
    case None
    then have nm: "named n (sc_locals s) = []" using m [of n] by simp
    have "scope_inv (s\<lparr>sc_locals := sc_locals s @ [?l], sc_by_name := (sc_by_name s)(n \<mapsto> Single (length (sc_locals s)))\<rparr>)"
      by (rule scope_inv_snoc [OF assms]) (auto simp: m nm)
    then show ?thesis using None nm by (simp add: scope_declare_local_def Let_def)
  next
    case (Some b)
    then have bn: "by_name_of (named n (sc_locals s)) = Some b" using m [of n] by simp
    note ix = by_name_of_index [OF bn]
    have "scope_inv (s\<lparr>sc_locals := sc_locals s @ [?l],
        sc_by_name := (sc_by_name s)(n \<mapsto> by_name_add_idx (length (sc_locals s)) b)\<rparr>)"
      by (rule scope_inv_snoc [OF assms]) (auto simp: m by_name_of_add [OF bn])
    then show ?thesis using Some ix by (simp add: scope_declare_local_def Let_def)
  qed
qed

lemma scope_inv_constant:
  assumes "scope_inv s" "sc_scope_depth s = 0" "sc_by_name s n = None"
  shows "scope_inv (snd (declare_constant n s))"
proof -
  have nm: "named n (sc_locals s) = []" using scope_invD(1) [OF assms(1), of n] assms(3) by simp
  show ?thesis unfolding declare_constant_def Let_def snd_conv
    by (rule scope_inv_snoc [OF assms(1)]) (auto simp: nm assms(2) scope_invD(1) [OF assms(1)])
qed

text \<open>Which flags a marking operation may set.\<close>

definition marks :: "(nat \<Rightarrow> 'sp scope \<Rightarrow> 'sp scope option) set" where
  "marks = {mark_initialised, mark_used, mark_needs_finaliser, mark_must_thunk}"

lemma mark_skeleton:
  assumes "mark \<in> marks" "mark i s = Some t"
  shows "skeleton (sc_locals t) = skeleton (sc_locals s)" "t = s\<lparr>sc_locals := sc_locals t\<rparr>"
  using assms
  by (auto simp: marks_def mark_initialised_def mark_used_def mark_needs_finaliser_def mark_must_thunk_def
      update_local_def skeleton_def map_update list_update_same_conv split: if_splits)

lemma scope_inv_mark: "scope_inv s \<Longrightarrow> mark \<in> marks \<Longrightarrow> mark i s = Some t \<Longrightarrow> scope_inv t"
  using mark_skeleton [of mark i s t] by (metis (no_types, lifting) scope_inv_skeleton scope.surjective scope.update_convs(1) scope.select_convs)

section \<open>Closing a scope\<close>

lemma takeWhile_rev_depth:
  assumes "sorted (map l_depth ls)" "\<forall>l \<in> set ls. l_depth l \<le> d"
  shows "takeWhile (\<lambda>l. l_depth l = d) (rev ls) = rev (filter (\<lambda>l. l_depth l = d) ls) \<and>
    dropWhile (\<lambda>l. l_depth l = d) (rev ls) = rev (filter (\<lambda>l. l_depth l < d) ls)"
  using assms
proof (induction ls rule: rev_induct)
  case (snoc l ls)
  have IH: "takeWhile (\<lambda>l. l_depth l = d) (rev ls) = rev (filter (\<lambda>l. l_depth l = d) ls)"
    "dropWhile (\<lambda>l. l_depth l = d) (rev ls) = rev (filter (\<lambda>l. l_depth l < d) ls)"
    using snoc by (auto simp: sorted_append)
  show ?case
  proof (cases "l_depth l = d")
    case False
    then have "\<forall>x \<in> set ls. l_depth x < d" using snoc(2,3) by (auto simp: sorted_append)
    then show ?thesis using False snoc(3) by (auto simp: filter_empty_conv filter_id_conv)
  qed (use IH in simp)
qed simp

theorem end_scope_spec:
  assumes "scope_inv s" "0 < sc_scope_depth s"
  shows "case end_scope s of
     None \<Rightarrow> \<forall>l \<in> set (sc_locals s). l_depth l = sc_scope_depth s
   | Some ((pops, unused), u) \<Rightarrow> scope_inv u \<and>
       (let dropped = filter (\<lambda>l. l_depth l = sc_scope_depth s) (sc_locals s)
        in sc_locals u = filter (\<lambda>l. l_depth l < sc_scope_depth s) (sc_locals s) \<and>
           pops = length (filter l_initialised dropped) \<and>
           unused = concat (map (\<lambda>l. case l_span l of Some x \<Rightarrow> [x] | None \<Rightarrow> [])
                      (rev (filter (\<lambda>l. \<not> local_is_used l) dropped)))) \<and>
       u = s\<lparr>sc_locals := sc_locals u, sc_by_name := sc_by_name u, sc_scope_depth := sc_scope_depth s - 1\<rparr>"
proof (cases "end_scope_loop (sc_scope_depth s) (rev (sc_locals s)) (sc_by_name s) 0 []")
  case None
  then have "\<forall>l \<in> set (sc_locals s). l_depth l = sc_scope_depth s"
    using end_scope_loop_total [of "rev (sc_locals s)" "sc_scope_depth s" "sc_by_name s" 0 "[]"] by auto
  then show ?thesis using None assms(2) by (simp add: end_scope_def)
next
  case (Some r)
  obtain ls m p sp where r: "r = (ls, m, p, sp)" by (cases r) auto
  note inv = scope_invD [OF assms(1)]
  note tw = takeWhile_rev_depth [OF inv(2), of "sc_scope_depth s"]
  have le: "\<forall>l \<in> set (sc_locals s). l_depth l \<le> sc_scope_depth s" using inv(3) by blast
  have spec: "ls = rev (filter (\<lambda>l. l_depth l < sc_scope_depth s) (sc_locals s))"
    "\<forall>n. m n = by_name_of (named n (rev ls))"
    "p = length (filter l_initialised (filter (\<lambda>l. l_depth l = sc_scope_depth s) (sc_locals s)))"
    "sp = concat (map (\<lambda>l. case l_span l of Some x \<Rightarrow> [x] | None \<Rightarrow> [])
            (rev (filter (\<lambda>l. \<not> local_is_used l) (filter (\<lambda>l. l_depth l = sc_scope_depth s) (sc_locals s)))))"
    using end_scope_loop_spec [OF _ Some [unfolded r]] inv(1) tw [OF le] by (simp_all add: rev_filter [symmetric])
  have "scope_inv (s\<lparr>sc_locals := rev ls, sc_by_name := m, sc_scope_depth := sc_scope_depth s - 1\<rparr>)"
    using spec(2) inv(2) assms(2) by (auto simp: scope_inv_def spec(1) sorted_filter)
  then show ?thesis using Some r assms(2) spec by (simp add: end_scope_def Let_def)
qed

section \<open>What the compiler does with a scope\<close>

text \<open>
  The operations between the opening of a scope and its end: declarations, marks, changes of the
  \<open>with\<close> stack, new upvalues, and inner scopes that are opened and closed again.
\<close>

inductive scope_ops :: "'sp scope \<Rightarrow> 'sp scope \<Rightarrow> bool" where
  ops_refl: "scope_ops s s"
| ops_phantom: "scope_ops s t \<Longrightarrow> scope_ops s (snd (declare_phantom sp b t))"
| ops_local: "scope_ops s t \<Longrightarrow> scope_declare_local n sp t = Some (r, u) \<Longrightarrow> scope_ops s u"
| ops_mark: "scope_ops s t \<Longrightarrow> mark \<in> marks \<Longrightarrow> mark i t = Some u \<Longrightarrow> scope_ops s u"
| ops_push_with: "scope_ops s t \<Longrightarrow> scope_ops s (scope_push_with t)"
| ops_pop_with: "scope_ops s t \<Longrightarrow> scope_pop_with t = Some u \<Longrightarrow> scope_ops s u"
| ops_upvalue: "scope_ops s t \<Longrightarrow> scope_ops s (t\<lparr>sc_upvalues := us\<rparr>)"
| ops_block: "scope_ops s t \<Longrightarrow> scope_ops (begin_scope t) u \<Longrightarrow> end_scope u = Some (r, v) \<Longrightarrow> scope_ops s v"

text \<open>The scopes that the compiler can reach.\<close>

inductive scope_reachable :: "'sp scope \<Rightarrow> bool" where
  reach_default: "scope_reachable scope_default"
| reach_inherit: "scope_reachable s \<Longrightarrow> scope_reachable (scope_inherit s)"
| reach_constant: "scope_reachable s \<Longrightarrow> sc_scope_depth s = 0 \<Longrightarrow> sc_by_name s n = None \<Longrightarrow>
    scope_reachable (snd (declare_constant n s))"
| reach_begin: "scope_reachable s \<Longrightarrow> scope_reachable (begin_scope s)"
| reach_end: "scope_reachable s \<Longrightarrow> end_scope s = Some (r, t) \<Longrightarrow> scope_reachable t"
| reach_ops: "scope_reachable s \<Longrightarrow> scope_ops s t \<Longrightarrow> scope_reachable t"

text \<open>The locals declared since \<open>s\<close> are all of the current depth; those before kept their declaration.\<close>

definition extends :: "'sp scope \<Rightarrow> 'sp scope \<Rightarrow> bool" where
  "extends s t \<longleftrightarrow> scope_inv t \<and> sc_scope_depth t = sc_scope_depth s \<and>
     (\<exists>new. skeleton (sc_locals t) = skeleton (sc_locals s) @ new \<and> (\<forall>x \<in> set new. snd (snd x) = sc_scope_depth s))"

lemma extendsI:
  "scope_inv t \<Longrightarrow> sc_scope_depth t = sc_scope_depth s \<Longrightarrow>
   skeleton (sc_locals t) = skeleton (sc_locals s) @ new \<Longrightarrow>
   (\<And>n sp d. (n, sp, d) \<in> set new \<Longrightarrow> d = sc_scope_depth s) \<Longrightarrow> extends s t"
  unfolding extends_def by force

lemma extends_trans: "extends s t \<Longrightarrow> extends t u \<Longrightarrow> extends s u"
  unfolding extends_def by auto

lemma extends_same:
  "scope_inv t \<Longrightarrow> skeleton (sc_locals u) = skeleton (sc_locals t) \<Longrightarrow> sc_by_name u = sc_by_name t \<Longrightarrow>
   sc_scope_depth u = sc_scope_depth t \<Longrightarrow> extends t u"
  unfolding extends_def using scope_inv_skeleton [of t u] by auto

lemma extends_refl: "scope_inv s \<Longrightarrow> extends s s"
  by (rule extends_same) simp_all

text \<open>An inner scope leaves the skeleton of the outer locals as it was.\<close>

lemma extends_filter:
  assumes "scope_inv t" "extends (begin_scope t) u"
  shows "skeleton (filter (\<lambda>l. l_depth l < sc_scope_depth u) (sc_locals u)) = skeleton (sc_locals t)"
    "filter (\<lambda>l. l_depth l = sc_scope_depth u) (sc_locals u) = drop (length (sc_locals t)) (sc_locals u)"
proof -
  obtain new where d: "sc_scope_depth u = Suc (sc_scope_depth t)"
    and sk: "skeleton (sc_locals u) = skeleton (sc_locals t) @ new"
    and new: "\<forall>x \<in> set new. snd (snd x) = Suc (sc_scope_depth t)"
    using assms(2) by (auto simp: extends_def begin_scope_def)
  let ?k = "length (sc_locals t)"
  have tk: "skeleton (take ?k (sc_locals u)) = skeleton (sc_locals t)" "skeleton (drop ?k (sc_locals u)) = new"
    using arg_cong [OF sk, of "take ?k"] arg_cong [OF sk, of "drop ?k"]
    by (simp_all add: skeleton_def take_map drop_map)
  have "l_depth l < sc_scope_depth u" if "l \<in> set (take ?k (sc_locals u))" for l
  proof -
    have "l_depth l \<in> set (map (snd \<circ> snd) (skeleton (sc_locals t)))"
      using that tk(1) by (metis skeleton_depths image_eqI list.set_map)
    then show ?thesis using scope_invD(3) [OF assms(1)] d by (auto simp: skeleton_depths [symmetric] less_Suc_eq_le)
  qed
  moreover have "l_depth l = sc_scope_depth u" if "l \<in> set (drop ?k (sc_locals u))" for l
  proof -
    have "(l_name l, l_span l, l_depth l) \<in> set new" using that tk(2) by (auto simp: skeleton_def)
    then show ?thesis using new d by auto
  qed
  ultimately have f: "filter (\<lambda>l. l_depth l < sc_scope_depth u) (take ?k (sc_locals u) @ drop ?k (sc_locals u)) = take ?k (sc_locals u)"
    "filter (\<lambda>l. l_depth l = sc_scope_depth u) (take ?k (sc_locals u) @ drop ?k (sc_locals u)) = drop ?k (sc_locals u)"
    unfolding filter_append by (fastforce simp: filter_id_conv filter_empty_conv)+
  show "skeleton (filter (\<lambda>l. l_depth l < sc_scope_depth u) (sc_locals u)) = skeleton (sc_locals t)"
    "filter (\<lambda>l. l_depth l = sc_scope_depth u) (sc_locals u) = drop (length (sc_locals t)) (sc_locals u)"
    using f tk(1) by simp_all
qed

lemma block_end:
  assumes "scope_inv t" "extends (begin_scope t) u"
  shows "case end_scope u of
     None \<Rightarrow> sc_locals t = []
   | Some ((pops, unused), v) \<Rightarrow>
       scope_inv v \<and> skeleton (sc_locals v) = skeleton (sc_locals t) \<and> sc_by_name v = sc_by_name t \<and>
       sc_scope_depth v = sc_scope_depth t \<and>
       pops = length (filter l_initialised (drop (length (sc_locals t)) (sc_locals u)))"
proof -
  have u: "scope_inv u" "0 < sc_scope_depth u" "sc_scope_depth u = Suc (sc_scope_depth t)"
    using assms(2) by (auto simp: extends_def begin_scope_def)
  note es = end_scope_spec [OF u(1,2)] and ef = extends_filter [OF assms]
  show ?thesis
  proof (cases "end_scope u")
    case None
    then have "filter (\<lambda>l. l_depth l < sc_scope_depth u) (sc_locals u) = []"
      using es by (auto simp: filter_empty_conv)
    then show ?thesis using None ef(1) by (simp add: skeleton_def)
  next
    case (Some r)
    obtain p sp v where r: "r = ((p, sp), v)" by (cases r) auto
    have v: "scope_inv v" "skeleton (sc_locals v) = skeleton (sc_locals t)" "sc_scope_depth v = sc_scope_depth t"
      "p = length (filter l_initialised (drop (length (sc_locals t)) (sc_locals u)))"
      using es Some r ef u(3) by (auto simp: Let_def simp del: filter_filter dest: arg_cong [of v _ sc_scope_depth])
    have "sc_by_name v = sc_by_name t"
      using scope_invD(1) [OF v(1)] scope_invD(1) [OF assms(1)] named_cong [OF skeleton_names [OF v(2)]]
      by (intro ext) simp
    then show ?thesis using v Some r by simp
  qed
qed

lemma scope_ops_extends: "scope_ops s t \<Longrightarrow> scope_inv s \<Longrightarrow> extends s t"
proof (induction rule: scope_ops.induct)
  case (ops_phantom s t sp b)
  have "extends t (snd (declare_phantom sp b t))"
    using ops_phantom scope_inv_phantom [of t sp b]
    by (intro extendsI) (auto simp: extends_def declare_phantom_def skeleton_snoc)
  then show ?case using ops_phantom extends_trans by blast
next
  case (ops_local s t n sp r u)
  have "extends t u"
    using declare_local_spec [of t n sp] ops_local
    by (intro extendsI [of u t "[(LIdent n, Some sp, sc_scope_depth t)]"])
      (auto simp: extends_def skeleton_snoc dest: arg_cong [of u _ sc_scope_depth])
  then show ?case using ops_local extends_trans by blast
next
  case (ops_mark s t mark i u)
  have "extends t u"
    using mark_skeleton [OF ops_mark.hyps(2,3)] ops_mark
    by (intro extends_same) (auto simp: extends_def dest: arg_cong [of u _ sc_scope_depth] arg_cong [of u _ sc_by_name])
  then show ?case using ops_mark extends_trans by blast
next
  case (ops_push_with s t)
  have "extends t (scope_push_with t)"
    using ops_push_with by (intro extends_same) (auto simp: extends_def scope_push_with_def)
  then show ?case using ops_push_with extends_trans by blast
next
  case (ops_pop_with s t u)
  have "extends t u"
    using ops_pop_with by (intro extends_same) (auto simp: extends_def scope_pop_with_def split: if_splits)
  then show ?case using ops_pop_with extends_trans by blast
next
  case (ops_upvalue s t us)
  have "extends t (t\<lparr>sc_upvalues := us\<rparr>)"
    using ops_upvalue by (intro extends_same) (auto simp: extends_def)
  then show ?case using ops_upvalue extends_trans by blast
next
  case (ops_block s t u r v)
  have inv: "scope_inv t" using ops_block by (auto simp: extends_def)
  then have "extends (begin_scope t) u" using ops_block by simp
  from block_end [OF inv this] have "extends t v"
    using ops_block.hyps(3) inv by (intro extends_same) (auto split: prod.splits)
  then show ?case using ops_block extends_trans by blast
qed (simp add: extends_refl)

lemma scope_reachable_inv: "scope_reachable s \<Longrightarrow> scope_inv s"
proof (induction rule: scope_reachable.induct)
  case (reach_end s r t)
  then have "0 < sc_scope_depth s" by (simp add: end_scope_def split: if_splits)
  then show ?case using end_scope_spec [OF reach_end.IH] reach_end.hyps(2) by (cases r) simp
next
  case (reach_ops s t)
  then show ?case using scope_ops_extends [of s t] by (simp add: extends_def)
qed (simp_all add: scope_inv_constant)

section \<open>Properties\<close>

text \<open>The innermost declaration of a name: no later local has it.\<close>

definition innermost :: "'sp local list \<Rightarrow> string \<Rightarrow> nat \<Rightarrow> bool" where
  "innermost ls n i \<longleftrightarrow> i < length ls \<and> l_name (ls ! i) = LIdent n \<and>
     (\<forall>j. i < j \<and> j < length ls \<longrightarrow> l_name (ls ! j) \<noteq> LIdent n)"

lemma sorted_le_last: "sorted xs \<Longrightarrow> x \<in> set xs \<Longrightarrow> x \<le> last xs" for xs :: "nat list"
  by (induction xs rule: rev_induct) (auto simp: sorted_append)

lemma named_last:
  assumes "named n ls \<noteq> []"
  shows "innermost ls n (last (named n ls))"
proof -
  let ?P = "\<lambda>i. l_name (ls ! i) = LIdent n"
  have "last (named n ls) \<in> set (named n ls)" using assms by simp
  moreover have "j \<le> last (named n ls)" if "j < length ls" "?P j" for j
  proof -
    have "sorted (named n ls)" unfolding named_def by (rule sorted_wrt_filter) simp
    moreover have "j \<in> set (named n ls)" using that by (simp add: named_def)
    ultimately show ?thesis by (rule sorted_le_last)
  qed
  ultimately show ?thesis unfolding innermost_def by (fastforce simp: named_def)
qed

lemma resolve_local_spec:
  assumes "scope_inv s"
  shows "case resolve_local s n of
     None \<Rightarrow> False
   | Some LUnknown \<Rightarrow> \<forall>l \<in> set (sc_locals s). l_name l \<noteq> LIdent n
   | Some (LKnown i) \<Rightarrow> innermost (sc_locals s) n i \<and> l_initialised (sc_locals s ! i)
   | Some (LRecursive i) \<Rightarrow> innermost (sc_locals s) n i \<and> \<not> l_initialised (sc_locals s ! i)"
proof (cases "sc_by_name s n")
  case None
  then have "named n (sc_locals s) = []"
    using scope_invD(1) [OF assms, of n] by simp
  then show ?thesis using None
    by (auto simp: resolve_local_def named_def filter_empty_conv in_set_conv_nth)
next
  case (Some b)
  then have bn: "by_name_of (named n (sc_locals s)) = Some b"
    using scope_invD(1) [OF assms, of n] by simp
  have im: "innermost (sc_locals s) n (last (named n (sc_locals s)))"
    using named_last by_name_of_index [OF bn] by blast
  then show ?thesis using Some by_name_of_index [OF bn]
    by (auto simp: resolve_local_def innermost_def)
qed

text \<open>
  In every scope the compiler can reach, resolving a name does not panic and gives the local
  that lexical scoping gives: the last declaration of that name which is still open, as \<open>Known\<close> if
  it is initialised and as \<open>Recursive\<close> if its initialiser is still being compiled, and \<open>Unknown\<close>
  exactly when no local has the name.
\<close>

theorem resolve_local_innermost:
  assumes "scope_reachable s"
  shows "case resolve_local s n of
     None \<Rightarrow> False
   | Some LUnknown \<Rightarrow> \<forall>l \<in> set (sc_locals s). l_name l \<noteq> LIdent n
   | Some (LKnown i) \<Rightarrow> innermost (sc_locals s) n i \<and> l_initialised (sc_locals s ! i)
   | Some (LRecursive i) \<Rightarrow> innermost (sc_locals s) n i \<and> \<not> l_initialised (sc_locals s ! i)"
  by (rule resolve_local_spec [OF scope_reachable_inv [OF assms]])

definition example_scope :: "nat scope" where
  "example_scope = begin_scope (snd (declare_phantom 0 False scope_default))"

definition example_shadowed :: "nat scope option" where
  "example_shadowed =
     Option.bind (scope_declare_local ''x'' 1 example_scope) (\<lambda>(_, s).
     Option.bind (mark_initialised 1 s) (\<lambda>s.
     map_option snd (scope_declare_local ''x'' 2 (begin_scope s))))"

lemma example_shadowed_reachable: "\<exists>s. example_shadowed = Some s \<and> scope_reachable s"
proof -
  have r0: "scope_reachable example_scope"
    unfolding example_scope_def by (intro reach_begin reach_ops [OF reach_default] ops_phantom ops_refl)
  obtain r s1 where s1: "scope_declare_local ''x'' 1 example_scope = Some (r, s1)"
    and l1: "length (sc_locals s1) = Suc (length (sc_locals example_scope))"
    using declare_local_spec [OF scope_reachable_inv [OF r0], of "''x''" 1] by auto
  have r1: "scope_reachable s1" using reach_ops [OF r0] ops_local [OF ops_refl s1] by blast
  obtain s2 where s2: "mark_initialised 1 s1 = Some s2"
    using l1 by (simp add: example_scope_def declare_phantom_def begin_scope_def mark_initialised_def update_local_def)
  have "scope_ops s1 s2" by (rule ops_mark [where mark = mark_initialised, OF ops_refl _ s2]) (simp add: marks_def)
  then have r2: "scope_reachable (begin_scope s2)" using reach_begin reach_ops [OF r1] by blast
  obtain r3 s3 where s3: "scope_declare_local ''x'' 2 (begin_scope s2) = Some (r3, s3)"
    using declare_local_spec [OF scope_reachable_inv [OF r2]] by blast
  have "scope_reachable s3" by (rule reach_ops [OF r2 ops_local [OF ops_refl s3]])
  then show ?thesis using s1 s2 s3 by (simp add: example_shadowed_def)
qed

theorem resolve_local_innermost_witness:
  "\<exists>s. example_shadowed = Some s \<and> resolve_local s ''x'' = Some (LRecursive 2) \<and>
     innermost (sc_locals s) ''x'' 2 \<and> \<not> l_initialised (sc_locals s ! 2)"
proof -
  obtain s where s: "example_shadowed = Some s" and r: "scope_reachable s" using example_shadowed_reachable by blast
  have "resolve_local s ''x'' = Some (LRecursive 2)"
    using s by (auto simp: example_shadowed_def example_scope_def scope_declare_local_def declare_phantom_def
        begin_scope_def scope_default_def mark_initialised_def update_local_def resolve_local_def)
  moreover from this have "innermost (sc_locals s) ''x'' 2 \<and> \<not> l_initialised (sc_locals s ! 2)"
    using resolve_local_innermost [OF r, of "''x''"] by simp
  ultimately show ?thesis using s by blast
qed

text \<open>
  Closing a scope undoes what was declared since it was opened. After any operations inside a
  scope, inner scopes included, \<open>end_scope\<close> panics only if there was no local at all before the scope
  was opened; otherwise the locals from before are there again with their names, spans and depths,
  the index of names and the depth are as before, and the reported count is the number of
  initialised locals that were dropped.
\<close>

theorem scope_block_restores:
  assumes "scope_reachable s" "scope_ops (begin_scope s) t"
  shows "case end_scope t of
     None \<Rightarrow> sc_locals s = []
   | Some ((pops, unused), u) \<Rightarrow>
       skeleton (sc_locals u) = skeleton (sc_locals s) \<and> sc_by_name u = sc_by_name s \<and>
       sc_scope_depth u = sc_scope_depth s \<and>
       pops = length (filter l_initialised (drop (length (sc_locals s)) (sc_locals t)))"
proof -
  note inv = scope_reachable_inv [OF assms(1)]
  show ?thesis using block_end [OF inv scope_ops_extends [OF assms(2) scope_inv_begin [OF inv]]]
    by (auto split: option.splits)
qed

theorem scope_block_restores_witness:
  "\<exists>t u. scope_declare_local ''x'' 1 example_scope = Some ((1, None), t) \<and> end_scope t = Some ((0, [1]), u) \<and>
     skeleton (sc_locals u) = [(LPhantom, Some 0, 0)]"
proof -
  let ?s = "snd (declare_phantom 0 False scope_default) :: nat scope"
  have r: "scope_reachable ?s" by (intro reach_ops [OF reach_default] ops_phantom ops_refl)
  obtain t where t: "scope_declare_local ''x'' 1 (begin_scope ?s) = Some ((1, None), t)"
    by (simp add: scope_declare_local_def declare_phantom_def begin_scope_def scope_default_def)
  have ops: "scope_ops (begin_scope ?s) t" by (rule ops_local [OF ops_refl t])
  obtain u where u: "end_scope t = Some ((0, [1]), u)"
    using t by (auto simp: scope_declare_local_def declare_phantom_def begin_scope_def scope_default_def end_scope_def
        local_is_used_def local_is_ignored_def)
  have "skeleton (sc_locals ?s) = [(LPhantom, Some 0, 0)]"
    by (simp add: skeleton_def declare_phantom_def scope_default_def)
  then show ?thesis using scope_block_restores [OF r ops] t u by (simp add: example_scope_def)
qed

lemma uninitialised_count_spec:
  "idx < length locals \<Longrightarrow> uninitialised_count locals idx ls =
     Some (length (filter (\<lambda>l. \<not> l_initialised l \<and> l_depth l < l_depth (locals ! idx)) ls))"
  by (induction ls) auto

text \<open>
  The stack index of a local is the number of values beneath it: the initialised locals before
  it, and the locals of its own scope before it, which are put on the stack in order. When all
  of those are initialised already, it is the number of initialised locals before it.
\<close>

theorem stack_index_counts:
  assumes "scope_reachable s" "idx < length (sc_locals s)"
  shows "stack_index s idx = Some (length (filter
       (\<lambda>l. l_initialised l \<or> l_depth l = l_depth (sc_locals s ! idx)) (take idx (sc_locals s)))) \<and>
    ((\<forall>l \<in> set (take idx (sc_locals s)). l_depth l = l_depth (sc_locals s ! idx) \<longrightarrow> l_initialised l) \<longrightarrow>
     stack_index s idx = Some (length (filter l_initialised (take idx (sc_locals s)))))"
proof -
  let ?ls = "take idx (sc_locals s)" and ?d = "l_depth (sc_locals s ! idx)"
  let ?P = "\<lambda>l. l_initialised l \<or> l_depth l = ?d"
  have "l_depth l \<le> ?d" if "l \<in> set ?ls" for l
    using that assms(2) scope_invD(2) [OF scope_reachable_inv [OF assms(1)]]
    by (auto simp: in_set_conv_nth sorted_iff_nth_mono)
  then have "filter (\<lambda>l. \<not> l_initialised l \<and> l_depth l < ?d) ?ls = filter (\<lambda>l. \<not> ?P l) ?ls"
    by (intro filter_cong) (auto simp: order_le_less)
  moreover have "length (filter ?P ?ls) + length (filter (\<lambda>l. \<not> ?P l) ?ls) = idx"
    using sum_length_filter_compl [of ?P ?ls] assms(2) by simp
  ultimately have eq: "stack_index s idx = Some (length (filter ?P ?ls))"
    using assms(2) by (simp add: stack_index_def uninitialised_count_spec)
  moreover have "filter ?P ?ls = filter l_initialised ?ls"
    if "\<forall>l \<in> set ?ls. l_depth l = ?d \<longrightarrow> l_initialised l"
    using that by (intro filter_cong) auto
  ultimately show ?thesis by auto
qed

theorem stack_index_counts_witness:
  "\<exists>s. example_shadowed = Some s \<and> stack_index s 2 = Some 1"
proof -
  obtain s where s: "example_shadowed = Some s" and r: "scope_reachable s" using example_shadowed_reachable by blast
  have e: "2 < length (sc_locals s)" "length (filter (\<lambda>l. l_initialised l \<or> l_depth l = l_depth (sc_locals s ! 2)) (take 2 (sc_locals s))) = 1"
    using s by (auto simp: example_shadowed_def example_scope_def scope_declare_local_def declare_phantom_def
        begin_scope_def scope_default_def mark_initialised_def update_local_def)
  then have "stack_index s 2 = Some 1" using stack_index_counts [OF r e(1)] by simp
  then show ?thesis using s by blast
qed

end
