(* ===== verification/Bytecode.thy ===== *)
theory Bytecode
  imports Prelude
begin

text \<open>
  The instruction set and the chunks of bytecode (\<open>eval/src/opcode.rs\<close>, \<open>eval/src/chunk.rs\<close>, the
  packing of upvalue data in \<open>eval/src/upvalues.rs\<close>), and how a frame of the virtual machine reads
  them (\<open>eval/src/vm/mod.rs\<close>).

  The variable-length integers of the \<open>vu128\<close> crate are a parameter: an encoder into at most nine
  bytes and a decoder that reads nine bytes and returns the number and how many bytes it used. A span
  and a constant are values of parameter types. \<open>None\<close> is a panic.
\<close>

section \<open>Operations\<close>

datatype (plugins only: code size) op =
    OpConstant | OpPop | OpInvert | OpNegate | OpAdd | OpSub
  | OpMul | OpDiv | OpEqual | OpLess | OpLessOrEq | OpMore
  | OpMoreOrEq | OpJump | OpJumpIfTrue | OpJumpIfFalse | OpJumpIfCatchable | OpJumpIfNotFound
  | OpJumpIfNoFinaliseRequest | OpAttrs | OpAttrsUpdate | OpAttrsSelect | OpAttrsTrySelect | OpHasAttr
  | OpValidateClosedFormals | OpPushWith | OpPopWith | OpResolveWith | OpList | OpConcat
  | OpInterpolate | OpCoerceToString | OpFindFile | OpResolveHomePath | OpInterpolatePath | OpAssertBool
  | OpAssertAttrs | OpGetLocal | OpCloseScope | OpAssertFail | OpCall | OpGetUpvalue
  | OpClosure | OpThunkClosure | OpThunkSuspended | OpForce | OpFinalise | OpReturn
  | OpInvalid

definition ops :: "op list" where
  "ops =
    [OpConstant, OpPop, OpInvert, OpNegate, OpAdd, OpSub,
     OpMul, OpDiv, OpEqual, OpLess, OpLessOrEq, OpMore,
     OpMoreOrEq, OpJump, OpJumpIfTrue, OpJumpIfFalse, OpJumpIfCatchable, OpJumpIfNotFound,
     OpJumpIfNoFinaliseRequest, OpAttrs, OpAttrsUpdate, OpAttrsSelect, OpAttrsTrySelect, OpHasAttr,
     OpValidateClosedFormals, OpPushWith, OpPopWith, OpResolveWith, OpList, OpConcat,
     OpInterpolate, OpCoerceToString, OpFindFile, OpResolveHomePath, OpInterpolatePath, OpAssertBool,
     OpAssertAttrs, OpGetLocal, OpCloseScope, OpAssertFail, OpCall, OpGetUpvalue,
     OpClosure, OpThunkClosure, OpThunkSuspended, OpForce, OpFinalise, OpReturn,
     OpInvalid]"

text \<open>The discriminant of an operation, and its inverse.\<close>

fun index_of :: "'a \<Rightarrow> 'a list \<Rightarrow> nat" where
  "index_of x [] = 0"
| "index_of x (y # ys) = (if x = y then 0 else Suc (index_of x ys))"

definition op_u8 :: "op \<Rightarrow> u8" where
  "op_u8 op = of_nat (index_of op ops)"

definition op_from_u8 :: "u8 \<Rightarrow> op" where
  "op_from_u8 num = (if op_u8 OpInvalid \<le> num then OpInvalid else ops ! unat num)"

datatype (plugins only: code size) op_arg = ArgNone | ArgUvarint | ArgFixed | ArgCustom

definition op_arg_type :: "op \<Rightarrow> op_arg" where
  "op_arg_type op =
     (if op \<in> {OpConstant, OpAttrs, OpPushWith, OpList, OpInterpolate, OpInterpolatePath, OpGetLocal,
               OpCloseScope, OpGetUpvalue, OpFinalise} then ArgUvarint
      else if op \<in> {OpJump, OpJumpIfTrue, OpJumpIfFalse, OpJumpIfCatchable, OpJumpIfNotFound,
                    OpJumpIfNoFinaliseRequest} then ArgFixed
      else if op \<in> {OpCoerceToString, OpClosure, OpThunkClosure, OpThunkSuspended} then ArgCustom
      else ArgNone)"

section \<open>Where an upvalue is captured from\<close>

definition position_stack_index :: "u64 \<Rightarrow> u64" where
  "position_stack_index idx = push_bit 2 idx"

definition position_deferred_local :: "u64 \<Rightarrow> u64" where
  "position_deferred_local idx = push_bit 2 idx OR 1"

definition position_upvalue_index :: "u64 \<Rightarrow> u64" where
  "position_upvalue_index idx = push_bit 2 idx OR 2"

definition runtime_stack_index :: "u64 \<Rightarrow> u64 option" where
  "runtime_stack_index p = (if p AND 3 = 0 then Some (drop_bit 2 p) else None)"

definition runtime_deferred_local :: "u64 \<Rightarrow> u64 option" where
  "runtime_deferred_local p = (if p AND 3 = 1 then Some (drop_bit 2 p) else None)"

definition runtime_upvalue_index :: "u64 \<Rightarrow> u64 option" where
  "runtime_upvalue_index p = (if p AND 3 = 2 then Some (drop_bit 2 p) else None)"

text \<open>The count of upvalues, with one bit for whether the \<open>with\<close> stack is captured.\<close>

definition upvalue_data_new :: "u64 \<Rightarrow> bool \<Rightarrow> u64 option" where
  "upvalue_data_new count captures_with =
     (if count < 2 ^ 63 - 1 then Some (push_bit 1 count OR (if captures_with then 1 else 0)) else None)"

definition upvalue_data_count :: "u64 \<Rightarrow> u64" where
  "upvalue_data_count raw = drop_bit 1 raw"

definition upvalue_data_captures_with :: "u64 \<Rightarrow> bool" where
  "upvalue_data_captures_with raw \<longleftrightarrow> raw AND 1 = 1"

section \<open>Chunks\<close>

definition U64_VARINT_SIZE :: nat where
  "U64_VARINT_SIZE = 9"

record ('sp, 'v) chunk =
  ch_code :: "u8 list"
  ch_constants :: "'v list"
  ch_spans :: "('sp \<times> nat) list"
  ch_last_op :: nat

definition chunk_default :: "('sp, 'v) chunk" where
  "chunk_default = \<lparr>ch_code = [], ch_constants = [], ch_spans = [], ch_last_op = 0\<rparr>"

definition push_span :: "'sp \<Rightarrow> nat \<Rightarrow> ('sp, 'v) chunk \<Rightarrow> ('sp, 'v) chunk" where
  "push_span span start c =
     (if ch_spans c \<noteq> [] \<and> fst (last (ch_spans c)) = span then c
      else c\<lparr>ch_spans := ch_spans c @ [(span, start)]\<rparr>)"

definition push_op :: "op \<Rightarrow> 'sp \<Rightarrow> ('sp, 'v) chunk \<Rightarrow> nat \<times> ('sp, 'v) chunk" where
  "push_op op span c =
     (let last_op = length (ch_code c)
      in (last_op, push_span span last_op (c\<lparr>ch_last_op := last_op, ch_code := ch_code c @ [op_u8 op]\<rparr>)))"

definition push_uvarint :: "(u64 \<Rightarrow> u8 list) \<Rightarrow> u64 \<Rightarrow> ('sp, 'v) chunk \<Rightarrow> ('sp, 'v) chunk" where
  "push_uvarint encode_u64 data c = c\<lparr>ch_code := ch_code c @ encode_u64 data\<rparr>"

text \<open>The operand is followed by zeros if fewer than nine bytes of code are left.\<close>

definition read_uvarint :: "(u8 list \<Rightarrow> u64 \<times> nat) \<Rightarrow> u8 list \<Rightarrow> nat \<Rightarrow> (u64 \<times> nat) option" where
  "read_uvarint decode_u64 code idx =
     (if length code \<le> idx then None
      else if U64_VARINT_SIZE \<le> length code - idx then Some (decode_u64 (take U64_VARINT_SIZE (drop idx code)))
      else Some (decode_u64 (drop idx code @ replicate (U64_VARINT_SIZE - (length code - idx)) 0)))"

text \<open>\<open>u16\<close> operands are little-endian.\<close>

definition u16_to_le_bytes :: "u16 \<Rightarrow> u8 list" where
  "u16_to_le_bytes w = [ucast w, ucast (drop_bit 8 w)]"

definition u16_from_le_bytes :: "u8 \<Rightarrow> u8 \<Rightarrow> u16" where
  "u16_from_le_bytes a b = ucast a OR push_bit 8 (ucast b)"

definition push_u16 :: "u16 \<Rightarrow> ('sp, 'v) chunk \<Rightarrow> ('sp, 'v) chunk" where
  "push_u16 data c = c\<lparr>ch_code := ch_code c @ u16_to_le_bytes data\<rparr>"

definition read_u16 :: "u8 list \<Rightarrow> nat \<Rightarrow> u16 option" where
  "read_u16 code idx = (if length code < idx + 2 then None else Some (u16_from_le_bytes (code ! idx) (code ! (idx + 1))))"

text \<open>
  \<open>patch_jump\<close>: the offset is truncated to 16 bits. The subtraction panics below zero, and so does
  the write if the operand is not inside the code.
\<close>

definition chunk_patch_jump :: "nat \<Rightarrow> ('sp, 'v) chunk \<Rightarrow> ('sp, 'v) chunk option" where
  "chunk_patch_jump idx c =
     (if length (ch_code c) < idx + 3 then None
      else let offset = of_nat (length (ch_code c) - idx - 1 - 2);
               bytes = u16_to_le_bytes offset
           in Some (c\<lparr>ch_code := (ch_code c)[idx + 1 := bytes ! 0, idx + 2 := bytes ! 1]\<rparr>))"

definition first_span :: "('sp, 'v) chunk \<Rightarrow> 'sp option" where
  "first_span c = (if ch_spans c = [] then None else Some (fst (hd (ch_spans c))))"

definition last_op :: "('sp, 'v) chunk \<Rightarrow> (op \<times> nat) option option" where
  "last_op c =
     (if ch_code c = [] then Some None
      else if ch_last_op c < length (ch_code c)
      then Some (Some (op_from_u8 (ch_code c ! ch_last_op c), ch_last_op c))
      else None)"

definition push_constant :: "'v \<Rightarrow> ('sp, 'v) chunk \<Rightarrow> nat \<times> ('sp, 'v) chunk" where
  "push_constant data c = (length (ch_constants c), c\<lparr>ch_constants := ch_constants c @ [data]\<rparr>)"

definition get_constant :: "('sp, 'v) chunk \<Rightarrow> nat \<Rightarrow> 'v option" where
  "get_constant c idx = (if idx < length (ch_constants c) then Some (ch_constants c ! idx) else None)"

text \<open>
  \<open>binary_search_by\<close> of the standard library on a vector of strictly increasing keys: the index of
  the key, or the index at which it would have to be inserted.
\<close>

definition binary_search :: "nat list \<Rightarrow> nat \<Rightarrow> nat + nat" where
  "binary_search keys k =
     (let i = length (takeWhile (\<lambda>x. x < k) keys)
      in if i < length keys \<and> keys ! i = k then Inr i else Inl i)"

definition get_span :: "('sp, 'v) chunk \<Rightarrow> nat \<Rightarrow> 'sp option" where
  "get_span c offset =
     (let index = (case binary_search (map snd (ch_spans c)) offset of
                     Inr index \<Rightarrow> index
                   | Inl index \<Rightarrow> if index = 0 then 0 else index - 1)
      in if index < length (ch_spans c) then Some (fst (ch_spans c ! index)) else None)"

section \<open>Counting operations\<close>

text \<open>The total length of \<open>n\<close> variable-length integers from \<open>idx\<close> on.\<close>

fun uvarints_len :: "(u8 list \<Rightarrow> u64 \<times> nat) \<Rightarrow> u8 list \<Rightarrow> nat \<Rightarrow> nat \<Rightarrow> nat option" where
  "uvarints_len dec code idx 0 = Some 0"
| "uvarints_len dec code idx (Suc n) =
     Option.bind (read_uvarint dec code idx) (\<lambda>(_, size). map_option ((+) size) (uvarints_len dec code (idx + size) n))"

definition op_len :: "(u8 list \<Rightarrow> u64 \<times> nat) \<Rightarrow> u8 list \<Rightarrow> nat \<Rightarrow> nat option" where
  "op_len dec code idx =
     (if length code \<le> idx then None
      else let op = op_from_u8 (code ! idx)
           in case op_arg_type op of
                ArgNone \<Rightarrow> Some 1
              | ArgUvarint \<Rightarrow> map_option (\<lambda>(_, len). len + 1) (read_uvarint dec code (idx + 1))
              | ArgFixed \<Rightarrow> Some 3
              | ArgCustom \<Rightarrow>
                  if op = OpCoerceToString then Some 2
                  else Option.bind (read_uvarint dec code (idx + 1)) (\<lambda>(_, size).
                       Option.bind (read_uvarint dec code (idx + 1 + size)) (\<lambda>(packed_count, size').
                       map_option (\<lambda>rest. 1 + size + size' + rest)
                         (uvarints_len dec code (idx + 1 + size + size') (unat (drop_bit 1 packed_count))))))"

lemma op_len_pos: "op_len dec code idx = Some len \<Longrightarrow> 0 < len"
  by (auto simp: op_len_def Let_def bind_eq_Some_conv split: if_splits op_arg.splits)

function op_count_loop :: "(u8 list \<Rightarrow> u64 \<times> nat) \<Rightarrow> ('sp, 'v) chunk \<Rightarrow> nat \<Rightarrow> nat \<Rightarrow> nat option" where
  "op_count_loop dec c idx count =
     (if ch_last_op c < idx then Some count
      else case op_len dec (ch_code c) idx of
             None \<Rightarrow> None
           | Some len \<Rightarrow> op_count_loop dec c (idx + len) (count + 1))"
  by pat_completeness auto
termination
  by (relation "measure (\<lambda>(_, c, idx, _). Suc (ch_last_op c) - idx)") (auto dest: op_len_pos)

declare op_count_loop.simps [simp del]

definition op_count :: "(u8 list \<Rightarrow> u64 \<times> nat) \<Rightarrow> ('sp, 'v) chunk \<Rightarrow> nat option" where
  "op_count dec c = (if ch_code c = [] then Some 0 else op_count_loop dec c 0 0)"

section \<open>Reading bytecode\<close>

text \<open>The instruction pointer of a frame and the three ways in which it moves over the code.\<close>

definition frame_inc_ip :: "u8 list \<Rightarrow> nat \<Rightarrow> (op \<times> nat) option" where
  "frame_inc_ip code ip = (if ip < length code then Some (op_from_u8 (code ! ip), ip + 1) else None)"

definition frame_read_uvarint :: "(u8 list \<Rightarrow> u64 \<times> nat) \<Rightarrow> u8 list \<Rightarrow> nat \<Rightarrow> (u64 \<times> nat) option" where
  "frame_read_uvarint dec code ip = map_option (\<lambda>(arg, size). (arg, ip + size)) (read_uvarint dec code ip)"

definition frame_read_u16 :: "u8 list \<Rightarrow> nat \<Rightarrow> (u16 \<times> nat) option" where
  "frame_read_u16 code ip = map_option (\<lambda>arg. (arg, ip + 2)) (read_u16 code ip)"

section \<open>Instructions\<close>

text \<open>
  An instruction is an operation with its operand. \<open>emit_instr\<close> is the sequence of pushes with which
  the compiler emits it, \<open>fetch_instr\<close> the sequence of reads with which the machine fetches it.
\<close>

datatype (plugins only: code size) operand = NoOperand | Uvarint u64 | Fixed u16 | Coercion u8 | Upvalues u64 bool "u64 list"

type_synonym instr = "op \<times> operand"

fun operand_ok :: "instr \<Rightarrow> bool" where
  "operand_ok (op, NoOperand) \<longleftrightarrow> op_arg_type op = ArgNone \<and> op \<noteq> OpInvalid"
| "operand_ok (op, Uvarint _) \<longleftrightarrow> op_arg_type op = ArgUvarint"
| "operand_ok (op, Fixed _) \<longleftrightarrow> op_arg_type op = ArgFixed"
| "operand_ok (op, Coercion _) \<longleftrightarrow> op = OpCoerceToString"
| "operand_ok (op, Upvalues _ _ us) \<longleftrightarrow>
     op \<in> {OpClosure, OpThunkClosure, OpThunkSuspended} \<and> length us < 2 ^ 63 - 1"

fun push_operand :: "(u64 \<Rightarrow> u8 list) \<Rightarrow> operand \<Rightarrow> ('sp, 'v) chunk \<Rightarrow> ('sp, 'v) chunk" where
  "push_operand enc NoOperand c = c"
| "push_operand enc (Uvarint n) c = push_uvarint enc n c"
| "push_operand enc (Fixed w) c = push_u16 w c"
| "push_operand enc (Coercion b) c = c\<lparr>ch_code := ch_code c @ [b]\<rparr>"
| "push_operand enc (Upvalues bp w us) c =
     fold (push_uvarint enc) us
       (push_uvarint enc (push_bit 1 (of_nat (length us)) OR (if w then 1 else 0)) (push_uvarint enc bp c))"

definition emit_instr :: "(u64 \<Rightarrow> u8 list) \<Rightarrow> 'sp \<times> instr \<Rightarrow> ('sp, 'v) chunk \<Rightarrow> ('sp, 'v) chunk" where
  "emit_instr enc = (\<lambda>(span, op, operand) c. push_operand enc operand (snd (push_op op span c)))"

fun fetch_uvarints :: "(u8 list \<Rightarrow> u64 \<times> nat) \<Rightarrow> u8 list \<Rightarrow> nat \<Rightarrow> nat \<Rightarrow> (u64 list \<times> nat) option" where
  "fetch_uvarints dec code ip 0 = Some ([], ip)"
| "fetch_uvarints dec code ip (Suc n) =
     Option.bind (frame_read_uvarint dec code ip) (\<lambda>(u, ip).
       map_option (\<lambda>(us, ip). (u # us, ip)) (fetch_uvarints dec code ip n))"

definition fetch_instr :: "(u8 list \<Rightarrow> u64 \<times> nat) \<Rightarrow> u8 list \<Rightarrow> nat \<Rightarrow> (instr \<times> nat) option" where
  "fetch_instr dec code ip =
     Option.bind (frame_inc_ip code ip) (\<lambda>(op, ip).
       case op_arg_type op of
         ArgNone \<Rightarrow> Some ((op, NoOperand), ip)
       | ArgUvarint \<Rightarrow> map_option (\<lambda>(n, ip). ((op, Uvarint n), ip)) (frame_read_uvarint dec code ip)
       | ArgFixed \<Rightarrow> map_option (\<lambda>(w, ip). ((op, Fixed w), ip)) (frame_read_u16 code ip)
       | ArgCustom \<Rightarrow>
           if op = OpCoerceToString
           then (if ip < length code then Some ((op, Coercion (code ! ip)), ip + 1) else None)
           else Option.bind (frame_read_uvarint dec code ip) (\<lambda>(bp, ip).
                Option.bind (frame_read_uvarint dec code ip) (\<lambda>(raw, ip).
                map_option (\<lambda>(us, ip). ((op, Upvalues bp (upvalue_data_captures_with raw) us), ip))
                  (fetch_uvarints dec code ip (unat (upvalue_data_count raw))))))"

section \<open>Operations and their bytes\<close>

lemma op_in_ops: "op \<in> set ops"
  by (cases op) (simp_all add: ops_def)

lemma index_of_nth: "x \<in> set xs \<Longrightarrow> index_of x xs < length xs \<and> xs ! index_of x xs = x"
  by (induction xs) auto

lemma length_ops: "length ops = 49"
  by (simp add: ops_def)

lemma unat_op_u8: "unat (op_u8 op) = index_of op ops"
proof -
  have "index_of op ops < 2 ^ 8" using index_of_nth [OF op_in_ops, of op] length_ops by simp
  then show ?thesis by (simp add: op_u8_def unat_of_nat)
qed

lemma op_u8_Invalid: "op_u8 OpInvalid = 48"
  by (simp add: op_u8_def ops_def)

lemma op_from_u8_op_u8 [simp]: "op_from_u8 (op_u8 op) = op"
proof (cases "op = OpInvalid")
  case False
  have "index_of op ops \<noteq> 48"
  proof
    assume "index_of op ops = 48"
    then have "ops ! 48 = op" using index_of_nth [OF op_in_ops, of op] by simp
    then show False using False by (simp add: ops_def)
  qed
  then have "unat (op_u8 op) < 48"
    using index_of_nth [OF op_in_ops, of op] by (simp add: unat_op_u8 length_ops)
  then have "op_u8 op < op_u8 OpInvalid" by (simp add: op_u8_Invalid word_less_nat_alt)
  then show ?thesis using index_of_nth [OF op_in_ops, of op] by (auto simp: op_from_u8_def unat_op_u8 dest: leD)
qed (simp add: op_from_u8_def)

section \<open>Round trip of instructions\<close>

text \<open>
  The documented contract of \<open>vu128\<close>: an encoding has one to nine bytes, and decoding nine bytes that
  start with it gives the number and the length of the encoding.
\<close>

definition varint :: "(u64 \<Rightarrow> u8 list) \<Rightarrow> (u8 list \<Rightarrow> u64 \<times> nat) \<Rightarrow> bool" where
  "varint enc dec \<longleftrightarrow>
     (\<forall>n. 0 < length (enc n) \<and> length (enc n) \<le> 9 \<and>
          (\<forall>rest. length (enc n @ rest) = 9 \<longrightarrow> dec (enc n @ rest) = (n, length (enc n))))"

lemma varintD:
  assumes "varint enc dec"
  shows "0 < length (enc n)" "length (enc n) \<le> 9" "enc n \<noteq> []"
    "length (enc n @ rest) = 9 \<Longrightarrow> dec (enc n @ rest) = (n, length (enc n))"
  using assms by (auto simp: varint_def)

text \<open>The bytes of an instruction.\<close>

fun operand_bytes :: "(u64 \<Rightarrow> u8 list) \<Rightarrow> operand \<Rightarrow> u8 list" where
  "operand_bytes enc NoOperand = []"
| "operand_bytes enc (Uvarint n) = enc n"
| "operand_bytes enc (Fixed w) = u16_to_le_bytes w"
| "operand_bytes enc (Coercion b) = [b]"
| "operand_bytes enc (Upvalues bp w us) =
     enc bp @ enc (push_bit 1 (of_nat (length us)) OR (if w then 1 else 0)) @ concat (map enc us)"

definition instr_bytes :: "(u64 \<Rightarrow> u8 list) \<Rightarrow> instr \<Rightarrow> u8 list" where
  "instr_bytes enc = (\<lambda>(op, operand). op_u8 op # operand_bytes enc operand)"

lemma instr_bytes_not_Nil [simp]: "instr_bytes enc i \<noteq> []"
  by (cases i) (simp add: instr_bytes_def)

lemma fold_push_uvarint: "fold (push_uvarint enc) us c = c\<lparr>ch_code := ch_code c @ concat (map enc us)\<rparr>"
  by (induction us arbitrary: c) (simp_all add: push_uvarint_def)

lemma push_operand_bytes: "push_operand enc operand c = c\<lparr>ch_code := ch_code c @ operand_bytes enc operand\<rparr>"
  by (cases operand) (simp_all add: fold_push_uvarint, simp_all add: push_uvarint_def push_u16_def)

lemma emit_instr_fields:
  "ch_code (emit_instr enc (sp, i) c) = ch_code c @ instr_bytes enc i"
  "ch_last_op (emit_instr enc (sp, i) c) = length (ch_code c)"
  "ch_spans (emit_instr enc (sp, i) c) = ch_spans (push_span sp (length (ch_code c)) c)"
  "ch_constants (emit_instr enc (sp, i) c) = ch_constants c"
  by (cases i; simp add: emit_instr_def push_operand_bytes push_op_def Let_def push_span_def instr_bytes_def)+

lemma read_uvarint_append:
  assumes "varint enc dec"
  shows "read_uvarint dec (pre @ enc n @ post) (length pre) = Some (n, length (enc n))"
proof -
  note v = varintD [OF assms, of n]
  let ?code = "pre @ enc n @ post"
  have left: "length ?code - length pre = length (enc n) + length post" by simp
  show ?thesis
  proof (cases "9 \<le> length (enc n) + length post")
    case True
    have "take 9 (enc n @ post) = enc n @ take (9 - length (enc n)) post" using v(2) by simp
    moreover have "dec (enc n @ take (9 - length (enc n)) post) = (n, length (enc n))"
      using True v(2) by (intro v(4)) simp
    ultimately show ?thesis using True v(1) by (simp add: read_uvarint_def U64_VARINT_SIZE_def left)
  next
    case False
    have "dec (enc n @ post @ replicate (9 - (length (enc n) + length post)) 0) = (n, length (enc n))"
      using False by (intro v(4)) simp
    then show ?thesis using False v(1) by (simp add: read_uvarint_def U64_VARINT_SIZE_def)
  qed
qed

lemma read_uvarint_at:
  assumes "varint enc dec" "code = pre @ enc n @ post" "idx = length pre"
  shows "read_uvarint dec code idx = Some (n, length (enc n))"
  using read_uvarint_append [OF assms(1)] assms(2,3) by simp

lemma read_u16_append: "read_u16 (pre @ u16_to_le_bytes w @ post) (length pre) = Some w"
proof -
  have "u16_from_le_bytes (ucast w) (ucast (drop_bit 8 w)) = w"
    unfolding u16_from_le_bytes_def
    by (rule bit_word_eqI) (auto simp: bit_simps dest: bit_imp_le_length)
  then show ?thesis by (simp add: read_u16_def u16_to_le_bytes_def nth_append)
qed

lemma read_u16_at: "code = pre @ u16_to_le_bytes w @ post \<Longrightarrow> idx = length pre \<Longrightarrow> read_u16 code idx = Some w"
  using read_u16_append [of pre w post] by simp

lemma uvarints_append:
  assumes "varint enc dec"
  shows "code = pre @ concat (map enc us) @ post \<Longrightarrow> idx = length pre \<Longrightarrow>
    uvarints_len dec code idx (length us) = Some (length (concat (map enc us))) \<and>
    fetch_uvarints dec code idx (length us) = Some (us, idx + length (concat (map enc us)))"
proof (induction us arbitrary: pre idx)
  case (Cons u us)
  have r: "read_uvarint dec code idx = Some (u, length (enc u))"
    by (rule read_uvarint_at [OF assms, of _ pre _ "concat (map enc us) @ post"]) (use Cons.prems in simp_all)
  have "uvarints_len dec code (idx + length (enc u)) (length us) = Some (length (concat (map enc us))) \<and>
    fetch_uvarints dec code (idx + length (enc u)) (length us) = Some (us, idx + length (enc u) + length (concat (map enc us)))"
    by (rule Cons.IH [of "pre @ enc u"]) (use Cons.prems in simp_all)
  then show ?case using r by (simp add: frame_read_uvarint_def)
qed simp

text \<open>The two values packed into the count of upvalues.\<close>

lemma captures_with_bit: "upvalue_data_captures_with raw \<longleftrightarrow> bit raw 0"
  by (simp add: upvalue_data_captures_with_def and_one_eq bit_0 odd_iff_mod_2_eq_one)

lemma upvalue_data_packed:
  assumes "n < 2 ^ 63 - 1"
  shows "unat (drop_bit 1 (push_bit 1 (of_nat n) OR (if w then 1 else 0) :: u64)) = n"
    "upvalue_data_captures_with (push_bit 1 (of_nat n) OR (if w then 1 else 0)) = w"
proof -
  have n: "unat (of_nat n :: u64) = n" using assms by (simp add: unat_of_nat)
  have "\<not> bit n 63" using assms by (simp add: bit_iff_odd)
  then have top: "\<not> bit (of_nat n :: u64) 63" using bit_unsigned_iff [where 'a = nat, of "of_nat n :: u64" 63] n by simp
  have "drop_bit 1 (push_bit 1 (of_nat n) OR (if w then 1 else 0) :: u64) = of_nat n"
  proof (rule bit_word_eqI)
    fix k assume "k < LENGTH(64)"
    then show "bit (drop_bit 1 (push_bit 1 (of_nat n) OR (if w then 1 else 0) :: u64)) k = bit (of_nat n :: u64) k"
      using top unfolding bit_drop_bit_eq bit_or_iff bit_push_bit_iff comp_def
      by (cases "k = 63") (auto simp: bit_1_iff possible_bit_def dest: bit_imp_le_length)
  qed
  then show "unat (drop_bit 1 (push_bit 1 (of_nat n) OR (if w then 1 else 0) :: u64)) = n"
    using n by simp
  show "upvalue_data_captures_with (push_bit 1 (of_nat n) OR (if w then 1 else 0)) = w"
    unfolding captures_with_bit bit_or_iff bit_push_bit_iff by auto
qed

lemma op_arg_type_Custom:
  "op_arg_type OpCoerceToString = ArgCustom" "op_arg_type OpClosure = ArgCustom"
  "op_arg_type OpThunkClosure = ArgCustom" "op_arg_type OpThunkSuspended = ArgCustom"
  by (simp_all add: op_arg_type_def)

lemma fetch_instr_at:
  assumes v: "varint enc dec" and ok: "operand_ok i" and code: "code = pre @ instr_bytes enc i @ post"
    and ip: "ip = length pre"
  shows "fetch_instr dec code ip = Some (i, ip + length (instr_bytes enc i)) \<and>
    op_len dec code ip = Some (length (instr_bytes enc i))"
proof -
  obtain op operand where i: "i = (op, operand)" by (cases i)
  have inc: "frame_inc_ip code ip = Some (op, Suc ip)" and here: "ip < length code" "op_from_u8 (code ! ip) = op"
    using code ip i by (simp_all add: frame_inc_ip_def instr_bytes_def nth_append)
  have c: "code = (pre @ [op_u8 op]) @ operand_bytes enc operand @ post" "Suc ip = length (pre @ [op_u8 op])"
    using code ip i by (simp_all add: instr_bytes_def)
  show ?thesis
  proof (cases operand)
    case (Uvarint n)
    have "read_uvarint dec code (Suc ip) = Some (n, length (enc n))"
      by (rule read_uvarint_at [OF v, of _ "pre @ [op_u8 op]" _ post]) (use c Uvarint in simp_all)
    then show ?thesis using inc here ok i Uvarint
      by (simp add: fetch_instr_def op_len_def frame_read_uvarint_def instr_bytes_def)
  next
    case (Fixed w)
    have "read_u16 code (Suc ip) = Some w"
      by (rule read_u16_at [of _ "pre @ [op_u8 op]" _ post]) (use c Fixed in simp_all)
    then show ?thesis using inc here ok i Fixed
      by (simp add: fetch_instr_def op_len_def frame_read_u16_def instr_bytes_def u16_to_le_bytes_def)
  next
    case (Upvalues bp w us)
    let ?raw = "push_bit 1 (of_nat (length us)) OR (if w then 1 else 0) :: u64"
    let ?ip2 = "Suc ip + length (enc bp)" and ?ip3 = "Suc ip + length (enc bp) + length (enc ?raw)"
    have r: "read_uvarint dec code (Suc ip) = Some (bp, length (enc bp))"
      by (rule read_uvarint_at [OF v, of _ "pre @ [op_u8 op]" _ "enc ?raw @ concat (map enc us) @ post"])
        (use c Upvalues in simp_all)
    have r2: "read_uvarint dec code ?ip2 = Some (?raw, length (enc ?raw))"
      by (rule read_uvarint_at [OF v, of _ "pre @ op_u8 op # enc bp" _ "concat (map enc us) @ post"])
        (use c Upvalues in simp_all)
    have "code = (pre @ op_u8 op # enc bp @ enc ?raw) @ concat (map enc us) @ post"
      using c Upvalues by simp
    then have r3: "uvarints_len dec code ?ip3 (length us) = Some (length (concat (map enc us)))"
      "fetch_uvarints dec code ?ip3 (length us) = Some (us, ?ip3 + length (concat (map enc us)))"
      using uvarints_append [OF v, of code "pre @ op_u8 op # enc bp @ enc ?raw" us post ?ip3] ip by simp_all
    have op: "op \<noteq> OpCoerceToString" "op_arg_type op = ArgCustom" and us: "length us < 2 ^ 63 - 1"
      using ok i Upvalues by (auto simp: op_arg_type_Custom)
    note packed = upvalue_data_packed [OF us, of w]
    show ?thesis
      using inc here i Upvalues r r2 r3 op packed
      by (simp add: fetch_instr_def op_len_def frame_read_uvarint_def instr_bytes_def upvalue_data_count_def
          add.assoc del: push_bit_Suc)
  qed (use inc here ok i c in \<open>simp_all add: fetch_instr_def op_len_def instr_bytes_def op_arg_type_Custom nth_append\<close>)
qed

section \<open>Whole chunks\<close>

definition emit_all :: "(u64 \<Rightarrow> u8 list) \<Rightarrow> ('sp \<times> instr) list \<Rightarrow> ('sp, 'v) chunk" where
  "emit_all enc is = fold (emit_instr enc) is chunk_default"

definition code_of :: "(u64 \<Rightarrow> u8 list) \<Rightarrow> ('sp \<times> instr) list \<Rightarrow> u8 list" where
  "code_of enc is = concat (map (instr_bytes enc \<circ> snd) is)"

lemma code_of_simps [simp]:
  "code_of enc [] = []" "code_of enc ((sp, i) # is) = instr_bytes enc i @ code_of enc is"
  "code_of enc (is @ js) = code_of enc is @ code_of enc js"
  by (simp_all add: code_of_def)

lemma emit_all_snoc: "emit_all enc (is @ [x]) = emit_instr enc x (emit_all enc is)"
  by (simp add: emit_all_def)

lemma emit_all_code: "ch_code (emit_all enc is) = code_of enc is"
  by (induction "is" rule: rev_induct)
    (auto simp: emit_all_snoc emit_instr_fields emit_all_def [of enc "[]"] chunk_default_def)

lemma emit_all_last_op: "is \<noteq> [] \<Longrightarrow> ch_last_op (emit_all enc is) = length (code_of enc (butlast is))"
  by (cases "is" rule: rev_cases) (auto simp: emit_all_snoc emit_instr_fields emit_all_code)

text \<open>Fetching until the end of the code.\<close>

fun fetch_all :: "(u8 list \<Rightarrow> u64 \<times> nat) \<Rightarrow> u8 list \<Rightarrow> nat \<Rightarrow> nat \<Rightarrow> instr list option" where
  "fetch_all dec code 0 ip = None"
| "fetch_all dec code (Suc fuel) ip =
     (if ip = length code then Some []
      else Option.bind (fetch_instr dec code ip) (\<lambda>(i, ip). map_option ((#) i) (fetch_all dec code fuel ip)))"

lemma fetch_all_code_of:
  assumes "varint enc dec"
  shows "list_all (operand_ok \<circ> snd) is \<Longrightarrow> code = pre @ code_of enc is \<Longrightarrow> ip = length pre \<Longrightarrow>
    length is < fuel \<Longrightarrow> fetch_all dec code fuel ip = Some (map snd is)"
proof (induction "is" arbitrary: pre ip fuel)
  case Nil
  then show ?case by (cases fuel) auto
next
  case (Cons x "is")
  obtain sp i where x: "x = (sp, i)" by (cases x)
  obtain f where f: "fuel = Suc f" using Cons.prems by (cases fuel) auto
  have "fetch_instr dec code ip = Some (i, ip + length (instr_bytes enc i))"
    using fetch_instr_at [OF assms, of i code pre "code_of enc is"] Cons.prems x by auto
  moreover have "fetch_all dec code f (ip + length (instr_bytes enc i)) = Some (map snd is)"
    by (rule Cons.IH [of "pre @ instr_bytes enc i"]) (use Cons.prems x f in auto)
  moreover have "ip \<noteq> length code" using Cons.prems x by simp
  ultimately show ?case using x f by simp
qed

lemma op_count_loop_code_of:
  assumes "varint enc dec"
  shows "list_all (operand_ok \<circ> snd) js \<Longrightarrow> js \<noteq> [] \<Longrightarrow> ch_code c = pre @ code_of enc js \<Longrightarrow>
    ch_last_op c = length pre + length (code_of enc (butlast js)) \<Longrightarrow> idx = length pre \<Longrightarrow>
    op_count_loop dec c idx n = Some (n + length js)"
proof (induction js arbitrary: pre idx n)
  case (Cons x js)
  obtain sp i where x: "x = (sp, i)" by (cases x)
  have len: "op_len dec (ch_code c) idx = Some (length (instr_bytes enc i))"
    using fetch_instr_at [OF assms, of i "ch_code c" pre "code_of enc js"] Cons.prems x by auto
  have "op_count_loop dec c (idx + length (instr_bytes enc i)) (n + 1) = Some (n + 1 + length js)"
  proof (cases "js = []")
    case True
    then show ?thesis using Cons.prems x by (simp add: op_count_loop.simps)
  next
    case False
    show ?thesis
      by (rule Cons.IH [of "pre @ instr_bytes enc i"]) (use Cons.prems x False in auto)
  qed
  moreover have "\<not> ch_last_op c < idx" using Cons.prems(4,5) by simp
  ultimately show ?case using len by (subst op_count_loop.simps) simp
qed simp

section \<open>Spans\<close>

text \<open>The entry of \<open>sp\<close> is the last one that starts at or before the offset \<open>k\<close>.\<close>

definition span_at :: "('sp \<times> nat) list \<Rightarrow> nat \<Rightarrow> 'sp \<Rightarrow> bool" where
  "span_at spans k sp \<longleftrightarrow> (\<exists>A st B. spans = A @ (sp, st) # B \<and> (\<forall>x \<in> set A. snd x < st) \<and> st \<le> k \<and> (\<forall>x \<in> set B. k < snd x))"

lemma get_span_at:
  assumes "span_at (ch_spans c) k sp"
  shows "get_span c k = Some sp"
proof -
  obtain A st B where spans: "ch_spans c = A @ (sp, st) # B" and A: "\<forall>x \<in> set A. snd x < st"
    and st: "st \<le> k" and B: "\<forall>x \<in> set B. k < snd x"
    using assms by (auto simp: span_at_def)
  have tA: "takeWhile (\<lambda>x. x < k) (map snd A @ ys) = map snd A @ takeWhile (\<lambda>x. x < k) ys" for ys
    using A st by (intro takeWhile_append2) auto
  have tB: "takeWhile (\<lambda>x. x < k) (map snd B) = []"
    using B by (cases B) auto
  show ?thesis
  proof (cases "st = k")
    case True
    then show ?thesis using tA by (simp add: get_span_def binary_search_def spans Let_def nth_append)
  next
    case False
    have "\<not> (length A + 1 < length (ch_spans c) \<and> map snd (ch_spans c) ! (length A + 1) = k)"
      using B by (cases B) (auto simp: spans nth_append)
    then show ?thesis using tA tB st False by (auto simp: get_span_def binary_search_def spans Let_def nth_append)
  qed
qed

definition spans_ok :: "('sp, 'v) chunk \<Rightarrow> bool" where
  "spans_ok c \<longleftrightarrow> sorted_wrt (<) (map snd (ch_spans c)) \<and> (\<forall>x \<in> set (ch_spans c). snd x < length (ch_code c))"

lemma span_at_push_span:
  assumes "spans_ok c" "length (ch_code c) \<le> k"
  shows "span_at (ch_spans (push_span sp (length (ch_code c)) c)) k sp"
proof (cases "ch_spans c \<noteq> [] \<and> fst (last (ch_spans c)) = sp")
  case True
  then obtain A st where spans: "ch_spans c = A @ [(sp, st)]"
    by (metis append_butlast_last_id prod.collapse)
  then show ?thesis using assms True
    by (auto simp: span_at_def push_span_def spans_ok_def sorted_wrt_append intro!: exI [of _ A])
next
  case False
  then show ?thesis using assms
    by (auto simp: span_at_def push_span_def spans_ok_def intro!: exI [of _ "ch_spans c"])
qed

lemma span_at_old:
  assumes "span_at (ch_spans c) k sp" "k < length (ch_code c)"
  shows "span_at (ch_spans (push_span sp' (length (ch_code c)) c)) k sp"
proof (cases "ch_spans c \<noteq> [] \<and> fst (last (ch_spans c)) = sp'")
  case True
  then show ?thesis using assms by (simp add: push_span_def)
next
  case False
  obtain A st B where "ch_spans c = A @ (sp, st) # B" "\<forall>x \<in> set A. snd x < st" "st \<le> k" "\<forall>x \<in> set B. k < snd x"
    using assms by (auto simp: span_at_def)
  then have "ch_spans c @ [(sp', length (ch_code c))] = A @ (sp, st) # (B @ [(sp', length (ch_code c))])"
    "\<forall>x \<in> set (B @ [(sp', length (ch_code c))]). k < snd x" "\<forall>x \<in> set A. snd x < st" "st \<le> k"
    using assms(2) by auto
  then have "span_at (ch_spans c @ [(sp', length (ch_code c))]) k sp" unfolding span_at_def by blast
  then show ?thesis using False by (auto simp: push_span_def)
qed

lemma spans_ok_emit: "spans_ok c \<Longrightarrow> spans_ok (emit_instr enc (sp, i) c)"
proof -
  assume ok: "spans_ok c"
  have "0 < length (instr_bytes enc i)" by simp
  then show ?thesis using ok
    by (auto simp: spans_ok_def emit_instr_fields push_span_def sorted_wrt_append intro: less_trans)
qed

lemma spans_ok_emit_all: "spans_ok (emit_all enc is)"
proof (induction "is" rule: rev_induct)
  case (snoc x "is")
  then show ?case by (cases x) (simp add: emit_all_snoc spans_ok_emit)
qed (simp add: emit_all_def chunk_default_def spans_ok_def)

lemma span_at_emit_all:
  "is = xs @ (sp, i) # ys \<Longrightarrow> length (code_of enc xs) \<le> k \<Longrightarrow> k < length (code_of enc (xs @ [(sp, i)])) \<Longrightarrow>
   span_at (ch_spans (emit_all enc is :: ('sp, 'v) chunk)) k sp"
proof (induction ys arbitrary: "is" rule: rev_induct)
  case Nil
  then show ?case
    using span_at_push_span [OF spans_ok_emit_all [of enc xs], of k sp]
    by (simp add: emit_all_snoc emit_instr_fields emit_all_code)
next
  case (snoc y ys)
  let ?c = "emit_all enc (xs @ (sp, i) # ys) :: ('sp, 'v) chunk"
  have "span_at (ch_spans ?c) k sp" by (rule snoc.IH) (use snoc.prems in auto)
  moreover have "k < length (ch_code ?c)" using snoc.prems by (simp add: emit_all_code)
  ultimately have "span_at (ch_spans (push_span (fst y) (length (ch_code ?c)) ?c)) k sp" by (rule span_at_old)
  moreover have "emit_all enc is = emit_instr enc (fst y, snd y) ?c"
    using emit_all_snoc [of enc "xs @ (sp, i) # ys" y] snoc.prems(1) by simp
  ultimately show ?case by (simp only: emit_instr_fields)
qed

section \<open>Properties\<close>

text \<open>A variable-length code for the examples: always nine bytes, little-endian.\<close>

fun le_words :: "nat \<Rightarrow> nat \<Rightarrow> u8 list" where
  "le_words 0 n = []"
| "le_words (Suc k) n = of_nat n # le_words k (n div 256)"

fun from_le_words :: "u8 list \<Rightarrow> nat" where
  "from_le_words [] = 0"
| "from_le_words (b # bs) = unat b + 256 * from_le_words bs"

definition nine_encode :: "u64 \<Rightarrow> u8 list" where
  "nine_encode n = le_words 8 (unat n) @ [0]"

definition nine_decode :: "u8 list \<Rightarrow> u64 \<times> nat" where
  "nine_decode bs = (of_nat (from_le_words (take 8 bs)), 9)"

lemma le_words_inverse: "n < 256 ^ k \<Longrightarrow> from_le_words (le_words k n) = n"
  by (induction k n rule: le_words.induct) (simp_all add: less_mult_imp_div_less mult.commute unat_of_nat)

lemma length_le_words [simp]: "length (le_words k n) = k"
  by (induction k n rule: le_words.induct) simp_all

lemma nine_varint: "varint nine_encode nine_decode"
proof -
  have "from_le_words (le_words 8 (unat n)) = unat n" for n :: u64
    using le_words_inverse [of "unat n" 8] unsigned_less [of n, where 'a = nat] by simp
  then show ?thesis by (simp add: varint_def nine_encode_def nine_decode_def)
qed

definition example_code :: "(nat \<times> instr) list" where
  "example_code =
     [(7, (OpConstant, Uvarint 300)), (7, (OpJumpIfFalse, Fixed 515)), (9, (OpCoerceToString, Coercion 2)),
      (9, (OpThunkClosure, Upvalues 1 True [4, 9])), (5, (OpReturn, NoOperand))]"

lemma example_code_ok: "list_all (operand_ok \<circ> snd) example_code"
  by (simp add: example_code_def op_arg_type_def)

text \<open>
  C32: The machine fetches exactly the instructions that the compiler emitted, with their operands,
  from the first byte of a chunk to its last, and \<open>op_count\<close> returns their number.
\<close>

theorem bytecode_roundtrip:
  fixes c :: "('sp, 'v) chunk"
  assumes "varint enc dec" "list_all (operand_ok \<circ> snd) is" "length is < fuel" "c = emit_all enc is"
  shows "fetch_all dec (ch_code c) fuel 0 = Some (map snd is) \<and> op_count dec c = Some (length is)"
proof -
  have code: "ch_code c = code_of enc is" by (simp add: assms(4) emit_all_code)
  have "op_count dec c = Some (length is)"
  proof (cases "is = []")
    case False
    then have "code_of enc is \<noteq> []" by (cases "is") auto
    then show ?thesis using op_count_loop_code_of [OF assms(1,2) False, of c "[]" 0 0] False code
      by (simp add: op_count_def assms(4) emit_all_last_op)
  qed (use code in \<open>simp add: op_count_def\<close>)
  then show ?thesis using fetch_all_code_of [OF assms(1,2), of _ "[]"] assms(3) code by simp
qed

theorem bytecode_roundtrip_witness:
  "fetch_all nine_decode (ch_code (emit_all nine_encode example_code :: (nat, nat) chunk)) 6 0 = Some (map snd example_code) \<and>
   op_count nine_decode (emit_all nine_encode example_code :: (nat, nat) chunk) = Some 5"
proof -
  have len: "length example_code = 5" by (simp add: example_code_def)
  show ?thesis using bytecode_roundtrip [OF nine_varint example_code_ok _ refl, of 6] by (simp add: len)
qed

text \<open>
  For every offset inside an instruction, \<open>get_span\<close> returns the span from which that
  instruction was compiled, although equal neighbouring spans are stored once.
\<close>

theorem get_span_of_instruction:
  fixes c :: "('sp, 'v) chunk"
  assumes "c = emit_all enc (xs @ (sp, i) # ys)"
    and "length (code_of enc xs) \<le> k" "k < length (code_of enc (xs @ [(sp, i)]))"
  shows "get_span c k = Some sp"
  using get_span_at [OF span_at_emit_all [OF refl assms(2,3), of ys]] assms(1) by simp

theorem get_span_of_instruction_witness:
  "get_span (emit_all nine_encode example_code :: (nat, nat) chunk) 14 = Some 9"
proof -
  let ?xs = "take 2 example_code" and ?ys = "drop 3 example_code"
  have split: "example_code = ?xs @ (9, (OpCoerceToString, Coercion 2)) # ?ys" by (simp add: example_code_def)
  have "length (code_of nine_encode ?xs) = 13"
    by (simp add: example_code_def instr_bytes_def nine_encode_def u16_to_le_bytes_def)
  then show ?thesis
    using get_span_of_instruction [where c = "emit_all nine_encode example_code :: (nat, nat) chunk", of nine_encode ?xs 9
        "(OpCoerceToString, Coercion 2)" ?ys 14] split
    by (simp add: instr_bytes_def)
qed

text \<open>
  \<open>patch_jump\<close> panics exactly when the operand is not inside the code. Otherwise the machine,
  having read the operand, continues at the end of the code as it was when the jump was patched, as
  long as that is less than $2^{16}$ bytes ahead; a longer jump is truncated without an error and
  lands $2^{16}$ bytes or a multiple of that too early. Nothing but the operand changes.
\<close>

theorem patch_jump_target:
  fixes c :: "('sp, 'v) chunk"
  shows "case chunk_patch_jump idx c of
     None \<Rightarrow> length (ch_code c) < idx + 3
   | Some c' \<Rightarrow> \<exists>offset distance. frame_read_u16 (ch_code c') (idx + 1) = Some (offset, idx + 3) \<and>
       length (ch_code c) = idx + 3 + distance \<and> unat offset = distance mod 2 ^ 16 \<and>
       (\<forall>k. k \<noteq> idx + 1 \<and> k \<noteq> idx + 2 \<longrightarrow> ch_code c' ! k = ch_code c ! k) \<and> length (ch_code c') = length (ch_code c)"
proof (cases "length (ch_code c) < idx + 3")
  case False
  define n where "n = length (ch_code c) - idx - 1 - 2"
  define w where "w = (of_nat n :: u16)"
  let ?code = "(ch_code c)[idx + 1 := u16_to_le_bytes w ! 0, idx + 2 := u16_to_le_bytes w ! 1]"
  have len: "length (ch_code c) = idx + 3 + n" using False by (simp add: n_def)
  have "unat w = n mod 2 ^ 16" by (simp add: w_def unat_of_nat)
  moreover have "read_u16 ?code (idx + 1) = Some w"
    using read_u16_append [of "[]" w "[]"] len by (simp add: read_u16_def u16_to_le_bytes_def)
  moreover have "chunk_patch_jump idx c = Some (c\<lparr>ch_code := ?code\<rparr>)"
    using False by (simp add: chunk_patch_jump_def n_def w_def Let_def)
  ultimately show ?thesis using len by (auto simp: frame_read_u16_def)
qed (simp add: chunk_patch_jump_def)

theorem patch_jump_target_witness:
  "\<exists>c'. chunk_patch_jump 0 (snd (push_op OpJump () chunk_default)\<lparr>ch_code := [op_u8 OpJump, 0, 0] @ replicate 7 1\<rparr> :: (unit, unit) chunk) = Some c' \<and>
     frame_read_u16 (ch_code c') 1 = Some (7, 3)"
  using patch_jump_target [where idx = 0 and c = "snd (push_op OpJump () chunk_default)\<lparr>ch_code := [op_u8 OpJump, 0, 0] @ replicate 7 1\<rparr> :: (unit, unit) chunk"]
  by (auto simp: chunk_patch_jump_def frame_read_u16_def read_u16_def u16_to_le_bytes_def u16_from_le_bytes_def)

end
