(* ===== verification/CompilerState.thy ===== *)
theory CompilerState
  imports EvalScope Bytecode BTree
begin

text \<open>
  The state of the compiler and the helpers that every part of it uses
  (\<open>eval/src/compiler/mod.rs\<close>, the private helpers of \<open>eval/src/compiler/bindings.rs\<close>).

  A computation of the compiler changes the state and either is done, or panics, or runs out of the
  fuel that bounds the recursion over the syntax tree. The vector of lambda contexts is kept with the
  innermost context first. Observers, which only report finished lambdas, are left out. What the
  compiler gets from outside is the record \<open>cenv\<close>: the two directions of the variable-length code,
  the globals, the cleaning of paths by \<open>path_clean\<close>, the directory of relative paths, the span of the
  file, the value of \<open>__curPos\<close>, and whether debug assertions are compiled in.
\<close>

section \<open>Results\<close>

datatype (plugins only: code size) 'a cres = Done 'a | Panic | NoFuel

type_synonym ('s, 'a) comp = "'s \<Rightarrow> ('a \<times> 's) cres"

definition cret :: "'a \<Rightarrow> ('s, 'a) comp" where
  "cret a = (\<lambda>s. Done (a, s))"

definition cpanic :: "('s, 'a) comp" where
  "cpanic = (\<lambda>_. Panic)"

definition cnofuel :: "('s, 'a) comp" where
  "cnofuel = (\<lambda>_. NoFuel)"

definition cbind :: "('s, 'a) comp \<Rightarrow> ('a \<Rightarrow> ('s, 'b) comp) \<Rightarrow> ('s, 'b) comp" where
  "cbind m f = (\<lambda>s. case m s of Done (a, s') \<Rightarrow> f a s' | Panic \<Rightarrow> Panic | NoFuel \<Rightarrow> NoFuel)"

definition cthen :: "('s, 'a) comp \<Rightarrow> ('s, 'b) comp \<Rightarrow> ('s, 'b) comp" where
  "cthen m m' = cbind m (\<lambda>_. m')"

text \<open>A list of steps in order.\<close>

fun cseq :: "('s, unit) comp list \<Rightarrow> ('s, unit) comp" where
  "cseq [] = cret ()"
| "cseq (m # ms) = cthen m (cseq ms)"

definition cfor :: "'a list \<Rightarrow> ('a \<Rightarrow> ('s, unit) comp) \<Rightarrow> ('s, unit) comp" where
  "cfor xs f = cseq (map f xs)"

definition cwhen :: "bool \<Rightarrow> ('s, unit) comp \<Rightarrow> ('s, unit) comp" where
  "cwhen b m = (if b then m else cret ())"

definition cget :: "('s \<Rightarrow> 'a) \<Rightarrow> ('s, 'a) comp" where
  "cget f = (\<lambda>s. Done (f s, s))"

definition cmodify :: "('s \<Rightarrow> 's) \<Rightarrow> ('s, unit) comp" where
  "cmodify f = (\<lambda>s. Done ((), f s))"

definition copt :: "('s \<Rightarrow> ('a \<times> 's) option) \<Rightarrow> ('s, 'a) comp" where
  "copt f = (\<lambda>s. case f s of Some r \<Rightarrow> Done r | None \<Rightarrow> Panic)"

section \<open>Compiled code\<close>

text \<open>
  The constants of a chunk and the finished lambdas. \<open>KValue\<close> stands for the values that the compiler
  only passes on: floats and the values of globals that are not attribute sets.
\<close>

datatype (plugins only: code size) ('sp, 'v) const =
    KValue 'v
  | KInteger int
  | KString string
  | KPath string
  | KUnresolvedPath string
  | KNull
  | KAttrs "(string \<times> ('sp, 'v) const) list"
  | KFinaliseRequest bool
  | KThunk "('sp, 'v) lam" 'sp
  | KClosure "('sp, 'v) lam"
  | KBlueprint "('sp, 'v) lam"
and ('sp, 'v) lam =
  Lam (lam_code: "u8 list") (lam_constants: "('sp, 'v) const list") (lam_spans: "('sp \<times> nat) list") (lam_last_op: nat)
    (lam_name: "string option") (lam_upvalue_count: nat) (lam_formals: "((string \<times> bool) list \<times> bool \<times> 'sp \<times> string option) option")
    (lam_param_name: string)

record ('sp, 'v) lambda_ctx =
  lc_chunk :: "('sp, ('sp, 'v) const) chunk"
  lc_name :: "string option"
  lc_upvalue_count :: nat
  lc_formals :: "((string \<times> bool) list \<times> bool \<times> 'sp \<times> string option) option"
  lc_param_name :: string
  lc_scope :: "'sp scope"
  lc_captures_with_stack :: bool

definition lambda_ctx_new :: "('sp, 'v) lambda_ctx" where
  "lambda_ctx_new =
     \<lparr>lc_chunk = chunk_default, lc_name = None, lc_upvalue_count = 0, lc_formals = None, lc_param_name = [],
      lc_scope = scope_default, lc_captures_with_stack = False\<rparr>"

definition lambda_ctx_inherit :: "('sp, 'v) lambda_ctx \<Rightarrow> ('sp, 'v) lambda_ctx" where
  "lambda_ctx_inherit ctx = lambda_ctx_new\<lparr>lc_scope := scope_inherit (lc_scope ctx)\<rparr>"

definition lambda_of :: "('sp, 'v) lambda_ctx \<Rightarrow> ('sp, 'v) lam" where
  "lambda_of ctx =
     Lam (ch_code (lc_chunk ctx)) (ch_constants (lc_chunk ctx)) (ch_spans (lc_chunk ctx)) (ch_last_op (lc_chunk ctx))
       (lc_name ctx) (lc_upvalue_count ctx) (lc_formals ctx) (lc_param_name ctx)"

datatype (plugins only: code size) 'sp compile_error =
    UnknownStaticVariable
  | VariableAlreadyDefined "'sp option"
  | UnmergeableInherit string
  | UnmergeableValue
  | DynamicKeyInScope string
  | NotImplementedError string
  | ParseIntError

datatype (plugins only: code size) warning_kind =
    DeprecatedLiteralURL | UselessInherit | UnusedBinding | ShadowedGlobal string | DeprecatedLegacyLet
  | UselessBoolOperation string | EmptyInherit | EmptyLet

record ('sp, 'v) cstate =
  cs_contexts :: "('sp, 'v) lambda_ctx list"
  cs_warnings :: "(warning_kind \<times> 'sp) list"
  cs_errors :: "('sp compile_error \<times> 'sp) list"
  cs_dead_scope :: nat

record ('sp, 'v) cenv =
  ce_encode :: "u64 \<Rightarrow> u8 list"
  ce_decode :: "u8 list \<Rightarrow> u64 \<times> nat"
  ce_globals :: "string \<rightharpoonup> ('sp, 'v) const"
  ce_clean :: "string \<Rightarrow> string"
  ce_root_dir :: string
  ce_file_span :: 'sp
  ce_cur_pos :: "'sp \<Rightarrow> ('sp, 'v) const option"
  ce_debug_assertions :: bool

type_synonym ('sp, 'v, 'a) compile = "(('sp, 'v) cstate, 'a) comp"

section \<open>The current context\<close>

text \<open>Run an operation on the innermost context; there is none to run it on only after a bug.\<close>

definition on_context :: "(('sp, 'v) lambda_ctx \<Rightarrow> ('a \<times> ('sp, 'v) lambda_ctx) option) \<Rightarrow> ('sp, 'v, 'a) compile" where
  "on_context f = copt (\<lambda>s.
     case cs_contexts s of
       [] \<Rightarrow> None
     | ctx # ctxs \<Rightarrow> map_option (\<lambda>(a, ctx'). (a, s\<lparr>cs_contexts := ctx' # ctxs\<rparr>)) (f ctx))"

definition on_scope :: "('sp scope \<Rightarrow> ('a \<times> 'sp scope) option) \<Rightarrow> ('sp, 'v, 'a) compile" where
  "on_scope f = on_context (\<lambda>ctx. map_option (\<lambda>(a, sc). (a, ctx\<lparr>lc_scope := sc\<rparr>)) (f (lc_scope ctx)))"

definition on_chunk ::
  "(('sp, ('sp, 'v) const) chunk \<Rightarrow> ('a \<times> ('sp, ('sp, 'v) const) chunk) option) \<Rightarrow> ('sp, 'v, 'a) compile" where
  "on_chunk f = on_context (\<lambda>ctx. map_option (\<lambda>(a, c). (a, ctx\<lparr>lc_chunk := c\<rparr>)) (f (lc_chunk ctx)))"

text \<open>The local at an index of the current scope.\<close>

definition get_local :: "nat \<Rightarrow> ('sp, 'v, 'sp local) compile" where
  "get_local idx = on_scope (\<lambda>sc. if idx < length (sc_locals sc) then Some (sc_locals sc ! idx, sc) else None)"

definition get_stack_index :: "nat \<Rightarrow> ('sp, 'v, nat) compile" where
  "get_stack_index idx = on_scope (\<lambda>sc. map_option (\<lambda>i. (i, sc)) (stack_index sc idx))"

definition scope_step :: "('sp scope \<Rightarrow> 'sp scope option) \<Rightarrow> ('sp, 'v, unit) compile" where
  "scope_step f = on_scope (\<lambda>sc. map_option (\<lambda>sc'. ((), sc')) (f sc))"

definition c_begin_scope :: "('sp, 'v, unit) compile" where
  "c_begin_scope = scope_step (\<lambda>sc. Some (begin_scope sc))"

definition c_end_scope :: "('sp, 'v, nat \<times> 'sp list) compile" where
  "c_end_scope = on_scope end_scope"

definition c_declare_phantom :: "'sp \<Rightarrow> bool \<Rightarrow> ('sp, 'v, nat) compile" where
  "c_declare_phantom sp initialised = on_scope (\<lambda>sc. Some (declare_phantom sp initialised sc))"

definition c_mark_initialised :: "nat \<Rightarrow> ('sp, 'v, unit) compile" where
  "c_mark_initialised idx = scope_step (mark_initialised idx)"

definition c_mark_used :: "nat \<Rightarrow> ('sp, 'v, unit) compile" where
  "c_mark_used idx = scope_step (mark_used idx)"

definition c_resolve_local :: "string \<Rightarrow> ('sp, 'v, local_position) compile" where
  "c_resolve_local name = on_scope (\<lambda>sc. map_option (\<lambda>p. (p, sc)) (resolve_local sc name))"

section \<open>Emitting code\<close>

text \<open>Nothing is emitted while dead code is compiled; \<open>push_op\<close> then returns index zero.\<close>

definition unless_dead :: "'a \<Rightarrow> ('sp, 'v, 'a) compile \<Rightarrow> ('sp, 'v, 'a) compile" where
  "unless_dead a m = cbind (cget cs_dead_scope) (\<lambda>dead. if dead > 0 then cret a else m)"

definition c_push_op :: "op \<Rightarrow> 'sp \<Rightarrow> ('sp, 'v, nat) compile" where
  "c_push_op op sp = unless_dead 0 (on_chunk (\<lambda>c. Some (push_op op sp c)))"

definition emit_op :: "op \<Rightarrow> 'sp \<Rightarrow> ('sp, 'v, unit) compile" where
  "emit_op op sp = cbind (c_push_op op sp) (\<lambda>_. cret ())"

definition c_push_u8 :: "u8 \<Rightarrow> ('sp, 'v, unit) compile" where
  "c_push_u8 b = unless_dead () (on_chunk (\<lambda>c. Some ((), c\<lparr>ch_code := ch_code c @ [b]\<rparr>)))"

definition c_push_uvarint :: "('sp, 'v) cenv \<Rightarrow> u64 \<Rightarrow> ('sp, 'v, unit) compile" where
  "c_push_uvarint E n = unless_dead () (on_chunk (\<lambda>c. Some ((), push_uvarint (ce_encode E) n c)))"

definition c_push_u16 :: "u16 \<Rightarrow> ('sp, 'v, unit) compile" where
  "c_push_u16 w = unless_dead () (on_chunk (\<lambda>c. Some ((), push_u16 w c)))"

definition emit_constant :: "('sp, 'v) cenv \<Rightarrow> ('sp, 'v) const \<Rightarrow> 'sp \<Rightarrow> ('sp, 'v, unit) compile" where
  "emit_constant E k sp =
     unless_dead () (cbind (on_chunk (\<lambda>c. Some (push_constant k c))) (\<lambda>idx.
       cthen (c_push_op OpConstant sp) (c_push_uvarint E (of_nat idx))))"

definition emit_force :: "'sp \<Rightarrow> ('sp, 'v, unit) compile" where
  "emit_force sp = emit_op OpForce sp"

text \<open>A jump whose target is patched later: the operation and a placeholder.\<close>

definition push_jump :: "op \<Rightarrow> 'sp \<Rightarrow> ('sp, 'v, nat) compile" where
  "push_jump op sp = cbind (c_push_op op sp) (\<lambda>idx. cbind (c_push_u16 0) (\<lambda>_. cret idx))"

definition c_patch_jump :: "nat \<Rightarrow> ('sp, 'v, unit) compile" where
  "c_patch_jump idx = on_chunk (\<lambda>c. map_option (\<lambda>c'. ((), c')) (chunk_patch_jump idx c))"

definition emit_warning :: "'sp \<Rightarrow> warning_kind \<Rightarrow> ('sp, 'v, unit) compile" where
  "emit_warning sp kind = cmodify (\<lambda>s. s\<lparr>cs_warnings := cs_warnings s @ [(kind, sp)]\<rparr>)"

definition emit_error :: "'sp \<Rightarrow> 'sp compile_error \<Rightarrow> ('sp, 'v, unit) compile" where
  "emit_error sp kind = cmodify (\<lambda>s. s\<lparr>cs_errors := cs_errors s @ [(kind, sp)]\<rparr>)"

definition emit_literal_ident :: "('sp, 'v) cenv \<Rightarrow> 'sp \<Rightarrow> string \<Rightarrow> ('sp, 'v, unit) compile" where
  "emit_literal_ident E sp name = emit_constant E (KString name) sp"

section \<open>Scopes, upvalues and contexts\<close>

definition cleanup_scope :: "('sp, 'v) cenv \<Rightarrow> 'sp \<Rightarrow> ('sp, 'v, unit) compile" where
  "cleanup_scope E sp =
     cbind c_end_scope (\<lambda>(popcount, unused_spans).
       cthen (cfor unused_spans (\<lambda>span. emit_warning span UnusedBinding))
         (cwhen (popcount > 0) (cthen (c_push_op OpCloseScope sp) (c_push_uvarint E (of_nat popcount)))))"

definition new_context :: "('sp, 'v, unit) compile" where
  "new_context = copt (\<lambda>s.
     case cs_contexts s of
       [] \<Rightarrow> None
     | ctx # ctxs \<Rightarrow> Some ((), s\<lparr>cs_contexts := lambda_ctx_inherit ctx # ctx # ctxs\<rparr>))"

definition pop_context :: "('sp, 'v, ('sp, 'v) lambda_ctx) compile" where
  "pop_context = copt (\<lambda>s.
     case cs_contexts s of [] \<Rightarrow> None | ctx # ctxs \<Rightarrow> Some (ctx, s\<lparr>cs_contexts := ctxs\<rparr>))"

definition c_declare_local :: "('sp, 'v) cenv \<Rightarrow> 'sp \<Rightarrow> string \<Rightarrow> ('sp, 'v, nat) compile" where
  "c_declare_local E sp name =
     cbind (on_scope (\<lambda>sc. Some (sc_scope_depth sc, sc))) (\<lambda>depth.
     cthen (cwhen (ce_globals E name \<noteq> None) (emit_warning sp (ShadowedGlobal name)))
     (cbind (on_scope (scope_declare_local name sp)) (\<lambda>(idx, shadowed).
     cthen (case shadowed of
              None \<Rightarrow> cret ()
            | Some shadow_idx \<Rightarrow>
                cbind (get_local shadow_idx) (\<lambda>other.
                  cwhen (l_depth other = depth) (emit_error sp (VariableAlreadyDefined (l_span other)))))
       (cret idx))))"

text \<open>\<open>has_dynamic_ancestor\<close>, over the contexts from the outermost to the innermost.\<close>

fun mark_dynamic :: "bool \<Rightarrow> ('sp, 'v) lambda_ctx list \<Rightarrow> bool \<times> ('sp, 'v) lambda_ctx list" where
  "mark_dynamic ancestor_has_with [] = (ancestor_has_with, [])"
| "mark_dynamic ancestor_has_with (ctx # ctxs) =
     (if ancestor_has_with
      then map_prod id ((#) (ctx\<lparr>lc_captures_with_stack := True\<rparr>)) (mark_dynamic True ctxs)
      else map_prod id ((#) ctx) (mark_dynamic (scope_has_with (lc_scope ctx)) ctxs))"

definition has_dynamic_ancestor :: "('sp, 'v, bool) compile" where
  "has_dynamic_ancestor = (\<lambda>s.
     let (b, ctxs) = mark_dynamic False (rev (cs_contexts s)) in Done (b, s\<lparr>cs_contexts := rev ctxs\<rparr>))"

fun find_upvalue :: "upvalue_kind \<Rightarrow> upvalue_kind list \<Rightarrow> nat option" where
  "find_upvalue kind [] = None"
| "find_upvalue kind (u # us) = (if u = kind then Some 0 else map_option Suc (find_upvalue kind us))"

definition add_upvalue :: "upvalue_kind \<Rightarrow> ('sp, 'v) lambda_ctx \<Rightarrow> nat \<times> ('sp, 'v) lambda_ctx" where
  "add_upvalue kind ctx =
     (case find_upvalue kind (sc_upvalues (lc_scope ctx)) of
        Some idx \<Rightarrow> (idx, ctx)
      | None \<Rightarrow>
          (lc_upvalue_count ctx,
           ctx\<lparr>lc_scope := (lc_scope ctx)\<lparr>sc_upvalues := sc_upvalues (lc_scope ctx) @ [kind]\<rparr>,
               lc_upvalue_count := lc_upvalue_count ctx + 1\<rparr>))"

text \<open>\<open>resolve_upvalue_for_use\<close>, on the contexts from \<open>ctx_idx\<close> outwards.\<close>

fun resolve_upvalue :: "string \<Rightarrow> ('sp, 'v) lambda_ctx list \<Rightarrow> (nat option \<times> ('sp, 'v) lambda_ctx list) option" where
  "resolve_upvalue name [] = None"
| "resolve_upvalue name [ctx] = Some (None, [ctx])"
| "resolve_upvalue name (ctx # parent # ctxs) =
     Option.bind (resolve_local (lc_scope parent) name) (\<lambda>pos.
       let found = (\<lambda>idx.
             map_option (\<lambda>sc. let (u, ctx') = add_upvalue (UpLocal idx) ctx
                              in (Some u, ctx' # parent\<lparr>lc_scope := sc\<rparr> # ctxs))
               (mark_used idx (lc_scope parent)))
       in case pos of
            LKnown idx \<Rightarrow> found idx
          | LRecursive idx \<Rightarrow> found idx
          | LUnknown \<Rightarrow>
              map_option (\<lambda>(r, parents).
                  case r of
                    Some idx \<Rightarrow> let (u, ctx') = add_upvalue (UpUpvalue idx) ctx in (Some u, ctx' # parents)
                  | None \<Rightarrow> (None, ctx # parents))
                (resolve_upvalue name (parent # ctxs)))"

definition c_resolve_upvalue :: "string \<Rightarrow> ('sp, 'v, nat option) compile" where
  "c_resolve_upvalue name = copt (\<lambda>s. map_option (\<lambda>(r, ctxs). (r, s\<lparr>cs_contexts := ctxs\<rparr>)) (resolve_upvalue name (cs_contexts s)))"

text \<open>\<open>emit_upvalue_data\<close>: where each upvalue is captured from.\<close>

fun emit_upvalue :: "('sp, 'v) cenv \<Rightarrow> nat \<Rightarrow> upvalue_kind \<Rightarrow> ('sp, 'v, unit) compile" where
  "emit_upvalue E slot (UpLocal idx) =
     cbind (get_local idx) (\<lambda>target.
     cbind (get_stack_index idx) (\<lambda>stack_idx.
       if \<not> l_initialised target
       then cthen (c_push_uvarint E (position_deferred_local (of_nat stack_idx)))
              (scope_step (mark_needs_finaliser slot))
       else cthen (cwhen (slot = idx) (scope_step (mark_must_thunk slot)))
              (c_push_uvarint E (position_stack_index (of_nat stack_idx)))))"
| "emit_upvalue E slot (UpUpvalue idx) = c_push_uvarint E (position_upvalue_index (of_nat idx))"

definition emit_upvalue_data :: "('sp, 'v) cenv \<Rightarrow> nat \<Rightarrow> upvalue_kind list \<Rightarrow> bool \<Rightarrow> ('sp, 'v, unit) compile" where
  "emit_upvalue_data E slot upvalues capture_with =
     (if 2 ^ 63 - 1 \<le> int (length upvalues) then cpanic
      else case upvalue_data_new (of_nat (length upvalues)) capture_with of
             None \<Rightarrow> cpanic
           | Some raw \<Rightarrow> cthen (c_push_uvarint E raw) (cfor upvalues (emit_upvalue E slot)))"

text \<open>
  \<open>compile_lambda_or_thunk\<close>. The content may return the index of a jump to the end of the code that is
  patched once the scope is cleaned up.
\<close>

definition finish_closure :: "('sp, 'v) cenv \<Rightarrow> nat \<Rightarrow> nat \<Rightarrow> 'sp \<Rightarrow> ('sp, 'v, unit) compile" where
  "finish_closure E outer_slot code_idx sp =
     cbind (get_local outer_slot) (\<lambda>l.
       if l_needs_finaliser l then cret ()
       else if \<not> l_must_thunk l
       then on_chunk (\<lambda>c. if code_idx < length (ch_code c)
                          then Some ((), c\<lparr>ch_code := (ch_code c)[code_idx := op_u8 OpClosure]\<rparr>) else None)
       else cwhen (ce_debug_assertions E)
              (cbind (get_stack_index outer_slot) (\<lambda>i. cthen (c_push_op OpFinalise sp) (c_push_uvarint E (of_nat i)))))"

text \<open>The new context, in which the content is compiled.\<close>

definition compile_context ::
  "('sp, 'v) cenv \<Rightarrow> string option \<Rightarrow> 'sp \<Rightarrow> (nat \<Rightarrow> ('sp, 'v, nat option) compile) \<Rightarrow> ('sp, 'v, ('sp, 'v) lambda_ctx) compile" where
  "compile_context E name sp content =
     cthen new_context
     (cbind
       (cthen (on_context (\<lambda>ctx. Some ((), ctx\<lparr>lc_name := name\<rparr>)))
       (cbind (c_declare_phantom sp False) (\<lambda>slot.
        cthen c_begin_scope
       (cbind (content slot) (\<lambda>throw_idx.
        cthen (cleanup_scope E sp)
          (case throw_idx of None \<Rightarrow> cret () | Some idx \<Rightarrow> c_patch_jump idx))))))
       (\<lambda>_. pop_context))"

text \<open>The code that leaves the finished lambda on the stack of the enclosing context.\<close>

definition emit_lambda ::
  "('sp, 'v) cenv \<Rightarrow> bool \<Rightarrow> nat \<Rightarrow> 'sp \<Rightarrow> ('sp, 'v) lambda_ctx \<Rightarrow> ('sp, 'v, unit) compile" where
  "emit_lambda E is_suspended_thunk outer_slot sp compiled =
     (let compiled = compiled\<lparr>lc_chunk := snd (push_op OpReturn sp (lc_chunk compiled))\<rparr>;
          lambda = lambda_of compiled
      in if lam_upvalue_count lambda = 0 \<and> \<not> lc_captures_with_stack compiled
         then emit_constant E (if is_suspended_thunk then KThunk lambda sp else KClosure lambda) sp
         else cbind (on_chunk (\<lambda>c. Some (push_constant (KBlueprint lambda) c))) (\<lambda>blueprint_idx.
              cbind (c_push_op (if is_suspended_thunk then OpThunkSuspended else OpThunkClosure) sp) (\<lambda>code_idx.
              cthen (c_push_uvarint E (of_nat blueprint_idx))
              (cthen (emit_upvalue_data E outer_slot (sc_upvalues (lc_scope compiled)) (lc_captures_with_stack compiled))
              (cwhen (\<not> is_suspended_thunk) (finish_closure E outer_slot code_idx sp))))))"

definition compile_lambda_or_thunk ::
  "('sp, 'v) cenv \<Rightarrow> bool \<Rightarrow> nat \<Rightarrow> 'sp \<Rightarrow> (nat \<Rightarrow> ('sp, 'v, nat option) compile) \<Rightarrow> ('sp, 'v, unit) compile" where
  "compile_lambda_or_thunk E is_suspended_thunk outer_slot sp content =
     cbind (get_local outer_slot) (\<lambda>outer.
     cbind (compile_context E (local_name_of outer) sp content) (emit_lambda E is_suspended_thunk outer_slot sp))"

definition thunk ::
  "('sp, 'v) cenv \<Rightarrow> nat \<Rightarrow> 'sp \<Rightarrow> (nat \<Rightarrow> ('sp, 'v, unit) compile) \<Rightarrow> ('sp, 'v, unit) compile" where
  "thunk E outer_slot sp content =
     compile_lambda_or_thunk E True outer_slot sp (\<lambda>idx. cbind (content idx) (\<lambda>_. cret None))"

text \<open>\<open>compile_identifier_access\<close>.\<close>

definition compile_identifier_access :: "('sp, 'v) cenv \<Rightarrow> nat \<Rightarrow> string \<Rightarrow> 'sp \<Rightarrow> ('sp, 'v, unit) compile" where
  "compile_identifier_access E slot ident sp =
     cbind (c_resolve_local ident) (\<lambda>pos.
       case pos of
         LUnknown \<Rightarrow>
           cbind (c_resolve_upvalue ident) (\<lambda>r.
             case r of
               Some idx \<Rightarrow> cthen (c_push_op OpGetUpvalue sp) (c_push_uvarint E (of_nat idx))
             | None \<Rightarrow>
                 (case ce_globals E ident of
                    Some global \<Rightarrow> emit_constant E global sp
                  | None \<Rightarrow>
                      cbind has_dynamic_ancestor (\<lambda>dynamic.
                        if dynamic
                        then thunk E slot sp (\<lambda>_.
                               cthen (on_context (\<lambda>ctx. Some ((), ctx\<lparr>lc_captures_with_stack := True\<rparr>)))
                               (cthen (emit_constant E (KString ident) sp) (emit_op OpResolveWith sp)))
                        else emit_error sp UnknownStaticVariable)))
       | LKnown idx \<Rightarrow>
           cthen (c_mark_used idx)
           (cbind (get_stack_index idx) (\<lambda>stack_idx.
             cthen (c_push_op OpGetLocal sp) (c_push_uvarint E (of_nat stack_idx))))
       | LRecursive idx \<Rightarrow>
           cthen (c_mark_used idx)
           (thunk E slot sp (\<lambda>_.
             cbind (on_context (\<lambda>ctx. Some (add_upvalue (UpLocal idx) ctx))) (\<lambda>upvalue_idx.
               cthen (c_push_op OpGetUpvalue sp) (c_push_uvarint E (of_nat upvalue_idx))))))"

text \<open>\<open>is_user_defined\<close> looks at the scope of the current context only.\<close>

definition is_user_defined :: "string \<Rightarrow> ('sp, 'v, bool) compile" where
  "is_user_defined ident = cbind (c_resolve_local ident) (\<lambda>pos. cret (pos \<noteq> LUnknown))"

end
