(* ===== verification/Compiler.thy ===== *)
theory Compiler
  imports CompilerState
begin

text \<open>
  The compiler from syntax trees to bytecode (\<open>eval/src/compiler/mod.rs\<close>, \<open>bindings.rs\<close> and
  \<open>optimiser.rs\<close>).

  The syntax tree is the part of \<open>rnix\<close>'s typed tree that the compiler inspects, for input that
  \<open>rnix\<close> parsed without errors, so that every accessor returns something; each node carries its span.
  Every function of the source is a definition of its own. Those that recurse into the tree take the
  recursive calls as parameters: \<open>rec\<close> compiles an expression, \<open>recs\<close> a set of bindings; the knot is
  tied at the end with a bound on the depth of the recursion. Fuel is not part of the code: the
  recursion always ends because each call is on a smaller part of the input.
\<close>

section \<open>Syntax\<close>

datatype (plugins only: code size) bin_op =
    BAnd | BOr | BImplication | BPipeRight | BPipeLeft | BAdd | BSub | BMul | BDiv | BUpdate | BEqual | BNotEqual
  | BLess | BLessOrEq | BMore | BMoreOrEq | BConcat

datatype (plugins only: code size) unary_op = UInvert | UNegate

datatype (plugins only: code size) 'v literal = LFloat 'v | LInteger "int option" | LUri string

datatype (plugins only: code size) ('sp, 'v) expr =
    ELiteral 'sp "'v literal"
  | EPathAbs 'sp string "('sp, 'v) part list"
  | EPathHome 'sp "('sp, 'v) part list"
  | EPathRel 'sp "('sp, 'v) part list"
  | EPathSearch 'sp string
  | EStr 'sp "('sp, 'v) part list"
  | EUnaryOp 'sp unary_op "('sp, 'v) expr"
  | EBinOp 'sp bin_op "('sp, 'v) expr" "('sp, 'v) expr"
  | EHasAttr 'sp "('sp, 'v) expr" "('sp, 'v) attr list"
  | EList 'sp "('sp, 'v) expr list"
  | EAttrSet 'sp bool "('sp, 'v) inherit list" "('sp, 'v) entry list"
  | ESelect 'sp "('sp, 'v) expr" 'sp "('sp, 'v) attr list" "('sp, 'v) expr option"
  | EAssert 'sp "('sp, 'v) expr" "('sp, 'v) expr"
  | EIfElse 'sp "('sp, 'v) expr" "('sp, 'v) expr" "('sp, 'v) expr"
  | ELetIn 'sp "('sp, 'v) inherit list" "('sp, 'v) entry list" "('sp, 'v) expr"
  | EIdent 'sp string
  | EWith 'sp "('sp, 'v) expr" "('sp, 'v) expr"
  | ELambda 'sp "('sp, 'v) param" "('sp, 'v) expr"
  | EApply 'sp "('sp, 'v) expr" "('sp, 'v) expr"
  | EParen 'sp "('sp, 'v) expr"
  | ELegacyLet 'sp "('sp, 'v) inherit list" "('sp, 'v) entry list"
  | ECurPos 'sp
and ('sp, 'v) part = PLiteral string | PInterpol 'sp "('sp, 'v) expr"
and ('sp, 'v) attr = AIdent 'sp string | AStr 'sp "('sp, 'v) part list" | ADynamic 'sp "('sp, 'v) expr"
and ('sp, 'v) inherit = Inherit 'sp "('sp, 'v) expr option" "('sp, 'v) attr list"
and ('sp, 'v) entry = Entry 'sp "('sp, 'v) attr list" "('sp, 'v) expr"
and ('sp, 'v) param =
    PIdent 'sp string
  | PPattern 'sp "('sp \<times> string) option" bool "('sp \<times> string \<times> ('sp, 'v) expr option) list"

fun span_of :: "('sp, 'v) expr \<Rightarrow> 'sp" where
  "span_of (ELiteral sp _) = sp"
| "span_of (EPathAbs sp _ _) = sp"
| "span_of (EPathHome sp _) = sp"
| "span_of (EPathRel sp _) = sp"
| "span_of (EPathSearch sp _) = sp"
| "span_of (EStr sp _) = sp"
| "span_of (EUnaryOp sp _ _) = sp"
| "span_of (EBinOp sp _ _ _) = sp"
| "span_of (EHasAttr sp _ _) = sp"
| "span_of (EList sp _) = sp"
| "span_of (EAttrSet sp _ _ _) = sp"
| "span_of (ESelect sp _ _ _ _) = sp"
| "span_of (EAssert sp _ _) = sp"
| "span_of (EIfElse sp _ _ _) = sp"
| "span_of (ELetIn sp _ _ _) = sp"
| "span_of (EIdent sp _) = sp"
| "span_of (EWith sp _ _) = sp"
| "span_of (ELambda sp _ _) = sp"
| "span_of (EApply sp _ _) = sp"
| "span_of (EParen sp _) = sp"
| "span_of (ELegacyLet sp _ _) = sp"
| "span_of (ECurPos sp) = sp"

fun attr_span :: "('sp, 'v) attr \<Rightarrow> 'sp" where
  "attr_span (AIdent sp _) = sp"
| "attr_span (AStr sp _) = sp"
| "attr_span (ADynamic sp _) = sp"

text \<open>\<open>PathBuf::join\<close>: an absolute path replaces what it is joined to.\<close>

definition path_join :: "string \<Rightarrow> string \<Rightarrow> string" where
  "path_join a b =
     (if b \<noteq> [] \<and> hd b = CHR ''/'' then b
      else if a = [] \<or> last a = CHR ''/'' then a @ b else a @ ''/'' @ b)"

section \<open>Static strings\<close>

fun expr_static_str :: "('sp, 'v) part list \<Rightarrow> string option" where
  "expr_static_str [PLiteral lit] = Some lit"
| "expr_static_str _ = None"

fun expr_static_attr_str :: "('sp, 'v) attr \<Rightarrow> string option" where
  "expr_static_attr_str (AIdent _ ident) = Some ident"
| "expr_static_attr_str (AStr _ parts) = expr_static_str parts"
| "expr_static_attr_str (ADynamic _ (EStr _ parts)) = expr_static_str parts"
| "expr_static_attr_str (ADynamic _ _) = None"

fun is_interpolation :: "('sp, 'v) part \<Rightarrow> bool" where
  "is_interpolation (PInterpol _ _) = True"
| "is_interpolation (PLiteral _) = False"

definition is_interpolated_path :: "('sp, 'v) part list \<Rightarrow> bool" where
  "is_interpolated_path parts = list_ex is_interpolation parts"

type_synonym ('sp, 'v) rec_expr = "nat \<Rightarrow> ('sp, 'v) expr \<Rightarrow> ('sp, 'v, unit) compile"

section \<open>The optimiser\<close>

datatype (plugins only: code size) lit_bool = LitExpr | LitTrue | LitFalse

fun is_lit_bool :: "('sp, 'v) expr \<Rightarrow> lit_bool" where
  "is_lit_bool (EIdent _ ident) = (if ident = ''true'' then LitTrue else if ident = ''false'' then LitFalse else LitExpr)"
| "is_lit_bool _ = LitExpr"

definition compile_dead_code :: "('sp, 'v) rec_expr \<Rightarrow> nat \<Rightarrow> ('sp, 'v) expr \<Rightarrow> ('sp, 'v, unit) compile" where
  "compile_dead_code rec slot node =
     cseq [cmodify (\<lambda>s. s\<lparr>cs_dead_scope := cs_dead_scope s + 1\<rparr>), rec slot node,
           copt (\<lambda>s. if cs_dead_scope s = 0 then None else Some ((), s\<lparr>cs_dead_scope := cs_dead_scope s - 1\<rparr>))]"

definition no_effect_false :: warning_kind where
  "no_effect_false = UselessBoolOperation ''this `false` has no effect on the result of the comparison''"

definition no_effect_true :: warning_kind where
  "no_effect_true = UselessBoolOperation ''this `true` has no effect on the result of the comparison''"

definition always_true :: warning_kind where
  "always_true = UselessBoolOperation ''this expression is always true''"

definition always_false :: warning_kind where
  "always_false = UselessBoolOperation ''this expression is always false''"

text \<open>The arms of the match in \<open>optimise_bin_op\<close>, tried in order.\<close>

definition optimise_bin_op ::
  "('sp, 'v) rec_expr \<Rightarrow> nat \<Rightarrow> 'sp \<Rightarrow> bin_op \<Rightarrow> ('sp, 'v) expr \<Rightarrow> ('sp, 'v) expr \<Rightarrow> ('sp, 'v, ('sp, 'v) expr) compile" where
  "optimise_bin_op rec slot sp op l r =
     cbind (is_user_defined ''true'') (\<lambda>t.
     cbind (if t then cret True else is_user_defined ''false'') (\<lambda>overridden.
       if overridden then cret (EBinOp sp op l r)
       else let lhs = is_lit_bool l; rhs = is_lit_bool r
       in if op = BOr \<and> lhs = LitFalse \<and> rhs = LitExpr
          then cbind (emit_warning (span_of l) no_effect_false) (\<lambda>_. cret r)
          else if op = BOr \<and> lhs = LitExpr \<and> rhs = LitFalse
          then cbind (emit_warning (span_of r) no_effect_false) (\<lambda>_. cret l)
          else if op = BAnd \<and> lhs = LitTrue \<and> rhs = LitExpr
          then cbind (emit_warning (span_of l) no_effect_true) (\<lambda>_. cret r)
          else if op = BAnd \<and> lhs = LitExpr \<and> rhs = LitTrue
          then cbind (emit_warning (span_of r) no_effect_true) (\<lambda>_. cret l)
          else if op = BOr \<and> lhs = LitTrue \<and> rhs = LitExpr
          then cbind (emit_warning sp always_true) (\<lambda>_. cbind (compile_dead_code rec slot r) (\<lambda>_. cret l))
          else if op = BOr \<and> rhs = LitTrue
          then cbind (emit_warning sp always_true) (\<lambda>_. cret r)
          else if op = BOr \<and> lhs = LitTrue
          then cbind (emit_warning sp always_true) (\<lambda>_. cret l)
          else if op = BAnd \<and> lhs = LitFalse \<and> rhs = LitExpr
          then cbind (emit_warning sp always_false) (\<lambda>_. cbind (compile_dead_code rec slot r) (\<lambda>_. cret l))
          else if op = BAnd \<and> rhs = LitFalse
          then cbind (emit_warning sp always_false) (\<lambda>_. cret r)
          else if op = BOr \<and> lhs = LitFalse
          then cbind (emit_warning sp always_false) (\<lambda>_. cret l)
          else cret (EBinOp sp op l r)))"

fun optimise_expr :: "('sp, 'v) rec_expr \<Rightarrow> nat \<Rightarrow> ('sp, 'v) expr \<Rightarrow> ('sp, 'v, ('sp, 'v) expr) compile" where
  "optimise_expr rec slot (EBinOp sp op l r) = optimise_bin_op rec slot sp op l r"
| "optimise_expr rec slot e = cret e"

section \<open>Literals, paths and strings\<close>

definition coercion_u8 :: "bool \<Rightarrow> bool \<Rightarrow> u8" where
  "coercion_u8 strong import_paths = (if strong then 1 else 0) OR push_bit 1 (if import_paths then 1 else 0)"

definition compile_literal :: "('sp, 'v) cenv \<Rightarrow> 'sp \<Rightarrow> 'v literal \<Rightarrow> ('sp, 'v, unit) compile" where
  "compile_literal E sp lit =
     (case lit of
        LFloat f \<Rightarrow> emit_constant E (KValue f) sp
      | LInteger (Some v) \<Rightarrow> emit_constant E (KInteger v) sp
      | LInteger None \<Rightarrow> emit_error sp ParseIntError
      | LUri u \<Rightarrow> cseq [emit_warning sp DeprecatedLiteralURL, emit_constant E (KString u) sp])"

fun emit_part :: "('sp, 'v) cenv \<Rightarrow> ('sp, 'v) rec_expr \<Rightarrow> nat \<Rightarrow> 'sp \<Rightarrow> ('sp, 'v) part \<Rightarrow> ('sp, 'v, unit) compile" where
  "emit_part E rec slot sp (PInterpol ipol e) =
     cseq [rec slot e, emit_op OpCoerceToString ipol, c_push_u8 (coercion_u8 False True)]"
| "emit_part E rec slot sp (PLiteral lit) = emit_constant E (KString lit) sp"

definition emit_path_ipol_parts ::
  "('sp, 'v) cenv \<Rightarrow> ('sp, 'v) rec_expr \<Rightarrow> nat \<Rightarrow> 'sp \<Rightarrow> ('sp, 'v) part list \<Rightarrow> ('sp, 'v, unit) compile" where
  "emit_path_ipol_parts E rec slot sp parts = cfor (rev parts) (emit_part E rec slot sp)"

definition compile_abs_path ::
  "('sp, 'v) cenv \<Rightarrow> ('sp, 'v) rec_expr \<Rightarrow> nat \<Rightarrow> 'sp \<Rightarrow> string \<Rightarrow> ('sp, 'v) part list \<Rightarrow> ('sp, 'v, unit) compile" where
  "compile_abs_path E rec slot sp path_text parts =
     (if is_interpolated_path parts
      then thunk E slot sp (\<lambda>s. cseq [emit_path_ipol_parts E rec s sp parts, emit_op OpInterpolatePath sp,
                                     c_push_uvarint E (of_nat (length parts))])
      else emit_constant E (KPath (ce_clean E path_text)) sp)"

definition compile_home_path ::
  "('sp, 'v) cenv \<Rightarrow> ('sp, 'v) rec_expr \<Rightarrow> nat \<Rightarrow> 'sp \<Rightarrow> ('sp, 'v) part list \<Rightarrow> ('sp, 'v, unit) compile" where
  "compile_home_path E rec slot sp parts =
     (case parts of
        PLiteral part # rest \<Rightarrow>
          if length part < 2 then cpanic
          else let home_subpath = drop 2 part
               in if is_interpolated_path parts
                  then thunk E slot sp (\<lambda>s.
                         cseq [emit_path_ipol_parts E rec s sp rest, emit_constant E (KUnresolvedPath home_subpath) sp,
                               emit_op OpResolveHomePath sp, emit_op OpInterpolatePath sp,
                               c_push_uvarint E (of_nat (length parts))])
                  else cseq [emit_constant E (KUnresolvedPath home_subpath) sp, emit_op OpResolveHomePath sp]
      | _ \<Rightarrow> cpanic)"

definition compile_rel_path ::
  "('sp, 'v) cenv \<Rightarrow> ('sp, 'v) rec_expr \<Rightarrow> nat \<Rightarrow> 'sp \<Rightarrow> ('sp, 'v) part list \<Rightarrow> ('sp, 'v, unit) compile" where
  "compile_rel_path E rec slot sp parts =
     (case parts of
        PLiteral part # rest \<Rightarrow>
          let abs = path_join (ce_root_dir E) part
          in if is_interpolated_path parts
             then thunk E slot sp (\<lambda>s.
                    cseq [emit_path_ipol_parts E rec s sp rest, emit_constant E (KPath abs) sp,
                          emit_op OpInterpolatePath sp, c_push_uvarint E (of_nat (length parts))])
             else emit_constant E (KPath (ce_clean E abs)) sp
      | _ \<Rightarrow> cpanic)"

definition compile_search_path :: "('sp, 'v) cenv \<Rightarrow> nat \<Rightarrow> 'sp \<Rightarrow> string \<Rightarrow> ('sp, 'v, unit) compile" where
  "compile_search_path E slot sp raw_path =
     (if length raw_path < 2 then cpanic
      else let path = take (length raw_path - 2) (drop 1 raw_path)
           in thunk E slot sp (\<lambda>_. cseq [emit_constant E (KUnresolvedPath path) sp, emit_op OpFindFile sp]))"

definition compile_str_parts ::
  "('sp, 'v) cenv \<Rightarrow> ('sp, 'v) rec_expr \<Rightarrow> nat \<Rightarrow> 'sp \<Rightarrow> ('sp, 'v) part list \<Rightarrow> ('sp, 'v, unit) compile" where
  "compile_str_parts E rec slot sp parts =
     cseq [cfor (rev parts) (emit_part E rec slot sp),
           cwhen (length parts \<noteq> 1) (cseq [emit_op OpInterpolate sp, c_push_uvarint E (of_nat (length parts))])]"

definition compile_str ::
  "('sp, 'v) cenv \<Rightarrow> ('sp, 'v) rec_expr \<Rightarrow> nat \<Rightarrow> 'sp \<Rightarrow> ('sp, 'v) part list \<Rightarrow> ('sp, 'v, unit) compile" where
  "compile_str E rec slot sp parts =
     (if length parts \<noteq> 1 \<or> is_interpolation (hd parts)
      then thunk E slot sp (\<lambda>s. compile_str_parts E rec s sp parts)
      else compile_str_parts E rec slot sp parts)"

section \<open>Operators\<close>

definition compile_unary_op ::
  "('sp, 'v) rec_expr \<Rightarrow> nat \<Rightarrow> 'sp \<Rightarrow> unary_op \<Rightarrow> ('sp, 'v) expr \<Rightarrow> ('sp, 'v, unit) compile" where
  "compile_unary_op rec slot sp op e =
     cseq [rec slot e, emit_force sp, emit_op (case op of UInvert \<Rightarrow> OpInvert | UNegate \<Rightarrow> OpNegate) sp]"

text \<open>What \<open>&&\<close>, \<open>||\<close> and \<open>->\<close> have in common: the right-hand side is skipped by the jump \<open>skip\<close>.\<close>

definition compile_short_circuit ::
  "('sp, 'v) rec_expr \<Rightarrow> nat \<Rightarrow> 'sp \<Rightarrow> bool \<Rightarrow> op \<Rightarrow> ('sp, 'v) expr \<Rightarrow> ('sp, 'v) expr \<Rightarrow> ('sp, 'v, unit) compile" where
  "compile_short_circuit rec slot sp invert skip l r =
     cthen (rec slot l) (cthen (emit_force (span_of l))
     (cbind (push_jump OpJumpIfCatchable sp) (\<lambda>throw_idx.
      cthen (cwhen invert (emit_op OpInvert sp))
     (cbind (push_jump skip sp) (\<lambda>end_idx.
      cseq [emit_op OpPop sp, rec slot r, emit_force (span_of r), c_patch_jump end_idx, emit_op OpAssertBool sp,
            c_patch_jump throw_idx])))))"

definition compile_and where "compile_and rec slot sp l r = compile_short_circuit rec slot sp False OpJumpIfFalse l r"
definition compile_or where "compile_or rec slot sp l r = compile_short_circuit rec slot sp False OpJumpIfTrue l r"
definition compile_implication where "compile_implication rec slot sp l r = compile_short_circuit rec slot sp True OpJumpIfTrue l r"

fun binop_ops :: "bin_op \<Rightarrow> op list" where
  "binop_ops BAdd = [OpAdd]"
| "binop_ops BSub = [OpSub]"
| "binop_ops BMul = [OpMul]"
| "binop_ops BDiv = [OpDiv]"
| "binop_ops BUpdate = [OpAttrsUpdate]"
| "binop_ops BEqual = [OpEqual]"
| "binop_ops BLess = [OpLess]"
| "binop_ops BLessOrEq = [OpLessOrEq]"
| "binop_ops BMore = [OpMore]"
| "binop_ops BMoreOrEq = [OpMoreOrEq]"
| "binop_ops BConcat = [OpConcat]"
| "binop_ops BNotEqual = [OpEqual, OpInvert]"
| "binop_ops _ = []"

definition compile_binop ::
  "('sp, 'v) rec_expr \<Rightarrow> nat \<Rightarrow> 'sp \<Rightarrow> bin_op \<Rightarrow> ('sp, 'v) expr \<Rightarrow> ('sp, 'v) expr \<Rightarrow> ('sp, 'v, unit) compile" where
  "compile_binop rec slot sp op l r =
     (if op = BAnd then compile_and rec slot sp l r
      else if op = BOr then compile_or rec slot sp l r
      else if op = BImplication then compile_implication rec slot sp l r
      else if op = BPipeRight \<or> op = BPipeLeft
      then emit_error sp (NotImplementedError ''pipe operators not implemented'')
      else cseq [rec slot l, emit_force (span_of l), rec slot r, emit_force (span_of r),
                 cfor (binop_ops op) (\<lambda>o'. emit_op o' sp)])"

section \<open>Lists and attribute paths\<close>

fun compile_items ::
  "('sp, 'v) rec_expr \<Rightarrow> nat \<Rightarrow> nat \<Rightarrow> ('sp, 'v) expr list \<Rightarrow> ('sp, 'v, unit) compile" where
  "compile_items rec slot count [] = cret ()"
| "compile_items rec slot count (item # items) =
     cbind (if count = 0 then cret slot else c_declare_phantom (span_of item) False) (\<lambda>item_slot.
       cseq [rec item_slot item, c_mark_initialised item_slot, compile_items rec slot (count + 1) items])"

definition compile_list ::
  "('sp, 'v) cenv \<Rightarrow> ('sp, 'v) rec_expr \<Rightarrow> nat \<Rightarrow> 'sp \<Rightarrow> ('sp, 'v) expr list \<Rightarrow> ('sp, 'v, unit) compile" where
  "compile_list E rec slot sp items =
     cseq [c_begin_scope, compile_items rec slot 0 items, emit_op OpList sp, c_push_uvarint E (of_nat (length items)),
           cbind c_end_scope (\<lambda>_. cret ())]"

fun compile_attr ::
  "('sp, 'v) cenv \<Rightarrow> ('sp, 'v) rec_expr \<Rightarrow> nat \<Rightarrow> ('sp, 'v) attr \<Rightarrow> ('sp, 'v, unit) compile" where
  "compile_attr E rec slot (ADynamic _ e) = cseq [rec slot e, emit_force (span_of e)]"
| "compile_attr E rec slot (AStr sp parts) = cseq [compile_str E rec slot sp parts, emit_force sp]"
| "compile_attr E rec slot (AIdent sp ident) = emit_literal_ident E sp ident"

fun compile_has_attr_path ::
  "('sp, 'v) cenv \<Rightarrow> ('sp, 'v) rec_expr \<Rightarrow> nat \<Rightarrow> nat \<Rightarrow> ('sp, 'v) attr list \<Rightarrow> ('sp, 'v, unit) compile" where
  "compile_has_attr_path E rec slot count [] = cret ()"
| "compile_has_attr_path E rec slot count (fragment # fragments) =
     cseq [cwhen (count > 0) (cseq [emit_op OpAttrsTrySelect (attr_span fragment), emit_force (attr_span fragment)]),
           compile_attr E rec slot fragment, compile_has_attr_path E rec slot (count + 1) fragments]"

definition compile_has_attr ::
  "('sp, 'v) cenv \<Rightarrow> ('sp, 'v) rec_expr \<Rightarrow> nat \<Rightarrow> 'sp \<Rightarrow> ('sp, 'v) expr \<Rightarrow> ('sp, 'v) attr list \<Rightarrow> ('sp, 'v, unit) compile" where
  "compile_has_attr E rec slot sp e path =
     cseq [rec slot e, emit_force sp, compile_has_attr_path E rec slot 0 path, emit_op OpHasAttr sp]"

text \<open>\<open>optimise_select\<close>: a constant attribute set on top of the code is replaced by the selected value.\<close>

definition optimise_select :: "('sp, 'v) cenv \<Rightarrow> ('sp, 'v) attr list \<Rightarrow> ('sp, 'v, bool) compile" where
  "optimise_select E path = on_chunk (\<lambda>c.
     case last_op c of
       None \<Rightarrow> None
     | Some (Some (OpConstant, op_idx)) \<Rightarrow>
         Option.bind (read_uvarint (ce_decode E) (ch_code c) (op_idx + 1)) (\<lambda>(idx, _).
           if length (ch_constants c) \<le> unat idx then None
           else case (ch_constants c ! unat idx, path) of
                  (KAttrs attrs, [attr]) \<Rightarrow>
                    (case Option.bind (expr_static_attr_str attr) (map_of attrs) of
                       Some selected_value \<Rightarrow>
                         Some (True, c\<lparr>ch_constants := (ch_constants c)[unat idx := selected_value]\<rparr>)
                     | None \<Rightarrow> Some (False, c))
                | _ \<Rightarrow> Some (False, c))
     | Some _ \<Rightarrow> Some (False, c))"

fun compile_select_path ::
  "('sp, 'v) cenv \<Rightarrow> ('sp, 'v) rec_expr \<Rightarrow> nat \<Rightarrow> 'sp \<Rightarrow> ('sp, 'v) attr list \<Rightarrow> ('sp, 'v, unit) compile" where
  "compile_select_path E rec slot set_sp [] = cret ()"
| "compile_select_path E rec slot set_sp (fragment # fragments) =
     cseq [emit_force set_sp, compile_attr E rec slot fragment, emit_op OpAttrsSelect (attr_span fragment),
           compile_select_path E rec slot set_sp fragments]"

text \<open>The loop of \<open>compile_select_or\<close>, which collects the jumps to the default.\<close>

fun compile_select_or_path ::
  "('sp, 'v) cenv \<Rightarrow> ('sp, 'v) rec_expr \<Rightarrow> nat \<Rightarrow> ('sp, 'v) attr list \<Rightarrow> ('sp, 'v, nat list) compile" where
  "compile_select_or_path E rec slot [] = cret []"
| "compile_select_or_path E rec slot (fragment # fragments) =
     cthen (emit_force (attr_span fragment)) (cthen (compile_attr E rec slot fragment)
     (cthen (emit_op OpAttrsTrySelect (attr_span fragment))
     (cbind (push_jump OpJumpIfNotFound (attr_span fragment)) (\<lambda>jump.
      cbind (compile_select_or_path E rec slot fragments) (\<lambda>jumps. cret (jump # jumps))))))"

definition compile_select_or ::
  "('sp, 'v) cenv \<Rightarrow> ('sp, 'v) rec_expr \<Rightarrow> nat \<Rightarrow> ('sp, 'v) expr \<Rightarrow> 'sp \<Rightarrow> ('sp, 'v) attr list \<Rightarrow> ('sp, 'v) expr
   \<Rightarrow> ('sp, 'v, unit) compile" where
  "compile_select_or E rec slot set_expr path_sp path dflt =
     cthen (rec slot set_expr) (cbind (optimise_select E path) (\<lambda>optimised.
       if optimised then cret ()
       else cbind (compile_select_or_path E rec slot path) (\<lambda>jumps.
            cbind (push_jump OpJump path_sp) (\<lambda>final_jump.
              cseq [cfor jumps c_patch_jump, rec slot dflt, c_patch_jump final_jump]))))"

definition compile_select ::
  "('sp, 'v) cenv \<Rightarrow> ('sp, 'v) rec_expr \<Rightarrow> nat \<Rightarrow> ('sp, 'v) expr \<Rightarrow> 'sp \<Rightarrow> ('sp, 'v) attr list \<Rightarrow> ('sp, 'v) expr option
   \<Rightarrow> ('sp, 'v, unit) compile" where
  "compile_select E rec slot set_expr path_sp path dflt =
     (case dflt of
        Some d \<Rightarrow> compile_select_or E rec slot set_expr path_sp path d
      | None \<Rightarrow>
          cthen (rec slot set_expr) (cbind (optimise_select E path) (\<lambda>optimised.
            if optimised then cret () else compile_select_path E rec slot (span_of set_expr) path)))"

section \<open>Conditionals and \<open>with\<close>\<close>

definition compile_assert ::
  "('sp, 'v) rec_expr \<Rightarrow> nat \<Rightarrow> 'sp \<Rightarrow> ('sp, 'v) expr \<Rightarrow> ('sp, 'v) expr \<Rightarrow> ('sp, 'v, unit) compile" where
  "compile_assert rec slot sp condition body =
     cthen (rec slot condition) (cthen (emit_force (span_of condition))
     (cbind (push_jump OpJumpIfCatchable sp) (\<lambda>throw_idx.
      cbind (push_jump OpJumpIfFalse sp) (\<lambda>then_idx.
      cthen (emit_op OpPop sp) (cthen (rec slot body)
     (cbind (push_jump OpJump sp) (\<lambda>else_idx.
      cseq [c_patch_jump then_idx, emit_op OpPop sp, emit_op OpAssertFail (span_of condition),
            c_patch_jump else_idx, c_patch_jump throw_idx])))))))"

definition compile_if_else ::
  "('sp, 'v) rec_expr \<Rightarrow> nat \<Rightarrow> 'sp \<Rightarrow> ('sp, 'v) expr \<Rightarrow> ('sp, 'v) expr \<Rightarrow> ('sp, 'v) expr \<Rightarrow> ('sp, 'v, unit) compile" where
  "compile_if_else rec slot sp condition body else_body =
     cthen (rec slot condition) (cthen (emit_force (span_of condition))
     (cbind (push_jump OpJumpIfCatchable (span_of condition)) (\<lambda>throw_idx.
      cbind (push_jump OpJumpIfFalse (span_of condition)) (\<lambda>then_idx.
      cthen (emit_op OpPop sp) (cthen (rec slot body)
     (cbind (push_jump OpJump sp) (\<lambda>else_idx.
      cseq [c_patch_jump then_idx, emit_op OpPop sp, rec slot else_body,
            c_patch_jump else_idx, c_patch_jump throw_idx])))))))"

definition compile_with ::
  "('sp, 'v) cenv \<Rightarrow> ('sp, 'v) rec_expr \<Rightarrow> nat \<Rightarrow> 'sp \<Rightarrow> ('sp, 'v) expr \<Rightarrow> ('sp, 'v) expr \<Rightarrow> ('sp, 'v, unit) compile" where
  "compile_with E rec slot sp namespace body =
     cthen c_begin_scope (cthen (rec slot namespace)
     (cbind (c_declare_phantom (span_of namespace) True) (\<lambda>local_idx.
      cbind (get_stack_index local_idx) (\<lambda>with_idx.
      cseq [scope_step (\<lambda>sc. Some (scope_push_with sc)), emit_op OpPushWith (span_of namespace),
            c_push_uvarint E (of_nat with_idx), rec slot body, emit_op OpPopWith sp,
            scope_step scope_pop_with, cleanup_scope E sp]))))"

section \<open>Functions\<close>

record ('sp, 'v) tracked_formal =
  tf_local_idx :: nat
  tf_ident_span :: 'sp
  tf_ident :: string
  tf_default :: "(nat \<times> ('sp, 'v) expr) option"

text \<open>First pass over the formals: declare them.\<close>

fun declare_formals ::
  "('sp, 'v) cenv \<Rightarrow> ('sp \<times> string \<times> ('sp, 'v) expr option) list \<Rightarrow> ('sp, 'v, ('sp, 'v) tracked_formal list) compile" where
  "declare_formals E [] = cret []"
| "declare_formals E ((sp, ident, dflt) # entries) =
     cbind (c_declare_local E sp ident) (\<lambda>idx.
     cbind (case dflt of
              None \<Rightarrow> cret None
            | Some e \<Rightarrow> cbind (c_declare_phantom (span_of e) False) (\<lambda>finalise_request_idx. cret (Some (finalise_request_idx, e))))
       (\<lambda>d.
     cbind (declare_formals E entries) (\<lambda>tracked.
       cret (\<lparr>tf_local_idx = idx, tf_ident_span = sp, tf_ident = ident, tf_default = d\<rparr> # tracked))))"

text \<open>Second pass: select each formal from the set, or compile its default.\<close>

definition compile_formal ::
  "('sp, 'v) cenv \<Rightarrow> ('sp, 'v) rec_expr \<Rightarrow> 'sp \<Rightarrow> nat \<Rightarrow> ('sp, 'v) tracked_formal \<Rightarrow> ('sp, 'v, unit) compile" where
  "compile_formal E rec sp stack_idx tf =
     cseq [emit_op OpGetLocal sp, c_push_uvarint E (of_nat stack_idx), emit_literal_ident E (tf_ident_span tf) (tf_ident tf),
       (case tf_default tf of
          None \<Rightarrow> emit_op OpAttrsSelect (tf_ident_span tf)
        | Some (finalise_request_idx, default_expr) \<Rightarrow>
            cthen (emit_op OpAttrsTrySelect (tf_ident_span tf))
            (cbind (push_jump OpJumpIfNotFound (span_of default_expr)) (\<lambda>jump_to_default.
             cthen (emit_constant E (KFinaliseRequest False) (span_of default_expr))
            (cbind (push_jump OpJump (span_of default_expr)) (\<lambda>jump_over_default.
             cseq [c_patch_jump jump_to_default, rec (tf_local_idx tf) default_expr,
                   emit_constant E (KFinaliseRequest True) (span_of default_expr), c_patch_jump jump_over_default]))))),
       c_mark_initialised (tf_local_idx tf),
       (case tf_default tf of None \<Rightarrow> cret () | Some (finalise_request_idx, _) \<Rightarrow> c_mark_initialised finalise_request_idx)]"

text \<open>Third pass: finalise the defaults that were used.\<close>

definition finalise_formal ::
  "('sp, 'v) cenv \<Rightarrow> 'sp \<Rightarrow> ('sp, 'v) tracked_formal \<Rightarrow> ('sp, 'v, unit) compile" where
  "finalise_formal E sp tf =
     cbind (get_local (tf_local_idx tf)) (\<lambda>l.
       if \<not> l_needs_finaliser l then cret ()
       else cbind (get_stack_index (tf_local_idx tf)) (\<lambda>stack_idx.
         case tf_default tf of
           None \<Rightarrow> cpanic
         | Some (finalise_request_idx, _) \<Rightarrow>
             cbind (get_stack_index finalise_request_idx) (\<lambda>finalise_request_stack_idx.
             cthen (emit_op OpGetLocal sp) (cthen (c_push_uvarint E (of_nat finalise_request_stack_idx))
             (cbind (push_jump OpJumpIfNoFinaliseRequest sp) (\<lambda>jump_over_finalise.
               cseq [emit_op OpFinalise sp, c_push_uvarint E (of_nat stack_idx), c_patch_jump jump_over_finalise,
                     emit_op OpPop sp]))))))"

definition compile_param_pattern ::
  "('sp, 'v) cenv \<Rightarrow> ('sp, 'v) rec_expr \<Rightarrow> 'sp \<Rightarrow> ('sp \<times> string) option \<Rightarrow> bool \<Rightarrow>
   ('sp \<times> string \<times> ('sp, 'v) expr option) list \<Rightarrow>
   ('sp, 'v, ((string \<times> bool) list \<times> bool \<times> 'sp \<times> string option) \<times> nat) compile" where
  "compile_param_pattern E rec sp pat_bind ellipsis entries =
     cbind (case pat_bind of
              Some (name_sp, name) \<Rightarrow> c_declare_local E name_sp name
            | None \<Rightarrow> c_declare_phantom sp True) (\<lambda>set_idx.
     cthen (c_mark_initialised set_idx) (cthen (emit_force sp)
     (cbind (push_jump OpJumpIfCatchable sp) (\<lambda>throw_idx.
     cthen (emit_op OpAssertAttrs sp) (cthen (cwhen (\<not> ellipsis) (emit_op OpValidateClosedFormals sp))
     (cbind (declare_formals E entries) (\<lambda>tracked.
     cbind (get_stack_index set_idx) (\<lambda>stack_idx.
     cthen (cfor tracked (compile_formal E rec sp stack_idx)) (cthen (cfor tracked (finalise_formal E sp))
     (cret ((fold (\<lambda>(_, ident, dflt). btree_put (<) ident (dflt \<noteq> None)) entries [], ellipsis, sp, map_option snd pat_bind),
            throw_idx)))))))))))"

fun compile_lambda ::
  "('sp, 'v) cenv \<Rightarrow> ('sp, 'v) rec_expr \<Rightarrow> nat \<Rightarrow> ('sp, 'v) param \<Rightarrow> ('sp, 'v) expr \<Rightarrow> ('sp, 'v, nat option) compile" where
  "compile_lambda E rec slot (PPattern sp pat_bind ellipsis entries) body =
     cbind (compile_param_pattern E rec sp pat_bind ellipsis entries) (\<lambda>(formals, throw_idx).
     cthen (rec slot body)
     (cbind (on_context (\<lambda>ctx. Some ((), ctx\<lparr>lc_formals := Some formals, lc_param_name := []\<rparr>))) (\<lambda>_.
       cret (Some throw_idx))))"
| "compile_lambda E rec slot (PIdent sp name) body =
     cbind (c_declare_local E sp name) (\<lambda>idx.
     cthen (c_mark_initialised idx)
     (cthen (on_context (\<lambda>ctx. Some ((), ctx\<lparr>lc_param_name := name\<rparr>)))
     (cthen (rec slot body)
     (cbind (on_context (\<lambda>ctx. Some ((), ctx\<lparr>lc_formals := None\<rparr>))) (\<lambda>_. cret None)))))"

definition compile_apply ::
  "('sp, 'v) rec_expr \<Rightarrow> nat \<Rightarrow> 'sp \<Rightarrow> ('sp, 'v) expr \<Rightarrow> ('sp, 'v) expr \<Rightarrow> ('sp, 'v, unit) compile" where
  "compile_apply rec slot sp lambda argument =
     cseq [rec slot argument, rec slot lambda, emit_force (span_of lambda), emit_op OpCall sp]"

definition compile_cur_pos :: "('sp, 'v) cenv \<Rightarrow> 'sp \<Rightarrow> ('sp, 'v, unit) compile" where
  "compile_cur_pos E sp = (case ce_cur_pos E sp of None \<Rightarrow> cpanic | Some value \<Rightarrow> emit_constant E value sp)"

section \<open>Bindings\<close>

datatype (plugins only: code size) bindings_kind = BindLetIn | BindAttrs | BindRecAttrs

definition is_attrs :: "bindings_kind \<Rightarrow> bool" where
  "is_attrs kind \<longleftrightarrow> kind = BindAttrs \<or> kind = BindRecAttrs"

type_synonym ('sp, 'v) set_entry = "'sp \<times> ('sp, 'v) attr list \<times> ('sp, 'v) expr"

record ('sp, 'v) attribute_set =
  as_span :: 'sp
  as_kind :: bindings_kind
  as_inherits :: "('sp, 'v) inherit list"
  as_entries :: "('sp, 'v) set_entry list"

fun entry_of :: "('sp, 'v) entry \<Rightarrow> ('sp, 'v) set_entry" where
  "entry_of (Entry sp path value) = (sp, path, value)"

definition set_from_ast :: "'sp \<Rightarrow> bool \<Rightarrow> ('sp, 'v) inherit list \<Rightarrow> ('sp, 'v) entry list \<Rightarrow> ('sp, 'v) attribute_set" where
  "set_from_ast sp rec_token inherits entries =
     \<lparr>as_span = sp, as_kind = (if rec_token then BindRecAttrs else BindAttrs), as_inherits = inherits,
      as_entries = map entry_of entries\<rparr>"

datatype (plugins only: code size) ('sp, 'v) binding =
    InheritFrom "('sp, 'v) expr" string 'sp
  | Plain "('sp, 'v) expr"
  | SetBinding "('sp, 'v) attribute_set"

text \<open>Merge into a set: a longer path becomes an entry, an attribute set literal is added to it.\<close>

fun merge_set ::
  "('sp, 'v) attribute_set \<Rightarrow> 'sp \<Rightarrow> ('sp, 'v) attr list \<Rightarrow> ('sp, 'v) expr \<Rightarrow> ('sp, 'v, ('sp, 'v) binding) compile" where
  "merge_set existing span (a # path) value =
     cret (SetBinding (existing\<lparr>as_entries := as_entries existing @ [(span, a # path, value)]\<rparr>))"
| "merge_set existing span [] (EAttrSet _ _ inherits entries) =
     cret (SetBinding (existing\<lparr>as_inherits := as_inherits existing @ inherits,
                                as_entries := as_entries existing @ map entry_of entries\<rparr>))"
| "merge_set existing span [] _ = cpanic"

fun binding_merge ::
  "('sp, 'v) binding \<Rightarrow> 'sp \<Rightarrow> ('sp, 'v) attr list \<Rightarrow> ('sp, 'v) expr \<Rightarrow> ('sp, 'v, ('sp, 'v) binding) compile" where
  "binding_merge (InheritFrom ns name sp) span path value =
     cbind (emit_error sp (UnmergeableInherit name)) (\<lambda>_. cret (InheritFrom ns name sp))"
| "binding_merge (Plain (EAttrSet sp rec_token inherits entries)) span path value =
     merge_set (set_from_ast sp rec_token inherits entries) span path value"
| "binding_merge (Plain e) span path value =
     cbind (emit_error (span_of value) UnmergeableValue) (\<lambda>_. cret (Plain e))"
| "binding_merge (SetBinding existing) span path value = merge_set existing span path value"

datatype (plugins only: code size) ('sp, 'v) key_slot = KeyNone string | KeyStatic nat string | KeyDynamic nat "('sp, 'v) attr"

record ('sp, 'v) tracked_binding =
  tb_key_slot :: "('sp, 'v) key_slot"
  tb_value_slot :: nat
  tb_binding :: "('sp, 'v) binding"

definition binding_matches :: "('sp, 'v) tracked_binding \<Rightarrow> string \<Rightarrow> bool" where
  "binding_matches tb key =
     (case tb_key_slot tb of KeyNone name \<Rightarrow> name = key | KeyStatic _ name \<Rightarrow> name = key | KeyDynamic _ _ \<Rightarrow> False)"

fun is_attr_set :: "('sp, 'v) expr \<Rightarrow> bool" where
  "is_attr_set (EAttrSet _ _ _ _) = True"
| "is_attr_set _ = False"

text \<open>Merge into the first binding of that name; \<open>None\<close> if there is none.\<close>

fun merge_into ::
  "('sp, 'v) tracked_binding list \<Rightarrow> 'sp \<Rightarrow> string \<Rightarrow> ('sp, 'v) attr list \<Rightarrow> ('sp, 'v) expr \<Rightarrow>
   ('sp, 'v, ('sp, 'v) tracked_binding list option) compile" where
  "merge_into [] span name path value = cret None"
| "merge_into (tb # tbs) span name path value =
     (if binding_matches tb name
      then cbind (binding_merge (tb_binding tb) span path value) (\<lambda>b. cret (Some (tb\<lparr>tb_binding := b\<rparr> # tbs)))
      else cbind (merge_into tbs span name path value) (\<lambda>r. cret (map_option ((#) tb) r)))"

definition try_merge ::
  "('sp, 'v) tracked_binding list \<Rightarrow> 'sp \<Rightarrow> ('sp, 'v) attr \<Rightarrow> ('sp, 'v) attr list \<Rightarrow> ('sp, 'v) expr \<Rightarrow>
   ('sp, 'v, ('sp, 'v) tracked_binding list option) compile" where
  "try_merge tbs span name path value =
     (if path = [] \<and> \<not> is_attr_set value then cret None
      else case expr_static_attr_str name of
             None \<Rightarrow> cret None
           | Some name \<Rightarrow> merge_into tbs span name path value)"

text \<open>\<open>compile_plain_inherits\<close>, for one attribute of an inherit without a namespace.\<close>

definition compile_plain_inherit ::
  "('sp, 'v) cenv \<Rightarrow> nat \<Rightarrow> bindings_kind \<Rightarrow> ('sp, 'v) attr \<Rightarrow> ('sp, 'v, nat) compile" where
  "compile_plain_inherit E slot kind attr =
     (case expr_static_attr_str attr of
        None \<Rightarrow> cbind (emit_error (attr_span attr) (DynamicKeyInScope ''inherit'')) (\<lambda>_. cret 0)
      | Some name \<Rightarrow>
          cbind (if kind = BindLetIn then cbind (c_resolve_local name) (\<lambda>pos. cret (case pos of LKnown _ \<Rightarrow> True | _ \<Rightarrow> False))
                 else cret False) (\<lambda>useless.
            if useless then cbind (emit_warning (attr_span attr) UselessInherit) (\<lambda>_. cret 0)
            else
              cthen (cwhen (is_attrs kind)
                 (cthen (emit_constant E (KString name) (attr_span attr))
                    (cbind (c_declare_phantom (attr_span attr) True) (\<lambda>_. cret ()))))
              (cthen (compile_identifier_access E slot name (attr_span attr))
              (cbind (if kind = BindAttrs then c_declare_phantom (attr_span attr) False
                      else c_declare_local E (attr_span attr) name) (\<lambda>idx.
               cbind (c_mark_initialised idx) (\<lambda>_. cret 1))))))"

fun compile_plain_inherit_attrs ::
  "('sp, 'v) cenv \<Rightarrow> nat \<Rightarrow> bindings_kind \<Rightarrow> ('sp, 'v) attr list \<Rightarrow> ('sp, 'v, nat) compile" where
  "compile_plain_inherit_attrs E slot kind [] = cret 0"
| "compile_plain_inherit_attrs E slot kind (attr # attrs) =
     cbind (compile_plain_inherit E slot kind attr) (\<lambda>n.
       cbind (compile_plain_inherit_attrs E slot kind attrs) (\<lambda>m. cret (n + m)))"

text \<open>The attributes of an inherit with a namespace, which are bound later.\<close>

fun collect_inherit_from ::
  "('sp, 'v) expr \<Rightarrow> ('sp, 'v) attr list \<Rightarrow> ('sp, 'v, (('sp, 'v) expr \<times> string \<times> 'sp) list) compile" where
  "collect_inherit_from from [] = cret []"
| "collect_inherit_from from (attr # attrs) =
     (case expr_static_attr_str attr of
        None \<Rightarrow> cthen (emit_error (attr_span attr) (DynamicKeyInScope ''inherit'')) (collect_inherit_from from attrs)
      | Some name \<Rightarrow> cbind (collect_inherit_from from attrs) (\<lambda>r. cret ((from, name, attr_span attr) # r)))"

fun compile_plain_inherits ::
  "('sp, 'v) cenv \<Rightarrow> nat \<Rightarrow> bindings_kind \<Rightarrow> ('sp, 'v) inherit list \<Rightarrow>
   ('sp, 'v, nat \<times> (('sp, 'v) expr \<times> string \<times> 'sp) list) compile" where
  "compile_plain_inherits E slot kind [] = cret (0, [])"
| "compile_plain_inherits E slot kind (Inherit sp from attrs # inherits) =
     cbind (if attrs = [] then cbind (emit_warning sp EmptyInherit) (\<lambda>_. cret (0, []))
            else case from of
                   Some from \<Rightarrow> cbind (collect_inherit_from from attrs) (\<lambda>froms. cret (length froms, froms))
                 | None \<Rightarrow>
                     cbind (if is_attrs kind then cret True else has_dynamic_ancestor) (\<lambda>useful.
                       if \<not> useful then cbind (emit_warning sp UselessInherit) (\<lambda>_. cret (0, []))
                       else cbind (compile_plain_inherit_attrs E slot kind attrs) (\<lambda>n. cret (n, [])))) (\<lambda>(n, froms).
     cbind (compile_plain_inherits E slot kind inherits) (\<lambda>(m, froms'). cret (n + m, froms @ froms')))"

text \<open>\<open>declare_namespaced_inherits\<close>.\<close>

fun declare_namespaced_inherits ::
  "('sp, 'v) cenv \<Rightarrow> bindings_kind \<Rightarrow> (('sp, 'v) expr \<times> string \<times> 'sp) list \<Rightarrow> ('sp, 'v, ('sp, 'v) tracked_binding list) compile" where
  "declare_namespaced_inherits E kind [] = cret []"
| "declare_namespaced_inherits E kind ((from, name, span) # froms) =
     cbind (if is_attrs kind then cbind (c_declare_phantom span False) (\<lambda>slot. cret (KeyStatic slot name))
            else cret (KeyNone name)) (\<lambda>key_slot.
     cbind (if kind = BindAttrs then c_declare_phantom span False else c_declare_local E span name) (\<lambda>value_slot.
     cbind (declare_namespaced_inherits E kind froms) (\<lambda>tbs.
       cret (\<lparr>tb_key_slot = key_slot, tb_value_slot = value_slot, tb_binding = InheritFrom from name span\<rparr> # tbs))))"

text \<open>\<open>declare_bindings\<close>: the new bindings are added at the end, after those tracked already.\<close>

definition declare_key ::
  "bindings_kind \<Rightarrow> ('sp, 'v) attr \<Rightarrow> ('sp, 'v, ('sp, 'v) key_slot option) compile" where
  "declare_key kind key =
     (case expr_static_attr_str key of
        Some name \<Rightarrow>
          if is_attrs kind then cbind (c_declare_phantom (attr_span key) False) (\<lambda>slot. cret (Some (KeyStatic slot name)))
          else cret (Some (KeyNone name))
      | None \<Rightarrow>
          if is_attrs kind then cbind (c_declare_phantom (attr_span key) False) (\<lambda>slot. cret (Some (KeyDynamic slot key)))
          else cbind (emit_error (attr_span key) (DynamicKeyInScope ''let-expression'')) (\<lambda>_. cret None))"

definition declare_value :: "('sp, 'v) cenv \<Rightarrow> bindings_kind \<Rightarrow> 'sp \<Rightarrow> ('sp, 'v) key_slot \<Rightarrow> ('sp, 'v, nat) compile" where
  "declare_value E kind key_span key_slot =
     (if kind = BindAttrs then c_declare_phantom key_span False
      else case key_slot of
             KeyNone name \<Rightarrow> c_declare_local E key_span name
           | KeyStatic _ name \<Rightarrow> c_declare_local E key_span name
           | KeyDynamic _ _ \<Rightarrow> c_declare_phantom key_span False)"

fun declare_bindings ::
  "('sp, 'v) cenv \<Rightarrow> bindings_kind \<Rightarrow> nat \<Rightarrow> ('sp, 'v) tracked_binding list \<Rightarrow> ('sp, 'v) set_entry list \<Rightarrow>
   ('sp, 'v, nat \<times> ('sp, 'v) tracked_binding list) compile" where
  "declare_bindings E kind count tbs [] = cret (count, tbs)"
| "declare_bindings E kind count tbs ((span, [], value) # entries) = cpanic"
| "declare_bindings E kind count tbs ((span, key # path, value) # entries) =
     cbind (try_merge tbs span key path value) (\<lambda>merged.
       case merged of
         Some tbs' \<Rightarrow> declare_bindings E kind count tbs' entries
       | None \<Rightarrow>
           cbind (declare_key kind key) (\<lambda>k.
             case k of
               None \<Rightarrow> declare_bindings E kind (count + 1) tbs entries
             | Some key_slot \<Rightarrow>
                 cbind (declare_value E kind (attr_span key) key_slot) (\<lambda>value_slot.
                   let b = (if path \<noteq> []
                            then SetBinding \<lparr>as_span = span, as_kind = BindAttrs, as_inherits = [],
                                             as_entries = [(span, path, value)]\<rparr>
                            else Plain value)
                   in declare_bindings E kind (count + 1)
                        (tbs @ [\<lparr>tb_key_slot = key_slot, tb_value_slot = value_slot, tb_binding = b\<rparr>]) entries)))"

type_synonym ('sp, 'v) rec_bindings =
  "nat \<Rightarrow> bindings_kind \<Rightarrow> 'sp \<Rightarrow> ('sp, 'v) inherit list \<Rightarrow> ('sp, 'v) set_entry list \<Rightarrow> ('sp, 'v, unit) compile"

text \<open>\<open>OrEntireFile\<close>: the span of a local, or of the whole file if it has none.\<close>

definition or_entire_file :: "('sp, 'v) cenv \<Rightarrow> 'sp option \<Rightarrow> 'sp" where
  "or_entire_file E span = (case span of Some sp \<Rightarrow> sp | None \<Rightarrow> ce_file_span E)"

text \<open>\<open>bind_values\<close>, for one binding: the key, then the value, which may be a set of bindings again.\<close>

definition bind_value ::
  "('sp, 'v) cenv \<Rightarrow> ('sp, 'v) rec_expr \<Rightarrow> ('sp, 'v) rec_bindings \<Rightarrow> ('sp, 'v) tracked_binding \<Rightarrow> ('sp, 'v, unit) compile" where
  "bind_value E rec recs tb =
     cseq [
       (case tb_key_slot tb of
          KeyNone _ \<Rightarrow> cret ()
        | KeyStatic slot name \<Rightarrow>
            cbind (get_local slot) (\<lambda>l.
              cseq [emit_constant E (KString name) (or_entire_file E (l_span l)), c_mark_initialised slot])
        | KeyDynamic slot attr \<Rightarrow> cseq [compile_attr E rec slot attr, c_mark_initialised slot]),
       (case tb_binding tb of
          InheritFrom namespace name span \<Rightarrow>
            thunk E (tb_value_slot tb) (span_of namespace) (\<lambda>s.
              cseq [rec s namespace, emit_force (span_of namespace), emit_constant E (KString name) span,
                    emit_op OpAttrsSelect span])
        | Plain e \<Rightarrow> rec (tb_value_slot tb) e
        | SetBinding set_node \<Rightarrow>
            thunk E (tb_value_slot tb) (as_span set_node) (\<lambda>_.
              cseq [c_begin_scope,
                    recs (tb_value_slot tb) (as_kind set_node) (as_span set_node) (as_inherits set_node) (as_entries set_node),
                    cbind c_end_scope (\<lambda>_. cret ())])),
       c_mark_initialised (tb_value_slot tb)]"

definition finalise_value :: "('sp, 'v) cenv \<Rightarrow> nat \<Rightarrow> ('sp, 'v, unit) compile" where
  "finalise_value E idx =
     cbind (get_local idx) (\<lambda>l.
       cwhen (l_needs_finaliser l)
         (cbind (get_stack_index idx) (\<lambda>stack_idx.
           cseq [emit_op OpFinalise (or_entire_file E (l_span l)), c_push_uvarint E (of_nat stack_idx)])))"

definition bind_values ::
  "('sp, 'v) cenv \<Rightarrow> ('sp, 'v) rec_expr \<Rightarrow> ('sp, 'v) rec_bindings \<Rightarrow> ('sp, 'v) tracked_binding list \<Rightarrow> ('sp, 'v, unit) compile" where
  "bind_values E rec recs tbs =
     cseq [cfor tbs (bind_value E rec recs), cfor (map tb_value_slot tbs) (finalise_value E)]"

definition compile_bindings ::
  "('sp, 'v) cenv \<Rightarrow> ('sp, 'v) rec_expr \<Rightarrow> ('sp, 'v) rec_bindings \<Rightarrow> ('sp, 'v) rec_bindings" where
  "compile_bindings E rec recs slot kind sp inherits entries =
     cthen c_begin_scope
     (cbind (compile_plain_inherits E slot kind inherits) (\<lambda>(count, inherit_froms).
      cbind (declare_namespaced_inherits E kind inherit_froms) (\<lambda>tbs.
      cbind (declare_bindings E kind count tbs entries) (\<lambda>(count, tbs).
        if count = 0 then
          (if is_attrs kind then emit_constant E (KAttrs []) sp else emit_warning sp EmptyLet)
        else cseq [bind_values E rec recs tbs,
                   cwhen (is_attrs kind) (cseq [emit_op OpAttrs sp, c_push_uvarint E (of_nat count)])]))))"

definition compile_attr_set ::
  "('sp, 'v) rec_bindings \<Rightarrow> nat \<Rightarrow> 'sp \<Rightarrow> bool \<Rightarrow> ('sp, 'v) inherit list \<Rightarrow> ('sp, 'v) entry list \<Rightarrow> ('sp, 'v, unit) compile" where
  "compile_attr_set recs slot sp rec_token inherits entries =
     cseq [c_begin_scope,
           recs slot (if rec_token then BindRecAttrs else BindAttrs) sp inherits (map entry_of entries),
           cbind c_end_scope (\<lambda>_. cret ())]"

definition compile_let_in ::
  "('sp, 'v) cenv \<Rightarrow> ('sp, 'v) rec_expr \<Rightarrow> ('sp, 'v) rec_bindings \<Rightarrow> nat \<Rightarrow> 'sp \<Rightarrow> ('sp, 'v) inherit list \<Rightarrow>
   ('sp, 'v) entry list \<Rightarrow> ('sp, 'v) expr \<Rightarrow> ('sp, 'v, unit) compile" where
  "compile_let_in E rec recs slot sp inherits entries body =
     cseq [recs slot BindLetIn sp inherits (map entry_of entries), rec slot body, cleanup_scope E sp]"

definition compile_legacy_let ::
  "('sp, 'v) cenv \<Rightarrow> ('sp, 'v) rec_bindings \<Rightarrow> nat \<Rightarrow> 'sp \<Rightarrow> ('sp, 'v) inherit list \<Rightarrow> ('sp, 'v) entry list \<Rightarrow>
   ('sp, 'v, unit) compile" where
  "compile_legacy_let E recs slot sp inherits entries =
     cseq [emit_warning sp DeprecatedLegacyLet, c_begin_scope,
           recs slot BindRecAttrs sp inherits (map entry_of entries), cbind c_end_scope (\<lambda>_. cret ()),
           emit_constant E (KString ''body'') sp, emit_op OpAttrsSelect sp]"

section \<open>Expressions\<close>

fun compile_optimised ::
  "('sp, 'v) cenv \<Rightarrow> ('sp, 'v) rec_expr \<Rightarrow> ('sp, 'v) rec_bindings \<Rightarrow> ('sp, 'v) rec_expr" where
  "compile_optimised E rec recs slot (ELiteral sp lit) = compile_literal E sp lit"
| "compile_optimised E rec recs slot (EPathAbs sp path_text parts) = compile_abs_path E rec slot sp path_text parts"
| "compile_optimised E rec recs slot (EPathHome sp parts) = compile_home_path E rec slot sp parts"
| "compile_optimised E rec recs slot (EPathRel sp parts) = compile_rel_path E rec slot sp parts"
| "compile_optimised E rec recs slot (EPathSearch sp raw) = compile_search_path E slot sp raw"
| "compile_optimised E rec recs slot (EStr sp parts) = compile_str E rec slot sp parts"
| "compile_optimised E rec recs slot (EUnaryOp sp op e) = thunk E slot sp (\<lambda>s. compile_unary_op rec s sp op e)"
| "compile_optimised E rec recs slot (EBinOp sp op l r) = thunk E slot sp (\<lambda>s. compile_binop rec s sp op l r)"
| "compile_optimised E rec recs slot (EHasAttr sp e path) = thunk E slot sp (\<lambda>s. compile_has_attr E rec s sp e path)"
| "compile_optimised E rec recs slot (EList sp items) = thunk E slot sp (\<lambda>s. compile_list E rec s sp items)"
| "compile_optimised E rec recs slot (EAttrSet sp rec_token inherits entries) =
     thunk E slot sp (\<lambda>s. compile_attr_set recs s sp rec_token inherits entries)"
| "compile_optimised E rec recs slot (ESelect sp e path_sp path dflt) =
     thunk E slot sp (\<lambda>s. compile_select E rec s e path_sp path dflt)"
| "compile_optimised E rec recs slot (EAssert sp condition body) = thunk E slot sp (\<lambda>s. compile_assert rec s sp condition body)"
| "compile_optimised E rec recs slot (EIfElse sp condition body else_body) =
     thunk E slot sp (\<lambda>s. compile_if_else rec s sp condition body else_body)"
| "compile_optimised E rec recs slot (ELetIn sp inherits entries body) =
     thunk E slot sp (\<lambda>s. compile_let_in E rec recs s sp inherits entries body)"
| "compile_optimised E rec recs slot (EIdent sp ident) = compile_identifier_access E slot ident sp"
| "compile_optimised E rec recs slot (EWith sp namespace body) = thunk E slot sp (\<lambda>s. compile_with E rec s sp namespace body)"
| "compile_optimised E rec recs slot (ELambda sp param body) =
     thunk E slot sp (\<lambda>s. compile_lambda_or_thunk E False s sp (\<lambda>s. compile_lambda E rec s param body))"
| "compile_optimised E rec recs slot (EApply sp lambda argument) = thunk E slot sp (\<lambda>s. compile_apply rec s sp lambda argument)"
| "compile_optimised E rec recs slot (EParen sp e) = rec slot e"
| "compile_optimised E rec recs slot (ELegacyLet sp inherits entries) =
     thunk E slot sp (\<lambda>s. compile_legacy_let E recs s sp inherits entries)"
| "compile_optimised E rec recs slot (ECurPos sp) = compile_cur_pos E sp"

definition compile_expr ::
  "('sp, 'v) cenv \<Rightarrow> ('sp, 'v) rec_expr \<Rightarrow> ('sp, 'v) rec_bindings \<Rightarrow> ('sp, 'v) rec_expr" where
  "compile_expr E rec recs slot e = cbind (optimise_expr rec slot e) (compile_optimised E rec recs slot)"

fun compile :: "('sp, 'v) cenv \<Rightarrow> nat \<Rightarrow> ('sp, 'v) rec_expr"
  and compile_set :: "('sp, 'v) cenv \<Rightarrow> nat \<Rightarrow> ('sp, 'v) rec_bindings" where
  "compile E 0 slot e = cnofuel"
| "compile E (Suc fuel) slot e = compile_expr E (compile E fuel) (compile_set E fuel) slot e"
| "compile_set E 0 slot kind sp inherits entries = cnofuel"
| "compile_set E (Suc fuel) slot kind sp inherits entries =
     compile_bindings E (compile E fuel) (compile_set E fuel) slot kind sp inherits entries"

section \<open>Whole programs\<close>

definition compile_env :: "('sp, 'v) cenv \<Rightarrow> (string \<times> ('sp, 'v) const) list \<Rightarrow> ('sp, 'v, unit) compile" where
  "compile_env E env =
     cfor env (\<lambda>(name, value).
       cseq [on_scope (\<lambda>sc. Some ((), snd (declare_constant name sc))), emit_constant E value (ce_file_span E)])"

definition initial_state :: "('sp, 'v) cstate" where
  "initial_state = \<lparr>cs_contexts = [lambda_ctx_new], cs_warnings = [], cs_errors = [], cs_dead_scope = 0\<rparr>"

definition compile_program ::
  "('sp, 'v) cenv \<Rightarrow> nat \<Rightarrow> (string \<times> ('sp, 'v) const) list \<Rightarrow> ('sp, 'v) expr \<Rightarrow> ('sp, 'v, ('sp, 'v) lam) compile" where
  "compile_program E fuel env e =
     cthen (compile_env E env)
     (cbind (c_declare_phantom (span_of e) False) (\<lambda>root_slot.
      cthen (compile E fuel root_slot e) (cthen (emit_force (span_of e))
     (cthen (cwhen (env \<noteq> []) (cseq [emit_op OpCloseScope (span_of e), c_push_uvarint E (of_nat (length env))]))
     (cthen (emit_op OpReturn (span_of e))
     (cbind pop_context (\<lambda>ctx. cret (lambda_of ctx))))))))"

end
