(* ===== verification/CompilerLayout.thy ===== *)
theory CompilerLayout
  imports Compiler
begin

text \<open>
  What compiling an expression leaves behind in the contexts around it.

  The relation \<open>layout\<close> says that a context has the same locals, with the same initialisation, names and
  depths, so that every stack index computed in it stays valid; only the flags that say how a local is
  used, and the list of captured upvalues, may grow. Two predicates on computations carry the proofs:
  \<open>keeps_outer\<close> for the pieces of code that are compiled in a context of their own, which may change
  that context at will but no other, and \<open>keeps\<close> for what is compiled into an existing context. Both
  are closed under sequencing, so one short lemma for each function of the compiler suffices. The
  same relations show what happens to code that is compiled as dead.
\<close>

section \<open>Relations on contexts and states\<close>

definition layout :: "('sp, 'v) lambda_ctx \<Rightarrow> ('sp, 'v) lambda_ctx \<Rightarrow> bool" where
  "layout c c' \<longleftrightarrow>
     skeleton (sc_locals (lc_scope c')) = skeleton (sc_locals (lc_scope c)) \<and>
     map l_initialised (sc_locals (lc_scope c')) = map l_initialised (sc_locals (lc_scope c)) \<and>
     sc_by_name (lc_scope c') = sc_by_name (lc_scope c) \<and>
     sc_scope_depth (lc_scope c') = sc_scope_depth (lc_scope c) \<and>
     sc_with_stack_size (lc_scope c') = sc_with_stack_size (lc_scope c) \<and>
     prefix (sc_upvalues (lc_scope c)) (sc_upvalues (lc_scope c')) \<and>
     lc_upvalue_count c' + length (sc_upvalues (lc_scope c)) = lc_upvalue_count c + length (sc_upvalues (lc_scope c')) \<and>
     (lc_captures_with_stack c \<longrightarrow> lc_captures_with_stack c') \<and>
     lc_name c' = lc_name c \<and> lc_formals c' = lc_formals c \<and> lc_param_name c' = lc_param_name c"

lemma layout_refl [simp]: "layout c c"
  by (simp add: layout_def)

lemma layout_trans: "layout a b \<Longrightarrow> layout b c \<Longrightarrow> layout a c"
  by (auto simp: layout_def intro: prefix_order.trans)

definition frame_kept :: "('sp, 'v) lambda_ctx \<Rightarrow> ('sp, 'v) lambda_ctx \<Rightarrow> bool" where
  "frame_kept c c' \<longleftrightarrow> layout c c' \<and> lc_chunk c' = lc_chunk c"

lemma frame_kept_refl [simp]: "frame_kept c c"
  by (simp add: frame_kept_def)

lemma frames_kept_refl [simp]: "list_all2 frame_kept cs cs"
  by (simp add: list_all2_refl)

lemma frames_kept_trans: "list_all2 frame_kept a b \<Longrightarrow> list_all2 frame_kept b c \<Longrightarrow> list_all2 frame_kept a c"
  by (erule (1) list_all2_trans [rotated]) (auto simp: frame_kept_def intro: layout_trans)

abbreviation head_code :: "('sp, 'v) cstate \<Rightarrow> u8 list" where
  "head_code s \<equiv> ch_code (lc_chunk (hd (cs_contexts s)))"

abbreviation head_constants :: "('sp, 'v) cstate \<Rightarrow> ('sp, 'v) const list" where
  "head_constants s \<equiv> ch_constants (lc_chunk (hd (cs_contexts s)))"

text \<open>Everything but the innermost context is kept; in dead code, an empty chunk stays empty.\<close>

definition outer_kept :: "('sp, 'v) cstate \<Rightarrow> ('sp, 'v) cstate \<Rightarrow> bool" where
  "outer_kept s s' \<longleftrightarrow>
     (cs_contexts s' = [] \<longleftrightarrow> cs_contexts s = []) \<and> cs_dead_scope s' = cs_dead_scope s \<and>
     list_all2 frame_kept (tl (cs_contexts s)) (tl (cs_contexts s')) \<and>
     (0 < cs_dead_scope s \<and> head_code s = [] \<longrightarrow> head_code s' = [])"

text \<open>The innermost context is kept too, and its code and constants are only extended; dead code adds no code.\<close>

definition all_kept :: "('sp, 'v) cstate \<Rightarrow> ('sp, 'v) cstate \<Rightarrow> bool" where
  "all_kept s s' \<longleftrightarrow> outer_kept s s' \<and>
     (cs_contexts s \<noteq> [] \<longrightarrow> layout (hd (cs_contexts s)) (hd (cs_contexts s'))) \<and>
     prefix (head_code s) (head_code s') \<and> prefix (head_constants s) (head_constants s') \<and>
     (0 < cs_dead_scope s \<longrightarrow> head_code s' = head_code s)"

lemma outer_kept_refl [simp]: "outer_kept s s"
  by (simp add: outer_kept_def)

lemma all_kept_refl [simp]: "all_kept s s"
  by (simp add: all_kept_def)

lemma outer_kept_trans: "outer_kept a b \<Longrightarrow> outer_kept b c \<Longrightarrow> outer_kept a c"
  unfolding outer_kept_def by (auto intro: frames_kept_trans)

lemma outer_keptD:
  assumes "outer_kept s s'"
  shows "cs_contexts s' = [] \<longleftrightarrow> cs_contexts s = []" "cs_dead_scope s' = cs_dead_scope s"
    "list_all2 frame_kept (tl (cs_contexts s)) (tl (cs_contexts s'))"
    "0 < cs_dead_scope s \<Longrightarrow> head_code s = [] \<Longrightarrow> head_code s' = []"
  using assms by (simp_all add: outer_kept_def)

lemma all_keptD:
  assumes "all_kept s s'"
  shows "outer_kept s s'" "cs_contexts s \<noteq> [] \<Longrightarrow> layout (hd (cs_contexts s)) (hd (cs_contexts s'))"
    "prefix (head_code s) (head_code s')" "prefix (head_constants s) (head_constants s')"
    "0 < cs_dead_scope s \<Longrightarrow> head_code s' = head_code s"
  using assms by (simp_all add: all_kept_def)

lemma all_keptI:
  "outer_kept s s' \<Longrightarrow> (cs_contexts s \<noteq> [] \<Longrightarrow> layout (hd (cs_contexts s)) (hd (cs_contexts s'))) \<Longrightarrow>
   prefix (head_code s) (head_code s') \<Longrightarrow> prefix (head_constants s) (head_constants s') \<Longrightarrow>
   (0 < cs_dead_scope s \<Longrightarrow> head_code s' = head_code s) \<Longrightarrow> all_kept s s'"
  by (simp add: all_kept_def)

lemma all_kept_trans:
  assumes "all_kept a b" "all_kept b c"
  shows "all_kept a c"
proof (rule all_keptI)
  note a = all_keptD [OF assms(1)] and b = all_keptD [OF assms(2)]
  note o = outer_keptD [OF a(1)]
  show "outer_kept a c" by (rule outer_kept_trans [OF a(1) b(1)])
  show "layout (hd (cs_contexts a)) (hd (cs_contexts c))" if "cs_contexts a \<noteq> []"
    using layout_trans [OF a(2) b(2)] that o(1) by blast
  show "prefix (head_code a) (head_code c)" by (rule prefix_order.trans [OF a(3) b(3)])
  show "prefix (head_constants a) (head_constants c)" by (rule prefix_order.trans [OF a(4) b(4)])
  show "head_code c = head_code a" if "0 < cs_dead_scope a" using a(5) b(5) that o(2) by simp
qed

section \<open>Computations that keep them\<close>

named_theorems keeps_intros "which parts of the state a computation keeps"

definition keeps_rel :: "('s \<Rightarrow> 's \<Rightarrow> bool) \<Rightarrow> ('s, 'a) comp \<Rightarrow> bool" where
  "keeps_rel R m \<longleftrightarrow> (\<forall>s a s'. m s = Done (a, s') \<longrightarrow> R s s')"

abbreviation keeps_outer :: "('sp, 'v, 'a) compile \<Rightarrow> bool" where
  "keeps_outer \<equiv> keeps_rel outer_kept"

abbreviation keeps :: "('sp, 'v, 'a) compile \<Rightarrow> bool" where
  "keeps \<equiv> keeps_rel all_kept"

lemma keeps_relI: "(\<And>s a s'. m s = Done (a, s') \<Longrightarrow> R s s') \<Longrightarrow> keeps_rel R m"
  by (simp add: keeps_rel_def)

lemma keeps_relD: "keeps_rel R m \<Longrightarrow> m s = Done (a, s') \<Longrightarrow> R s s'"
  by (simp add: keeps_rel_def)

lemma cbind_Done: "cbind m f s = Done r \<longleftrightarrow> (\<exists>a s'. m s = Done (a, s') \<and> f a s' = Done r)"
  by (auto simp: cbind_def split: cres.splits)

lemma cthen_Done: "cthen m m' s = Done r \<longleftrightarrow> (\<exists>a s'. m s = Done (a, s') \<and> m' s' = Done r)"
  by (simp add: cthen_def cbind_Done)

lemma keeps_imp_outer: "keeps m \<Longrightarrow> keeps_outer m"
  by (auto simp: keeps_rel_def all_kept_def)

text \<open>The two relations are preorders; the rules for sequencing hold for every preorder.\<close>

locale kept_relation =
  fixes R :: "'s \<Rightarrow> 's \<Rightarrow> bool"
  assumes R_refl: "R s s"
    and R_trans: "R a b \<Longrightarrow> R b c \<Longrightarrow> R a c"
begin

lemma keeps_cret: "keeps_rel R (cret a)"
  by (simp add: keeps_rel_def cret_def R_refl)

lemma keeps_cget: "keeps_rel R (cget f)"
  by (simp add: keeps_rel_def cget_def R_refl)

lemma keeps_cpanic: "keeps_rel R cpanic"
  by (simp add: keeps_rel_def cpanic_def)

lemma keeps_cnofuel: "keeps_rel R cnofuel"
  by (simp add: keeps_rel_def cnofuel_def)

lemma keeps_cbind: "keeps_rel R m \<Longrightarrow> (\<And>a. keeps_rel R (f a)) \<Longrightarrow> keeps_rel R (cbind m f)"
  unfolding keeps_rel_def cbind_Done using R_trans by blast

lemma keeps_cthen: "keeps_rel R m \<Longrightarrow> keeps_rel R m' \<Longrightarrow> keeps_rel R (cthen m m')"
  unfolding cthen_def by (rule keeps_cbind)

lemma keeps_cseq: "(\<And>m. m \<in> set ms \<Longrightarrow> keeps_rel R m) \<Longrightarrow> keeps_rel R (cseq ms)"
  by (induction ms) (auto intro: keeps_cret keeps_cthen)

lemma keeps_cfor: "(\<And>x. x \<in> set xs \<Longrightarrow> keeps_rel R (f x)) \<Longrightarrow> keeps_rel R (cfor xs f)"
  unfolding cfor_def by (rule keeps_cseq) auto

lemma keeps_cwhen: "keeps_rel R m \<Longrightarrow> keeps_rel R (cwhen b m)"
  by (simp add: cwhen_def keeps_cret)

lemmas sequencing = keeps_cret keeps_cget keeps_cpanic keeps_cnofuel keeps_cbind keeps_cthen keeps_cseq keeps_cfor keeps_cwhen

end

interpretation outer: kept_relation outer_kept
  by unfold_locales (auto intro: outer_kept_trans)

interpretation all: kept_relation all_kept
  by unfold_locales (auto intro: all_kept_trans)

section \<open>The helpers\<close>

lemma frames_all_kept:
  assumes "list_all2 frame_kept (cs_contexts s) (cs_contexts s')" "cs_dead_scope s' = cs_dead_scope s"
  shows "all_kept s s'"
proof (cases "cs_contexts s")
  case Nil
  then show ?thesis using assms by (simp add: all_kept_def outer_kept_def)
next
  case (Cons c cs)
  then obtain c' cs' where "cs_contexts s' = c' # cs'" "frame_kept c c'" "list_all2 frame_kept cs cs'"
    using assms(1) by (auto simp: list_all2_Cons1)
  then show ?thesis using Cons assms(2) by (simp add: all_kept_def outer_kept_def frame_kept_def)
qed

lemma on_context_Done:
  "on_context f s = Done (a, s') \<longleftrightarrow>
     (\<exists>ctx ctxs ctx'. cs_contexts s = ctx # ctxs \<and> f ctx = Some (a, ctx') \<and> s' = s\<lparr>cs_contexts := ctx' # ctxs\<rparr>)"
  by (auto simp: on_context_def copt_def split: list.splits option.splits)

lemma keeps_outer_on_context:
  assumes "\<And>ctx a ctx'. f ctx = Some (a, ctx') \<Longrightarrow> ch_code (lc_chunk ctx) = [] \<Longrightarrow> ch_code (lc_chunk ctx') = []"
  shows "keeps_outer (on_context f)"
  by (rule keeps_relI) (auto simp: on_context_Done outer_kept_def dest: assms)

lemma keeps_on_context:
  assumes "\<And>ctx a ctx'. f ctx = Some (a, ctx') \<Longrightarrow> frame_kept ctx ctx'"
  shows "keeps (on_context f)"
  by (rule keeps_relI) (auto simp: on_context_Done intro!: frames_all_kept dest: assms)

lemma keeps_outer_on_scope [keeps_intros]: "keeps_outer (on_scope f)"
  unfolding on_scope_def by (rule keeps_outer_on_context) auto

lemma keeps_on_scope:
  assumes "\<And>sc a sc'. f sc = Some (a, sc') \<Longrightarrow>
     skeleton (sc_locals sc') = skeleton (sc_locals sc) \<and> map l_initialised (sc_locals sc') = map l_initialised (sc_locals sc) \<and>
     sc' = sc\<lparr>sc_locals := sc_locals sc'\<rparr>"
  shows "keeps (on_scope f)"
  unfolding on_scope_def
proof (rule keeps_on_context)
  fix ctx :: "('a, 'c) lambda_ctx" and a ctx'
  assume "map_option (\<lambda>(a, sc). (a, ctx\<lparr>lc_scope := sc\<rparr>)) (f (lc_scope ctx)) = Some (a, ctx')"
  then obtain sc' where f: "f (lc_scope ctx) = Some (a, sc')" and ctx': "ctx' = ctx\<lparr>lc_scope := sc'\<rparr>" by auto
  note A = assms [OF f]
  have "sc_by_name sc' = sc_by_name (lc_scope ctx)" "sc_scope_depth sc' = sc_scope_depth (lc_scope ctx)"
    "sc_with_stack_size sc' = sc_with_stack_size (lc_scope ctx)" "sc_upvalues sc' = sc_upvalues (lc_scope ctx)"
    using A by (metis scope.select_convs scope.surjective scope.update_convs(1))+
  then show "frame_kept ctx ctx'" using A by (simp add: frame_kept_def layout_def ctx')
qed

lemma keeps_get_local [keeps_intros]: "keeps (get_local idx)"
  unfolding get_local_def by (rule keeps_on_scope) (auto split: if_splits)

lemma keeps_get_stack_index [keeps_intros]: "keeps (get_stack_index idx)"
  unfolding get_stack_index_def by (rule keeps_on_scope) auto

lemma keeps_resolve_local [keeps_intros]: "keeps (c_resolve_local name)"
  unfolding c_resolve_local_def by (rule keeps_on_scope) auto

lemma keeps_scope_depth [keeps_intros]: "keeps (on_scope (\<lambda>sc. Some (f sc, sc)))"
  by (rule keeps_on_scope) auto

lemma keeps_update_local:
  assumes "\<And>l. l_name (f l) = l_name l \<and> l_span (f l) = l_span l \<and> l_depth (f l) = l_depth l \<and> l_initialised (f l) = l_initialised l"
  shows "keeps (scope_step (update_local f idx))"
  unfolding scope_step_def
  by (rule keeps_on_scope)
    (use assms in \<open>auto simp: update_local_def skeleton_def map_update list_update_same_conv split: if_splits\<close>)

lemma keeps_marks [keeps_intros]:
  "keeps (c_mark_used idx)" "keeps (scope_step (mark_needs_finaliser idx))" "keeps (scope_step (mark_must_thunk idx))"
  unfolding c_mark_used_def mark_used_def mark_needs_finaliser_def mark_must_thunk_def
  by (rule keeps_update_local; simp)+

lemma keeps_outer_scope_step [keeps_intros]: "keeps_outer (scope_step f)"
  unfolding scope_step_def by (rule keeps_outer_on_scope)

lemma keeps_outer_scope_ops [keeps_intros]:
  "keeps_outer c_begin_scope" "keeps_outer c_end_scope" "keeps_outer (c_declare_phantom sp b)"
  "keeps_outer (c_mark_initialised idx)"
  unfolding c_begin_scope_def c_end_scope_def c_declare_phantom_def c_mark_initialised_def
  by (intro keeps_intros)+

lemma keeps_messages [keeps_intros]: "keeps (emit_warning sp w)" "keeps (emit_error sp e)"
  by (auto simp: keeps_rel_def emit_warning_def emit_error_def cmodify_def intro!: frames_all_kept)

lemma on_chunk_Done:
  "on_chunk f s = Done (a, s') \<longleftrightarrow>
     (\<exists>ctx ctxs c'. cs_contexts s = ctx # ctxs \<and> f (lc_chunk ctx) = Some (a, c') \<and>
        s' = s\<lparr>cs_contexts := ctx\<lparr>lc_chunk := c'\<rparr> # ctxs\<rparr>)"
  by (auto simp: on_chunk_def on_context_Done)

lemma layout_chunk [simp]: "layout ctx (ctx\<lparr>lc_chunk := c\<rparr>)"
  by (simp add: layout_def)

lemma on_chunk_kept:
  assumes "on_chunk f s = Done (a, s')"
    and "\<And>c a c'. f c = Some (a, c') \<Longrightarrow> prefix (ch_code c) (ch_code c') \<and> prefix (ch_constants c) (ch_constants c')"
    and "0 < cs_dead_scope s \<Longrightarrow> (\<And>c a c'. f c = Some (a, c') \<Longrightarrow> ch_code c' = ch_code c)"
  shows "all_kept s s'"
proof -
  obtain ctx ctxs c' where s: "cs_contexts s = ctx # ctxs" "f (lc_chunk ctx) = Some (a, c')"
    "s' = s\<lparr>cs_contexts := ctx\<lparr>lc_chunk := c'\<rparr> # ctxs\<rparr>"
    using assms(1) by (auto simp: on_chunk_Done)
  then show ?thesis using assms(2) [OF s(2)] assms(3) [OF _ s(2)] by (auto simp: all_kept_def outer_kept_def)
qed

lemma keeps_push_constant [keeps_intros]: "keeps (on_chunk (\<lambda>c. Some (push_constant k c)))"
  by (rule keeps_relI) (erule on_chunk_kept, auto simp: push_constant_def)

lemma keeps_unless_dead:
  assumes "\<And>s a s'. cs_dead_scope s = 0 \<Longrightarrow> m s = Done (a, s') \<Longrightarrow> all_kept s s'"
  shows "keeps (unless_dead b m)"
  by (rule keeps_relI) (auto simp: unless_dead_def cbind_Done cget_def cret_def split: if_splits dest: assms)

lemma keeps_emitting:
  assumes "\<And>c a c'. f c = Some (a, c') \<Longrightarrow> prefix (ch_code c) (ch_code c') \<and> prefix (ch_constants c) (ch_constants c')"
  shows "keeps (unless_dead b (on_chunk f))"
  by (rule keeps_unless_dead) (erule on_chunk_kept, auto dest: assms)

lemma push_op_fields [simp]:
  "ch_code (snd (push_op op sp c)) = ch_code c @ [op_u8 op]" "ch_constants (snd (push_op op sp c)) = ch_constants c"
  "fst (push_op op sp c) = length (ch_code c)"
  by (simp_all add: push_op_def Let_def push_span_def)

lemma keeps_push [keeps_intros]:
  "keeps (c_push_op op sp)" "keeps (c_push_u8 b)" "keeps (c_push_uvarint E n)" "keeps (c_push_u16 w)"
  unfolding c_push_op_def c_push_u8_def c_push_uvarint_def c_push_u16_def
  by (rule keeps_emitting; auto simp: push_uvarint_def push_u16_def dest: arg_cong [of _ _ snd])+

lemma keeps_emit [keeps_intros]:
  "keeps (emit_op op sp)" "keeps (emit_force sp)" "keeps (push_jump op sp)"
  unfolding emit_op_def emit_force_def push_jump_def
  by (intro keeps_intros all.sequencing)+

lemma keeps_emit_constant [keeps_intros]: "keeps (emit_constant E k sp)" "keeps (emit_literal_ident E sp name)"
proof -
  have "keeps (cbind (on_chunk (\<lambda>c. Some (push_constant k c))) (\<lambda>idx.
      cthen (c_push_op OpConstant sp) (c_push_uvarint E (of_nat idx))))" for k
    by (intro keeps_intros all.sequencing)
  then have k: "keeps (emit_constant E k sp)" for k
    unfolding emit_constant_def by (intro keeps_unless_dead) (rule keeps_relD)
  show "keeps (emit_constant E k sp)" "keeps (emit_literal_ident E sp name)"
    unfolding emit_literal_ident_def by (rule k)+
qed

lemma keeps_outer_patch_jump [keeps_intros]: "keeps_outer (c_patch_jump idx)"
  unfolding c_patch_jump_def on_chunk_def
  by (rule keeps_outer_on_context) (auto simp: chunk_patch_jump_def)


lemma keeps_outer_finish_closure [keeps_intros]: "keeps_outer (finish_closure E slot idx sp)"
proof -
  have "keeps_outer (on_chunk (\<lambda>c. if idx < length (ch_code c)
          then Some ((), c\<lparr>ch_code := (ch_code c)[idx := op_u8 OpClosure]\<rparr>) else None))" for idx
    unfolding on_chunk_def by (rule keeps_outer_on_context) (auto split: if_splits)
  then show ?thesis
    unfolding finish_closure_def
    by (auto intro!: outer.sequencing keeps_intros keeps_imp_outer [OF keeps_get_local]
        keeps_imp_outer [OF keeps_get_stack_index] keeps_imp_outer [OF keeps_push(1)] keeps_imp_outer [OF keeps_push(3)])
qed

text \<open>A computation that keeps every context also keeps the outer ones.\<close>

lemmas keeps_outer_helpers =
  keeps_imp_outer [OF keeps_get_local] keeps_imp_outer [OF keeps_get_stack_index] keeps_imp_outer [OF keeps_resolve_local]
  keeps_imp_outer [OF keeps_push(1)] keeps_imp_outer [OF keeps_push(2)] keeps_imp_outer [OF keeps_push(3)]
  keeps_imp_outer [OF keeps_push(4)] keeps_imp_outer [OF keeps_emit(1)] keeps_imp_outer [OF keeps_emit(2)]
  keeps_imp_outer [OF keeps_emit(3)] keeps_imp_outer [OF keeps_messages(1)] keeps_imp_outer [OF keeps_messages(2)]
  keeps_imp_outer [OF keeps_emit_constant(1)] keeps_imp_outer [OF keeps_emit_constant(2)]

lemma frame_add_upvalue: "add_upvalue kind ctx = (u, ctx') \<Longrightarrow> frame_kept ctx ctx'"
  by (auto simp: add_upvalue_def frame_kept_def layout_def split: option.splits)

lemma keeps_add_upvalue [keeps_intros]: "keeps (on_context (\<lambda>ctx. Some (add_upvalue kind ctx)))"
  by (rule keeps_on_context) (auto dest: frame_add_upvalue)

lemma frame_mark_used: "mark_used idx (lc_scope ctx) = Some sc \<Longrightarrow> frame_kept ctx (ctx\<lparr>lc_scope := sc\<rparr>)"
  by (auto simp: mark_used_def update_local_def frame_kept_def layout_def skeleton_def map_update
      list_update_same_conv split: if_splits)

lemma frames_resolve_upvalue:
  "resolve_upvalue name ctxs = Some (r, ctxs') \<Longrightarrow> list_all2 frame_kept ctxs ctxs'"
proof (induction name ctxs arbitrary: r ctxs' rule: resolve_upvalue.induct)
  case (3 name ctx parent ctxs)
  obtain pos where pos: "resolve_local (lc_scope parent) name = Some pos"
    using "3.prems" by (auto simp: bind_eq_Some_conv)
  have found: "list_all2 frame_kept (ctx # parent # ctxs) ctxs'"
    if "map_option (\<lambda>sc. let (u, ctx') = add_upvalue (UpLocal idx) ctx in (Some u, ctx' # parent\<lparr>lc_scope := sc\<rparr> # ctxs))
          (mark_used idx (lc_scope parent)) = Some (r, ctxs')" for idx
    using that by (cases "add_upvalue (UpLocal idx) ctx") (auto dest: frame_add_upvalue frame_mark_used)
  show ?case
  proof (cases pos)
    case LUnknown
    obtain r' parents where R: "resolve_upvalue name (parent # ctxs) = Some (r', parents)"
      using "3.prems" pos LUnknown by (auto simp: Let_def)
    have "list_all2 frame_kept (parent # ctxs) parents"
      by (rule "3.IH" [OF pos refl LUnknown R])
    then show ?thesis using "3.prems" pos LUnknown R
      by (auto simp: Let_def split: option.splits prod.splits dest: frame_add_upvalue)
  qed (use "3.prems" pos in \<open>auto simp: Let_def intro!: found\<close>)
qed auto

lemma keeps_resolve_upvalue [keeps_intros]: "keeps (c_resolve_upvalue name)"
  unfolding c_resolve_upvalue_def copt_def
  by (rule keeps_relI) (auto split: option.splits dest!: frames_resolve_upvalue intro!: frames_all_kept)

lemma frames_mark_dynamic: "mark_dynamic b ctxs = (b', ctxs') \<Longrightarrow> list_all2 frame_kept ctxs ctxs'"
proof (induction ctxs arbitrary: b b' ctxs')
  case (Cons ctx ctxs)
  then show ?case
    by (auto simp: frame_kept_def layout_def map_prod_def split: prod.splits if_splits)
qed auto

lemma keeps_has_dynamic_ancestor [keeps_intros]: "keeps has_dynamic_ancestor"
  unfolding has_dynamic_ancestor_def
proof (rule keeps_relI, rule frames_all_kept)
  fix s :: "('a, 'b) cstate" and b s'
  assume A: "(let (b, ctxs) = mark_dynamic False (rev (cs_contexts s)) in Done (b, s\<lparr>cs_contexts := rev ctxs\<rparr>)) = Done (b, s')"
  then obtain ctxs where "mark_dynamic False (rev (cs_contexts s)) = (b, ctxs)" and s': "s' = s\<lparr>cs_contexts := rev ctxs\<rparr>"
    by (auto split: prod.splits)
  then have "list_all2 frame_kept (rev (rev (cs_contexts s))) (rev ctxs)"
    unfolding list_all2_rev by (rule_tac frames_mark_dynamic)
  then show "list_all2 frame_kept (cs_contexts s) (cs_contexts s')" by (simp add: s')
  show "cs_dead_scope s' = cs_dead_scope s" by (simp add: s')
qed

lemma keeps_emit_upvalue [keeps_intros]: "keeps (emit_upvalue E slot kind)"
  by (cases kind) (auto intro!: all.sequencing keeps_intros)

lemma keeps_emit_upvalue_data [keeps_intros]: "keeps (emit_upvalue_data E slot upvalues b)"
  by (auto simp: emit_upvalue_data_def split: option.split intro!: all.sequencing keeps_intros)

lemma keeps_outer_cleanup_scope [keeps_intros]: "keeps_outer (cleanup_scope E sp)"
  unfolding cleanup_scope_def by (auto split: prod.split intro!: outer.sequencing keeps_intros keeps_outer_helpers)

lemma keeps_outer_declare_local [keeps_intros]: "keeps_outer (c_declare_local E sp name)"
  unfolding c_declare_local_def
  by (auto split: prod.split option.split intro!: outer.sequencing keeps_intros keeps_outer_helpers)

section \<open>Contexts of their own\<close>

text \<open>What is compiled into a new context leaves the contexts around it in place.\<close>

lemma keeps_own_context:
  assumes "keeps_outer body"
  shows "keeps (cthen new_context (cbind body (\<lambda>_. pop_context)))"
proof (rule keeps_relI)
  fix s :: "('a, 'b) cstate" and ctx s'
  assume "cthen new_context (cbind body (\<lambda>_. pop_context)) s = Done (ctx, s')"
  then obtain c cs a s2 where s: "cs_contexts s = c # cs"
    and body: "body (s\<lparr>cs_contexts := lambda_ctx_inherit c # c # cs\<rparr>) = Done (a, s2)"
    and pop: "pop_context s2 = Done (ctx, s')"
    by (auto simp: cthen_Done cbind_Done new_context_def copt_def split: list.splits)
  note o = outer_keptD [OF keeps_relD [OF assms body]]
  obtain cs2 where s2: "cs_contexts s2 = ctx # cs2" and s': "s' = s2\<lparr>cs_contexts := cs2\<rparr>"
    using pop by (auto simp: pop_context_def copt_def split: list.splits)
  show "all_kept s s'" using o(2,3) by (intro frames_all_kept) (simp_all add: s s2 s')
qed

lemma keeps_compile_context:
  assumes "\<And>slot. keeps_outer (content slot)"
  shows "keeps (compile_context E name sp content)"
  unfolding compile_context_def
  by (rule keeps_own_context)
    (auto intro!: outer.sequencing keeps_intros assms keeps_outer_on_context split: option.split)

lemma keeps_emit_thunk [keeps_intros]: "keeps (emit_lambda E True slot sp ctx)"
  by (auto simp: emit_lambda_def Let_def cwhen_def intro!: all.sequencing keeps_intros)

lemma keeps_outer_emit_lambda [keeps_intros]: "keeps_outer (emit_lambda E b slot sp ctx)"
  by (auto simp: emit_lambda_def Let_def intro!: outer.sequencing keeps_intros keeps_outer_helpers
      keeps_imp_outer [OF keeps_push_constant] keeps_imp_outer [OF keeps_emit_upvalue_data])

lemma keeps_thunk:
  assumes "\<And>slot. keeps_outer (content slot)"
  shows "keeps (thunk E slot sp content)"
  unfolding thunk_def compile_lambda_or_thunk_def
  by (intro all.sequencing keeps_intros keeps_compile_context outer.sequencing assms)

lemma keeps_outer_lambda:
  assumes "\<And>slot. keeps_outer (content slot)"
  shows "keeps_outer (compile_lambda_or_thunk E b slot sp content)"
  unfolding compile_lambda_or_thunk_def
  by (intro outer.sequencing keeps_intros keeps_outer_helpers keeps_imp_outer [OF keeps_compile_context] assms)

lemma keeps_identifier_access [keeps_intros]: "keeps (compile_identifier_access E slot ident sp)"
  unfolding compile_identifier_access_def
  by (auto split: local_position.split option.split intro!: all.sequencing keeps_intros keeps_thunk outer.sequencing
      keeps_outer_helpers keeps_outer_on_context keeps_imp_outer [OF keeps_add_upvalue])

lemma keeps_is_user_defined [keeps_intros]: "keeps (is_user_defined ident)"
  unfolding is_user_defined_def by (intro all.sequencing keeps_intros)

section \<open>The functions of the compiler\<close>

text \<open>
  A pair of recursive calls that behave as \<open>compile\<close> and \<open>compile_set\<close> are shown to behave; every
  function of the compiler keeps the outer contexts if its recursive calls do.
\<close>

locale kept_recursion =
  fixes rec :: "('sp, 'v) rec_expr" and recs :: "('sp, 'v) rec_bindings"
  assumes rec_keeps: "keeps (rec slot e)"
    and recs_keeps: "keeps_outer (recs slot kind sp inherits entries)"
begin

lemma rec_outer: "keeps_outer (rec slot e)"
  by (rule keeps_imp_outer [OF rec_keeps])

lemmas steps = outer.sequencing keeps_intros keeps_outer_helpers rec_outer recs_keeps keeps_imp_outer [OF keeps_identifier_access]
  keeps_imp_outer [OF keeps_thunk] keeps_outer_lambda keeps_imp_outer [OF keeps_has_dynamic_ancestor]

lemma emit_part_outer: "keeps_outer (emit_part E rec slot sp part)"
  by (cases part) (auto intro!: steps simp del: cseq.simps)

lemma emit_path_ipol_parts_outer: "keeps_outer (emit_path_ipol_parts E rec slot sp parts)"
  unfolding emit_path_ipol_parts_def by (intro steps emit_part_outer)

lemma compile_str_parts_outer: "keeps_outer (compile_str_parts E rec slot sp parts)"
  unfolding compile_str_parts_def by (auto intro!: steps emit_part_outer simp del: cseq.simps)

lemma emit_literal_keeps: "\<not> is_interpolation part \<Longrightarrow> keeps (emit_part E rec slot sp part)"
  by (cases part) (auto intro!: keeps_intros)

lemma compile_str_keeps: "keeps (compile_str E rec slot sp parts)"
proof (cases "length parts \<noteq> 1 \<or> is_interpolation (hd parts)")
  case True
  then show ?thesis by (simp add: compile_str_def keeps_thunk compile_str_parts_outer)
next
  case False
  then obtain part where "parts = [part]" "\<not> is_interpolation part" by (auto simp: length_Suc_conv)
  then show ?thesis
    by (auto simp: compile_str_def compile_str_parts_def cfor_def cwhen_def intro!: all.sequencing emit_literal_keeps)
qed

lemma compile_attr_outer: "keeps_outer (compile_attr E rec slot attr)"
  by (cases attr) (auto intro!: steps keeps_imp_outer [OF compile_str_keeps] simp del: cseq.simps)

lemma compile_paths_keep:
  "keeps (compile_abs_path E rec slot sp path_text parts)" "keeps (compile_home_path E rec slot sp parts)"
  "keeps (compile_rel_path E rec slot sp parts)" "keeps (compile_search_path E slot sp raw)"
  unfolding compile_abs_path_def compile_home_path_def compile_rel_path_def compile_search_path_def Let_def
  by (auto split: list.split part.split simp del: cseq.simps
      intro!: keeps_thunk steps emit_path_ipol_parts_outer all.keeps_cpanic keeps_emit_constant all.keeps_cseq keeps_emit)

lemma compile_short_circuit_outer: "keeps_outer (compile_short_circuit rec slot sp invert skip l r)"
  unfolding compile_short_circuit_def by (auto intro!: steps simp del: cseq.simps)

lemma compile_operators_outer:
  "keeps_outer (compile_unary_op rec slot sp uop e)" "keeps_outer (compile_binop rec slot sp op l r)"
  unfolding compile_unary_op_def compile_binop_def compile_and_def compile_or_def compile_implication_def
  by (auto intro!: steps compile_short_circuit_outer simp del: cseq.simps)

lemma compile_items_outer: "keeps_outer (compile_items rec slot count items)"
  by (induction items arbitrary: count) (auto intro!: steps simp del: cseq.simps)

lemma compile_list_outer: "keeps_outer (compile_list E rec slot sp items)"
  unfolding compile_list_def by (auto intro!: steps compile_items_outer simp del: cseq.simps)

lemma compile_has_attr_path_outer: "keeps_outer (compile_has_attr_path E rec slot count path)"
  by (induction path arbitrary: count) (auto intro!: steps compile_attr_outer simp del: cseq.simps)

lemma compile_has_attr_outer: "keeps_outer (compile_has_attr E rec slot sp e path)"
  unfolding compile_has_attr_def by (auto intro!: steps compile_has_attr_path_outer simp del: cseq.simps)

lemma optimise_select_outer: "keeps_outer (optimise_select E path)"
  unfolding optimise_select_def on_chunk_def
  by (rule keeps_outer_on_context)
    (auto split: option.splits prod.splits op.splits if_splits const.splits list.splits simp: bind_eq_Some_conv)

lemma compile_select_path_outer: "keeps_outer (compile_select_path E rec slot sp path)"
  by (induction path) (auto intro!: steps compile_attr_outer simp del: cseq.simps)

lemma compile_select_or_path_outer: "keeps_outer (compile_select_or_path E rec slot path)"
  by (induction path) (auto intro!: steps compile_attr_outer)

lemma compile_select_outer: "keeps_outer (compile_select E rec slot e path_sp path dflt)"
  unfolding compile_select_def compile_select_or_def
  by (auto split: option.split simp del: cseq.simps
      intro!: steps optimise_select_outer compile_select_path_outer compile_select_or_path_outer)

lemma compile_conditionals_outer:
  "keeps_outer (compile_assert rec slot sp c body)" "keeps_outer (compile_if_else rec slot sp c body else_body)"
  "keeps_outer (compile_with E rec slot sp namespace body)"
  unfolding compile_assert_def compile_if_else_def compile_with_def by (auto intro!: steps simp del: cseq.simps)

lemma declare_formals_outer: "keeps_outer (declare_formals E entries)"
  by (induction E entries rule: declare_formals.induct) (auto split: option.split intro!: steps)

lemma formals_outer:
  "keeps_outer (compile_formal E rec sp stack_idx tf)" "keeps_outer (finalise_formal E sp tf)"
  unfolding compile_formal_def finalise_formal_def
  by (auto split: option.split intro!: steps simp del: cseq.simps)

lemma compile_param_pattern_outer: "keeps_outer (compile_param_pattern E rec sp pat_bind ellipsis entries)"
  unfolding compile_param_pattern_def
  by (auto split: option.split prod.split intro!: steps declare_formals_outer formals_outer simp del: cseq.simps)

lemma compile_lambda_outer: "keeps_outer (compile_lambda E rec slot param body)"
  by (cases param) (auto split: prod.split intro!: steps compile_param_pattern_outer keeps_outer_on_context)

lemma compile_apply_outer: "keeps_outer (compile_apply rec slot sp l a)"
  unfolding compile_apply_def by (auto intro!: steps simp del: cseq.simps)

lemma merge_keeps: "keeps (try_merge tbs span key path v)"
proof -
  have m: "keeps (merge_set existing span path v)" for existing span path v
    by (induction existing span path v rule: merge_set.induct) (auto intro!: all.sequencing)
  have b: "keeps (binding_merge b span path v)" for b span path v
    by (induction b span path v rule: binding_merge.induct) (auto intro!: all.sequencing keeps_intros m)
  have "keeps (merge_into tbs span name path v)" for name
    by (induction tbs) (auto intro!: all.sequencing b)
  then show ?thesis unfolding try_merge_def by (auto split: option.split intro!: all.sequencing)
qed

lemma compile_plain_inherit_outer: "keeps_outer (compile_plain_inherit E slot kind attr)"
  unfolding compile_plain_inherit_def by (auto split: option.split intro!: steps)

lemma compile_plain_inherit_attrs_outer: "keeps_outer (compile_plain_inherit_attrs E slot kind attrs)"
  by (induction attrs) (auto intro!: steps compile_plain_inherit_outer)

lemma collect_inherit_from_outer: "keeps_outer (collect_inherit_from from attrs)"
  by (induction attrs) (auto split: option.split intro!: steps)

lemma compile_plain_inherits_outer: "keeps_outer (compile_plain_inherits E slot kind inherits)"
  by (induction E slot kind inherits rule: compile_plain_inherits.induct)
    (auto split: option.split prod.split intro!: steps collect_inherit_from_outer compile_plain_inherit_attrs_outer)

lemma declare_namespaced_inherits_outer: "keeps_outer (declare_namespaced_inherits E kind froms)"
  by (induction E kind froms rule: declare_namespaced_inherits.induct) (auto intro!: steps)

lemma declare_bindings_outer: "keeps_outer (declare_bindings E kind count tbs entries)"
proof (induction E kind count tbs entries rule: declare_bindings.induct)
  case (3 E kind count tbs span key path v entries)
  have "keeps_outer (declare_key kind key)" "keeps_outer (declare_value E kind (attr_span key) k)" for k
    unfolding declare_key_def declare_value_def by (auto split: option.split key_slot.split intro!: steps)
  with 3 show ?case
    unfolding declare_bindings.simps Let_def
    by (intro steps keeps_imp_outer [OF merge_keeps]) (auto split: option.split intro!: steps)
qed (auto intro!: steps)

lemma bind_value_outer: "keeps_outer (bind_value E rec recs tb)"
  unfolding bind_value_def
  by (auto split: key_slot.split binding.split intro!: steps compile_attr_outer simp del: cseq.simps)

lemma bind_values_outer: "keeps_outer (bind_values E rec recs tbs)"
  unfolding bind_values_def finalise_value_def by (auto intro!: steps bind_value_outer simp del: cseq.simps)

lemma compile_bindings_outer: "keeps_outer (compile_bindings E rec recs slot kind sp inherits entries)"
  unfolding compile_bindings_def
  by (auto split: prod.split simp del: cseq.simps intro!: steps compile_plain_inherits_outer
      declare_namespaced_inherits_outer declare_bindings_outer bind_values_outer)

lemma compile_sets_outer:
  "keeps_outer (compile_attr_set recs slot sp rec_token inherits sentries)"
  "keeps_outer (compile_let_in E rec recs slot sp inherits sentries body)"
  "keeps_outer (compile_legacy_let E recs slot sp inherits sentries)"
  unfolding compile_attr_set_def compile_let_in_def compile_legacy_let_def
  by (auto intro!: steps simp del: cseq.simps)

text \<open>Dead code is compiled with a higher counter, which is taken back afterwards; it changes no code.\<close>

lemma compile_dead_code_keeps: "keeps (compile_dead_code rec slot node)"
proof (rule keeps_relI)
  fix s u s'
  assume "compile_dead_code rec slot node s = Done (u, s')"
  then obtain v s1 where rec: "rec slot node (s\<lparr>cs_dead_scope := cs_dead_scope s + 1\<rparr>) = Done (v, s1)"
    and s': "s' = s1\<lparr>cs_dead_scope := cs_dead_scope s1 - 1\<rparr>"
    by (auto simp: compile_dead_code_def cthen_Done cmodify_def copt_def cret_def split: if_splits)
  note a = all_keptD [OF keeps_relD [OF rec_keeps rec]]
  note o = outer_keptD [OF a(1)]
  show "all_kept s s'" using a(2-5) o by (simp add: all_kept_def outer_kept_def s')
qed

lemma optimise_expr_keeps: "keeps (optimise_expr rec slot e)"
proof (cases "\<exists>sp op l r. e = EBinOp sp op l r")
  case True
  then show ?thesis
    by (auto simp: optimise_bin_op_def Let_def intro!: all.sequencing keeps_intros compile_dead_code_keeps)
next
  case False
  then show ?thesis by (cases e) (auto intro!: all.sequencing)
qed

lemma compile_leaves_keep: "keeps (compile_literal E sp lit)" "keeps (compile_cur_pos E sp)"
  unfolding compile_literal_def compile_cur_pos_def
  by (auto split: literal.split option.split intro!: all.sequencing keeps_intros simp del: cseq.simps)

lemma compile_optimised_keeps: "keeps (compile_optimised E rec recs slot e)"
  by (cases e)
    (auto intro!: keeps_thunk keeps_outer_lambda compile_leaves_keep compile_paths_keep compile_str_keeps rec_keeps
      keeps_identifier_access compile_operators_outer compile_list_outer compile_has_attr_outer compile_select_outer
      compile_conditionals_outer compile_lambda_outer compile_apply_outer compile_sets_outer)

lemma compile_expr_keeps: "keeps (compile_expr E rec recs slot e)"
  unfolding compile_expr_def by (intro all.sequencing optimise_expr_keeps compile_optimised_keeps)

end

text \<open>The functions of the compiler, with any bound on the recursion, are such recursive calls.\<close>

lemma kept_recursion_compile: "kept_recursion (compile E fuel) (compile_set E fuel)"
proof (induction fuel)
  case 0
  show ?case by unfold_locales (simp_all add: all.sequencing outer.sequencing)
next
  case (Suc fuel)
  show ?case
    by unfold_locales
      (simp_all add: kept_recursion.compile_expr_keeps [OF Suc] kept_recursion.compile_bindings_outer [OF Suc])
qed

interpretation compile_rec: kept_recursion "compile E fuel" "compile_set E fuel" for E fuel
  by (rule kept_recursion_compile)

end
