(* ===== verification/CompilerFuel.thy ===== *)
theory CompilerFuel
  imports Compiler
begin

text \<open>
  The recursion of the compiler ends. The model bounds the depth of the recursion by fuel; here the
  size of the syntax tree is shown to be enough fuel, so that the compiler either finishes or
  panics. The only recursion that is not on a part of the expression is that on merged attribute sets: a
  set collects entries from several places of the tree, but never more than the bindings it was declared with.
\<close>

named_theorems fuelled_intros "computations that do not run out of fuel"

definition ends :: "('s, 'a) comp \<Rightarrow> ('a \<Rightarrow> bool) \<Rightarrow> bool" where
  "ends m P \<longleftrightarrow> (\<forall>s. m s \<noteq> NoFuel \<and> (\<forall>a s'. m s = Done (a, s') \<longrightarrow> P a))"

abbreviation fuelled :: "('s, 'a) comp \<Rightarrow> bool" where
  "fuelled m \<equiv> ends m (\<lambda>_. True)"

lemma endsI: "(\<And>s. m s \<noteq> NoFuel) \<Longrightarrow> (\<And>s a s'. m s = Done (a, s') \<Longrightarrow> P a) \<Longrightarrow> ends m P"
  by (simp add: ends_def)

lemma endsD: "ends m P \<Longrightarrow> m s \<noteq> NoFuel" "ends m P \<Longrightarrow> m s = Done (a, s') \<Longrightarrow> P a"
  unfolding ends_def by blast+

lemma ends_mono: "ends m P \<Longrightarrow> (\<And>a. P a \<Longrightarrow> Q a) \<Longrightarrow> ends m Q"
  by (auto simp: ends_def)

lemma ends_cbind: "ends m P \<Longrightarrow> (\<And>a. P a \<Longrightarrow> ends (f a) Q) \<Longrightarrow> ends (cbind m f) Q"
  by (rule endsI) (auto simp: cbind_def split: cres.splits dest: endsD)

lemma ends_cret: "P a \<Longrightarrow> ends (cret a) P"
  by (simp add: ends_def cret_def)

lemma ends_cpanic: "ends cpanic P"
  by (simp add: ends_def cpanic_def)

lemma ends_if: "(b \<Longrightarrow> ends m P) \<Longrightarrow> (\<not> b \<Longrightarrow> ends m' P) \<Longrightarrow> ends (if b then m else m') P"
  by simp

lemma fuelled_primitives [fuelled_intros]: "fuelled (cret a)" "fuelled cpanic" "fuelled (cget f)" "fuelled (cmodify g)" "fuelled (copt h)"
  by (simp_all add: ends_def cret_def cpanic_def cget_def cmodify_def copt_def split: option.split)

lemma fuelled_cbind [fuelled_intros]: "fuelled m \<Longrightarrow> (\<And>a. fuelled (f a)) \<Longrightarrow> fuelled (cbind m f)"
  by (rule ends_cbind)

lemma fuelled_cthen [fuelled_intros]: "fuelled m \<Longrightarrow> fuelled m' \<Longrightarrow> fuelled (cthen m m')"
  unfolding cthen_def by (intro fuelled_intros)

lemma fuelled_cseq [fuelled_intros]: "(\<And>m. m \<in> set ms \<Longrightarrow> fuelled m) \<Longrightarrow> fuelled (cseq ms)"
  by (induction ms) (auto intro!: fuelled_intros)

lemma fuelled_cfor [fuelled_intros]: "(\<And>x. x \<in> set xs \<Longrightarrow> fuelled (f x)) \<Longrightarrow> fuelled (cfor xs f)"
  unfolding cfor_def by (rule fuelled_cseq) auto

lemma fuelled_cwhen [fuelled_intros]: "fuelled m \<Longrightarrow> fuelled (cwhen b m)"
  by (simp add: cwhen_def fuelled_intros)

section \<open>The helpers\<close>

lemma fuelled_on [fuelled_intros]: "fuelled (on_context f)" "fuelled (on_scope g)" "fuelled (on_chunk h)" "fuelled (scope_step k)"
  unfolding on_context_def on_scope_def on_chunk_def scope_step_def by (rule fuelled_intros)+

lemma fuelled_state [fuelled_intros]:
  "fuelled (get_local idx)" "fuelled (get_stack_index idx)" "fuelled c_begin_scope" "fuelled c_end_scope"
  "fuelled (c_declare_phantom sp b)" "fuelled (c_mark_initialised idx)" "fuelled (c_mark_used idx)" "fuelled (c_resolve_local name)"
  "fuelled (emit_warning sp w)" "fuelled (emit_error sp e)" "fuelled (c_resolve_upvalue name)" "fuelled new_context" "fuelled pop_context"
  unfolding get_local_def get_stack_index_def c_begin_scope_def c_end_scope_def c_declare_phantom_def c_mark_initialised_def
    c_mark_used_def c_resolve_local_def emit_warning_def emit_error_def c_resolve_upvalue_def new_context_def pop_context_def
  by (rule fuelled_intros)+

lemma fuelled_unless_dead: "fuelled m \<Longrightarrow> fuelled (unless_dead a m)"
  unfolding unless_dead_def by (auto intro!: fuelled_intros)

lemma fuelled_emit [fuelled_intros]:
  "fuelled (c_push_op op sp)" "fuelled (c_push_u8 b)" "fuelled (c_push_uvarint E n)" "fuelled (c_push_u16 w)"
  "fuelled (emit_op op sp)" "fuelled (emit_constant E k sp)" "fuelled (emit_force sp)" "fuelled (push_jump op sp)"
  "fuelled (c_patch_jump idx)" "fuelled (emit_literal_ident E sp name)"
  unfolding c_push_op_def c_push_u8_def c_push_uvarint_def c_push_u16_def emit_op_def emit_constant_def emit_force_def
    push_jump_def c_patch_jump_def emit_literal_ident_def
  by (intro fuelled_intros fuelled_unless_dead)+

lemma fuelled_cleanup_scope [fuelled_intros]: "fuelled (cleanup_scope E sp)"
  unfolding cleanup_scope_def by (auto intro!: fuelled_intros)

lemma fuelled_declare_local [fuelled_intros]: "fuelled (c_declare_local E sp name)"
  unfolding c_declare_local_def by (auto split: option.split intro!: fuelled_intros)

lemma fuelled_has_dynamic_ancestor [fuelled_intros]: "fuelled has_dynamic_ancestor"
  by (simp add: ends_def has_dynamic_ancestor_def split: prod.split)

lemma fuelled_emit_upvalue [fuelled_intros]: "fuelled (emit_upvalue E slot kind)"
  by (cases kind) (auto intro!: fuelled_intros)

lemma fuelled_emit_upvalue_data [fuelled_intros]: "fuelled (emit_upvalue_data E slot upvalues b)"
  unfolding emit_upvalue_data_def by (auto split: option.split intro!: fuelled_intros)

lemma fuelled_emit_lambda [fuelled_intros]: "fuelled (emit_lambda E b slot sp ctx)"
  unfolding emit_lambda_def finish_closure_def Let_def by (auto intro!: fuelled_intros)

lemma fuelled_compile_context: "(\<And>slot. fuelled (content slot)) \<Longrightarrow> fuelled (compile_context E name sp content)"
  unfolding compile_context_def by (auto split: option.split intro!: fuelled_intros)

lemma fuelled_lambda: "(\<And>slot. fuelled (content slot)) \<Longrightarrow> fuelled (compile_lambda_or_thunk E b slot sp content)"
  unfolding compile_lambda_or_thunk_def by (intro fuelled_intros fuelled_compile_context)

lemma fuelled_thunk: "(\<And>slot. fuelled (content slot)) \<Longrightarrow> fuelled (thunk E slot sp content)"
  unfolding thunk_def by (intro fuelled_intros fuelled_lambda)

lemma fuelled_identifier_access [fuelled_intros]: "fuelled (compile_identifier_access E slot ident sp)"
  unfolding compile_identifier_access_def
  by (auto split: local_position.split option.split intro!: fuelled_intros fuelled_thunk)

lemma fuelled_leaves [fuelled_intros]:
  "fuelled (is_user_defined ident)" "fuelled (compile_literal E sp lit)" "fuelled (compile_cur_pos E sp)" "fuelled (optimise_select E path)"
  unfolding is_user_defined_def compile_literal_def compile_cur_pos_def optimise_select_def
  by (auto split: literal.split option.split intro!: fuelled_intros simp del: cseq.simps)

section \<open>Sizes\<close>

fun entry_size :: "('sp, 'v) set_entry \<Rightarrow> nat" where
  "entry_size (sp, path, v) = size_list size path + size v + 1"

definition set_size :: "('sp, 'v) inherit list \<Rightarrow> ('sp, 'v) set_entry list \<Rightarrow> nat" where
  "set_size inherits entries = size_list size inherits + size_list entry_size entries"

lemma entry_size_of [simp]: "entry_size (entry_of e) = size e"
  by (cases e) simp

lemma size_list_entries [simp]:
  "size_list entry_size (map entry_of entries) = size_list size entries"
  "size_list (entry_size \<circ> entry_of) entries = size_list size entries"
  by (induction entries) auto

lemma size_list_append [simp]: "size_list f (xs @ ys) = size_list f xs + size_list f ys"
  by (induction xs) auto

lemma size_list_member: "x \<in> set xs \<Longrightarrow> f x < size_list f xs"
  by (induction xs) auto

section \<open>The functions of the compiler\<close>

locale fuelled_recursion =
  fixes rec :: "('sp, 'v) rec_expr" and recs :: "('sp, 'v) rec_bindings" and n :: nat
  assumes rec_fuelled: "size e < n \<Longrightarrow> fuelled (rec slot e)"
    and recs_fuelled: "set_size inherits entries < n \<Longrightarrow> fuelled (recs slot kind sp inherits entries)"
begin

lemmas fsteps = fuelled_intros fuelled_thunk fuelled_lambda rec_fuelled recs_fuelled

lemma emit_part_fuelled: "size part \<le> n \<Longrightarrow> fuelled (emit_part E rec slot sp part)"
  by (cases part) (auto intro!: fsteps simp del: cseq.simps)

lemma parts_fuelled: "size_list size parts \<le> n \<Longrightarrow> fuelled (cfor (rev parts) (emit_part E rec slot sp))"
  by (intro fsteps emit_part_fuelled) (auto dest: size_list_member [where f = size])

lemma compile_str_fuelled: "size_list size parts \<le> n \<Longrightarrow> fuelled (compile_str E rec slot sp parts)"
  unfolding compile_str_def compile_str_parts_def by (auto intro!: fsteps parts_fuelled simp del: cseq.simps)

lemma compile_attr_fuelled: "size attr \<le> n \<Longrightarrow> fuelled (compile_attr E rec slot attr)"
  by (cases attr) (auto intro!: fsteps compile_str_fuelled simp del: cseq.simps)

lemma compile_paths_fuelled:
  assumes "size_list size parts \<le> n"
  shows "fuelled (compile_abs_path E rec slot sp path_text parts)" "fuelled (compile_home_path E rec slot sp parts)"
    "fuelled (compile_rel_path E rec slot sp parts)"
  using assms unfolding compile_abs_path_def compile_home_path_def compile_rel_path_def Let_def emit_path_ipol_parts_def
  by (auto split: list.split part.split simp del: cseq.simps intro!: fsteps parts_fuelled)

lemma compile_search_path_fuelled: "fuelled (compile_search_path E slot sp raw)"
  unfolding compile_search_path_def Let_def by (auto intro!: fsteps simp del: cseq.simps)

lemma compile_operators_fuelled:
  "size e < n \<Longrightarrow> fuelled (compile_unary_op rec slot sp uop e)"
  "size l < n \<Longrightarrow> size r < n \<Longrightarrow> fuelled (compile_binop rec slot sp op l r)"
  unfolding compile_unary_op_def compile_binop_def compile_and_def compile_or_def compile_implication_def compile_short_circuit_def
  by (auto intro!: fsteps simp del: cseq.simps)

lemma compile_items_fuelled: "size_list size items \<le> n \<Longrightarrow> fuelled (compile_items rec slot count items)"
  by (induction items arbitrary: count) (auto intro!: fsteps simp del: cseq.simps)

lemma compile_list_fuelled: "size_list size items \<le> n \<Longrightarrow> fuelled (compile_list E rec slot sp items)"
  unfolding compile_list_def by (auto intro!: fsteps compile_items_fuelled simp del: cseq.simps)

lemma compile_has_attr_path_fuelled: "size_list size path \<le> n \<Longrightarrow> fuelled (compile_has_attr_path E rec slot count path)"
  by (induction path arbitrary: count) (auto intro!: fsteps compile_attr_fuelled simp del: cseq.simps)

lemma compile_select_path_fuelled:
  "size_list size path \<le> n \<Longrightarrow> fuelled (compile_select_path E rec slot sp path)"
  "size_list size path \<le> n \<Longrightarrow> fuelled (compile_select_or_path E rec slot path)"
  by (induction path) (auto intro!: fsteps compile_attr_fuelled simp del: cseq.simps)

lemma compile_has_attr_fuelled:
  "size e < n \<Longrightarrow> size_list size path \<le> n \<Longrightarrow> fuelled (compile_has_attr E rec slot sp e path)"
  unfolding compile_has_attr_def by (auto intro!: fsteps compile_has_attr_path_fuelled simp del: cseq.simps)

lemma compile_select_fuelled:
  "size e < n \<Longrightarrow> size_list size path \<le> n \<Longrightarrow> (\<And>d. dflt = Some d \<Longrightarrow> size d < n) \<Longrightarrow>
   fuelled (compile_select E rec slot e path_sp path dflt)"
  unfolding compile_select_def compile_select_or_def
  by (auto split: option.split simp del: cseq.simps intro!: fsteps compile_select_path_fuelled)

lemma compile_conditionals_fuelled:
  "size c < n \<Longrightarrow> size body < n \<Longrightarrow> fuelled (compile_assert rec slot sp c body)"
  "size c < n \<Longrightarrow> size body < n \<Longrightarrow> size else_body < n \<Longrightarrow> fuelled (compile_if_else rec slot sp c body else_body)"
  "size c < n \<Longrightarrow> size body < n \<Longrightarrow> fuelled (compile_with E rec slot sp c body)"
  "size c < n \<Longrightarrow> size body < n \<Longrightarrow> fuelled (compile_apply rec slot sp c body)"
  unfolding compile_assert_def compile_if_else_def compile_with_def compile_apply_def
  by (auto intro!: fsteps simp del: cseq.simps)

text \<open>The formals carry the defaults they were declared with.\<close>

lemma declare_formals_ends:
  "(\<And>sp ident d. (sp, ident, Some d) \<in> set entries \<Longrightarrow> size d < n) \<Longrightarrow>
   ends (declare_formals E entries) (\<lambda>tfs. \<forall>tf \<in> set tfs. \<forall>i d. tf_default tf = Some (i, d) \<longrightarrow> size d < n)"
proof (induction E entries rule: declare_formals.induct)
  case (2 E sp ident dflt entries)
  have d: "ends (case dflt of None \<Rightarrow> cret None
      | Some e \<Rightarrow> cbind (c_declare_phantom (span_of e) False) (\<lambda>i. cret (Some (i, e))))
      (\<lambda>r. \<forall>i d. r = Some (i, d) \<longrightarrow> size d < n)"
    using "2.prems" by (cases dflt) (auto intro!: ends_cret ends_cbind [OF fuelled_state(5)])
  have rest: "size d < n" if "(sp, ident, Some d) \<in> set entries" for sp ident d
    using "2.prems" that by auto
  show ?case
    unfolding declare_formals.simps
    by (rule ends_cbind [OF fuelled_declare_local], rule ends_cbind [OF d], rule ends_cbind, rule "2.IH", erule rest)
      (auto intro!: ends_cret)
qed (simp add: ends_cret)

lemma formals_fuelled:
  "(\<And>i d. tf_default tf = Some (i, d) \<Longrightarrow> size d < n) \<Longrightarrow> fuelled (compile_formal E rec sp stack_idx tf)"
  "fuelled (finalise_formal E sp tf)"
  unfolding compile_formal_def finalise_formal_def by (auto split: option.split intro!: fsteps simp del: cseq.simps)

lemma compile_param_pattern_fuelled:
  assumes "\<And>sp ident d. (sp, ident, Some d) \<in> set entries \<Longrightarrow> size d < n"
  shows "fuelled (compile_param_pattern E rec sp pat_bind ellipsis entries)"
  unfolding compile_param_pattern_def
proof (rule fuelled_cbind)
  note declared = ends_cbind [OF declare_formals_ends [OF assms]]
  note with_jump = fuelled_cbind [OF fuelled_emit(8)] and with_index = fuelled_cbind [OF fuelled_state(2)]
  show "fuelled (cthen (c_mark_initialised set_idx) (cthen (emit_force sp)
     (cbind (push_jump OpJumpIfCatchable sp) (\<lambda>throw_idx.
     cthen (emit_op OpAssertAttrs sp) (cthen (cwhen (\<not> ellipsis) (emit_op OpValidateClosedFormals sp))
     (cbind (declare_formals E entries) (\<lambda>tracked. cbind (get_stack_index set_idx) (\<lambda>stack_idx.
     cthen (cfor tracked (compile_formal E rec sp stack_idx)) (cthen (cfor tracked (finalise_formal E sp))
     (cret (f throw_idx)))))))))))" for set_idx f
    by (intro fuelled_cthen with_jump declared with_index fuelled_cfor formals_fuelled fuelled_state fuelled_emit
        fuelled_cwhen fuelled_primitives) auto
qed (auto split: option.split intro!: fsteps)

lemma size_pattern_default:
  "(sp, ident, Some d) \<in> set entries \<Longrightarrow> size d < size_list (size_prod (\<lambda>x. 0) (size_prod (\<lambda>x. 0) (size_option size))) entries"
  by (drule size_list_member [where f = "size_prod (\<lambda>x. 0) (size_prod (\<lambda>x. 0) (size_option size))"]) simp

lemma compile_lambda_fuelled: "size param \<le> n \<Longrightarrow> size body < n \<Longrightarrow> fuelled (compile_lambda E rec slot param body)"
  by (cases param) (auto intro!: fsteps compile_param_pattern_fuelled dest!: size_pattern_default)

end

section \<open>Merged sets\<close>

text \<open>
  What a tracked binding still has to compile. An inherited binding refers to an expression it shares
  with others, so that it is bounded by itself; what the others have adds up to no more than the entries they
  come from.
\<close>

fun binding_size :: "('sp, 'v) binding \<Rightarrow> nat" where
  "binding_size (InheritFrom _ _ _) = 0"
| "binding_size (Plain e) = size e"
| "binding_size (SetBinding as) = set_size (as_inherits as) (as_entries as)"

fun key_size :: "('sp, 'v) key_slot \<Rightarrow> nat" where
  "key_size (KeyDynamic _ attr) = size attr"
| "key_size _ = 0"

definition tracked_size :: "('sp, 'v) tracked_binding \<Rightarrow> nat" where
  "tracked_size tb = binding_size (tb_binding tb) + key_size (tb_key_slot tb)"

lemma tracked_size_new [simp]:
  "tracked_size \<lparr>tb_key_slot = k, tb_value_slot = i, tb_binding = b\<rparr> = binding_size b + key_size k"
  by (simp add: tracked_size_def)

definition inherits_below :: "nat \<Rightarrow> ('sp, 'v) tracked_binding list \<Rightarrow> bool" where
  "inherits_below n tbs \<longleftrightarrow> (\<forall>tb \<in> set tbs. \<forall>ns name sp. tb_binding tb = InheritFrom ns name sp \<longrightarrow> size ns < n)"

lemma inherits_below_snoc [simp]:
  "inherits_below n (tbs @ [tb]) \<longleftrightarrow> inherits_below n tbs \<and> (\<forall>ns name sp. tb_binding tb = InheritFrom ns name sp \<longrightarrow> size ns < n)"
  by (auto simp: inherits_below_def)

lemma merge_set_ends:
  "ends (merge_set existing span path v)
     (\<lambda>b. (\<forall>ns name sp. b \<noteq> InheritFrom ns name sp) \<and>
        binding_size b \<le> set_size (as_inherits existing) (as_entries existing) + size_list size path + size v + 2)"
  by (induction existing span path v rule: merge_set.induct) (auto intro!: ends_cret ends_cpanic simp: set_size_def)

lemma binding_merge_ends:
  "ends (binding_merge b span path v)
     (\<lambda>b'. (\<forall>ns name sp. b' = InheritFrom ns name sp \<longrightarrow> b = InheritFrom ns name sp) \<and>
        binding_size b' \<le> binding_size b + size_list size path + size v + 2)"
proof (induction b span path v rule: binding_merge.induct)
  case (2 sp rec_token inherits entries span path v)
  show ?case unfolding binding_merge.simps
    by (rule ends_mono [OF merge_set_ends]) (auto simp: set_from_ast_def set_size_def)
next
  case (4 existing span path v)
  show ?case unfolding binding_merge.simps by (rule ends_mono [OF merge_set_ends]) auto
qed (auto intro!: ends_cret ends_cbind [OF fuelled_state(10)])

lemma merge_into_ends:
  assumes "inherits_below n tbs"
  shows "ends (merge_into tbs span name path v)
     (\<lambda>r. \<forall>tbs'. r = Some tbs' \<longrightarrow> inherits_below n tbs' \<and>
        size_list tracked_size tbs' \<le> size_list tracked_size tbs + size_list size path + size v + 2)"
  using assms
proof (induction tbs)
  case (Cons tb tbs)
  have below: "inherits_below n tbs" and tb: "size ns < n" if "tb_binding tb = InheritFrom ns name sp" for ns name sp
    using Cons.prems that by (auto simp: inherits_below_def)
  show ?case
  proof (cases "binding_matches tb name")
    case True
    have "inherits_below n (tb\<lparr>tb_binding := b'\<rparr> # tbs)"
      if "\<forall>ns name sp. b' = InheritFrom ns name sp \<longrightarrow> tb_binding tb = InheritFrom ns name sp" for b'
      using Cons.prems that by (auto simp: inherits_below_def)
    then show ?thesis using True
      by (auto intro!: ends_cbind [OF binding_merge_ends] ends_cret simp: tracked_size_def)
  next
    case False
    have "inherits_below n tbs" using Cons.prems by (auto simp: inherits_below_def)
    then show ?thesis using False Cons.prems
      by (auto intro!: ends_cbind [OF Cons.IH] ends_cret simp: inherits_below_def)
  qed
qed (simp add: ends_cret)

lemma try_merge_ends:
  "inherits_below n tbs \<Longrightarrow> ends (try_merge tbs span key path v)
     (\<lambda>r. \<forall>tbs'. r = Some tbs' \<longrightarrow> inherits_below n tbs' \<and>
        size_list tracked_size tbs' \<le> size_list tracked_size tbs + size_list size path + size v + 2)"
  unfolding try_merge_def by (simp split: option.split add: ends_cret merge_into_ends [simplified])

lemma size_attr_pos [simp]: "0 < size (a :: ('sp, 'v) attr)"
  by (cases a) auto

lemma declare_key_ends: "ends (declare_key kind key) (\<lambda>r. \<forall>k. r = Some k \<longrightarrow> key_size k \<le> size key)"
  unfolding declare_key_def
  by (auto split: option.split intro!: ends_cret ends_cbind [OF fuelled_state(5)] ends_cbind [OF fuelled_state(10)])

lemma declare_value_fuelled: "fuelled (declare_value E kind sp k)"
  unfolding declare_value_def by (auto split: key_slot.split intro!: fuelled_intros)

lemma declare_bindings_ends:
  "inherits_below n tbs \<Longrightarrow> size_list tracked_size tbs + size_list entry_size entries \<le> m \<Longrightarrow>
   ends (declare_bindings E kind count tbs entries)
     (\<lambda>(_, tbs'). inherits_below n tbs' \<and> size_list tracked_size tbs' \<le> m)"
proof (induction entries arbitrary: count tbs)
  case (Cons entry entries)
  obtain span path' v where entry: "entry = (span, path', v)" by (cases entry) auto
  show ?case
  proof (cases path')
    case (Cons key path)
    note prems = Cons.prems [unfolded entry Cons, simplified]
    show ?thesis
      unfolding entry Cons declare_bindings.simps Let_def
      by (rule ends_cbind [OF try_merge_ends [OF prems(1)]])
        (use prems in \<open>auto split: option.split simp: set_size_def intro!: Cons.IH ends_cbind [OF declare_key_ends]
          ends_cbind [OF declare_value_fuelled]\<close>)
  qed (simp add: entry ends_cpanic)
qed (simp add: ends_cret)

section \<open>Sets of bindings\<close>

lemma length_le_size_list: "length xs \<le> size_list f xs"
  by (induction xs) auto

lemma collect_inherit_from_ends:
  "ends (collect_inherit_from e attrs) (\<lambda>froms. length froms \<le> length attrs \<and> (\<forall>(ns, name, sp) \<in> set froms. ns = e))"
proof (induction attrs)
  case (Cons attr attrs)
  then show ?case
    by (auto split: option.split simp: cthen_def intro!: ends_mono [OF Cons] ends_cbind [OF Cons]
        ends_cbind [OF fuelled_state(10)] ends_cret)
qed (simp add: ends_cret)

lemma compile_plain_inherit_attrs_fuelled: "fuelled (compile_plain_inherit_attrs E slot kind attrs)"
  by (induction attrs) (auto simp: compile_plain_inherit_def split: option.split intro!: fuelled_intros)

definition froms_below :: "nat \<Rightarrow> (('sp, 'v) expr \<times> string \<times> 'sp) list \<Rightarrow> bool" where
  "froms_below n froms \<longleftrightarrow> length froms \<le> n \<and> (\<forall>(ns, name, sp) \<in> set froms. size ns < n)"

lemma froms_below_append: "froms_below a xs \<Longrightarrow> froms_below b ys \<Longrightarrow> froms_below (a + b + 1) (xs @ ys)"
  by (fastforce simp: froms_below_def)

lemma compile_plain_inherits_ends:
  "ends (compile_plain_inherits E slot kind inherits) (\<lambda>(_, froms). froms_below (size_list size inherits) froms)"
proof (induction inherits)
  case (Cons inh inherits)
  obtain sp e attrs where inh: "inh = Inherit sp e attrs" by (cases inh)
  have first: "ends (if attrs = [] then cbind (emit_warning sp EmptyInherit) (\<lambda>_. cret (0, []))
            else case e of
                   Some e \<Rightarrow> cbind (collect_inherit_from e attrs) (\<lambda>froms. cret (length froms, froms))
                 | None \<Rightarrow>
                     cbind (if is_attrs kind then cret True else has_dynamic_ancestor) (\<lambda>useful.
                       if \<not> useful then cbind (emit_warning sp UselessInherit) (\<lambda>_. cret (0, []))
                       else cbind (compile_plain_inherit_attrs E slot kind attrs) (\<lambda>n. cret (n, []))))
       (\<lambda>(_, froms). froms_below (size inh) froms)"
  proof (cases e)
    case None
    show ?thesis
      unfolding None by (auto intro!: ends_cbind [OF fuelled_state(9)] ends_cbind [OF fuelled_primitives(1)]
        ends_cbind [OF fuelled_has_dynamic_ancestor]
        ends_cbind [OF compile_plain_inherit_attrs_fuelled] ends_cret simp: froms_below_def)
  next
    case (Some ns)
    have "froms_below (size inh) froms" if "length froms \<le> length attrs \<and> (\<forall>(ns', name, sp) \<in> set froms. ns' = ns)" for froms
      using that length_le_size_list [of attrs size] by (auto simp: froms_below_def inh Some)
    then show ?thesis
      unfolding Some by (auto intro!: ends_cbind [OF fuelled_state(9)] ends_cbind [OF collect_inherit_from_ends] ends_cret
        simp: froms_below_def)
  qed
  show ?case
    unfolding inh compile_plain_inherits.simps
    by (rule ends_cbind [OF first], clarsimp, rule ends_cbind [OF Cons])
      (auto simp: inh intro!: ends_cret dest: froms_below_append)
qed (simp add: ends_cret froms_below_def)

lemma declare_namespaced_inherits_ends:
  "(\<And>ns name sp. (ns, name, sp) \<in> set froms \<Longrightarrow> size ns < n) \<Longrightarrow>
   ends (declare_namespaced_inherits E kind froms)
     (\<lambda>tbs. inherits_below n tbs \<and> size_list tracked_size tbs = length froms)"
proof (induction froms)
  case (Cons f froms)
  obtain ns name span where f: "f = (ns, name, span)" by (cases f)
  have k: "ends (if is_attrs kind then cbind (c_declare_phantom span False) (\<lambda>slot. cret (KeyStatic slot name))
            else cret (KeyNone name)) (\<lambda>k. key_size k = 0)"
    by (auto intro!: ends_cret ends_cbind [OF fuelled_state(5)])
  have v: "fuelled (if kind = BindAttrs then c_declare_phantom span False else c_declare_local E span name)"
    by (simp add: fuelled_intros)
  have IH: "ends (declare_namespaced_inherits E kind froms)
     (\<lambda>tbs. inherits_below n tbs \<and> size_list tracked_size tbs = length froms)"
    using Cons.prems by (intro Cons.IH) auto
  have ns: "size ns < n" by (rule Cons.prems [of ns name span]) (simp add: f)
  show ?case
    unfolding f declare_namespaced_inherits.simps
    by (rule ends_cbind [OF k], rule ends_cbind [OF v], rule ends_cbind [OF IH], rule ends_cret)
      (auto simp: inherits_below_def ns)
qed (simp add: ends_cret inherits_below_def)

context fuelled_recursion
begin

lemma bind_value_fuelled:
  assumes "inherits_below n [tb]" "tracked_size tb < n"
  shows "fuelled (bind_value E rec recs tb)"
proof -
  have key: "size attr \<le> n" if "tb_key_slot tb = KeyDynamic slot attr" for slot attr
    using assms(2) that by (simp add: tracked_size_def)
  have "fuelled (case tb_binding tb of
          InheritFrom namespace name span \<Rightarrow>
            thunk E (tb_value_slot tb) (span_of namespace) (\<lambda>s.
              cseq [rec s namespace, emit_force (span_of namespace), emit_constant E (KString name) span,
                    emit_op OpAttrsSelect span])
        | Plain e \<Rightarrow> rec (tb_value_slot tb) e
        | SetBinding set_node \<Rightarrow>
            thunk E (tb_value_slot tb) (as_span set_node) (\<lambda>_.
              cseq [c_begin_scope,
                    recs (tb_value_slot tb) (as_kind set_node) (as_span set_node) (as_inherits set_node) (as_entries set_node),
                    cbind c_end_scope (\<lambda>_. cret ())]))"
    using assms
    by (cases "tb_binding tb") (auto simp: inherits_below_def tracked_size_def simp del: cseq.simps intro!: fsteps)
  then show ?thesis
    unfolding bind_value_def
    by (auto split: key_slot.split simp del: cseq.simps intro!: fsteps compile_attr_fuelled key)
qed

lemma bind_values_fuelled:
  assumes "inherits_below n tbs" "size_list tracked_size tbs \<le> n"
  shows "fuelled (bind_values E rec recs tbs)"
proof -
  have "tracked_size tb < n" "inherits_below n [tb]" if "tb \<in> set tbs" for tb
    using that assms size_list_member [OF that, of tracked_size] by (auto simp: inherits_below_def)
  then show ?thesis
    unfolding bind_values_def finalise_value_def by (auto simp del: cseq.simps intro!: fsteps bind_value_fuelled)
qed

lemma compile_bindings_fuelled:
  assumes "set_size inherits entries \<le> n"
  shows "fuelled (compile_bindings E rec recs slot kind sp inherits entries)"
proof -
  let ?rest = "\<lambda>(count, tbs). if count = 0 then (if is_attrs kind then emit_constant E (KAttrs []) sp else emit_warning sp EmptyLet)
        else cseq [bind_values E rec recs tbs, cwhen (is_attrs kind) (cseq [emit_op OpAttrs sp, c_push_uvarint E (of_nat count)])]"
  have rest: "fuelled (?rest r)" if "case r of (_, tbs) \<Rightarrow> inherits_below n tbs \<and> size_list tracked_size tbs \<le> n" for r
    using that by (auto simp del: cseq.simps intro!: fsteps bind_values_fuelled)
  have "fuelled (cbind (declare_namespaced_inherits E kind froms) (\<lambda>tbs. cbind (declare_bindings E kind count tbs entries) ?rest))"
    if froms: "froms_below (size_list size inherits) froms" for froms count
  proof -
    have ns: "size ns < n" if "(ns, name, sp) \<in> set froms" for ns name sp
      using froms that assms by (auto simp: froms_below_def set_size_def)
    have len: "length froms + size_list entry_size entries \<le> n"
      using froms assms by (simp add: froms_below_def set_size_def)
    show ?thesis
      by (rule ends_cbind [OF declare_namespaced_inherits_ends [OF ns]], assumption,
          rule ends_cbind [OF declare_bindings_ends [where m = n and n = n]]) (use len rest in auto)
  qed
  then show ?thesis
    unfolding compile_bindings_def
    by (intro fuelled_cthen fuelled_state ends_cbind [OF compile_plain_inherits_ends]) (simp add: case_prod_beta)
qed

lemma compile_sets_fuelled:
  assumes "size_list size inherits + size_list size sentries < n"
  shows "fuelled (compile_attr_set recs slot sp rec_token inherits sentries)"
    "fuelled (compile_legacy_let E recs slot sp inherits sentries)"
    "size body < n \<Longrightarrow> fuelled (compile_let_in E rec recs slot sp inherits sentries body)"
  using assms unfolding compile_attr_set_def compile_let_in_def compile_legacy_let_def
  by (auto intro!: fsteps simp: set_size_def simp del: cseq.simps)

text \<open>The optimiser returns the expression or one of its operands.\<close>

lemma optimise_expr_ends:
  assumes "size e \<le> n"
  shows "ends (optimise_expr rec slot e) (\<lambda>e'. size e' \<le> n)"
proof (cases "\<exists>sp op l r. e = EBinOp sp op l r")
  case True
  then obtain sp op l r where e: "e = EBinOp sp op l r" by blast
  have dead: "fuelled (compile_dead_code rec slot r)"
    using assms unfolding compile_dead_code_def by (auto simp: e intro!: fsteps simp del: cseq.simps)
  have t: "fuelled (if b then cret True else is_user_defined ident)" for b ident by (simp add: fuelled_intros)
  have sizes: "size l \<le> n" "size r \<le> n" "size (EBinOp sp op l r) \<le> n" using assms by (simp_all add: e)
  show ?thesis
    unfolding e optimise_expr.simps optimise_bin_op_def Let_def
    by (rule ends_cbind [OF fuelled_leaves(1)], rule ends_cbind [OF t])
      (intro ends_if ends_cret ends_cbind [OF fuelled_state(9)] ends_cbind [OF dead] sizes)
next
  case False
  then show ?thesis using assms by (cases e) (auto intro!: ends_cret)
qed

lemma compile_optimised_fuelled: "size e \<le> n \<Longrightarrow> fuelled (compile_optimised E rec recs slot e)"
  by (cases e)
    (auto intro!: fuelled_thunk fuelled_lambda fuelled_leaves compile_paths_fuelled compile_search_path_fuelled compile_str_fuelled rec_fuelled
      fuelled_identifier_access compile_operators_fuelled compile_list_fuelled compile_has_attr_fuelled compile_select_fuelled
      compile_conditionals_fuelled compile_lambda_fuelled compile_sets_fuelled)

lemma compile_expr_fuelled: "size e \<le> n \<Longrightarrow> fuelled (compile_expr E rec recs slot e)"
  unfolding compile_expr_def by (rule ends_cbind [OF optimise_expr_ends compile_optimised_fuelled])

end

lemma fuelled_recursion_compile: "fuelled_recursion (compile E fuel) (compile_set E fuel) fuel"
proof (induction fuel)
  case 0
  show ?case by unfold_locales simp_all
next
  case (Suc fuel)
  show ?case
    by unfold_locales
      (simp_all add: fuelled_recursion.compile_expr_fuelled [OF Suc] fuelled_recursion.compile_bindings_fuelled [OF Suc])
qed

interpretation compile_fuel: fuelled_recursion "compile E fuel" "compile_set E fuel" fuel for E fuel
  by (rule fuelled_recursion_compile)

section \<open>An environment for examples\<close>

text \<open>One byte for each number, which is enough for small programs.\<close>

definition example_env :: "(nat, unit) cenv" where
  "example_env =
     \<lparr>ce_encode = (\<lambda>n. [ucast n]), ce_decode = (\<lambda>bs. (ucast (hd bs), 1)),
      ce_globals = [''true'' \<mapsto> KNull, ''false'' \<mapsto> KNull, ''null'' \<mapsto> KNull], ce_clean = id, ce_root_dir = ''/'',
      ce_file_span = 0, ce_cur_pos = (\<lambda>_. None), ce_debug_assertions = False\<rparr>"

text \<open>A context with one local, which the expression is compiled for.\<close>

definition example_state :: "(nat, unit) cstate" where
  "example_state = initial_state\<lparr>cs_contexts :=
     [lambda_ctx_new\<lparr>lc_scope := snd (declare_phantom 0 False scope_default)\<rparr>]\<rparr>"

definition example_int :: "(nat, unit) expr" where
  "example_int = ELiteral 1 (LInteger (Some 1))"

fun is_done :: "'a cres \<Rightarrow> bool" where
  "is_done (Done _) = True"
| "is_done _ = False"

lemma is_doneE: "is_done r \<Longrightarrow> (\<And>a s. r = Done (a, s) \<Longrightarrow> P) \<Longrightarrow> P"
  by (cases r) auto

text \<open>The function \<open>x: y: x\<close>, whose inner function captures the argument of the outer one.\<close>

definition example_const :: "(nat, unit) expr" where
  "example_const = ELambda 1 (PIdent 2 ''x'') (ELambda 3 (PIdent 4 ''y'') (EIdent 5 ''x''))"

section \<open>Programs\<close>

text \<open>
  C33: With as much fuel as the program has nodes, the compiler never runs out of it: the
  compilation of every program finishes, with or without errors, or panics.
\<close>

theorem compile_program_ends:
  assumes "size e < fuel"
  shows "(\<exists>lambda s'. compile_program E fuel env e s = Done (lambda, s')) \<or> compile_program E fuel env e s = Panic"
proof -
  have "fuelled (compile_env E env)"
    unfolding compile_env_def by (auto split: prod.split intro!: fuelled_intros simp del: cseq.simps)
  then have "fuelled (compile_program E fuel env e)"
    unfolding compile_program_def
    by (auto intro!: fuelled_intros compile_fuel.rec_fuelled [OF assms] simp del: cseq.simps)
  then have "compile_program E fuel env e s \<noteq> NoFuel" by (rule endsD)
  then show ?thesis by (cases "compile_program E fuel env e s") auto
qed

theorem compile_program_ends_witness:
  "size example_const = 5 \<and>
   ((\<exists>lambda s'. compile_program example_env 6 [] example_const initial_state = Done (lambda, s')) \<or>
    compile_program example_env 6 [] example_const initial_state = Panic)"
  using compile_program_ends [of example_const 6] by (simp add: example_const_def)

end
