(* ===== verification/CompilerProps.thy ===== *)
theory CompilerProps
  imports CompilerLayout CompilerFuel
begin

text \<open>
  What the compiler guarantees about the contexts around an expression, and what happens to code that
  is compiled as dead. The properties rest on the relations of \<open>CompilerLayout\<close>; the concrete programs
  at the end of each group are compiled by evaluation.
\<close>

section \<open>Stack positions survive\<close>

lemma uninitialised_count_layout:
  assumes "map l_initialised ls = map l_initialised ls'" "map l_depth ls = map l_depth ls'"
    "length locals = length locals'" "idx < length locals \<Longrightarrow> l_depth (locals ! idx) = l_depth (locals' ! idx)"
  shows "uninitialised_count locals idx ls = uninitialised_count locals' idx ls'"
  using assms(1,2)
proof (induction ls arbitrary: ls')
  case (Cons l ls)
  then obtain l' ls'' where "ls' = l' # ls''" by (cases ls') auto
  then show ?case using Cons assms(3,4) by auto
qed auto

lemma layout_depths: "layout c c' \<Longrightarrow> map l_depth (sc_locals (lc_scope c')) = map l_depth (sc_locals (lc_scope c))"
  by (simp add: layout_def skeleton_depths)

lemma layout_stack_index:
  assumes "layout c c'"
  shows "stack_index (lc_scope c') idx = stack_index (lc_scope c) idx"
proof -
  let ?l = "sc_locals (lc_scope c)" and ?l' = "sc_locals (lc_scope c')"
  have i: "map l_initialised ?l' = map l_initialised ?l" using assms by (simp add: layout_def)
  have d: "map l_depth ?l' = map l_depth ?l" by (rule layout_depths [OF assms])
  have len: "length ?l' = length ?l" by (metis i length_map)
  have "uninitialised_count ?l' idx (take idx ?l') = uninitialised_count ?l idx (take idx ?l)"
    by (rule uninitialised_count_layout) (use i d len in \<open>auto simp flip: take_map dest: map_eq_imp_length_eq nth_map\<close>, metis d len nth_map)
  then show ?thesis by (simp add: stack_index_def len)
qed

lemma layout_resolve_local:
  assumes "layout c c'"
  shows "resolve_local (lc_scope c') name = resolve_local (lc_scope c) name"
proof -
  let ?l = "sc_locals (lc_scope c)" and ?l' = "sc_locals (lc_scope c')"
  have i: "map l_initialised ?l' = map l_initialised ?l" using assms by (simp add: layout_def)
  then have len: "length ?l' = length ?l" by (metis length_map)
  have "l_initialised (?l' ! idx) = l_initialised (?l ! idx)" if "idx < length ?l" for idx
    using that i len by (metis nth_map)
  then show ?thesis using assms len
    by (auto simp: resolve_local_def layout_def split: option.split intro!: Option.bind_cong)
qed

text \<open>
  C9: Compiling an expression changes the stack position of no local and the resolution of no name in the
  context it is compiled into, and only adds to that context's code, constants and upvalues; every
  enclosing context keeps its code, its stack positions and its names; the counter for dead code is
  restored, and dead code adds no code at all.
\<close>

theorem compile_keeps_layout:
  assumes "compile E fuel slot e s = Done (u, s')" "cs_contexts s = c # cs"
  shows "\<exists>c' cs'. cs_contexts s' = c' # cs' \<and>
     (\<forall>idx. stack_index (lc_scope c') idx = stack_index (lc_scope c) idx) \<and>
     (\<forall>name. resolve_local (lc_scope c') name = resolve_local (lc_scope c) name) \<and>
     prefix (ch_code (lc_chunk c)) (ch_code (lc_chunk c')) \<and>
     prefix (ch_constants (lc_chunk c)) (ch_constants (lc_chunk c')) \<and>
     prefix (sc_upvalues (lc_scope c)) (sc_upvalues (lc_scope c')) \<and>
     list_all2 (\<lambda>p p'. lc_chunk p' = lc_chunk p \<and>
        (\<forall>idx. stack_index (lc_scope p') idx = stack_index (lc_scope p) idx) \<and>
        (\<forall>name. resolve_local (lc_scope p') name = resolve_local (lc_scope p) name)) cs cs' \<and>
     cs_dead_scope s' = cs_dead_scope s \<and>
     (0 < cs_dead_scope s \<longrightarrow> ch_code (lc_chunk c') = ch_code (lc_chunk c))"
proof -
  have a: "all_kept s s'" by (rule keeps_relD [OF compile_rec.rec_keeps assms(1)])
  note o = outer_keptD [OF all_keptD(1) [OF a]]
  obtain c' cs' where s': "cs_contexts s' = c' # cs'" using o(1) assms(2) by (cases "cs_contexts s'") auto
  have l: "layout c c'" using all_keptD(2) [OF a] by (simp add: assms(2) s')
  then have u: "prefix (sc_upvalues (lc_scope c)) (sc_upvalues (lc_scope c'))" by (simp add: layout_def)
  show ?thesis
    using all_keptD(3-5) [OF a] o(2,3) u layout_stack_index [OF l] layout_resolve_local [OF l]
    by (auto simp: assms(2) s' frame_kept_def layout_stack_index layout_resolve_local elim!: list_all2_mono)
qed

lemma example_const_done: "is_done (compile example_env 9 0 example_const example_state)"
  by code_simp

theorem compile_keeps_layout_witness:
  "\<exists>s' c'. compile example_env 9 0 example_const example_state = Done ((), s') \<and>
     cs_contexts s' = [c'] \<and> stack_index (lc_scope c') 0 = Some 0 \<and> resolve_local (lc_scope c') ''x'' = Some LUnknown"
proof -
  obtain s' where d: "compile example_env 9 0 example_const example_state = Done ((), s')"
    using example_const_done by (auto elim: is_doneE)
  have c: "cs_contexts example_state = [lambda_ctx_new\<lparr>lc_scope := snd (declare_phantom 0 False scope_default)\<rparr>]"
    by (simp add: example_state_def)
  show ?thesis using compile_keeps_layout [OF d c] d
    by (auto simp: stack_index_def resolve_local_def declare_phantom_def scope_default_def)
qed

section \<open>Dead code that jumps\<close>

text \<open>
  While dead code is compiled, \<open>push_op\<close> emits nothing and returns index zero, but \<open>patch_jump\<close> is
  not guarded: it writes to the code of the current chunk. In a fresh context that chunk is empty.
\<close>

definition stuck :: "('sp, 'v, 'a) compile \<Rightarrow> bool" where
  "stuck m \<longleftrightarrow> (\<forall>s r. 0 < cs_dead_scope s \<and> head_code s = [] \<longrightarrow> m s \<noteq> Done r)"

lemma stuckD: "stuck m \<Longrightarrow> 0 < cs_dead_scope s \<Longrightarrow> head_code s = [] \<Longrightarrow> m s \<noteq> Done r"
  unfolding stuck_def by blast

lemma stuckI: "(\<And>s a s'. 0 < cs_dead_scope s \<Longrightarrow> head_code s = [] \<Longrightarrow> m s = Done (a, s') \<Longrightarrow> False) \<Longrightarrow> stuck m"
  unfolding stuck_def by (metis surj_pair)

lemma stuck_now: "stuck m \<Longrightarrow> stuck (cbind m f)"
  by (rule stuckI) (auto simp: cbind_Done dest: stuckD)

lemma stuck_now_then: "stuck m \<Longrightarrow> stuck (cthen m m')"
  unfolding cthen_def by (rule stuck_now)

lemma stuck_now_seq: "stuck m \<Longrightarrow> stuck (cseq (m # ms))"
  by (simp add: stuck_now_then)

lemma stuck_later: "keeps_outer m \<Longrightarrow> (\<And>a. stuck (f a)) \<Longrightarrow> stuck (cbind m f)"
  unfolding stuck_def cbind_Done keeps_rel_def by (metis outer_keptD(2,4))

lemma stuck_later_then: "keeps_outer m \<Longrightarrow> stuck m' \<Longrightarrow> stuck (cthen m m')"
  unfolding cthen_def by (rule stuck_later)

lemma stuck_later_seq: "keeps_outer m \<Longrightarrow> stuck (cseq ms) \<Longrightarrow> stuck (cseq (m # ms))"
  by (simp add: stuck_later_then)

lemma cbind_assoc: "cbind (cbind m f) g = cbind m (\<lambda>a. cbind (f a) g)"
  by (auto simp: cbind_def fun_eq_iff split: cres.split)

lemma cthen_assoc: "cbind (cthen m m') g = cthen m (cbind m' g)"
  by (simp add: cthen_def cbind_assoc)

lemma cbind_cret [simp]: "cbind (cret a) f = f a"
  by (simp add: cbind_def cret_def)

lemma stuck_patch_jump: "stuck (c_patch_jump idx)"
  by (rule stuckI) (auto simp: c_patch_jump_def on_chunk_Done chunk_patch_jump_def)

lemmas stuck_patch_seq = stuck_now_seq [OF stuck_patch_jump]

lemma keeps_outer_inherit:
  "cs_contexts s = c # cs \<Longrightarrow> head_code (s\<lparr>cs_contexts := lambda_ctx_inherit c # c # cs\<rparr>) = []"
  by (simp add: lambda_ctx_inherit_def lambda_ctx_new_def chunk_default_def)

lemma dead_own_context:
  assumes "stuck body" "0 < cs_dead_scope s"
  shows "cthen new_context (cbind body k) s \<noteq> Done r"
proof
  assume "cthen new_context (cbind body k) s = Done r"
  then obtain c cs p where s: "cs_contexts s = c # cs"
    and b: "body (s\<lparr>cs_contexts := lambda_ctx_inherit c # c # cs\<rparr>) = Done p"
    by (auto simp: cthen_Done cbind_Done new_context_def copt_def split: list.splits)
  show False using stuckD [OF assms(1) _ keeps_outer_inherit [OF s], of p] assms(2) b by simp
qed

text \<open>What follows the content of a context: the scope is cleaned up, and a pending jump is patched.\<close>

definition context_end :: "('sp, 'v) cenv \<Rightarrow> 'sp \<Rightarrow> nat option \<Rightarrow> ('sp, 'v, unit) compile" where
  "context_end E sp throw_idx = cthen (cleanup_scope E sp) (case throw_idx of None \<Rightarrow> cret () | Some idx \<Rightarrow> c_patch_jump idx)"

lemma dead_context:
  assumes "\<And>slot. stuck (cbind (content slot) (context_end E sp))" "0 < cs_dead_scope s"
  shows "compile_context E name sp content s \<noteq> Done r"
  unfolding compile_context_def context_end_def [symmetric]
  by (rule dead_own_context [OF _ assms(2)])
    (intro stuck_later_then stuck_later [OF keeps_outer_scope_ops(3)] keeps_intros keeps_outer_on_context assms(1); simp)

lemma dead_lambda:
  assumes "\<And>slot. stuck (cbind (content slot) (context_end E sp))" "0 < cs_dead_scope s"
  shows "compile_lambda_or_thunk E b slot sp content s \<noteq> Done r"
proof
  assume "compile_lambda_or_thunk E b slot sp content s = Done r"
  then obtain l s1 p where l: "get_local slot s = Done (l, s1)"
    and c: "compile_context E (local_name_of l) sp content s1 = Done p"
    by (auto simp: compile_lambda_or_thunk_def cbind_Done)
  have "cs_dead_scope s1 = cs_dead_scope s"
    using outer_keptD(2) [OF keeps_relD [OF keeps_imp_outer [OF keeps_get_local] l]] .
  then show False using dead_context [OF assms(1), of s1] assms(2) c by auto
qed

lemma dead_thunk:
  assumes "\<And>slot. stuck (content slot)" "0 < cs_dead_scope s"
  shows "thunk E slot sp content s \<noteq> Done r"
  unfolding thunk_def by (rule dead_lambda [OF stuck_now [OF stuck_now [OF assms(1)]] assms(2)])

text \<open>
  The expressions whose code has a jump of its own: conditionals, assertions, the short-circuiting
  operators unless an operand is a literal, selections with a default, and functions that take their argument
  apart.
\<close>

fun emits_jump :: "('sp, 'v) expr \<Rightarrow> bool" where
  "emits_jump (EIfElse _ _ _ _) = True"
| "emits_jump (EAssert _ _ _) = True"
| "emits_jump (EBinOp _ op l r) =
     (op = BImplication \<or> (op = BAnd \<or> op = BOr) \<and> is_lit_bool l = LitExpr \<and> is_lit_bool r = LitExpr)"
| "emits_jump (ESelect _ _ _ _ dflt) = (dflt \<noteq> None)"
| "emits_jump (ELambda _ (PPattern _ _ _ _) _) = True"
| "emits_jump (EParen _ e) = emits_jump e"
| "emits_jump _ = False"

context kept_recursion
begin

lemma stuck_conditionals:
  "stuck (compile_if_else rec slot sp c t e)" "stuck (compile_assert rec slot sp c t)"
  "stuck (compile_short_circuit rec slot sp invert skip l r)"
  unfolding compile_if_else_def compile_assert_def compile_short_circuit_def
  by (rule stuck_patch_seq stuck_later_seq stuck_later_then stuck_later steps)+

lemma optimise_select_dead:
  "head_code s = [] \<Longrightarrow> optimise_select E path s = Done (b, s') \<Longrightarrow> \<not> b"
  by (auto simp: optimise_select_def on_chunk_Done last_op_def)

lemma stuck_select_or: "stuck (compile_select_or E rec slot e path_sp path d)"
proof -
  let ?after = "\<lambda>optimised. if optimised then cret ()
       else cbind (compile_select_or_path E rec slot path) (\<lambda>jumps.
            cbind (push_jump OpJump path_sp) (\<lambda>final_jump.
              cseq [cfor jumps c_patch_jump, rec slot d, c_patch_jump final_jump]))"
  have slow: "stuck (?after False)"
    unfolding if_False
    by (rule stuck_later stuck_later_seq stuck_patch_seq compile_select_or_path_outer steps)+
  have "stuck (cbind (optimise_select E path) ?after)"
  proof (rule stuckI)
    fix s u s'
    assume s: "0 < cs_dead_scope s" "head_code s = []" and "cbind (optimise_select E path) ?after s = Done (u, s')"
    then obtain b s1 where o: "optimise_select E path s = Done (b, s1)" and a: "?after b s1 = Done (u, s')"
      by (auto simp: cbind_Done)
    have "\<not> b" by (rule optimise_select_dead [OF s(2) o])
    then show False
      using stuckD [OF slow, of s1] outer_keptD(2,4) [OF keeps_relD [OF optimise_select_outer o]] s a by auto
  qed
  then show ?thesis unfolding compile_select_or_def by (intro stuck_later_then steps)
qed

lemma stuck_lambda_pattern:
  "stuck (compile_lambda_or_thunk E False slot sp (\<lambda>s. compile_lambda E rec s (PPattern psp pat_bind ellipsis entries) body))"
proof (rule stuckI)
  fix s u s'
  assume d: "0 < cs_dead_scope s"
    and c: "compile_lambda_or_thunk E False slot sp (\<lambda>s. compile_lambda E rec s (PPattern psp pat_bind ellipsis entries) body) s
      = Done (u, s')"
  have "stuck (context_end E sp (Some idx))" for idx
    unfolding context_end_def by (auto intro: stuck_later_then keeps_intros stuck_patch_jump)
  then have st: "stuck (cbind (compile_lambda E rec slot (PPattern psp pat_bind ellipsis entries) body) (context_end E sp))" for slot
    unfolding compile_lambda.simps cbind_assoc
    by (rule_tac stuck_later [OF compile_param_pattern_outer])
      (clarsimp simp: cbind_assoc cthen_assoc, intro stuck_later_then rec_outer stuck_later keeps_outer_on_context, auto)
  show False by (rule notE [OF dead_lambda c]) (rule st, rule d)
qed

text \<open>In dead code, an expression that jumps is never compiled.\<close>

lemma dead_jump:
  assumes "emits_jump e" "\<And>sp e'. e \<noteq> EParen sp e'" "0 < cs_dead_scope s"
  shows "compile_optimised E rec recs slot e s \<noteq> Done r"
proof -
  have "stuck (compile_binop rec slot sp op l r)" if "op = BImplication \<or> op = BAnd \<or> op = BOr" for slot sp op l r
    using that by (auto simp: compile_binop_def compile_and_def compile_or_def compile_implication_def stuck_conditionals)
  then have "\<exists>sp content. compile_optimised E rec recs slot e = thunk E slot sp content \<and> (\<forall>s. stuck (content s))"
    using assms(1,2)
    by (cases e rule: emits_jump.cases)
      (fastforce simp: compile_select_def stuck_conditionals stuck_select_or stuck_lambda_pattern
       simp del: compile_lambda.simps)+
  then show ?thesis using dead_thunk assms(3) by metis
qed

lemma optimise_jump:
  assumes "emits_jump e" "optimise_expr rec slot e s = Done (e', s')"
  shows "e' = e"
proof (cases "\<exists>sp op l r. e = EBinOp sp op l r")
  case True
  then show ?thesis using assms
    by (auto simp: optimise_bin_op_def Let_def cbind_Done cret_def split: if_splits)
next
  case False
  then show ?thesis using assms by (cases e) (auto simp: cret_def)
qed

end

lemma compile_dead_jump:
  "emits_jump e \<Longrightarrow> 0 < cs_dead_scope s \<Longrightarrow> compile E fuel slot e s \<noteq> Done r"
proof (induction fuel arbitrary: e s slot)
  case 0
  show ?case by (simp add: cnofuel_def)
next
  case (Suc fuel)
  show ?case
  proof
    assume "compile E (Suc fuel) slot e s = Done r"
    then obtain e' s1 where o: "optimise_expr (compile E fuel) slot e s = Done (e', s1)"
      and c: "compile_optimised E (compile E fuel) (compile_set E fuel) slot e' s1 = Done r"
      by (auto simp: compile_expr_def cbind_Done)
    have "e' = e" by (rule compile_rec.optimise_jump [OF Suc.prems(1) o])
    moreover have d: "0 < cs_dead_scope s1"
      using outer_keptD(2) [OF all_keptD(1) [OF keeps_relD [OF compile_rec.optimise_expr_keeps o]]] Suc.prems(2) by simp
    ultimately show False
      using c Suc.IH [OF _ d] Suc.prems(1) compile_rec.dead_jump [OF Suc.prems(1) _ d] by (cases "\<exists>sp e1. e = EParen sp e1") auto
  qed
qed

lemma is_user_defined_unknown:
  assumes "cs_contexts s = c # cs" "resolve_local (lc_scope c) ident = Some LUnknown"
  shows "is_user_defined ident s = Done (False, s)"
proof -
  have "s\<lparr>cs_contexts := c\<lparr>lc_scope := lc_scope c\<rparr> # cs\<rparr> = s" using assms(1) by simp
  then show ?thesis
    using assms(2) by (simp add: is_user_defined_def c_resolve_local_def on_scope_def on_context_def copt_def cbind_def
        cret_def assms(1))
qed

text \<open>
  C34: An expression that is short-circuited by a literal \<open>true\<close> or \<open>false\<close> on its left is compiled as dead
  code, to report the problems it has. If it has a jump of its own, as every conditional, assertion or
  function with formals has, the program that contains it is never compiled: the compiler panics.
\<close>

theorem dead_jumps_panic:
  assumes "emits_jump e"
    and "op = BOr \<and> literal = ''true'' \<or> op = BAnd \<and> literal = ''false''"
    and "cs_contexts s = c # cs" "resolve_local (lc_scope c) ''true'' = Some LUnknown" "resolve_local (lc_scope c) ''false'' = Some LUnknown"
    and "size (EBinOp sp op (EIdent lsp literal) e) < fuel"
  shows "compile E fuel slot (EBinOp sp op (EIdent lsp literal) e) s = Panic"
proof -
  have False if C: "compile E fuel slot (EBinOp sp op (EIdent lsp literal) e) s = Done r" for r
  proof -
  obtain n where n: "fuel = Suc n" using assms(6) by (cases fuel) auto
  have lit: "is_lit_bool e = LitExpr" using assms(1) by (cases e) auto
  note u = is_user_defined_unknown [OF assms(3)]
  have "compile E n slot e (s\<lparr>cs_warnings := w, cs_dead_scope := Suc (cs_dead_scope s)\<rparr>) \<noteq> Done r'" for w r'
    by (rule compile_dead_jump [OF assms(1)]) simp
  then show False
    using C assms(2) lit u assms(4,5)
    by (auto simp: n compile_expr_def cbind_Done cthen_Done optimise_bin_op_def Let_def cret_def emit_warning_def cmodify_def
        compile_dead_code_def)
  qed
  moreover have "compile E fuel slot (EBinOp sp op (EIdent lsp literal) e) s \<noteq> NoFuel"
    by (rule endsD [OF compile_fuel.rec_fuelled [OF assms(6)]])
  ultimately show ?thesis by (cases "compile E fuel slot (EBinOp sp op (EIdent lsp literal) e) s") auto
qed

definition example_dead :: "(nat, unit) expr" where
  "example_dead = EIfElse 2 (EIdent 3 ''true'') example_int example_int"

theorem dead_jumps_panic_witness:
  "compile example_env 9 0 (EBinOp 1 BOr (EIdent 1 ''true'') example_dead) example_state = Panic"
  using dead_jumps_panic [of example_dead BOr "''true''" example_state
      "lambda_ctx_new\<lparr>lc_scope := snd (declare_phantom 0 False scope_default)\<rparr>" "[]" 1 1 9]
  by (simp add: example_dead_def example_int_def example_state_def resolve_local_def declare_phantom_def scope_default_def)

section \<open>Operands the optimiser drops\<close>

text \<open>
  An operand \<open>true\<close> of \<open>||\<close>, or \<open>false\<close> of \<open>&&\<close>, on the right makes the compiler forget the left operand, whatever
  it is: the code is that of the literal alone, and not even an unknown variable in the left operand
  is reported. The optimiser does this whenever the current function does not bind the two
  names, also when an enclosing function does.
\<close>

theorem absorbing_literal_drops_operand:
  assumes "cs_contexts s = c # cs" "resolve_local (lc_scope c) ''true'' = Some LUnknown" "resolve_local (lc_scope c) ''false'' = Some LUnknown"
    and "(op, literal, warning) = (BOr, ''true'', always_true) \<or> (op, literal, warning) = (BAnd, ''false'', always_false)"
  shows "compile E (Suc n) slot (EBinOp sp op l (EIdent lsp literal)) s =
    compile E (Suc n) slot (EIdent lsp literal) (s\<lparr>cs_warnings := cs_warnings s @ [(warning, sp)]\<rparr>)"
proof -
  note u = is_user_defined_unknown [OF assms(1)]
  have "optimise_bin_op (compile E n) slot sp op l (EIdent lsp literal) s =
      Done (EIdent lsp literal, s\<lparr>cs_warnings := cs_warnings s @ [(warning, sp)]\<rparr>)"
    using assms(4) u [OF assms(2)] u [OF assms(3)]
    by (auto simp: optimise_bin_op_def cbind_def cret_def emit_warning_def cmodify_def Let_def)
  then show ?thesis by (simp add: compile_expr_def cbind_def cret_def)
qed

text \<open>The result of a compilation, without the state.\<close>

fun result_of :: "('a \<times> 's) cres \<Rightarrow> 'a option" where
  "result_of (Done (a, _)) = Some a"
| "result_of _ = None"

text \<open>\<open>let true = false; in (x: undefined || true)\<close>: here \<open>true\<close> is a captured variable, and \<open>undefined\<close> is not bound.\<close>

definition example_rebound :: "(nat, unit) expr \<Rightarrow> (nat, unit) expr" where
  "example_rebound body =
     ELetIn 1 [] [Entry 2 [AIdent 2 ''true''] (EIdent 3 ''false'')] (ELambda 4 (PIdent 5 ''x'') body)"

theorem absorbing_literal_drops_operand_witness:
  "compile example_env 9 0 (EBinOp 1 BOr (EIdent 2 ''undefined'') (EIdent 3 ''true'')) example_state =
     compile example_env 9 0 (EIdent 3 ''true'') (example_state\<lparr>cs_warnings := [(always_true, 1)]\<rparr>)"
  using absorbing_literal_drops_operand [of example_state
      "lambda_ctx_new\<lparr>lc_scope := snd (declare_phantom 0 False scope_default)\<rparr>" "[]" BOr "''true''" always_true example_env 8 0 1]
  by (simp add: example_state_def initial_state_def resolve_local_def declare_phantom_def scope_default_def)

text \<open>The function that rebinds \<open>true\<close> is compiled as if its body were the rebound variable alone.\<close>

lemma example_rebound_dropped:
  "result_of (compile_program example_env 30 []
       (example_rebound (EBinOp 6 BOr (EIdent 7 ''undefined'') (EIdent 8 ''true''))) initial_state) =
     result_of (compile_program example_env 30 [] (example_rebound (EIdent 8 ''true'')) initial_state) \<and>
   result_of (compile_program example_env 30 [] (example_rebound (EIdent 8 ''true'')) initial_state) \<noteq> None"
  by code_simp

section \<open>Nested sets with a plain inherit\<close>

text \<open>
  A nested attribute set is compiled in a context of its own with the slot of the enclosing one
  (\<open>bind_values\<close> in \<open>bindings.rs\<close>); a plain inherit in it that is found through \<open>with\<close> asks that slot for
  its name, which the new context does not have: \<open>with null; { a.b = 1; a = { inherit c; }; }\<close>.
\<close>

definition example_merged :: "(nat, unit) expr" where
  "example_merged = EWith 1 (EIdent 2 ''null'') (EAttrSet 3 False []
     [Entry 4 [AIdent 4 ''a'', AIdent 5 ''b''] example_int,
      Entry 6 [AIdent 6 ''a''] (EAttrSet 7 False [Inherit 8 None [AIdent 9 ''c'']] [])])"

fun panics :: "'a cres \<Rightarrow> bool" where
  "panics Panic = True"
| "panics _ = False"

theorem merged_inherit_panics: "panics (compile_program example_env 30 [] example_merged initial_state)"
  by code_simp

end
