(* ===== verification/Upvalues.thy ===== *)
theory Upvalues
  imports CompilerLayout CompilerFuel
begin

text \<open>
  Upvalue resolution (\<open>resolve_upvalue_for_use\<close> and \<open>add_upvalue\<close> in \<open>eval/src/compiler/bindings.rs\<close>)
  implements lexical scoping. The specification does not mention the index of names that a scope
  keeps: a name is bound by the last declaration of that name in the nearest enclosing context that has one. An
  upvalue is read the way the closure is built at run time: it is a local of the enclosing function
  or an upvalue of that function.
\<close>

section \<open>Specification\<close>

definition unbound :: "string \<Rightarrow> ('sp, 'v) lambda_ctx \<Rightarrow> bool" where
  "unbound name c \<longleftrightarrow> (\<forall>l \<in> set (sc_locals (lc_scope c)). l_name l \<noteq> LIdent name)"

text \<open>The name is bound by local \<open>i\<close> of the \<open>k\<close>-th context outwards.\<close>

definition lexical_binder :: "string \<Rightarrow> ('sp, 'v) lambda_ctx list \<Rightarrow> nat \<Rightarrow> nat \<Rightarrow> bool" where
  "lexical_binder name ctxs k i \<longleftrightarrow>
     k < length ctxs \<and> innermost (sc_locals (lc_scope (ctxs ! k))) name i \<and> (\<forall>c \<in> set (take k ctxs). unbound name c)"

text \<open>The variable an upvalue of the innermost context is captured from: the context, counted outwards from the enclosing one, and its local.\<close>

fun capture :: "('sp, 'v) lambda_ctx list \<Rightarrow> nat \<Rightarrow> (nat \<times> nat) option" where
  "capture [] u = None"
| "capture (c # cs) u =
     (if u < length (sc_upvalues (lc_scope c))
      then case sc_upvalues (lc_scope c) ! u of
             UpLocal i \<Rightarrow> if cs = [] then None else Some (0, i)
           | UpUpvalue v \<Rightarrow> map_option (\<lambda>(k, i). (Suc k, i)) (capture cs v)
      else None)"

definition ctx_inv :: "('sp, 'v) lambda_ctx \<Rightarrow> bool" where
  "ctx_inv c \<longleftrightarrow> scope_inv (lc_scope c) \<and> lc_upvalue_count c = length (sc_upvalues (lc_scope c))"

section \<open>The invariant\<close>

lemma ctx_inv_new [simp]: "ctx_inv lambda_ctx_new" "ctx_inv (lambda_ctx_inherit c)"
  by (simp_all add: ctx_inv_def lambda_ctx_inherit_def lambda_ctx_new_def)
    (simp_all add: scope_default_def scope_inherit_def)

lemma ctx_inv_layout:
  assumes "ctx_inv c" "layout c c'"
  shows "ctx_inv c'"
proof -
  have "scope_inv (lc_scope c')"
    using assms scope_inv_skeleton [of "lc_scope c" "lc_scope c'"] by (simp add: ctx_inv_def layout_def)
  then show ?thesis using assms by (simp add: ctx_inv_def layout_def)
qed

section \<open>Captures\<close>

lemma capture_kept: "list_all2 frame_kept cs cs' \<Longrightarrow> capture cs u = Some p \<Longrightarrow> capture cs' u = Some p"
proof (induction cs arbitrary: cs' u p)
  case (Cons c cs)
  then obtain c' cs'' where cs': "cs' = c' # cs''" "frame_kept c c'" "list_all2 frame_kept cs cs''"
    by (auto simp: list_all2_Cons1)
  then have "prefix (sc_upvalues (lc_scope c)) (sc_upvalues (lc_scope c'))" by (simp add: frame_kept_def layout_def)
  then obtain us where us: "sc_upvalues (lc_scope c') = sc_upvalues (lc_scope c) @ us" by (auto simp: prefix_def)
  show ?case using Cons.prems(2) Cons.IH [OF cs'(3)] cs'(3)
    by (auto simp: cs'(1) us nth_append split: if_splits upvalue_kind.splits)
qed simp

lemma find_upvalue_Some: "find_upvalue kind us = Some u \<Longrightarrow> u < length us \<and> us ! u = kind"
  by (induction us arbitrary: u) (auto split: if_splits)

lemma add_upvalue_spec:
  assumes "ctx_inv c" "add_upvalue kind c = (u, c')"
  shows "u < length (sc_upvalues (lc_scope c'))" "sc_upvalues (lc_scope c') ! u = kind"
  using assms by (auto simp: add_upvalue_def ctx_inv_def nth_append split: option.splits dest: find_upvalue_Some)

lemma lexical_binder_Suc: "unbound name c \<Longrightarrow> lexical_binder name cs k i \<Longrightarrow> lexical_binder name (c # cs) (Suc k) i"
  by (simp add: lexical_binder_def)

lemma lexical_binder_0: "innermost (sc_locals (lc_scope c)) name i \<Longrightarrow> lexical_binder name (c # cs) 0 i"
  by (simp add: lexical_binder_def)

section \<open>Resolution\<close>

definition resolved :: "string \<Rightarrow> ('sp, 'v) lambda_ctx list \<Rightarrow> nat option \<Rightarrow> ('sp, 'v) lambda_ctx list \<Rightarrow> bool" where
  "resolved name cs r ctxs' \<longleftrightarrow>
     (case r of
        None \<Rightarrow> \<forall>c \<in> set cs. unbound name c
      | Some u \<Rightarrow> \<exists>k i. lexical_binder name cs k i \<and> capture ctxs' u = Some (k, i))"

lemma resolve_upvalue_resolved:
  "ctxs = c # cs \<Longrightarrow> \<forall>c \<in> set ctxs. ctx_inv c \<Longrightarrow>
   \<exists>r ctxs'. resolve_upvalue name ctxs = Some (r, ctxs') \<and> resolved name cs r ctxs'"
proof (induction name ctxs arbitrary: c cs rule: resolve_upvalue.induct)
  case (2 name ctx)
  then show ?case by (simp add: resolved_def)
next
  case (3 name ctx parent ctxs)
  have inv: "ctx_inv ctx" "ctx_inv parent" "\<forall>c \<in> set (parent # ctxs). ctx_inv c" and c: "c = ctx" "cs = parent # ctxs"
    using "3.prems" by auto
  note spec = resolve_local_spec [of "lc_scope parent" name]
  have s: "scope_inv (lc_scope parent)" using inv(2) by (simp add: ctx_inv_def)
  have found: ?case if pos: "resolve_local (lc_scope parent) name = Some pos" "pos = LKnown i \<or> pos = LRecursive i" for pos i
  proof -
    have im: "innermost (sc_locals (lc_scope parent)) name i" using spec [OF s] pos by auto
    then have "i < length (sc_locals (lc_scope parent))" by (simp add: innermost_def)
    then obtain sc where m: "mark_used i (lc_scope parent) = Some sc" by (simp add: mark_used_def update_local_def)
    obtain u ctx' where a: "add_upvalue (UpLocal i) ctx = (u, ctx')" by fastforce
    have "capture (ctx' # parent\<lparr>lc_scope := sc\<rparr> # ctxs) u = Some (0, i)" using add_upvalue_spec [OF inv(1) a] by simp
    then show ?thesis using pos m a lexical_binder_0 [OF im] by (auto simp: c resolved_def)
  qed
  show ?case
  proof (cases "resolve_local (lc_scope parent) name")
    case None
    then show ?thesis using spec [OF s] by simp
  next
    case (Some pos)
    show ?thesis
    proof (cases pos)
      case LUnknown
      have un: "unbound name parent" using spec [OF s] Some LUnknown by (simp add: unbound_def)
      obtain r parents where R: "resolve_upvalue name (parent # ctxs) = Some (r, parents)" "resolved name ctxs r parents"
        using "3.IH" [OF Some refl LUnknown refl inv(3)] by blast
      show ?thesis
      proof (cases r)
        case None
        then show ?thesis using R Some LUnknown un by (auto simp: c resolved_def)
      next
        case (Some v)
        then obtain k i where k: "lexical_binder name ctxs k i" "capture parents v = Some (k, i)"
          using R(2) by (auto simp: resolved_def)
        obtain u ctx' where a: "add_upvalue (UpUpvalue v) ctx = (u, ctx')" by fastforce
        have "capture (ctx' # parents) u = Some (Suc k, i)" using add_upvalue_spec [OF inv(1) a] k(2) by simp
        then show ?thesis
          using R(1) Some \<open>resolve_local (lc_scope parent) name = Some pos\<close> LUnknown a lexical_binder_Suc [OF un k(1)]
          by (auto simp: c resolved_def)
      qed
    next
      case (LKnown i)
      then show ?thesis using found [OF Some] by blast
    next
      case (LRecursive i)
      then show ?thesis using found [OF Some] by blast
    qed
  qed
qed simp

text \<open>
  C8: Resolving a name that the current function does not bind never panics. If an enclosing function
  binds it, the index it returns denotes, through the chain of captures, the last
  declaration of that name in the nearest enclosing function that has one; otherwise there is no result.
  Upvalues that were captured before still denote the same variables, and no code is emitted.
\<close>

theorem resolve_upvalue_lexical:
  assumes "\<forall>c \<in> set (c # cs). ctx_inv c"
  shows "\<exists>r ctxs'. resolve_upvalue name (c # cs) = Some (r, ctxs') \<and>
     (case r of
        None \<Rightarrow> \<forall>p \<in> set cs. unbound name p
      | Some u \<Rightarrow> \<exists>k i. lexical_binder name cs k i \<and> capture ctxs' u = Some (k, i)) \<and>
     (\<forall>v p. capture (c # cs) v = Some p \<longrightarrow> capture ctxs' v = Some p) \<and>
     (\<forall>p \<in> set ctxs'. ctx_inv p) \<and> map lc_chunk ctxs' = map lc_chunk (c # cs)"
proof -
  obtain r ctxs' where r: "resolve_upvalue name (c # cs) = Some (r, ctxs')" and R: "resolved name cs r ctxs'"
    using resolve_upvalue_resolved [OF refl assms] by blast
  note k = frames_resolve_upvalue [OF r]
  have inv: "\<forall>p \<in> set ctxs'. ctx_inv p"
  proof
    fix p assume "p \<in> set ctxs'"
    then obtain q where "q \<in> set (c # cs)" "frame_kept q p" using k by (metis list_all2_conv_all_nth in_set_conv_nth)
    then show "ctx_inv p" using assms ctx_inv_layout by (auto simp: frame_kept_def)
  qed
  have ch: "map lc_chunk ctxs' = map lc_chunk (c # cs)"
    using k by (induction rule: list_all2_induct) (simp_all add: frame_kept_def)
  show ?thesis using r R capture_kept [OF k] inv ch unfolding resolved_def by blast
qed

text \<open>Two functions inside one that declares \<open>x\<close>.\<close>

definition example_outer :: "(nat, unit) lambda_ctx" where
  "example_outer = lambda_ctx_new\<lparr>lc_scope := snd (declare_constant ''x'' scope_default)\<rparr>"

definition example_contexts :: "(nat, unit) lambda_ctx list" where
  "example_contexts = [lambda_ctx_new, lambda_ctx_new, example_outer]"

lemma example_contexts_inv: "\<forall>c \<in> set example_contexts. ctx_inv c"
  using scope_inv_constant [OF scope_inv_default, of "''x''"]
  by (simp add: example_contexts_def example_outer_def ctx_inv_def lambda_ctx_new_def)
    (simp add: declare_constant_def scope_default_def Let_def)

theorem resolve_upvalue_lexical_witness:
  "\<exists>r ctxs'. resolve_upvalue ''x'' example_contexts = Some (r, ctxs') \<and> r \<noteq> None \<and>
     (\<forall>u. r = Some u \<longrightarrow> (\<exists>k i. lexical_binder ''x'' (tl example_contexts) k i \<and> capture ctxs' u = Some (k, i)))"
proof -
  note inv = example_contexts_inv
  have b: "\<not> unbound ''x'' example_outer"
    by (simp add: unbound_def example_outer_def declare_constant_def scope_default_def)
  obtain r ctxs' where r: "resolve_upvalue ''x'' example_contexts = Some (r, ctxs')"
    and R: "case r of None \<Rightarrow> \<forall>p \<in> set (tl example_contexts). unbound ''x'' p
      | Some u \<Rightarrow> \<exists>k i. lexical_binder ''x'' (tl example_contexts) k i \<and> capture ctxs' u = Some (k, i)"
    using resolve_upvalue_lexical [of lambda_ctx_new "[lambda_ctx_new, example_outer]" "''x''"] inv
    unfolding example_contexts_def list.sel by blast
  show ?thesis using r R b by (cases r) (auto simp: example_contexts_def)
qed

section \<open>Identifiers\<close>

lemma innermost_unique: "innermost ls n i \<Longrightarrow> innermost ls n j \<Longrightarrow> j = i"
  unfolding innermost_def by (metis linorder_neqE_nat)

lemma innermost_not_unbound: "innermost (sc_locals (lc_scope c)) n i \<Longrightarrow> \<not> unbound n c"
  by (auto simp: innermost_def unbound_def)

lemma lexical_binder_unique:
  assumes "lexical_binder name cs k i" "lexical_binder name cs k' i'"
  shows "k' = k \<and> i' = i"
proof -
  have later: "\<not> k < k'" if "lexical_binder name cs k i" "lexical_binder name cs k' i'" for k i k' i'
  proof
    assume "k < k'"
    then have "take k' cs ! k = cs ! k" "k < length (take k' cs)" using that by (simp_all add: lexical_binder_def)
    then have "cs ! k \<in> set (take k' cs)" by (metis nth_mem)
    then show False using that innermost_not_unbound [of "cs ! k" name i] by (simp add: lexical_binder_def)
  qed
  have k: "k' = k" using later [OF assms] later [OF assms(2,1)] by simp
  have "i' = i" using innermost_unique [of "sc_locals (lc_scope (cs ! k))" name i i'] assms k by (simp add: lexical_binder_def)
  with k show ?thesis by simp
qed

lemma lexical_binder_not_unbound: "lexical_binder name cs k i \<Longrightarrow> \<exists>p \<in> set cs. \<not> unbound name p"
  unfolding lexical_binder_def using innermost_not_unbound nth_mem by blast

lemma resolve_local_unbound: "ctx_inv c \<Longrightarrow> unbound name c \<Longrightarrow> resolve_local (lc_scope c) name = Some LUnknown"
  using resolve_local_spec [of "lc_scope c" name]
  by (fastforce simp: ctx_inv_def unbound_def innermost_def split: option.splits local_position.splits)

lemma mark_dynamic_none: "\<forall>c \<in> set ctxs. \<not> scope_has_with (lc_scope c) \<Longrightarrow> mark_dynamic False ctxs = (False, ctxs)"
  by (induction ctxs) auto

text \<open>Code of the innermost context after an operation with one number as its operand.\<close>

lemma push_with_operand:
  assumes "cs_contexts s = c # cs" "cs_dead_scope s = 0"
  shows "\<exists>c'. cthen (c_push_op op sp) (c_push_uvarint E n) s = Done ((), s\<lparr>cs_contexts := c' # cs\<rparr>) \<and>
     lc_scope c' = lc_scope c \<and> ch_constants (lc_chunk c') = ch_constants (lc_chunk c) \<and>
     ch_code (lc_chunk c') = ch_code (lc_chunk c) @ op_u8 op # ce_encode E n"
proof -
  obtain i ch where p: "push_op op sp (lc_chunk c) = (i, ch)" by fastforce
  then have "ch_code ch = ch_code (lc_chunk c) @ [op_u8 op]" "ch_constants ch = ch_constants (lc_chunk c)"
    using push_op_fields [of op sp "lc_chunk c"] by simp_all
  then have "cthen (c_push_op op sp) (c_push_uvarint E n) s =
       Done ((), s\<lparr>cs_contexts := c\<lparr>lc_chunk := ch\<lparr>ch_code := ch_code (lc_chunk c) @ op_u8 op # ce_encode E n\<rparr>\<rparr> # cs\<rparr>)"
    using assms p
    by (simp add: cthen_def cbind_def c_push_op_def c_push_uvarint_def unless_dead_def cget_def on_chunk_def on_context_def
        copt_def push_uvarint_def)
  then show ?thesis using \<open>ch_constants ch = ch_constants (lc_chunk c)\<close>
    by (intro exI [of _ "c\<lparr>lc_chunk := ch\<lparr>ch_code := ch_code (lc_chunk c) @ op_u8 op # ce_encode E n\<rparr>\<rparr>"]) simp
qed

lemma resolve_local_now:
  "cs_contexts s = c # cs \<Longrightarrow> ctx_inv c \<Longrightarrow> unbound name c \<Longrightarrow> c_resolve_local name s = Done (LUnknown, s)"
  by (simp add: c_resolve_local_def on_scope_def on_context_def copt_def resolve_local_unbound)

lemma resolve_upvalue_now:
  assumes "cs_contexts s = c # cs" "\<forall>p \<in> set (c # cs). ctx_inv p"
  shows "\<exists>r c' cs'. c_resolve_upvalue name s = Done (r, s\<lparr>cs_contexts := c' # cs'\<rparr>) \<and> resolved name cs r (c' # cs') \<and>
     list_all2 frame_kept (c # cs) (c' # cs')"
proof -
  obtain r ctxs' where r: "resolve_upvalue name (c # cs) = Some (r, ctxs')" and R: "resolved name cs r ctxs'"
    using resolve_upvalue_resolved [OF refl assms(2)] by blast
  note k = frames_resolve_upvalue [OF r]
  then obtain c' cs' where "ctxs' = c' # cs'" by (auto simp: list_all2_Cons1)
  then have "c_resolve_upvalue name s = Done (r, s\<lparr>cs_contexts := c' # cs'\<rparr>)" "resolved name cs r (c' # cs')"
    "list_all2 frame_kept (c # cs) (c' # cs')"
    using r R k assms(1) by (simp_all add: c_resolve_upvalue_def copt_def)
  then show ?thesis by blast
qed

text \<open>The code that \<open>compile_identifier_access\<close> emits for a name that the current function does not bind.\<close>

definition reads_upvalue ::
  "('sp, 'v) cenv \<Rightarrow> ('sp, 'v) lambda_ctx \<Rightarrow> ('sp, 'v) lambda_ctx list \<Rightarrow> nat \<times> nat \<Rightarrow> bool" where
  "reads_upvalue E c ctxs' p \<longleftrightarrow>
     (\<exists>u. capture ctxs' u = Some p \<and>
        ch_code (lc_chunk (hd ctxs')) = ch_code (lc_chunk c) @ op_u8 OpGetUpvalue # ce_encode E (of_nat u))"

definition reads_constant ::
  "('sp, 'v) cenv \<Rightarrow> ('sp, 'v) lambda_ctx \<Rightarrow> ('sp, 'v) lambda_ctx list \<Rightarrow> ('sp, 'v) const \<Rightarrow> bool" where
  "reads_constant E c ctxs' k \<longleftrightarrow>
     ch_constants (lc_chunk (hd ctxs')) = ch_constants (lc_chunk c) @ [k] \<and>
     ch_code (lc_chunk (hd ctxs')) =
       ch_code (lc_chunk c) @ op_u8 OpConstant # ce_encode E (of_nat (length (ch_constants (lc_chunk c))))"

lemma emit_constant_now:
  assumes "cs_contexts s = c # cs" "cs_dead_scope s = 0"
  shows "\<exists>c'. emit_constant E k sp s = Done ((), s\<lparr>cs_contexts := c' # cs\<rparr>) \<and> reads_constant E c (c' # cs) k"
proof -
  let ?c = "c\<lparr>lc_chunk := snd (push_constant k (lc_chunk c))\<rparr>" and ?n = "length (ch_constants (lc_chunk c))"
  obtain c' where p: "cthen (c_push_op OpConstant sp) (c_push_uvarint E (of_nat ?n)) (s\<lparr>cs_contexts := ?c # cs\<rparr>) =
        Done ((), s\<lparr>cs_contexts := c' # cs\<rparr>)"
      "ch_constants (lc_chunk c') = ch_constants (lc_chunk ?c)"
      "ch_code (lc_chunk c') = ch_code (lc_chunk ?c) @ op_u8 OpConstant # ce_encode E (of_nat ?n)"
    using push_with_operand [of "s\<lparr>cs_contexts := ?c # cs\<rparr>" ?c cs OpConstant sp E "of_nat ?n"] assms(2) by auto
  have "emit_constant E k sp s = Done ((), s\<lparr>cs_contexts := c' # cs\<rparr>)"
    using assms p(1)
    by (simp add: emit_constant_def unless_dead_def cbind_def cget_def on_chunk_def on_context_def copt_def push_constant_def)
  moreover have "reads_constant E c (c' # cs) k" using p(2,3) by (simp add: reads_constant_def push_constant_def)
  ultimately show ?thesis by blast
qed

lemma unbound_not_resolved: "resolved name cs r ctxs' \<Longrightarrow> \<forall>p \<in> set cs. unbound name p \<Longrightarrow> r = None"
  using lexical_binder_not_unbound by (cases r) (fastforce simp: resolved_def)+

text \<open>The three ways to compile an identifier that is not a local.\<close>

lemma identifier_upvalue:
  assumes "cs_contexts s = c # cs" "\<forall>p \<in> set (c # cs). ctx_inv p" "cs_dead_scope s = 0" "unbound ident c"
    "lexical_binder ident cs k i"
  shows "\<exists>ctxs'. compile_identifier_access E slot ident sp s = Done ((), s\<lparr>cs_contexts := ctxs'\<rparr>) \<and> reads_upvalue E c ctxs' (k, i)"
proof -
  obtain r c' cs' where r: "c_resolve_upvalue ident s = Done (r, s\<lparr>cs_contexts := c' # cs'\<rparr>)"
    and R: "resolved ident cs r (c' # cs')" and kept: "list_all2 frame_kept (c # cs) (c' # cs')"
    using resolve_upvalue_now [OF assms(1,2)] by blast
  let ?s = "s\<lparr>cs_contexts := c' # cs'\<rparr>"
  obtain u where u: "r = Some u" "capture (c' # cs') u = Some (k, i)"
    using R lexical_binder_not_unbound [OF assms(5)] lexical_binder_unique [OF assms(5)] by (auto simp: resolved_def split: option.splits)
  obtain c2 where p: "cthen (c_push_op OpGetUpvalue sp) (c_push_uvarint E (of_nat u)) ?s = Done ((), ?s\<lparr>cs_contexts := c2 # cs'\<rparr>)"
    "lc_scope c2 = lc_scope c'" "ch_code (lc_chunk c2) = ch_code (lc_chunk c') @ op_u8 OpGetUpvalue # ce_encode E (of_nat u)"
    using push_with_operand [of ?s c' cs' OpGetUpvalue sp E "of_nat u"] assms(3) by auto
  have "capture (c2 # cs') u = Some (k, i)" using u(2) by (simp only: capture.simps p(2))
  moreover have "lc_chunk c' = lc_chunk c" using kept by (simp add: frame_kept_def)
  ultimately have "reads_upvalue E c (c2 # cs') (k, i)" unfolding reads_upvalue_def by (intro exI [of _ u]) (simp add: p(3))
  moreover have "compile_identifier_access E slot ident sp s = Done ((), s\<lparr>cs_contexts := c2 # cs'\<rparr>)"
    using resolve_local_now [OF assms(1) _ assms(4)] assms(2) r p(1) u(1) by (simp add: compile_identifier_access_def cbind_def)
  ultimately show ?thesis by blast
qed

lemma identifier_global:
  assumes "cs_contexts s = c # cs" "\<forall>p \<in> set (c # cs). ctx_inv p" "cs_dead_scope s = 0" "\<forall>p \<in> set (c # cs). unbound ident p"
    "ce_globals E ident = Some g"
  shows "\<exists>ctxs'. compile_identifier_access E slot ident sp s = Done ((), s\<lparr>cs_contexts := ctxs'\<rparr>) \<and> reads_constant E c ctxs' g"
proof -
  obtain r c' cs' where r: "c_resolve_upvalue ident s = Done (r, s\<lparr>cs_contexts := c' # cs'\<rparr>)"
    and R: "resolved ident cs r (c' # cs')" and kept: "list_all2 frame_kept (c # cs) (c' # cs')"
    using resolve_upvalue_now [OF assms(1,2)] by blast
  have none: "r = None" using unbound_not_resolved [OF R] assms(4) by simp
  let ?s = "s\<lparr>cs_contexts := c' # cs'\<rparr>"
  obtain c2 where e: "emit_constant E g sp ?s = Done ((), ?s\<lparr>cs_contexts := c2 # cs'\<rparr>)" "reads_constant E c' (c2 # cs') g"
    using emit_constant_now [of ?s c' cs' E g sp] assms(3) by auto
  have "reads_constant E c (c2 # cs') g" using e(2) kept by (simp add: reads_constant_def frame_kept_def)
  moreover have "compile_identifier_access E slot ident sp s = Done ((), s\<lparr>cs_contexts := c2 # cs'\<rparr>)"
    using resolve_local_now [OF assms(1)] assms(2,4,5) r e(1) none by (simp add: compile_identifier_access_def cbind_def)
  ultimately show ?thesis by blast
qed

lemma identifier_unknown:
  assumes "cs_contexts s = c # cs" "\<forall>p \<in> set (c # cs). ctx_inv p" "\<forall>p \<in> set (c # cs). unbound ident p"
    "ce_globals E ident = None" "\<forall>p \<in> set (c # cs). \<not> scope_has_with (lc_scope p)"
  shows "\<exists>ctxs'. compile_identifier_access E slot ident sp s =
       Done ((), s\<lparr>cs_contexts := ctxs', cs_errors := cs_errors s @ [(UnknownStaticVariable, sp)]\<rparr>) \<and>
       map lc_chunk ctxs' = map lc_chunk (c # cs)"
proof -
  obtain r c' cs' where r: "c_resolve_upvalue ident s = Done (r, s\<lparr>cs_contexts := c' # cs'\<rparr>)"
    and R: "resolved ident cs r (c' # cs')" and kept: "list_all2 frame_kept (c # cs) (c' # cs')"
    using resolve_upvalue_now [OF assms(1,2)] by blast
  have none: "r = None" using unbound_not_resolved [OF R] assms(3) by simp
  let ?s = "s\<lparr>cs_contexts := c' # cs'\<rparr>"
  have with_kept: "\<forall>p \<in> set (c' # cs'). \<not> scope_has_with (lc_scope p)" and ch: "map lc_chunk (c' # cs') = map lc_chunk (c # cs)"
    using kept assms(5)
    by (induction rule: list_all2_induct) (auto simp: frame_kept_def layout_def scope_has_with_def)
  have "has_dynamic_ancestor ?s = Done (False, ?s)"
    using mark_dynamic_none [of "rev (c' # cs')"] with_kept by (simp add: has_dynamic_ancestor_def)
  then have "compile_identifier_access E slot ident sp s =
       Done ((), s\<lparr>cs_contexts := c' # cs', cs_errors := cs_errors s @ [(UnknownStaticVariable, sp)]\<rparr>)"
    using resolve_local_now [OF assms(1)] assms(2,3,4) r none
    by (simp add: compile_identifier_access_def cbind_def emit_error_def cmodify_def)
  then show ?thesis using ch by blast
qed

text \<open>
  An identifier that the current function does not bind becomes: a read of an upvalue that
  denotes the variable lexical scoping binds it to; or else the constant of a global of
  that name; or else, outside of every \<open>with\<close>, an error for an unknown variable and no code.
\<close>

theorem identifier_access_lexical:
  assumes "cs_contexts s = c # cs" "\<forall>p \<in> set (c # cs). ctx_inv p" "cs_dead_scope s = 0" "unbound ident c"
  shows "(\<forall>k i. lexical_binder ident cs k i \<longrightarrow>
       (\<exists>ctxs'. compile_identifier_access E slot ident sp s = Done ((), s\<lparr>cs_contexts := ctxs'\<rparr>) \<and> reads_upvalue E c ctxs' (k, i))) \<and>
     ((\<forall>p \<in> set cs. unbound ident p) \<longrightarrow>
       (case ce_globals E ident of
          Some global \<Rightarrow> \<exists>ctxs'. compile_identifier_access E slot ident sp s = Done ((), s\<lparr>cs_contexts := ctxs'\<rparr>) \<and> reads_constant E c ctxs' global
        | None \<Rightarrow> (\<forall>p \<in> set (c # cs). \<not> scope_has_with (lc_scope p)) \<longrightarrow>
            (\<exists>ctxs'. compile_identifier_access E slot ident sp s =
               Done ((), s\<lparr>cs_contexts := ctxs', cs_errors := cs_errors s @ [(UnknownStaticVariable, sp)]\<rparr>) \<and>
               map lc_chunk ctxs' = map lc_chunk (c # cs))))"
  using identifier_upvalue [OF assms] identifier_global [OF assms(1-3)] identifier_unknown [OF assms(1,2)] assms(4)
  by (auto split: option.split)

theorem identifier_access_lexical_witness:
  "\<exists>ctxs'. compile_identifier_access example_env 0 ''x'' 7 (initial_state\<lparr>cs_contexts := example_contexts\<rparr>) =
     Done ((), initial_state\<lparr>cs_contexts := ctxs'\<rparr>) \<and> reads_upvalue example_env lambda_ctx_new ctxs' (1, 0)"
proof -
  let ?s = "initial_state\<lparr>cs_contexts := example_contexts\<rparr>" and ?cs = "[lambda_ctx_new, example_outer]"
  have u: "unbound ''x'' (lambda_ctx_new :: (nat, unit) lambda_ctx)"
    by (simp add: unbound_def lambda_ctx_new_def scope_default_def)
  have "lexical_binder ''x'' ?cs 1 0"
    using u by (simp add: lexical_binder_def innermost_def example_outer_def declare_constant_def scope_default_def Let_def) auto
  moreover have "cs_contexts ?s = lambda_ctx_new # ?cs" "\<forall>p \<in> set (lambda_ctx_new # ?cs). ctx_inv p" "cs_dead_scope ?s = 0"
    using example_contexts_inv by (simp_all add: example_contexts_def initial_state_def)
  ultimately show ?thesis
    using identifier_access_lexical [of ?s lambda_ctx_new ?cs "''x''" example_env 0 7] u by (auto simp: example_contexts_def)
qed

end
