(* ===== verification/Traversal.thy ===== *)
theory Traversal
  imports Ingest
begin

text \<open>
  Walking through directories that are stored by digest: \<^verbatim>\<open>castore/src/directoryservice/traversal\<close>.
  The lookup of a directory is a parameter, as it is in the code (a closure, or a directory
  service); it may fail, or not find the directory. The stream of \<open>root_to_leaves\<close> is the list of what
  it yields; the loop carries fuel, and the number of directories is shown to be enough.

  The interface of a store that holds a tree is the locale \<open>directory_store\<close>. It is interpreted on the
  directories that a validated upload has received, so that the theorems compose with the ingestion of
  a tree and with the validator of the receiving side.
\<close>

datatype (plugins only: code size) 'e traversal_error = GetFailure b3_digest 'e | TraversalNotFound b3_digest

type_synonym 'e get_directory = "b3_digest \<Rightarrow> ('e, cdirectory option) res"

section \<open>Descending to a path\<close>

fun descend :: "'e get_directory \<Rightarrow> cnode \<Rightarrow> path_component list \<Rightarrow> ('e traversal_error, cnode option) res" where
  "descend get parent_node [] = Inr (Some parent_node)"
| "descend get (CFile _ _ _) (component # components) = Inr None"
| "descend get (CSymlink _) (component # components) = Inr None"
| "descend get (CDirectory digest _) (component # components) =
     (case get digest of
        Inl e \<Rightarrow> Inl (GetFailure digest e)
      | Inr None \<Rightarrow> Inl (TraversalNotFound digest)
      | Inr (Some directory) \<Rightarrow>
          (case find (\<lambda>(name, _). name = component) directory of
             Some (_, child_node) \<Rightarrow> descend get child_node components
           | None \<Rightarrow> Inr None))"

definition descend_to :: "'e get_directory \<Rightarrow> cnode \<Rightarrow> castore_path \<Rightarrow> ('e traversal_error, cnode option) res" where
  "descend_to get root_node path = descend get root_node (path_components path)"

section \<open>All directories, root first\<close>

fun bfs_enqueue :: "cdirectory \<Rightarrow> b3_digest list \<Rightarrow> b3_digest set \<Rightarrow> b3_digest list" where
  "bfs_enqueue [] worklist sent = worklist"
| "bfs_enqueue ((_, CDirectory child_digest _) # nodes) worklist sent =
     (if child_digest \<in> set worklist \<or> child_digest \<in> sent then bfs_enqueue nodes worklist sent
      else bfs_enqueue nodes (worklist @ [child_digest]) sent)"
| "bfs_enqueue (_ # nodes) worklist sent = bfs_enqueue nodes worklist sent"

fun bfs_loop ::
  "nat \<Rightarrow> 'e get_directory \<Rightarrow> b3_digest \<Rightarrow> b3_digest list \<Rightarrow> b3_digest set \<Rightarrow> ('e traversal_error, cdirectory) res list option" where
  "bfs_loop fuel get root_digest [] sent = Some []"
| "bfs_loop 0 get root_digest (digest # worklist) sent = None"
| "bfs_loop (Suc fuel) get root_digest (digest # worklist) sent =
     (case get digest of
        Inl e \<Rightarrow> Some [Inl (GetFailure digest e)]
      | Inr None \<Rightarrow> if digest = root_digest then Some [] else Some [Inl (TraversalNotFound digest)]
      | Inr (Some directory) \<Rightarrow>
          let sent = insert digest sent
          in map_option ((#) (Inr directory)) (bfs_loop fuel get root_digest (bfs_enqueue directory worklist sent) sent))"

definition root_to_leaves :: "nat \<Rightarrow> 'e get_directory \<Rightarrow> b3_digest \<Rightarrow> ('e traversal_error, cdirectory) res list option" where
  "root_to_leaves fuel get root_digest = bfs_loop fuel get root_digest [root_digest] {}"

section \<open>Trees in a store\<close>

text \<open>The part of a tree at a path.\<close>

fun fs_sub :: "fs_tree \<Rightarrow> path_component list \<Rightarrow> fs_tree option" where
  "fs_sub t [] = Some t"
| "fs_sub (FsDir es) (c # cs) = Option.bind (map_of es c) (\<lambda>t. fs_sub t cs)"
| "fs_sub _ (c # cs) = None"

lemma find_unique: "x \<in> set xs \<Longrightarrow> P x \<Longrightarrow> (\<And>y. y \<in> set xs \<Longrightarrow> P y \<Longrightarrow> y = x) \<Longrightarrow> find P xs = Some x"
proof (induction xs)
  case (Cons a xs)
  show ?case
  proof (cases "P a")
    case True
    then show ?thesis using Cons.prems(3) [of a] by simp
  next
    case False
    then have x: "x \<in> set xs" using Cons.prems(1,2) by auto
    have "y = x" if "y \<in> set xs" "P y" for y by (rule Cons.prems(3)) (use that in simp_all)
    from Cons.IH [OF x Cons.prems(2) this] False show ?thesis by simp
  qed
qed simp

lemma find_fs_dir:
  assumes "distinct (map fst es)"
  shows "find (\<lambda>(name, _). name = c) (fs_dir H es) = map_option (\<lambda>t. (c, fs_node H t)) (map_of es c)"
proof (cases "map_of es c")
  case None
  then have "c \<notin> fst ` set (fs_dir H es)" by (simp add: fs_dir_names map_of_eq_None_iff)
  then show ?thesis using None by (force simp: find_None_iff)
next
  case (Some t)
  then have t: "(c, t) \<in> set es" by (rule map_of_SomeD)
  then have mem: "(c, fs_node H t) \<in> set (fs_dir H es)" by (force simp: fs_dir_set)
  have uniq: "n = fs_node H t" if "(c, n) \<in> set (fs_dir H es)" for n
    using that assms t by (auto simp: fs_dir_set dest: eq_key_imp_eq_value)
  have "find (\<lambda>(name, _). name = c) (fs_dir H es) = Some (c, fs_node H t)"
  proof (rule find_unique [OF mem])
    fix y assume y: "y \<in> set (fs_dir H es)" and "case y of (name, _) \<Rightarrow> name = c"
    then obtain n where n: "y = (c, n)" by (auto split: prod.splits)
    show "y = (c, fs_node H t)" using uniq [of n] y n by simp
  qed simp
  then show ?thesis using Some by simp
qed

lemma bfs_enqueue_spec:
  "distinct wl \<Longrightarrow> distinct (bfs_enqueue d wl sent) \<and>
     set (bfs_enqueue d wl sent) = set wl \<union> (fst ` dir_pointers d - sent)"
  by (induction d wl sent rule: bfs_enqueue.induct) auto

text \<open>
  The traversal of a closed set of directories: what is still to come is the rest of the set
  that can be reached, in an order in which every directory follows one that refers to it.
\<close>

lemma bfs_loop_spec:
  assumes store: "\<And>d. d \<in> D \<Longrightarrow> get (H d) = Inr (Some d)" and closed: "targets D \<subseteq> H ` D"
    and sizes: "\<And>d. d \<in> D \<Longrightarrow> directory_size d \<noteq> None" and inj: "inj_on H D" and fin: "finite D"
  shows "distinct wl \<Longrightarrow> set wl \<subseteq> H ` (D - R) \<Longrightarrow> R \<subseteq> D \<Longrightarrow> (\<forall>g \<in> set wl. g = r \<or> g \<in> targets R) \<Longrightarrow>
     targets R \<subseteq> H ` R \<union> set wl \<Longrightarrow> card (D - R) \<le> fuel \<Longrightarrow>
     \<exists>ds. bfs_loop fuel get r wl (H ` R) = Some (map Inr ds) \<and> distinct ds \<and> set ds \<subseteq> D - R \<and> parents_first H r R ds \<and>
       set wl \<subseteq> H ` set ds \<and> targets (R \<union> set ds) \<subseteq> H ` (R \<union> set ds)"
proof (induction fuel arbitrary: wl R)
  case 0
  then have "D - R = {}" using fin by (simp add: card_eq_0_iff)
  then have "wl = []" using "0.prems"(2) by (metis image_empty set_empty subset_empty)
  then show ?case using "0.prems" by (intro exI [of _ "[]"]) auto
next
  case (Suc fuel)
  show ?case
  proof (cases wl)
    case Nil
    then show ?thesis using Suc.prems by (intro exI [of _ "[]"]) auto
  next
    case (Cons g wl')
    obtain d where d: "d \<in> D" "d \<notin> R" "g = H d" using Suc.prems(2) Cons by auto
    let ?R = "insert d R" and ?wl = "bfs_enqueue d wl' (H ` insert d R)"
    note e = bfs_enqueue_spec [of wl' d "H ` ?R"]
    have dist: "distinct wl'" "g \<notin> set wl'" using Suc.prems(1) Cons by auto
    have wl: "set ?wl = set wl' \<union> (fst ` dir_pointers d - H ` ?R)" "distinct ?wl" using e dist(1) by simp_all
    have ptr: "fst ` dir_pointers d \<subseteq> H ` D" using closed d(1) by (auto simp: targets_def)
    have "set wl' \<subseteq> H ` (D - ?R)" using Suc.prems(2) dist(2) by (auto simp: Cons d(3))
    then have sub: "set ?wl \<subseteq> H ` (D - ?R)" unfolding wl(1) using ptr by blast
    have R: "?R \<subseteq> D" using Suc.prems(3) d(1) by simp
    have from_parent: "\<forall>g \<in> set ?wl. g = r \<or> g \<in> targets ?R" using Suc.prems(4) unfolding wl(1) Cons by auto
    have seen: "targets ?R \<subseteq> H ` ?R \<union> set ?wl" using Suc.prems(5) unfolding wl(1) Cons d(3) by auto
    have "card (D - ?R) \<le> fuel" using Suc.prems(6) d(1,2) fin card_Diff_insert [of d D R] by simp
    from Suc.IH [OF wl(2) sub R from_parent seen this] obtain ds where
      ds: "bfs_loop fuel get r ?wl (H ` ?R) = Some (map Inr ds)" "distinct ds" "set ds \<subseteq> D - ?R" "parents_first H r ?R ds"
        "set ?wl \<subseteq> H ` set ds" "targets (?R \<union> set ds) \<subseteq> H ` (?R \<union> set ds)" by blast
    have "bfs_loop (Suc fuel) get r wl (H ` R) = Some (map Inr (d # ds))"
      using store [OF d(1)] ds(1) by (simp add: Cons d(3) Let_def)
    moreover have "parents_first H r R (d # ds)" using ds(4) sizes [OF d(1)] Suc.prems(4) Cons d(3) by auto
    moreover have "set wl \<subseteq> H ` set (d # ds)" using ds(5) unfolding wl(1) Cons d(3) by auto
    ultimately show ?thesis using ds(2,3,6) d(1,2) by (intro exI [of _ "d # ds"]) auto
  qed
qed

section \<open>The directories of a tree\<close>

lemma finite_fs_dirs: "finite (fs_dirs H t)"
  by (induction t) auto

lemma fs_dirs_sizes: "fs_wf H t \<Longrightarrow> d \<in> fs_dirs H t \<Longrightarrow> directory_size d \<noteq> None"
  by (induction t) auto

lemma fs_dirs_pointers:
  "fs_wf H t \<Longrightarrow> d \<in> fs_dirs H t \<Longrightarrow> (g, m) \<in> dir_pointers d \<Longrightarrow> \<exists>r \<in> fs_dirs H t. g = H r \<and> directory_size r = Some m"
proof (induction t)
  case (FsDir es)
  show ?case
  proof (cases "d = fs_dir H es")
    case True
    then show ?thesis
      using validated.fs_dir_pointers [OF FsDir.prems(1), of g m "fs_dirs H (FsDir es)"] FsDir.prems(3) by (auto simp: subset_insertI2)
  next
    case False
    then obtain e where e: "e \<in> set es" "d \<in> fs_dirs H (snd e)" using FsDir.prems(2) by auto
    have "fs_wf H (snd e)" using FsDir.prems(1) e(1) by simp
    then obtain r where "r \<in> fs_dirs H (snd e)" "g = H r" "directory_size r = Some m"
      using FsDir.IH [of e "snd e"] e FsDir.prems(3) by (auto simp: snds.simps)
    then show ?thesis using e(1) by auto
  qed
qed auto

lemma fs_dirs_closed: "fs_wf H t \<Longrightarrow> targets (fs_dirs H t) \<subseteq> H ` fs_dirs H t"
  unfolding targets_def using fs_dirs_pointers by fastforce

lemma fs_dirs_reached:
  assumes "inj_on H D" "targets R \<subseteq> H ` R" "R \<subseteq> D"
  shows "fs_dirs H t \<subseteq> D \<Longrightarrow> t = FsDir es \<Longrightarrow> fs_dir H es \<in> R \<Longrightarrow> fs_dirs H t \<subseteq> R"
proof (induction t arbitrary: es)
  case (FsDir es0)
  have "fs_dirs H (snd e) \<subseteq> R" if e: "e \<in> set es0" for e
  proof (cases "snd e")
    case s: (FsDir es2)
    obtain m where "(H (fs_dir H es2), m) \<in> dir_pointers (fs_dir H es0)"
      using e s by (force simp: dir_pointers_def fs_dir_set fs_node_dir)
    then have "H (fs_dir H es2) \<in> H ` R" using FsDir.prems(2,3) assms(2) by (force simp: targets_def)
    moreover have D: "fs_dirs H (snd e) \<subseteq> D" using FsDir.prems(1) e by auto
    ultimately have "fs_dir H es2 \<in> R" using assms(1,3) s by (auto simp: inj_on_def)
    then show ?thesis using FsDir.IH [of e "snd e" es2] e s D by (simp add: snds.simps)
  qed simp_all
  then show ?case using FsDir.prems(2,3) by auto
qed auto

lemma tree_root_not_target:
  assumes "fs_wf H (FsDir es)" "inj_on H (fs_dirs H (FsDir es))"
  shows "H (fs_dir H es) \<notin> targets (fs_dirs H (FsDir es))"
proof -
  have name: "pc_ok ''root''" by (simp add: pc_ok_def pc_validate_name_def PC_MAX_NAME_LEN_def)
  obtain L where "children_first H {} L" "set L = fs_dirs H (FsDir es)"
    using validated.ingest_tree [OF name assms, where 'e = unit] by (force split: option.splits)
  then show ?thesis using validated.tree_single_root [of H L es] assms(2) by simp
qed

lemma fs_dirs_sizes_consistent:
  assumes "fs_wf H t" "inj_on H (fs_dirs H t)"
  shows "sizes_consistent H (fs_dirs H t)"
  unfolding sizes_consistent_def
proof (intro ballI, clarify)
  fix d g m e
  assume "d \<in> fs_dirs H t" "(H e, m) \<in> dir_pointers d" "e \<in> fs_dirs H t"
  then show "directory_size e = Some m"
    using fs_dirs_pointers [OF assms(1)] assms(2) by (fastforce simp: inj_on_def)
qed

section \<open>A store that holds a tree\<close>

locale directory_store =
  fixes H :: "cdirectory \<Rightarrow> b3_digest" and get :: "'s \<Rightarrow> 'e get_directory" and held :: "'s \<Rightarrow> cdirectory set"
  assumes get_held: "inj_on H (held s) \<Longrightarrow> d \<in> held s \<Longrightarrow> get s (H d) = Inr (Some d)"
begin

lemma descend_sub:
  assumes inj: "inj_on H (held s)"
  shows "fs_wf H t \<Longrightarrow> fs_dirs H t \<subseteq> held s \<Longrightarrow> descend (get s) (fs_node H t) cs = Inr (map_option (fs_node H) (fs_sub t cs))"
proof (induction t cs rule: fs_sub.induct)
  case (2 es c cs)
  have d: "get s (H (fs_dir H es)) = Inr (Some (fs_dir H es))" using "2.prems"(2) by (auto intro: get_held [OF inj])
  have dist: "distinct (map fst es)" using "2.prems"(1) by simp
  show ?case
  proof (cases "map_of es c")
    case None
    then show ?thesis using d find_fs_dir [OF dist, of c H] by (simp add: fs_node_dir)
  next
    case (Some u)
    then have u: "(c, u) \<in> set es" by (rule map_of_SomeD)
    have "fs_wf H u" "fs_dirs H u \<subseteq> held s" using "2.prems" u by force+
    then show ?thesis using d find_fs_dir [OF dist, of c H] "2.IH" [OF Some] Some by (simp add: fs_node_dir)
  qed
qed auto

lemma descend_tree:
  assumes "inj_on H (held s)" "fs_wf H t" "fs_dirs H t \<subseteq> held s" "list_all pc_ok cs"
  shows "descend_to (get s) (fs_node H t) (path_rep cs) = Inr (map_option (fs_node H) (fs_sub t cs))"
  using descend_sub [OF assms(1-3)] assms(4) by (simp add: descend_to_def path_components_rep)

lemma bfs_tree:
  assumes wf: "fs_wf H t" and held: "inj_on H (held s)" "fs_dirs H t \<subseteq> held s" and t: "t = FsDir es"
    and fuel: "card (fs_dirs H t) \<le> fuel"
  shows "\<exists>ds. root_to_leaves fuel (get s) (H (fs_dir H es)) = Some (map Inr ds) \<and> distinct ds \<and> set ds = fs_dirs H t \<and>
     rtl_validate_stream H (H (fs_dir H es)) ds = (ds, Inr ())"
proof -
  let ?D = "fs_dirs H t" and ?r = "H (fs_dir H es)"
  have inj: "inj_on H ?D" by (rule inj_on_subset [OF held])
  have stored: "get s (H d) = Inr (Some d)" if "d \<in> ?D" for d by (rule get_held [OF held(1)]) (use held(2) that in blast)
  have root: "fs_dir H es \<in> ?D" by (simp add: t)
  obtain ds where ds: "bfs_loop fuel (get s) ?r [?r] (H ` {}) = Some (map Inr ds)" "distinct ds" "set ds \<subseteq> ?D - {}"
      "parents_first H ?r {} ds" "set [?r] \<subseteq> H ` set ds" "targets ({} \<union> set ds) \<subseteq> H ` ({} \<union> set ds)"
    using bfs_loop_spec [of ?D "get s" H "[?r]" "{}" ?r fuel] stored fs_dirs_closed [OF wf] fs_dirs_sizes [OF wf] inj
      finite_fs_dirs root fuel by auto
  have "fs_dir H es \<in> set ds" using ds(3,5) inj root by (auto simp: inj_on_def)
  then have all: "set ds = ?D" using fs_dirs_reached [OF inj, of "set ds" t es] ds(3,6) t by auto
  have "?r \<notin> targets (set ds)" using tree_root_not_target wf inj all t by metis
  moreover have "sizes_consistent H (set ds)" using fs_dirs_sizes_consistent [OF wf inj] all by simp
  moreover have "insert ?r (targets (set ds)) \<subseteq> H ` set ds" using ds(5,6) by simp
  ultimately have "rtl_validate_stream H ?r ds = (ds, Inr ())"
    using rtl_stream_spec [OF rtl_new_inv [of H ?r], of ds] ds(4) unfolding rtl_validate_stream_def Un_empty_left by blast
  then show ?thesis using ds(1,2) all by (auto simp: root_to_leaves_def)
qed

end

text \<open>The directories an upload has received, looked up by digest.\<close>

definition received_get :: "(cdirectory \<Rightarrow> b3_digest) \<Rightarrow> ltr_validator \<times> cdirectory list \<Rightarrow> 'e get_directory" where
  "received_get H p digest = Inr (find (\<lambda>d. H d = digest) (snd p))"

interpretation received: directory_store H "received_get H" "\<lambda>p. set (snd p)" for H
proof unfold_locales
  fix p :: "ltr_validator \<times> cdirectory list" and d
  assume "inj_on H (set (snd p))" "d \<in> set (snd p)"
  then show "received_get H p (H d) = Inr (Some d)"
    by (auto simp: received_get_def inj_on_def intro: find_unique)
qed

section \<open>An upload and what is read back\<close>

lemma upload_of_tree:
  assumes "pc_ok name" "fs_wf H (FsDir es)" "inj_on H (fs_dirs H (FsDir es))"
  obtains p where "(ingest_entries H (ltr_new, []) (validated_put H) validated_close (map Inr (fs_entries [name] (FsDir es)))
      :: (('e, ordering_error) ingestion_error, cnode \<times> (ltr_validator \<times> cdirectory list) option) res) =
        Inr (fs_node H (FsDir es), Some p)"
    "distinct (snd p)" "set (snd p) = fs_dirs H (FsDir es)"
  using validated.ingest_tree [OF assms, where 'e = 'e] by (force split: option.splits)

text \<open>
  C7: After the entries of a directory tree have been uploaded, the directories can be streamed back from
  the digest of the returned root node: the traversal yields exactly the uploaded directories, each
  once, without an error, and the validator of the receiving side accepts the stream as a complete closure in
  the right order. As many steps as there are directories are enough.
\<close>

theorem uploaded_tree_streams_back:
  assumes "pc_ok name" "fs_wf H (FsDir es)" "inj_on H (fs_dirs H (FsDir es))"
  shows "\<exists>p n ds. (ingest_entries H (ltr_new, []) (validated_put H) validated_close (map Inr (fs_entries [name] (FsDir es)))
      :: (('e, ordering_error) ingestion_error, cnode \<times> (ltr_validator \<times> cdirectory list) option) res) =
        Inr (CDirectory (H (fs_dir H es)) n, Some p) \<and>
     root_to_leaves (length (snd p)) (received_get H p) (H (fs_dir H es)) = Some (map (Inr :: cdirectory \<Rightarrow> ('x traversal_error, cdirectory) res) ds) \<and>
     mset ds = mset (snd p) \<and> rtl_validate_stream H (H (fs_dir H es)) ds = (ds, Inr ())"
proof -
  obtain p where p: "(ingest_entries H (ltr_new, []) (validated_put H) validated_close (map Inr (fs_entries [name] (FsDir es)))
      :: (('e, ordering_error) ingestion_error, cnode \<times> (ltr_validator \<times> cdirectory list) option) res) =
        Inr (fs_node H (FsDir es), Some p)" "distinct (snd p)" "set (snd p) = fs_dirs H (FsDir es)"
    by (rule upload_of_tree [OF assms])
  have "card (fs_dirs H (FsDir es)) \<le> length (snd p)" using p(3) card_length [of "snd p"] by simp
  then obtain ds where "root_to_leaves (length (snd p)) (received_get H p) (H (fs_dir H es)) =
        Some (map (Inr :: cdirectory \<Rightarrow> ('x traversal_error, cdirectory) res) ds)"
      "distinct ds" "set ds = fs_dirs H (FsDir es)" "rtl_validate_stream H (H (fs_dir H es)) ds = (ds, Inr ())"
    using received.bfs_tree [OF assms(2) _ _ refl, of p "length (snd p)"] assms(3) p(3) by auto
  moreover from this have "mset ds = mset (snd p)" using p(2,3) set_eq_iff_mset_eq_distinct [of ds "snd p"] by simp
  ultimately show ?thesis using p(1) by (auto simp: fs_node_dir)
qed

text \<open>
  C35: In the same store, descending from the root node along a path returns the node of the
  part of the tree at that path, and nothing if the tree has no such part; it never fails.
\<close>

theorem descend_finds_subtree:
  assumes "pc_ok name" "fs_wf H (FsDir es)" "inj_on H (fs_dirs H (FsDir es))" "list_all pc_ok cs"
  shows "\<exists>p root. (ingest_entries H (ltr_new, []) (validated_put H) validated_close (map Inr (fs_entries [name] (FsDir es)))
      :: (('e, ordering_error) ingestion_error, cnode \<times> (ltr_validator \<times> cdirectory list) option) res) = Inr (root, Some p) \<and>
     descend_to (received_get H p) root (path_rep cs) =
       (Inr (map_option (fs_node H) (fs_sub (FsDir es) cs)) :: ('x traversal_error, cnode option) res)"
proof -
  obtain p where p: "(ingest_entries H (ltr_new, []) (validated_put H) validated_close (map Inr (fs_entries [name] (FsDir es)))
      :: (('e, ordering_error) ingestion_error, cnode \<times> (ltr_validator \<times> cdirectory list) option) res) =
        Inr (fs_node H (FsDir es), Some p)" "set (snd p) = fs_dirs H (FsDir es)"
    by (rule upload_of_tree [OF assms(1-3)])
  then show ?thesis using received.descend_tree [OF _ assms(2) _ assms(4), of p] assms(3) by auto
qed

definition sample_digest :: "cdirectory \<Rightarrow> b3_digest" where
  "sample_digest d = (if d = [] then ''x'' else ''y'')"

lemma sample_fs_ok:
  "fs_wf sample_digest sample_fs" "inj_on sample_digest (fs_dirs sample_digest sample_fs)" "pc_ok ''root''" "list_all pc_ok [''b'']"
proof -
  have "fs_dir sample_digest [] = []" by (simp add: fs_dir_def)
  then show "fs_wf sample_digest sample_fs" "inj_on sample_digest (fs_dirs sample_digest sample_fs)"
    by (auto simp: sample_fs_def sample_digest_def fs_node_dir dir_total_fs_dir directory_size_eq U64_MAX_def pc_ok_def
        pc_validate_name_def PC_MAX_NAME_LEN_def validate_symlink_target_def SYMLINK_MAX_TARGET_LEN_def)
qed (simp_all add: pc_ok_def pc_validate_name_def PC_MAX_NAME_LEN_def)

theorem uploaded_tree_streams_back_witness:
  "\<exists>p n ds. (ingest_entries sample_digest (ltr_new, []) (validated_put sample_digest) validated_close (map Inr (fs_entries [''root''] sample_fs))
      :: ((unit, ordering_error) ingestion_error, cnode \<times> (ltr_validator \<times> cdirectory list) option) res) =
        Inr (CDirectory ''y'' n, Some p) \<and>
     root_to_leaves (length (snd p)) (received_get sample_digest p) ''y'' =
       Some (map (Inr :: cdirectory \<Rightarrow> (unit traversal_error, cdirectory) res) ds) \<and>
     mset ds = mset (snd p) \<and> rtl_validate_stream sample_digest ''y'' ds = (ds, Inr ())"
proof -
  have "sample_digest (fs_dir sample_digest [(''b'', FsDir []), (''a'', FsSymlink ''b''), (''c'', FsDir [])]) = ''y''"
    by (simp add: sample_digest_def fs_dir_def)
  then show ?thesis
    using uploaded_tree_streams_back [OF sample_fs_ok(3,1,2) [unfolded sample_fs_def]] by (simp add: sample_fs_def)
qed

theorem descend_finds_subtree_witness:
  "\<exists>p root. (ingest_entries sample_digest (ltr_new, []) (validated_put sample_digest) validated_close (map Inr (fs_entries [''root''] sample_fs))
      :: ((unit, ordering_error) ingestion_error, cnode \<times> (ltr_validator \<times> cdirectory list) option) res) = Inr (root, Some p) \<and>
     descend_to (received_get sample_digest p) root (path_rep [''b'']) =
       (Inr (Some (CDirectory ''x'' 0)) :: (unit traversal_error, cnode option) res)"
proof -
  have "fs_node sample_digest (FsDir []) = CDirectory ''x'' 0"
    by (simp add: fs_node_dir fs_dir_def sample_digest_def directory_size_eq dir_total_def)
  then show ?thesis
    using descend_finds_subtree [OF sample_fs_ok(3,1,2) [unfolded sample_fs_def] sample_fs_ok(4)]
    by (simp add: sample_fs_def)
qed

end
