(* ===== verification/NarRender.thy ===== *)
theory NarRender
  imports Traversal NarWriter
begin

text \<open>
  Rendering the archive of a node of the content-addressed store: \<^verbatim>\<open>store/src/nar/renderer.rs\<close>.
  The blob service and the directory service are parameters. The reader of a blob delivers its bytes in pieces;
  an empty piece is the end. The code drives the asynchronous writer
  (\<^verbatim>\<open>nix-compat/src/nar/writer/async.rs\<close>), which is the synchronous one with every write awaited;
  the operations of \<open>NarWriter\<close> stand for both. The recursion follows digests, so it carries fuel; the
  depth of the tree is shown to be enough.
\<close>

text \<open>
  The I/O errors that the writer reports: its own, and the error of the kind \<open>NotFound\<close>
  that the renderer makes for a missing blob, with the digest in its message. The fields of
  \<open>UnexpectedBlobMeta\<close> and \<open>OrderingError\<close> are never filled by this code.
\<close>

datatype (plugins only: code size) writer_io_error = WriterIo nar_error | IoNotFound b3_digest

datatype (plugins only: code size) ('be, 'de) render_error =
    DirectoryServiceError 'de
  | BlobServiceError 'be
  | DirectoryNotFound b3_digest string
  | RenderOrderingError ordering_error
  | BlobNotFound b3_digest string
  | UnexpectedBlobMeta b3_digest string nat nat
  | NARWriterError writer_io_error
  | RenderOutOfFuel

type_synonym 'be open_read = "b3_digest \<Rightarrow> ('be, string list option) res"

type_synonym ('be, 'de, 'a) render = "string \<Rightarrow> (('be, 'de) render_error, 'a) res \<times> string"

definition render_bind :: "('be, 'de, 'a) render \<Rightarrow> ('a \<Rightarrow> ('be, 'de, 'b) render) \<Rightarrow> ('be, 'de, 'b) render" where
  "render_bind m f out = (case m out of (Inl e, out') \<Rightarrow> (Inl e, out') | (Inr a, out') \<Rightarrow> f a out')"

definition writing :: "(string, 'a) nar_op \<Rightarrow> ('be, 'de, 'a) render" where
  "writing m out = (let (x, out') = m out in (map_err (NARWriterError \<circ> WriterIo) x, out'))"

text \<open>A buffered reader over the pieces of a blob.\<close>

definition pieces_fill :: "(string list, string) nar_op" where
  "pieces_fill ps = (Inr (case ps of [] \<Rightarrow> [] | p # _ \<Rightarrow> p), ps)"

fun pieces_consume :: "nat \<Rightarrow> string list \<Rightarrow> string list" where
  "pieces_consume n [] = []"
| "pieces_consume n (p # ps) = (if n < length p then drop n p # ps else ps)"

definition walk_file ::
  "'be open_read \<Rightarrow> b3_digest \<Rightarrow> nat \<Rightarrow> bool \<Rightarrow> ('be, 'de, unit) render" where
  "walk_file open_read digest fsize executable out =
     (case open_read digest of
        Inl e \<Rightarrow> (Inl (BlobServiceError e), out)
      | Inr None \<Rightarrow> (Inl (NARWriterError (IoNotFound digest)), out)
      | Inr (Some blob_reader) \<Rightarrow>
          (let (x, (_, out')) = w_file pieces_fill pieces_consume executable fsize (blob_reader, out)
           in (map_err (NARWriterError \<circ> WriterIo) x, out')))"

fun walk_node :: "nat \<Rightarrow> 'be open_read \<Rightarrow> 'de get_directory \<Rightarrow> string \<Rightarrow> cnode \<Rightarrow> ('be, 'de, unit) render"
and walk_entries :: "nat \<Rightarrow> 'be open_read \<Rightarrow> 'de get_directory \<Rightarrow> w_dir \<Rightarrow> cdirectory \<Rightarrow> ('be, 'de, w_dir) render" where
  "walk_node 0 open_read get name castore_node out = (Inl RenderOutOfFuel, out)"
| "walk_node (Suc fuel) open_read get name (CSymlink target) out = writing (w_symlink target) out"
| "walk_node (Suc fuel) open_read get name (CFile digest fsize executable) out = walk_file open_read digest fsize executable out"
| "walk_node (Suc fuel) open_read get name (CDirectory digest _) out =
     (case get digest of
        Inl e \<Rightarrow> (Inl (DirectoryServiceError e), out)
      | Inr None \<Rightarrow> (Inl (DirectoryNotFound digest name), out)
      | Inr (Some directory) \<Rightarrow>
          render_bind (writing w_directory) (\<lambda>nar_node_directory.
          render_bind (walk_entries fuel open_read get nar_node_directory directory) (\<lambda>nar_node_directory.
            writing (w_close nar_node_directory))) out)"
| "walk_entries fuel open_read get wd [] out = (Inr wd, out)"
| "walk_entries fuel open_read get wd ((name, node) # nodes) out =
     render_bind (writing (w_entry wd name)) (\<lambda>wd.
     render_bind (walk_node fuel open_read get name node) (\<lambda>_.
       walk_entries fuel open_read get wd nodes)) out"

definition write_nar :: "nat \<Rightarrow> 'be open_read \<Rightarrow> 'de get_directory \<Rightarrow> cnode \<Rightarrow> ('be, 'de, unit) render" where
  "write_nar fuel open_read get root_node =
     render_bind (writing w_open) (\<lambda>_. walk_node fuel open_read get [] root_node)"

text \<open>The size and the hash of the archive; the hash function is a parameter.\<close>

definition calculate_size_and_sha256 ::
  "(string \<Rightarrow> 'h) \<Rightarrow> nat \<Rightarrow> 'be open_read \<Rightarrow> 'de get_directory \<Rightarrow> cnode \<Rightarrow> (('be, 'de) render_error, nat \<times> 'h) res" where
  "calculate_size_and_sha256 sha256 fuel open_read get root_node =
     (case write_nar fuel open_read get root_node [] of
        (Inl e, _) \<Rightarrow> Inl e
      | (Inr _, out) \<Rightarrow> Inr (length out, sha256 out))"

section \<open>Files\<close>

lemma pieces_loop:
  "list_all (\<lambda>p. p \<noteq> []) ps \<Longrightarrow> need \<le> length (concat ps) \<Longrightarrow>
   \<exists>ps'. w_file_loop pieces_fill pieces_consume need (ps, out) = (Inr (), (ps', out @ take need (concat ps))) \<and>
     list_all (\<lambda>p. p \<noteq> []) ps' \<and> concat ps' = drop need (concat ps)"
proof (induction need arbitrary: ps out rule: less_induct)
  case (less need)
  show ?case
  proof (cases "need = 0")
    case True
    then show ?thesis using less.prems by (auto simp: w_file_loop.simps)
  next
    case need: False
    then obtain p ps2 where ps: "ps = p # ps2" "p \<noteq> []" using less.prems by (cases ps) auto
    let ?n = "min need (length p)"
    have step: "w_file_loop pieces_fill pieces_consume need (ps, out) =
        w_file_loop pieces_fill pieces_consume (need - ?n) (pieces_consume ?n ps, out @ take ?n p)"
      using need ps by (subst w_file_loop.simps) (simp add: pieces_fill_def Let_def)
    have rest: "concat (pieces_consume ?n ps) = drop ?n (concat ps)" "list_all (\<lambda>p. p \<noteq> []) (pieces_consume ?n ps)"
      using less.prems(1) ps by auto
    have dec: "need - ?n < need" using need ps(2) by (cases p) auto
    have "need - ?n \<le> length (concat (pieces_consume ?n ps))" using rest(1) less.prems(2) by simp
    from less.IH [OF dec rest(2) this] obtain ps' where
      "w_file_loop pieces_fill pieces_consume (need - ?n) (pieces_consume ?n ps, out @ take ?n p) =
         (Inr (), (ps', (out @ take ?n p) @ take (need - ?n) (concat (pieces_consume ?n ps))))"
      "list_all (\<lambda>p. p \<noteq> []) ps'" "concat ps' = drop (need - ?n) (concat (pieces_consume ?n ps))" by blast
    moreover have "take ?n p @ take (need - ?n) (drop ?n (concat ps)) = take need (concat ps)"
      using ps(1) by (cases "need \<le> length p") (simp_all add: take_append)
    ultimately show ?thesis unfolding step rest(1) by auto
  qed
qed

lemma walk_file_ok:
  assumes "open_read g = Inr (Some ps)" "list_all (\<lambda>p. p \<noteq> []) ps"
  shows "walk_file open_read g (length (concat ps)) ex out = (Inr (), out @ node_bytes (TreeFile ex (concat ps)))"
proof -
  let ?n = "length (concat ps)" and ?out = "(out @ (if ex then TOK_EXE else TOK_REG)) @ u64_bytes (length (concat ps))"
  obtain ps' where l: "w_file_loop pieces_fill pieces_consume ?n (ps, ?out) = (Inr (), (ps', ?out @ concat ps))"
    "list_all (\<lambda>p. p \<noteq> []) ps'" "concat ps' = []"
    using pieces_loop [OF assms(2), of ?n ?out] by auto
  then have "ps' = []" by (cases ps') auto
  then show ?thesis using l(1) assms(1)
    by (simp add: walk_file_def w_file_def sbind_def pieces_fill_def wire_str_def)
qed

section \<open>The archive of a stored tree\<close>

text \<open>The archive tree of an ingested tree; \<open>content\<close> gives the bytes of a blob.\<close>

fun fs_nar :: "(b3_digest \<Rightarrow> string) \<Rightarrow> fs_tree \<Rightarrow> nar_tree" where
  "fs_nar content (FsFile g n ex) = TreeFile ex (content g)"
| "fs_nar content (FsSymlink t) = TreeSymlink t"
| "fs_nar content (FsDir es) = TreeDir (sort_key fst (map (\<lambda>e. (fst e, fs_nar content (snd e))) es))"

fun fs_depth :: "fs_tree \<Rightarrow> nat" where
  "fs_depth (FsDir es) = Suc (Max (insert 0 ((\<lambda>e. fs_depth (snd e)) ` set es)))"
| "fs_depth _ = 0"

text \<open>The blob service holds the files of the tree, with the sizes the tree claims.\<close>

definition blob_held :: "'be open_read \<Rightarrow> (b3_digest \<Rightarrow> string) \<Rightarrow> b3_digest \<Rightarrow> bool" where
  "blob_held open_read content g =
     (case open_read g of Inr (Some ps) \<Rightarrow> list_all (\<lambda>p. p \<noteq> []) ps \<and> concat ps = content g | _ \<Rightarrow> False)"

fun blobs_held :: "'be open_read \<Rightarrow> (b3_digest \<Rightarrow> string) \<Rightarrow> fs_tree \<Rightarrow> bool" where
  "blobs_held open_read content (FsFile g n ex) \<longleftrightarrow> blob_held open_read content g \<and> n = length (content g) \<and> n < 2 ^ 64"
| "blobs_held open_read content (FsSymlink t) \<longleftrightarrow> True"
| "blobs_held open_read content (FsDir es) \<longleftrightarrow> (\<forall>e\<in>set es. blobs_held open_read content (snd e))"

lemma blob_heldE:
  assumes "blob_held open_read content g"
  obtains ps where "open_read g = Inr (Some ps)" "list_all (\<lambda>p. p \<noteq> []) ps" "concat ps = content g"
  using assms by (auto simp: blob_held_def split: sum.splits option.splits)

lemma sort_key_on_values:
  "sort_key fst (map (\<lambda>e. (fst e, f (snd e))) es) = map (\<lambda>e. (fst e, f (snd e))) (sort_key fst es)"
proof -
  have ins: "insort_key fst (fst x, f (snd x)) (map (\<lambda>e. (fst e, f (snd e))) xs) =
      map (\<lambda>e. (fst e, f (snd e))) (insort_key fst x xs)" for x xs
    by (induction xs) auto
  show ?thesis by (induction es) (auto simp: ins sort_key_def)
qed

lemma pc_ok_entry_name: "pc_ok n \<Longrightarrow> entry_name_ok n"
  by (auto simp: pc_ok_def pc_validate_name_def entry_name_ok_def bad_entry_name_def PC_MAX_NAME_LEN_def MAX_NAME_LEN_def
      split: if_splits)

lemma symlink_target_ok: "validate_symlink_target t = Inr t \<Longrightarrow> target_ok t"
  by (auto simp: validate_symlink_target_def target_ok_def SYMLINK_MAX_TARGET_LEN_def MAX_TARGET_LEN_def split: if_splits)

lemma sorted_names: "distinct (map fst es) \<Longrightarrow> sorted_wrt (<) (map fst (sort_key fst es))"
  for es :: "(string \<times> 'a) list"
proof (rule strict_sorted_iff [THEN iffD2], intro conjI)
  assume d: "distinct (map fst es)"
  have "mset (map fst (sort_key fst es)) = mset (map fst es)" by simp
  then show "distinct (map fst (sort_key fst es))" using d mset_eq_imp_distinct_iff by blast
qed simp

lemma walk_entries_ok:
  assumes "\<And>e out. e \<in> set es \<Longrightarrow>
      walk_node fuel open_read get (fst e) (N (snd e)) out = (Inr (), out @ node_bytes (T (snd e)))"
  shows "list_all entry_name_ok (map fst es) \<Longrightarrow> sorted_wrt (<) (map fst es) \<Longrightarrow>
     (\<forall>p. wd_prev_name wd = Some p \<longrightarrow> (\<forall>e\<in>set es. p < fst e)) \<Longrightarrow>
     render_bind (walk_entries fuel open_read get wd (map (\<lambda>e. (fst e, N (snd e))) es))
       (\<lambda>wd. writing (w_close wd)) out =
     (Inr (), out @ (if wd_prev_name wd = None then [] else TOK_PAR) @
       concat (map (\<lambda>e. TOK_ENT @ wire_str (fst e) @ TOK_NOD @ node_bytes (T (snd e)) @ TOK_PAR) es) @ TOK_PAR)"
  using assms
proof (induction es arbitrary: wd out)
  case Nil
  then show ?case by (simp add: render_bind_def writing_def w_close_ok)
next
  case (Cons e es)
  have "w_entry wd (fst e) out = (Inr \<lparr>wd_prev_name = Some (fst e)\<rparr>,
      out @ (if wd_prev_name wd = None then [] else TOK_PAR) @ TOK_ENT @ wire_str (fst e) @ TOK_NOD)"
    by (rule w_entry_ok) (use Cons.prems in auto)
  moreover note Cons.IH [of "\<lparr>wd_prev_name = Some (fst e)\<rparr>"
      "(out @ (if wd_prev_name wd = None then [] else TOK_PAR) @ TOK_ENT @ wire_str (fst e) @ TOK_NOD) @ node_bytes (T (snd e))"]
  ultimately show ?case using Cons.prems by (simp add: render_bind_def writing_def)
qed

context directory_store
begin

lemma walk_tree:
  assumes inj: "inj_on H (held s)"
  shows "fs_wf H t \<Longrightarrow> fs_dirs H t \<subseteq> held s \<Longrightarrow> blobs_held open_read content t \<Longrightarrow> fs_depth t < fuel \<Longrightarrow>
     walk_node fuel open_read (get s) name (fs_node H t) out = (Inr (), out @ node_bytes (fs_nar content t))"
proof (induction t arbitrary: fuel name out)
  case (FsFile g n ex)
  then obtain ps where "open_read g = Inr (Some ps)" "list_all (\<lambda>p. p \<noteq> []) ps" "concat ps = content g" "n = length (content g)"
    by (auto elim: blob_heldE)
  then show ?case using walk_file_ok [of open_read g ps ex out] FsFile.prems(4) by (cases fuel) auto
next
  case (FsSymlink x)
  then show ?case using w_symlink_ok [of x out] by (cases fuel) (auto simp: writing_def dest: symlink_target_ok)
next
  case (FsDir es)
  obtain k where k: "fuel = Suc k" using FsDir.prems(4) by (cases fuel) auto
  let ?es = "sort_key fst es"
  have d: "get s (H (fs_dir H es)) = Inr (Some (fs_dir H es))" using FsDir.prems(2) by (auto intro: get_held [OF inj])
  have dir: "fs_dir H es = map (\<lambda>e. (fst e, fs_node H (snd e))) ?es" by (simp add: fs_dir_def sort_key_on_values)
  have sub: "walk_node k open_read (get s) (fst e) (fs_node H (snd e)) out = (Inr (), out @ node_bytes (fs_nar content (snd e)))"
    if e: "e \<in> set ?es" for e out
  proof (rule FsDir.IH [of e])
    show "fs_depth (snd e) < k" using FsDir.prems(4) k e by simp
  qed (use e FsDir.prems in \<open>auto simp: snds.simps\<close>)
  have names: "list_all entry_name_ok (map fst ?es)" "sorted_wrt (<) (map fst ?es)"
    using FsDir.prems(1) by (auto simp: list_all_iff pc_ok_entry_name intro: sorted_names)
  have "render_bind (walk_entries k open_read (get s) \<lparr>wd_prev_name = None\<rparr> (fs_dir H es)) (\<lambda>wd. writing (w_close wd)) (out @ TOK_DIR) =
      (Inr (), out @ node_bytes (fs_nar content (FsDir es)))"
    unfolding dir using walk_entries_ok [OF sub names, where wd = "\<lparr>wd_prev_name = None\<rparr>" and out = "out @ TOK_DIR"]
    by (simp add: sort_key_on_values comp_def node_bytes.simps(3))
  then show ?case using d by (simp add: k fs_node_dir render_bind_def writing_def w_directory_def sbind_def)
qed

end

section \<open>Whatever the services answer\<close>

lemma pieces_loop_sound:
  "case w_file_loop pieces_fill pieces_consume need (ps, out) of
     (Inr _, (ps', out')) \<Rightarrow> \<exists>c. length c = need \<and> out' = out @ c
   | (Inl e, _) \<Rightarrow> e = UnexpectedEof"
proof (induction need arbitrary: ps out rule: less_induct)
  case (less need)
  show ?case
  proof (cases "need = 0 \<or> ps = [] \<or> hd ps = []")
    case True
    then show ?thesis by (cases ps) (auto simp: w_file_loop.simps pieces_fill_def)
  next
    case False
    then obtain p ps2 where ps: "ps = p # ps2" "p \<noteq> []" and need: "need \<noteq> 0" by (cases ps) auto
    let ?n = "min need (length p)"
    have step: "w_file_loop pieces_fill pieces_consume need (ps, out) =
        w_file_loop pieces_fill pieces_consume (need - ?n) (pieces_consume ?n ps, out @ take ?n p)"
      using need ps by (subst w_file_loop.simps) (simp add: pieces_fill_def Let_def)
    have "need - ?n < need" using need ps(2) by (cases p) auto
    note ih = less.IH [OF this, of "out @ take ?n p" "pieces_consume ?n ps"]
    have len: "length (take ?n p @ c) = need" if "length c = need - ?n" for c using that by auto
    show ?thesis
    proof (cases "w_file_loop pieces_fill pieces_consume (need - ?n) (pieces_consume ?n ps, out @ take ?n p)")
      case (fields x r out')
      show ?thesis
      proof (cases x)
        case Inr
        then obtain c where "length c = need - ?n" "out' = (out @ take ?n p) @ c" using ih fields by auto
        then show ?thesis using Inr fields len by (auto simp: step intro!: exI [of _ "take ?n p @ c"])
      qed (use ih fields step in simp)
    qed
  qed
qed

definition rendered :: "string \<Rightarrow> ('a + 'b) \<times> string \<Rightarrow> ('a \<Rightarrow> bool) \<Rightarrow> bool" where
  "rendered out r bad = (case r of (Inr _, out') \<Rightarrow> \<exists>t. tree_wf t \<and> out' = out @ node_bytes t | (Inl e, _) \<Rightarrow> \<not> bad e)"

abbreviation (input) panic :: "('be, 'de) render_error \<Rightarrow> bool" where
  "panic e \<equiv> e = NARWriterError (WriterIo NarPanic)"

lemma walk_file_sound:
  "n < 2 ^ 64 \<Longrightarrow> rendered out (walk_file (open_read :: 'be open_read) g n ex out) (panic :: ('be, 'de) render_error \<Rightarrow> bool)"
proof -
  assume n: "n < 2 ^ 64"
  have "rendered out (let (x, (_, out')) = w_file pieces_fill pieces_consume ex n (ps, out) in (map_err (NARWriterError \<circ> WriterIo) x, out'))
      (panic :: ('be, 'de) render_error \<Rightarrow> bool)" for ps
  proof -
    let ?out = "(out @ (if ex then TOK_EXE else TOK_REG)) @ u64_bytes n"
    obtain x ps' out' where l: "w_file_loop pieces_fill pieces_consume n (ps, ?out) = (x, (ps', out'))" by (metis prod.exhaust)
    note sound = pieces_loop_sound [where need = n and ps = ps and out = ?out, unfolded l]
    show ?thesis
    proof (cases x)
      case (Inl e)
      then show ?thesis using l sound by (simp add: w_file_def sbind_def rendered_def)
    next
      case (Inr u)
      then obtain c where c: "length c = n" "out' = ?out @ c" using sound by auto
      show ?thesis
      proof (cases ps')
        case Nil
        have "tree_wf (TreeFile ex c)" using c(1) n by simp
        then show ?thesis using l Inr c Nil
          by (auto simp: w_file_def sbind_def rendered_def pieces_fill_def wire_str_def intro!: exI [of _ "TreeFile ex c"])
      next
        case (Cons p ps2)
        have "tree_wf (TreeFile ex c)" using c(1) n by simp
        then show ?thesis using l Inr c Cons
          by (auto simp: w_file_def sbind_def rendered_def pieces_fill_def wire_str_def intro!: exI [of _ "TreeFile ex c"])
      qed
    qed
  qed
  then show ?thesis
    by (cases "open_read g") (simp_all add: walk_file_def rendered_def [where r = "(Inl _, _)"] split: option.split)
qed

text \<open>What the types of the code guarantee of a node and of a directory.\<close>

fun node_inv :: "cnode \<Rightarrow> bool" where
  "node_inv (CDirectory digest n) \<longleftrightarrow> True"
| "node_inv (CFile digest n ex) \<longleftrightarrow> n < 2 ^ 64"
| "node_inv (CSymlink target) \<longleftrightarrow> validate_symlink_target target = Inr target"

definition dir_inv :: "cdirectory \<Rightarrow> bool" where
  "dir_inv d \<longleftrightarrow> sorted_wrt (<) (map fst d) \<and> list_all (\<lambda>(name, n). pc_ok name \<and> node_inv n) d"

abbreviation (input) entry_bytes :: "string \<times> nar_tree \<Rightarrow> string" where
  "entry_bytes e \<equiv> TOK_ENT @ wire_str (fst e) @ TOK_NOD @ node_bytes (snd e) @ TOK_PAR"

definition open_par :: "w_dir \<Rightarrow> string" where
  "open_par wd = (if wd_prev_name wd = None then [] else TOK_PAR)"

lemma open_par_simps [simp]: "open_par \<lparr>wd_prev_name = None\<rparr> = []" "open_par \<lparr>wd_prev_name = Some n\<rparr> = TOK_PAR"
  by (simp_all add: open_par_def)

definition rendered_entries :: "string \<Rightarrow> cdirectory \<Rightarrow> (('be, 'de) render_error + w_dir) \<times> string \<Rightarrow> bool" where
  "rendered_entries start es r = (case r of
     (Inr wd', out') \<Rightarrow> \<exists>ts. map fst ts = map fst es \<and> (\<forall>e\<in>set ts. tree_wf (snd e)) \<and>
        out' @ open_par wd' = start @ concat (map (\<lambda>e. entry_bytes e) ts)
   | (Inl e, _) \<Rightarrow> \<not> panic e)"

lemma walk_sound:
  assumes get: "\<And>g d. get g = Inr (Some d) \<Longrightarrow> dir_inv d"
  shows "node_inv n \<Longrightarrow> rendered out (walk_node fuel open_read get name n out) panic"
    and "dir_inv es \<Longrightarrow> (\<forall>p. wd_prev_name wd = Some p \<longrightarrow> (\<forall>e\<in>set es. p < fst e)) \<Longrightarrow>
       rendered_entries (out @ open_par wd) es (walk_entries fuel open_read get wd es out)"
  using get
proof (induction fuel open_read get name n out and fuel open_read get wd es out rule: walk_node_walk_entries.induct)
  case (2 fuel open_read get name target out)
  then have "target_ok target" by (simp add: symlink_target_ok)
  then show ?case by (auto simp: rendered_def writing_def w_symlink_ok simp del: node_bytes.simps intro!: exI [of _ "TreeSymlink target"])
next
  case (3 fuel open_read get name digest fsize executable out)
  then show ?case by (simp add: walk_file_sound)
next
  case (4 fuel open_read get name digest sz out)
  show ?case
  proof (cases "get digest")
    case (Inl e)
    then show ?thesis by (simp add: rendered_def)
  next
    case (Inr od)
    show ?thesis
    proof (cases od)
      case None
      then show ?thesis using Inr by (simp add: rendered_def)
    next
      case (Some d)
      let ?w = "\<lparr>wd_prev_name = None\<rparr>"
      have d: "dir_inv d" using "4.prems"(2) Inr Some by blast
      have ih: "rendered_entries (out @ TOK_DIR) d (walk_entries fuel open_read get ?w d (out @ TOK_DIR))"
        using "4.IH" [OF Inr Some d, of ?w "out @ TOK_DIR"] "4.prems"(2) by simp
      show ?thesis
      proof (cases "walk_entries fuel open_read get ?w d (out @ TOK_DIR)")
        case (Pair x out')
        show ?thesis
        proof (cases x)
          case (Inl e)
          then show ?thesis using ih Pair \<open>get digest = Inr od\<close> Some
            by (simp add: rendered_def rendered_entries_def render_bind_def writing_def w_directory_def sbind_def)
        next
          case wd': (Inr wd')
          then obtain ts where ts: "map fst ts = map fst d" "\<forall>e\<in>set ts. tree_wf (snd e)"
              "out' @ open_par wd' = (out @ TOK_DIR) @ concat (map (\<lambda>e. entry_bytes e) ts)"
            using ih Pair by (auto simp: rendered_entries_def)
          have "list_all entry_name_ok (map fst d)" using d by (auto simp: dir_inv_def list_all_iff pc_ok_entry_name)
          then have wf: "tree_wf (TreeDir ts)" using ts(1,2) d by (simp add: dir_inv_def)
          have "w_close wd' out' = (Inr (), (out' @ open_par wd') @ TOK_PAR)" by (simp add: w_close_ok open_par_def)
          also have "\<dots> = (Inr (), out @ node_bytes (TreeDir ts))" unfolding ts(3) by (simp add: node_bytes.simps(3))
          finally show ?thesis using Pair wd' \<open>get digest = Inr od\<close> Some
            by (auto simp: rendered_def render_bind_def writing_def w_directory_def sbind_def
                simp del: tree_wf.simps intro!: exI [of _ "TreeDir ts"] wf)
        qed
      qed
    qed
  qed
next
  case (6 fuel open_read get wd name node nodes out)
  let ?w = "\<lparr>wd_prev_name = Some name\<rparr>" and ?out = "out @ open_par wd @ TOK_ENT @ wire_str name @ TOK_NOD"
  have d: "pc_ok name" "node_inv node" "dir_inv nodes" "\<forall>e\<in>set nodes. name < fst e"
    using "6.prems"(1) by (auto simp: dir_inv_def)
  have e: "w_entry wd name out = (Inr ?w, ?out)" using w_entry_ok [OF pc_ok_entry_name [OF d(1)]] "6.prems"(2) by (simp add: open_par_def)
  have n: "rendered ?out (walk_node fuel open_read get name node ?out) panic"
    using "6.IH"(1) [OF d(2)] "6.prems"(3) by blast
  obtain x out1 where x: "walk_node fuel open_read get name node ?out = (x, out1)" by fastforce
  show ?case
  proof (cases x)
    case (Inl err)
    then show ?thesis using n x e by (simp add: rendered_def rendered_entries_def render_bind_def writing_def)
  next
    case (Inr u)
    then obtain t where t: "tree_wf t" "out1 = ?out @ node_bytes t" using n x by (auto simp: rendered_def)
    have ih: "rendered_entries (out1 @ TOK_PAR) nodes (walk_entries fuel open_read get ?w nodes out1)"
      using "6.IH"(2) [OF d(3), of ?w out1] d(4) "6.prems"(3) by simp
    obtain y out2 where y: "walk_entries fuel open_read get ?w nodes out1 = (y, out2)" by fastforce
    have run: "walk_entries fuel open_read get wd ((name, node) # nodes) out = (y, out2)"
      using e x Inr y by (simp add: render_bind_def writing_def)
    show ?thesis
    proof (cases y)
      case (Inl err)
      then show ?thesis using ih y unfolding run by (simp add: rendered_entries_def)
    next
      case wd': (Inr wd')
      then obtain ts where "map fst ts = map fst nodes" "\<forall>e\<in>set ts. tree_wf (snd e)"
          "out2 @ open_par wd' = (out1 @ TOK_PAR) @ concat (map (\<lambda>e. entry_bytes e) ts)"
        using ih y by (auto simp: rendered_entries_def)
      then have "map fst ((name, t) # ts) = map fst ((name, node) # nodes) \<and> (\<forall>e\<in>set ((name, t) # ts). tree_wf (snd e)) \<and>
          out2 @ open_par wd' = (out @ open_par wd) @ concat (map (\<lambda>e. entry_bytes e) ((name, t) # ts))"
        using t by simp
      then show ?thesis unfolding run wd' rendered_entries_def by (simp only: prod.case sum.case) blast
    qed
  qed
qed (auto simp: rendered_def rendered_entries_def)

section \<open>The archive of an uploaded tree\<close>

lemma tree_wf_fs_nar: "fs_wf H t \<Longrightarrow> blobs_held open_read content t \<Longrightarrow> tree_wf (fs_nar content t)"
proof (induction t)
  case (FsDir es)
  have "tree_wf (fs_nar content (snd e))" if "e \<in> set es" for e
    using FsDir.IH [of e "snd e"] FsDir.prems that by (simp add: snds.simps)
  then show ?case
    using FsDir.prems(1) by (auto simp: sort_key_on_values comp_def list_all_iff pc_ok_entry_name intro: sorted_names)
qed (auto simp: symlink_target_ok)

text \<open>
  C3: After the entries of a directory tree have been uploaded, rendering the returned root node from the
  received directories and a blob service that holds the files succeeds and writes exactly the canonical
  archive of the tree, which is well formed; the computed size and hash are those of that archive. The depth of the tree
  bounds the recursion.
\<close>

theorem uploaded_tree_renders:
  assumes "pc_ok name" "fs_wf H (FsDir es)" "inj_on H (fs_dirs H (FsDir es))" "blobs_held open_read content (FsDir es)"
    "fs_depth (FsDir es) < fuel"
  shows "\<exists>p root. (ingest_entries H (ltr_new, []) (validated_put H) validated_close (map Inr (fs_entries [name] (FsDir es)))
      :: (('e, ordering_error) ingestion_error, cnode \<times> (ltr_validator \<times> cdirectory list) option) res) = Inr (root, Some p) \<and>
     tree_wf (fs_nar content (FsDir es)) \<and>
     write_nar fuel (open_read :: 'be open_read) (received_get H p :: 'de get_directory) root [] = (Inr (), nar_bytes (fs_nar content (FsDir es))) \<and>
     calculate_size_and_sha256 sha256 fuel open_read (received_get H p :: 'de get_directory) root =
       Inr (length (nar_bytes (fs_nar content (FsDir es))), sha256 (nar_bytes (fs_nar content (FsDir es))))"
proof -
  obtain p where p: "(ingest_entries H (ltr_new, []) (validated_put H) validated_close (map Inr (fs_entries [name] (FsDir es)))
      :: (('e, ordering_error) ingestion_error, cnode \<times> (ltr_validator \<times> cdirectory list) option) res) =
        Inr (fs_node H (FsDir es), Some p)" "set (snd p) = fs_dirs H (FsDir es)"
    by (rule upload_of_tree [OF assms(1-3)])
  have "write_nar fuel open_read (received_get H p :: 'de get_directory) (fs_node H (FsDir es)) [] = (Inr (), nar_bytes (fs_nar content (FsDir es)))"
    using received.walk_tree [OF _ assms(2) _ assms(4,5), of p] assms(3) p(2)
    by (simp add: write_nar_def render_bind_def writing_def w_open_def nar_bytes_def del: fs_nar.simps)
  then show ?thesis using p(1) tree_wf_fs_nar [OF assms(2,4)] by (simp add: calculate_size_and_sha256_def del: fs_nar.simps tree_wf.simps)
qed

text \<open>
  Whatever the two services answer, as long as the directories satisfy what their type guarantees: a rendering
  that succeeds has written the canonical archive of some well-formed tree, and one that fails has
  not failed on an assertion of the writer.
\<close>

theorem write_nar_sound:
  assumes "\<And>g d. get g = Inr (Some d) \<Longrightarrow> dir_inv d" "node_inv root_node"
  shows "case write_nar fuel open_read get root_node [] of
     (Inr _, out) \<Rightarrow> \<exists>t. tree_wf t \<and> out = nar_bytes t
   | (Inl e, _) \<Rightarrow> e \<noteq> NARWriterError (WriterIo NarPanic)"
proof -
  have "rendered TOK_NAR (walk_node fuel open_read get [] root_node TOK_NAR) panic"
    by (rule walk_sound(1)) (use assms in auto)
  then show ?thesis
    by (cases "walk_node fuel open_read get [] root_node TOK_NAR")
      (auto simp: write_nar_def render_bind_def writing_def w_open_def rendered_def nar_bytes_def split: sum.splits)
qed

lemma pieces_loop_short:
  "length (concat ps) < need \<Longrightarrow> list_all (\<lambda>p. p \<noteq> []) ps \<Longrightarrow>
   \<exists>r. w_file_loop pieces_fill pieces_consume need (ps, out) = (Inl UnexpectedEof, r)"
proof (induction ps arbitrary: need out)
  case Nil
  then show ?case by (simp add: w_file_loop.simps pieces_fill_def)
next
  case (Cons p ps)
  have "w_file_loop pieces_fill pieces_consume need (p # ps, out) =
      w_file_loop pieces_fill pieces_consume (need - length p) (ps, out @ p)"
    using Cons.prems by (subst w_file_loop.simps) (simp add: pieces_fill_def Let_def)
  then show ?case using Cons.IH [of "need - length p" "out @ p"] Cons.prems by simp
qed

text \<open>
  The size in a file node is checked against the blob: the archive of a file is written only if the
  blob has exactly that size. A longer blob is an \<open>InvalidInput\<close> error and a shorter one an \<open>UnexpectedEof\<close>.
\<close>

theorem file_size_checked:
  assumes "open_read g = Inr (Some ps)" "list_all (\<lambda>p. p \<noteq> []) ps"
  shows "fst (write_nar (Suc fuel) open_read get (CFile g n ex) []) =
     (if n = length (concat ps) then Inr ()
      else Inl (NARWriterError (WriterIo (if n < length (concat ps) then InvalidInput else UnexpectedEof))))"
proof -
  let ?out = "(TOK_NAR @ (if ex then TOK_EXE else TOK_REG)) @ u64_bytes n"
  consider "n = length (concat ps)" | "n < length (concat ps)" | "length (concat ps) < n" by linarith
  then show ?thesis
  proof cases
    case 1
    then show ?thesis using assms
      by (simp add: walk_file_ok write_nar_def render_bind_def writing_def w_open_def)
  next
    case 2
    obtain ps' where l: "w_file_loop pieces_fill pieces_consume n (ps, ?out) = (Inr (), (ps', ?out @ take n (concat ps)))"
        "list_all (\<lambda>p. p \<noteq> []) ps'" "concat ps' = drop n (concat ps)"
      using pieces_loop [OF assms(2), of n ?out] 2 by auto
    then obtain q qs where "ps' = q # qs" "q \<noteq> []" using 2 by (cases ps') auto
    then show ?thesis using l(1) 2 assms(1)
      by (simp add: write_nar_def render_bind_def writing_def w_open_def walk_file_def w_file_def sbind_def pieces_fill_def)
  next
    case 3
    then obtain r where "w_file_loop pieces_fill pieces_consume n (ps, ?out) = (Inl UnexpectedEof, r)"
      using pieces_loop_short [OF _ assms(2), of n ?out] by blast
    then show ?thesis using 3 assms(1)
      by (cases r) (simp add: write_nar_def render_bind_def writing_def w_open_def walk_file_def w_file_def sbind_def)
  qed
qed

section \<open>Witnesses\<close>

definition sample_blobs :: "unit open_read" where
  "sample_blobs g = (if g = ''g'' then Inr (Some [''he'', ''llo'']) else Inr None)"

theorem uploaded_tree_renders_witness:
  "\<exists>p root. (ingest_entries sample_digest (ltr_new, []) (validated_put sample_digest) validated_close (map Inr (fs_entries [''root''] sample_fs))
      :: ((unit, ordering_error) ingestion_error, cnode \<times> (ltr_validator \<times> cdirectory list) option) res) = Inr (root, Some p) \<and>
     tree_wf (fs_nar (\<lambda>_. ''hello'') sample_fs) \<and>
     write_nar 9 sample_blobs (received_get sample_digest p :: unit get_directory) root [] = (Inr (), nar_bytes (fs_nar (\<lambda>_. ''hello'') sample_fs)) \<and>
     calculate_size_and_sha256 rev 9 sample_blobs (received_get sample_digest p :: unit get_directory) root =
       Inr (length (nar_bytes (fs_nar (\<lambda>_. ''hello'') sample_fs)), rev (nar_bytes (fs_nar (\<lambda>_. ''hello'') sample_fs)))"
proof -
  have b: "blobs_held sample_blobs (\<lambda>_. ''hello'') sample_fs" "fs_depth sample_fs < 9" by (simp_all add: sample_fs_def)
  show ?thesis
    unfolding sample_fs_def
    by (rule uploaded_tree_renders) (use sample_fs_ok b in \<open>simp_all only: sample_fs_def\<close>)
qed

theorem write_nar_sound_witness:
  "case write_nar 3 sample_blobs (\<lambda>g. Inr (if g = ''d'' then Some [(''f'', CFile ''g'' 5 True)] else None) :: (unit, cdirectory option) res)
       (CDirectory ''d'' 1) [] of
     (Inr _, out) \<Rightarrow> \<exists>t. tree_wf t \<and> out = nar_bytes t
   | (Inl e, _) \<Rightarrow> e \<noteq> NARWriterError (WriterIo NarPanic)"
  by (rule write_nar_sound)
    (auto simp: dir_inv_def pc_ok_def pc_validate_name_def PC_MAX_NAME_LEN_def split: if_splits)

theorem file_size_checked_witness:
  "fst (write_nar 1 sample_blobs (\<lambda>_. Inr None :: (unit, cdirectory option) res) (CFile ''g'' 4 False) []) = Inl (NARWriterError (WriterIo InvalidInput))"
  using file_size_checked [of sample_blobs "''g''" "[''he'', ''llo'']" 0 "\<lambda>_. Inr None :: (unit, cdirectory option) res" 4 False]
  by (simp add: sample_blobs_def)

end
