(* ===== verification/Values.thy ===== *)
theory Values
  imports Bytecode BTree "HOL-Library.Signed_Division"
begin

text \<open>
  The run-time values of the evaluator: \<^verbatim>\<open>eval/src/value\<close>. Strings with context, the representations of attribute sets,
  the type of values with its casts, and arithmetic.

  A thunk is an address of the heap, which is a field of the machine. An \<open>Rc\<close> that the code compares by pointer (lists,
  attribute sets, closures) carries a number that stands for its address. Floating-point numbers are a type parameter
  \<open>'f\<close>; their operations come from outside as a record. A hash map is an association list with distinct keys,
  whose order stands for the unspecified order of iteration.
\<close>

section \<open>Strings\<close>

datatype (plugins only: code size) nix_context_element = CtxPlain string | CtxSingle string string | CtxDerivation string

type_synonym nix_context = "nix_context_element set"

text \<open>The code keeps no context rather than an empty one; both are the empty set.\<close>

datatype (plugins only: code size) nix_string = NixString (ns_bytes: string) (ns_context: nix_context)

definition ns_of :: "string \<Rightarrow> nix_string" where
  "ns_of s = NixString s {}"

definition ns_new_context_from :: "nix_context \<Rightarrow> string \<Rightarrow> nix_string" where
  "ns_new_context_from context contents = NixString contents context"

definition ns_eq :: "nix_string \<Rightarrow> nix_string \<Rightarrow> bool" where
  "ns_eq s t \<longleftrightarrow> ns_bytes s = ns_bytes t"

definition ns_has_context :: "nix_string \<Rightarrow> bool" where
  "ns_has_context s \<longleftrightarrow> ns_context s \<noteq> {}"

definition ns_concat :: "nix_string \<Rightarrow> nix_string \<Rightarrow> nix_string" where
  "ns_concat s t = ns_new_context_from (ns_context s \<union> ns_context t) (ns_bytes s @ ns_bytes t)"

section \<open>Attribute sets\<close>

text \<open>Hash maps keyed by strings; a string is found by its bytes, and inserting keeps a key that is there.\<close>

type_synonym 'v hash_map = "(nix_string \<times> 'v) list"

fun hm_get :: "string \<Rightarrow> 'v hash_map \<Rightarrow> 'v option" where
  "hm_get k [] = None"
| "hm_get k ((s, v) # m) = (if ns_bytes s = k then Some v else hm_get k m)"

definition hm_contains :: "string \<Rightarrow> 'v hash_map \<Rightarrow> bool" where
  "hm_contains k m \<longleftrightarrow> hm_get k m \<noteq> None"

fun hm_insert :: "nix_string \<Rightarrow> 'v \<Rightarrow> 'v hash_map \<Rightarrow> 'v hash_map" where
  "hm_insert k v [] = [(k, v)]"
| "hm_insert k v ((s, w) # m) = (if ns_eq s k then (s, v) # m else (s, w) # hm_insert k v m)"

definition hm_or_insert :: "nix_string \<Rightarrow> 'v \<Rightarrow> 'v hash_map \<Rightarrow> 'v hash_map" where
  "hm_or_insert k v m = (if hm_contains (ns_bytes k) m then m else m @ [(k, v)])"

datatype (plugins only: code size) 'v attrs_rep = AttrsEmpty | AttrsMap "'v hash_map" | AttrsKV 'v 'v

definition NAME :: nix_string where "NAME = ns_of ''name''"
definition VALUE :: nix_string where "VALUE = ns_of ''value''"

fun attrs_select :: "'v attrs_rep \<Rightarrow> string \<Rightarrow> 'v option" where
  "attrs_select AttrsEmpty key = None"
| "attrs_select (AttrsKV name val) key = (if key = ''name'' then Some name else if key = ''value'' then Some val else None)"
| "attrs_select (AttrsMap m) key = hm_get key m"

fun attrs_contains :: "'v attrs_rep \<Rightarrow> string \<Rightarrow> bool" where
  "attrs_contains AttrsEmpty key = False"
| "attrs_contains (AttrsKV _ _) key \<longleftrightarrow> key = ''name'' \<or> key = ''value''"
| "attrs_contains (AttrsMap m) key = hm_contains key m"

text \<open>The merge of two sets; the result says which operand is returned unchanged, if one is.\<close>

datatype (plugins only: code size) 'v update_result = SameLeft | SameRight | Merged "'v attrs_rep"

fun attrs_update :: "'v attrs_rep \<Rightarrow> 'v attrs_rep \<Rightarrow> 'v update_result" where
  "attrs_update AttrsEmpty AttrsEmpty = SameLeft"
| "attrs_update AttrsEmpty _ = SameRight"
| "attrs_update _ AttrsEmpty = SameLeft"
| "attrs_update (AttrsKV _ _) (AttrsKV _ _) = SameRight"
| "attrs_update (AttrsMap m) (AttrsKV name val) = Merged (AttrsMap (hm_insert VALUE val (hm_insert NAME name m)))"
| "attrs_update (AttrsKV name val) (AttrsMap m) = Merged (AttrsMap (hm_or_insert VALUE val (hm_or_insert NAME name m)))"
| "attrs_update (AttrsMap m1) (AttrsMap m2) = Merged (AttrsMap
     (if length m2 \<le> length m1 then fold (\<lambda>(k, v). hm_insert k v) m2 m1
      else fold (\<lambda>(k, v). hm_or_insert k v) m1 m2))"

fun attrs_len :: "'v attrs_rep \<Rightarrow> nat" where
  "attrs_len (AttrsMap m) = length m"
| "attrs_len AttrsEmpty = 0"
| "attrs_len (AttrsKV _ _) = 2"

fun attrs_is_empty :: "'v attrs_rep \<Rightarrow> bool" where
  "attrs_is_empty (AttrsMap m) \<longleftrightarrow> m = []"
| "attrs_is_empty AttrsEmpty \<longleftrightarrow> True"
| "attrs_is_empty (AttrsKV _ _) \<longleftrightarrow> False"

fun attrs_iter_sorted :: "'v attrs_rep \<Rightarrow> (nix_string \<times> 'v) list" where
  "attrs_iter_sorted AttrsEmpty = []"
| "attrs_iter_sorted (AttrsMap m) = sort_key (\<lambda>e. ns_bytes (fst e)) m"
| "attrs_iter_sorted (AttrsKV name val) = [(NAME, name), (VALUE, val)]"

fun attrs_iter :: "'v attrs_rep \<Rightarrow> (nix_string \<times> 'v) list" where
  "attrs_iter AttrsEmpty = []"
| "attrs_iter (AttrsMap m) = m"
| "attrs_iter (AttrsKV name val) = [(NAME, name), (VALUE, val)]"

definition attrs_keys :: "'v attrs_rep \<Rightarrow> nix_string list" where
  "attrs_keys a = map fst (attrs_iter a)"

definition hm_from_option :: "nix_string \<Rightarrow> 'v option \<Rightarrow> 'v hash_map \<Rightarrow> 'v hash_map" where
  "hm_from_option k ov out = (case ov of None \<Rightarrow> out | Some v \<Rightarrow> hm_insert k v out)"

definition map_or_empty :: "'v hash_map \<Rightarrow> 'v attrs_rep" where
  "map_or_empty out = (if out = [] then AttrsEmpty else AttrsMap out)"

fun attrs_intersect :: "'v attrs_rep \<Rightarrow> 'v attrs_rep \<Rightarrow> 'v attrs_rep" where
  "attrs_intersect AttrsEmpty _ = AttrsEmpty"
| "attrs_intersect _ AttrsEmpty = AttrsEmpty"
| "attrs_intersect (AttrsMap lhs) (AttrsMap rhs) = AttrsMap
     (if length lhs < length rhs
      then fold (\<lambda>(key, _). hm_from_option key (hm_get (ns_bytes key) rhs)) lhs []
      else fold (\<lambda>(key, val). if hm_contains (ns_bytes key) lhs then hm_insert key val else id) rhs [])"
| "attrs_intersect (AttrsMap m) (AttrsKV name val) = map_or_empty
     ((if hm_contains ''value'' m then hm_insert VALUE val else id)
       ((if hm_contains ''name'' m then hm_insert NAME name else id) []))"
| "attrs_intersect (AttrsKV _ _) (AttrsMap m) = map_or_empty
     (hm_from_option VALUE (hm_get ''value'' m) (hm_from_option NAME (hm_get ''name'' m) []))"
| "attrs_intersect (AttrsKV n v) (AttrsKV name val) = AttrsKV name val"

section \<open>Values\<close>

datatype (plugins only: code size) catchable_error_kind =
    Throw nix_string | AssertionFailed | UnimplementedFeature string | NixPathResolution string

datatype (plugins only: code size) ('sp, 'f) val =
    VNull
  | VBool bool
  | VInteger "64 word"
  | VFloat 'f
  | VString nix_string
  | VPath string
  | VAttrs nat "('sp, 'f) val attrs_rep"
  | VList nat "('sp, 'f) val list"
  | VClosure nat "('sp, 'f) vlambda" "('sp, 'f) val list" "('sp, 'f) val list"
  | VBuiltin string nat "('sp, 'f) val list"
  | VThunk nat
  | VAttrNotFound
  | VBlueprint "('sp, 'f) vlambda"
  | VDeferredUpvalue nat
  | VUnresolvedPath string
  | VFinaliseRequest bool
  | VCatchable catchable_error_kind
and ('sp, 'f) vlambda =
  VLam (vl_code: "u8 list") (vl_constants: "('sp, 'f) val list") (vl_spans: "('sp \<times> nat) list") (vl_last_op: nat)
    (vl_name: "string option") (vl_upvalue_count: nat)
    (vl_formals: "((string \<times> bool) list \<times> bool \<times> 'sp \<times> string option) option") (vl_param_name: string)

fun type_of :: "('sp, 'f) val \<Rightarrow> string" where
  "type_of VNull = ''null''"
| "type_of (VBool _) = ''bool''"
| "type_of (VInteger _) = ''int''"
| "type_of (VFloat _) = ''float''"
| "type_of (VString _) = ''string''"
| "type_of (VPath _) = ''path''"
| "type_of (VAttrs _ _) = ''set''"
| "type_of (VList _ _) = ''list''"
| "type_of (VClosure _ _ _ _) = ''lambda''"
| "type_of (VBuiltin _ _ _) = ''lambda''"
| "type_of (VThunk _) = ''internal[thunk]''"
| "type_of VAttrNotFound = ''internal[attr_not_found]''"
| "type_of (VBlueprint _) = ''internal[blueprint]''"
| "type_of (VDeferredUpvalue _) = ''internal[deferred_upvalue]''"
| "type_of (VUnresolvedPath _) = ''internal[unresolved_path]''"
| "type_of (VFinaliseRequest _) = ''internal[finaliser_sentinel]''"
| "type_of (VCatchable _) = ''internal[catchable]''"

record coercion_kind =
  ck_strong :: bool
  ck_import_paths :: bool

definition coercion_from_u8 :: "u8 \<Rightarrow> coercion_kind" where
  "coercion_from_u8 byte = \<lparr>ck_strong = (byte AND 1 \<noteq> 0), ck_import_paths = (byte AND 2 \<noteq> 0)\<rparr>"

text \<open>The errors that the modelled code raises; those of the environment are of the type \<open>'x\<close>.\<close>

datatype (plugins only: code size) ('sp, 'f, 'x) error_kind =
    DivisionByZero
  | DuplicateAttrsKey string
  | InvalidAttributeName "('sp, 'f) val"
  | AttributeNotFound string
  | TypeError string string
  | Incomparable string string
  | RelativePathResolution string
  | UnknownDynamicVariable string
  | NotCallable string
  | InfiniteRecursion 'sp "'sp option" "'sp option"
  | NotCoercibleToString string coercion_kind
  | UnexpectedArgumentFormals nix_string 'sp
  | SnixBug string
  | EnvError 'x

text \<open>What the panics of the evaluator say.\<close>

datatype (plugins only: code size) panic_reason =
    StackEmpty
  | OutOfBounds
  | Overflow
  | CompilerBug
  | NotEvaluated
  | BadMessage
  | UnforcedThunk
  | InternalValue
  | NotAString

datatype (plugins only: code size) ('e, 'a) vres = VOk 'a | VFail 'e | VPanic panic_reason

definition vbind :: "('e, 'a) vres \<Rightarrow> ('a \<Rightarrow> ('e, 'b) vres) \<Rightarrow> ('e, 'b) vres" where
  "vbind r f = (case r of VOk a \<Rightarrow> f a | VFail e \<Rightarrow> VFail e | VPanic p \<Rightarrow> VPanic p)"

lemma vbind_simps [simp]: "vbind (VOk a) f = f a" "vbind (VFail e) f = VFail e" "vbind (VPanic p) f = VPanic p"
  by (simp_all add: vbind_def)

definition vopt :: "panic_reason \<Rightarrow> 'a option \<Rightarrow> ('e, 'a) vres" where
  "vopt p x = (case x of None \<Rightarrow> VPanic p | Some a \<Rightarrow> VOk a)"

lemma vopt_simps [simp]: "vopt p None = VPanic p" "vopt p (Some a) = VOk a"
  by (simp_all add: vopt_def)

section \<open>Thunks\<close>

datatype (plugins only: code size) ('sp, 'f) thunk_repr =
    Suspended "('sp, 'f) vlambda" "('sp, 'f) val list" "('sp, 'f) val list" 'sp
  | Native nat
  | Blackhole 'sp "'sp option" "'sp option"
  | Evaluated "('sp, 'f) val"

type_synonym ('sp, 'f) heap = "('sp, 'f) thunk_repr list"

fun is_forced :: "('sp, 'f) thunk_repr \<Rightarrow> bool" where
  "is_forced (Evaluated (VThunk _)) = False"
| "is_forced (Evaluated _) = True"
| "is_forced _ = False"

definition heap_get :: "('sp, 'f) heap \<Rightarrow> nat \<Rightarrow> ('sp, 'f) thunk_repr option" where
  "heap_get h a = (if a < length h then Some (h ! a) else None)"

text \<open>
  \<open>Thunk::value\<close> of an evaluated thunk, followed through thunks whose value is a thunk again, as the casts do. It is
  \<open>None\<close> if a thunk on the way is not evaluated, where the code panics, or if the way has no end.
\<close>

partial_function (option) deref :: "('sp, 'f) heap \<Rightarrow> ('sp, 'f) val \<Rightarrow> ('sp, 'f) val option" where
  "deref h v =
     (case v of
        VThunk a \<Rightarrow> (case heap_get h a of Some (Evaluated w) \<Rightarrow> deref h w | _ \<Rightarrow> None)
      | _ \<Rightarrow> Some v)"

definition cast :: "string \<Rightarrow> (('sp, 'f) val \<Rightarrow> 'a option) \<Rightarrow> ('sp, 'f) heap \<Rightarrow> ('sp, 'f) val \<Rightarrow> (('sp, 'f, 'x) error_kind, 'a) vres" where
  "cast expected sel h v =
     vbind (vopt NotEvaluated (deref h v)) (\<lambda>w.
       case sel w of Some a \<Rightarrow> VOk a | None \<Rightarrow> VFail (TypeError expected (type_of w)))"

definition as_bool :: "('sp, 'f) heap \<Rightarrow> ('sp, 'f) val \<Rightarrow> (('sp, 'f, 'x) error_kind, bool) vres" where
  "as_bool = cast ''bool'' (\<lambda>v. case v of VBool b \<Rightarrow> Some b | _ \<Rightarrow> None)"

definition to_str :: "('sp, 'f) heap \<Rightarrow> ('sp, 'f) val \<Rightarrow> (('sp, 'f, 'x) error_kind, nix_string) vres" where
  "to_str = cast ''contextless strings'' (\<lambda>v. case v of VString s \<Rightarrow> if ns_has_context s then None else Some s | _ \<Rightarrow> None)"

definition to_contextful_str :: "('sp, 'f) heap \<Rightarrow> ('sp, 'f) val \<Rightarrow> (('sp, 'f, 'x) error_kind, nix_string) vres" where
  "to_contextful_str = cast ''contextful string'' (\<lambda>v. case v of VString s \<Rightarrow> Some s | _ \<Rightarrow> None)"

definition to_attrs :: "('sp, 'f) heap \<Rightarrow> ('sp, 'f) val \<Rightarrow> (('sp, 'f, 'x) error_kind, nat \<times> ('sp, 'f) val attrs_rep) vres" where
  "to_attrs = cast ''set'' (\<lambda>v. case v of VAttrs p a \<Rightarrow> Some (p, a) | _ \<Rightarrow> None)"

definition to_list :: "('sp, 'f) heap \<Rightarrow> ('sp, 'f) val \<Rightarrow> (('sp, 'f, 'x) error_kind, ('sp, 'f) val list) vres" where
  "to_list = cast ''list'' (\<lambda>v. case v of VList p l \<Rightarrow> Some l | _ \<Rightarrow> None)"

definition is_a :: "(('sp, 'f) val \<Rightarrow> bool) \<Rightarrow> ('sp, 'f) heap \<Rightarrow> ('sp, 'f) val \<Rightarrow> ('e, bool) vres" where
  "is_a P h v = vbind (vopt NotEvaluated (deref h v)) (\<lambda>w. VOk (P w))"

definition is_catchable :: "('sp, 'f) heap \<Rightarrow> ('sp, 'f) val \<Rightarrow> ('e, bool) vres" where
  "is_catchable = is_a (\<lambda>v. case v of VCatchable _ \<Rightarrow> True | _ \<Rightarrow> False)"

definition is_bool :: "('sp, 'f) heap \<Rightarrow> ('sp, 'f) val \<Rightarrow> ('e, bool) vres" where
  "is_bool = is_a (\<lambda>v. case v of VBool _ \<Rightarrow> True | _ \<Rightarrow> False)"

definition val_is_attrs :: "('sp, 'f) heap \<Rightarrow> ('sp, 'f) val \<Rightarrow> ('e, bool) vres" where
  "val_is_attrs = is_a (\<lambda>v. case v of VAttrs _ _ \<Rightarrow> True | _ \<Rightarrow> False)"

definition is_number :: "('sp, 'f) heap \<Rightarrow> ('sp, 'f) val \<Rightarrow> ('e, bool) vres" where
  "is_number = is_a (\<lambda>v. case v of VInteger _ \<Rightarrow> True | VFloat _ \<Rightarrow> True | _ \<Rightarrow> False)"

section \<open>Arithmetic\<close>

datatype (plugins only: code size) arith = Plus | Minus | Times | Divide

record 'f float_ops =
  fl_op :: "arith \<Rightarrow> 'f \<Rightarrow> 'f \<Rightarrow> 'f"
  fl_neg :: "'f \<Rightarrow> 'f"
  fl_of_int :: "64 word \<Rightarrow> 'f"
  fl_is_zero :: "'f \<Rightarrow> bool"
  fl_eq :: "'f \<Rightarrow> 'f \<Rightarrow> bool"
  fl_total_cmp :: "'f \<Rightarrow> 'f \<Rightarrow> int"

text \<open>The exact result of an operation on integers; division truncates.\<close>

fun int_arith :: "arith \<Rightarrow> int \<Rightarrow> int \<Rightarrow> int" where
  "int_arith Plus x y = x + y"
| "int_arith Minus x y = x - y"
| "int_arith Times x y = x * y"
| "int_arith Divide x y = x sdiv y"

definition i64_range :: "int \<Rightarrow> bool" where
  "i64_range x \<longleftrightarrow> - (2 ^ 63) \<le> x \<and> x < 2 ^ 63"

text \<open>
  The operators on \<open>i64\<close>: a result out of range panics in a build with overflow checks and wraps otherwise. Division
  by zero and the division of the least number by -1 panic in every build.
\<close>

definition i64_op :: "bool \<Rightarrow> arith \<Rightarrow> 64 word \<Rightarrow> 64 word \<Rightarrow> ('e, 64 word) vres" where
  "i64_op checked opr x y =
     (if opr = Divide \<and> sint y = 0 then VPanic Overflow
      else let r = int_arith opr (sint x) (sint y)
           in if i64_range r then VOk (word_of_int r)
              else if checked \<or> opr = Divide then VPanic Overflow
              else VOk (word_of_int r))"

definition arithmetic_op ::
  "bool \<Rightarrow> 'f float_ops \<Rightarrow> ('sp, 'f) heap \<Rightarrow> arith \<Rightarrow> ('sp, 'f) val \<Rightarrow> ('sp, 'f) val \<Rightarrow> (('sp, 'f, 'x) error_kind, ('sp, 'f) val) vres" where
  "arithmetic_op checked F h opr a b =
     (case (a, b) of
        (VInteger i1, VInteger i2) \<Rightarrow> vbind (i64_op checked opr i1 i2) (\<lambda>r. VOk (VInteger r))
      | (VFloat f1, VFloat f2) \<Rightarrow> VOk (VFloat (fl_op F opr f1 f2))
      | (VInteger i1, VFloat f2) \<Rightarrow> VOk (VFloat (fl_op F opr (fl_of_int F i1) f2))
      | (VFloat f1, VInteger i2) \<Rightarrow> VOk (VFloat (fl_op F opr f1 (fl_of_int F i2)))
      | (v1, v2) \<Rightarrow>
          vbind (is_number h v1) (\<lambda>n.
            VFail (TypeError ''number (either int or float)'' (if n then type_of v2 else type_of v1))))"

section \<open>Building attribute sets\<close>

definition set_attr :: "nix_string \<Rightarrow> ('sp, 'f) val \<Rightarrow> ('sp, 'f) val hash_map \<Rightarrow> (('sp, 'f, 'x) error_kind, ('sp, 'f) val hash_map) vres" where
  "set_attr key v m = (if hm_contains (ns_bytes key) m then VFail (DuplicateAttrsKey (ns_bytes key)) else VOk (m @ [(key, v)]))"

definition attempt_optimise_kv :: "('sp, 'f) val list \<Rightarrow> ('sp, 'f) val attrs_rep option" where
  "attempt_optimise_kv kv_slice =
     (case (kv_slice ! 2, kv_slice ! 0) of
        (VString s1, VString s2) \<Rightarrow>
          if ns_eq s1 NAME \<and> ns_eq s2 VALUE then Some (AttrsKV (kv_slice ! 3) (kv_slice ! 1))
          else if ns_eq s1 VALUE \<and> ns_eq s2 NAME then Some (AttrsKV (kv_slice ! 1) (kv_slice ! 3))
          else None
      | _ \<Rightarrow> None)"

text \<open>The loop pops a value and a key from the end of the kv_slice.\<close>

fun construct_loop ::
  "nat \<Rightarrow> ('sp, 'f) val list \<Rightarrow> ('sp, 'f) val hash_map \<Rightarrow> (('sp, 'f, 'x) error_kind, catchable_error_kind + ('sp, 'f) val attrs_rep) vres" where
  "construct_loop 0 rev_slice m = VOk (Inr (AttrsMap m))"
| "construct_loop (Suc n) (v # key # rev_slice) m =
     (case key of
        VString ks \<Rightarrow> vbind (set_attr ks v m) (construct_loop n rev_slice)
      | VNull \<Rightarrow> construct_loop n rev_slice m
      | VCatchable err \<Rightarrow> VOk (Inl err)
      | other \<Rightarrow> VFail (InvalidAttributeName other))"
| "construct_loop (Suc n) _ m = VPanic OutOfBounds"

definition attrs_construct ::
  "nat \<Rightarrow> ('sp, 'f) val list \<Rightarrow> (('sp, 'f, 'x) error_kind, catchable_error_kind + ('sp, 'f) val attrs_rep) vres" where
  "attrs_construct count stack_slice =
     (if count = 0 then VOk (Inr AttrsEmpty)
      else case (if count = 2 then attempt_optimise_kv stack_slice else None) of
             Some kv \<Rightarrow> VOk (Inr kv)
           | None \<Rightarrow> construct_loop count (rev stack_slice) [])"

section \<open>Attribute sets refine finite maps\<close>

lemma hm_get_insert [simp]: "hm_get k (hm_insert s v m) = (if ns_bytes s = k then Some v else hm_get k m)"
  by (induction m) (auto simp: ns_eq_def)

lemma hm_get_append: "hm_get k (m @ m') = (case hm_get k m of None \<Rightarrow> hm_get k m' | Some v \<Rightarrow> Some v)"
  by (induction m) auto

lemma hm_get_or_insert [simp]: "hm_get k (hm_or_insert s v m) =
    (if ns_bytes s = k \<and> hm_get k m = None then Some v else hm_get k m)"
  by (auto simp: hm_or_insert_def hm_contains_def hm_get_append split: option.splits)

fun hm_keys :: "'v hash_map \<Rightarrow> string set" where
  "hm_keys [] = {}"
| "hm_keys ((s, v) # m) = insert (ns_bytes s) (hm_keys m)"

fun hm_wf :: "'v hash_map \<Rightarrow> bool" where
  "hm_wf [] \<longleftrightarrow> True"
| "hm_wf ((s, v) # m) \<longleftrightarrow> ns_bytes s \<notin> hm_keys m \<and> hm_wf m"

lemma hm_get_eq_None: "hm_get k m = None \<longleftrightarrow> k \<notin> hm_keys m"
  by (induction m rule: hm_keys.induct) auto

lemma hm_keys_append [simp]: "hm_keys (m @ m') = hm_keys m \<union> hm_keys m'"
  by (induction m rule: hm_keys.induct) auto

lemma hm_wf_append [simp]: "hm_wf (m @ m') \<longleftrightarrow> hm_wf m \<and> hm_wf m' \<and> hm_keys m \<inter> hm_keys m' = {}"
  by (induction m rule: hm_keys.induct) auto

lemma hm_get_map_of: "hm_get k m = map_of (map (\<lambda>e. (ns_bytes (fst e), snd e)) m) k"
  by (induction m) auto

fun attrs_wf :: "'v attrs_rep \<Rightarrow> bool" where
  "attrs_wf (AttrsMap m) \<longleftrightarrow> hm_wf m"
| "attrs_wf _ \<longleftrightarrow> True"

lemma hm_insert_keys [simp]: "hm_keys (hm_insert s v m) = insert (ns_bytes s) (hm_keys m)"
  by (induction m rule: hm_keys.induct) (auto simp: ns_eq_def)

lemma hm_wf_insert [intro]: "hm_wf m \<Longrightarrow> hm_wf (hm_insert s v m)"
  by (induction m rule: hm_keys.induct) (auto simp: ns_eq_def)

lemma hm_wf_or_insert [intro]: "hm_wf m \<Longrightarrow> hm_wf (hm_or_insert s v m)"
  by (auto simp: hm_or_insert_def hm_contains_def hm_get_eq_None)

lemma hm_fold_insert:
  "hm_wf m \<Longrightarrow> hm_wf n \<Longrightarrow> hm_wf (fold (\<lambda>(k, v). hm_insert k v) n m) \<and>
   hm_get k (fold (\<lambda>(k, v). hm_insert k v) n m) = (case hm_get k n of None \<Rightarrow> hm_get k m | Some v \<Rightarrow> Some v)"
proof (induction n arbitrary: m)
  case (Cons e n)
  obtain s v where e: "e = (s, v)" by (cases e)
  have fresh: "hm_get (ns_bytes s) n = None" and n: "hm_wf n" using Cons.prems(2) e by (auto simp: hm_get_eq_None)
  show ?case using Cons.IH [OF hm_wf_insert [OF Cons.prems(1)] n, of s v] fresh e by (auto split: option.splits)
qed simp

lemma hm_fold_or_insert:
  "hm_wf m \<Longrightarrow> hm_wf n \<Longrightarrow> hm_wf (fold (\<lambda>(k, v). hm_or_insert k v) n m) \<and>
   hm_get k (fold (\<lambda>(k, v). hm_or_insert k v) n m) = (case hm_get k m of None \<Rightarrow> hm_get k n | Some v \<Rightarrow> Some v)"
proof (induction n arbitrary: m)
  case (Cons e n)
  obtain s v where e: "e = (s, v)" by (cases e)
  have fresh: "hm_get (ns_bytes s) n = None" and n: "hm_wf n" using Cons.prems(2) e by (auto simp: hm_get_eq_None)
  show ?case using Cons.IH [OF hm_wf_or_insert [OF Cons.prems(1)] n, of s v] fresh e by (auto split: option.splits)
qed (simp split: option.splits)

text \<open>What \<open>NixAttrs::update\<close> returns.\<close>

definition updated :: "'v attrs_rep \<Rightarrow> 'v attrs_rep \<Rightarrow> 'v attrs_rep" where
  "updated a b = (case attrs_update a b of SameLeft \<Rightarrow> a | SameRight \<Rightarrow> b | Merged c \<Rightarrow> c)"

lemma attrs_contains_select: "attrs_contains a k \<longleftrightarrow> attrs_select a k \<noteq> None"
  by (cases a) (auto simp: hm_contains_def)

text \<open>
  C10: The merge of two attribute sets, in every combination of representations, has the entries of the right set and those of
  the left set under other keys, and is a well-formed representation again.
\<close>

theorem attrs_update_refines:
  assumes "attrs_wf a" "attrs_wf b"
  shows "attrs_wf (updated a b) \<and> attrs_select (updated a b) = attrs_select a ++ attrs_select b"
proof -
  have "attrs_wf (updated a b) \<and> attrs_select (updated a b) k = (attrs_select a ++ attrs_select b) k" for k
    using assms hm_fold_insert [of _ _ k] hm_fold_or_insert [of _ _ k]
    by (cases "(a, b)" rule: attrs_update.cases)
      (auto simp: updated_def map_add_def NAME_def VALUE_def ns_of_def split: option.splits)
  then show ?thesis by blast
qed

theorem attrs_update_refines_witness:
  "attrs_select (updated (AttrsKV 1 2) (AttrsMap [(ns_of ''a'', 3), (ns_of ''name'', 4 :: nat)])) =
     attrs_select (AttrsKV 1 2) ++ attrs_select (AttrsMap [(ns_of ''a'', 3), (ns_of ''name'', 4)])"
  using attrs_update_refines [of "AttrsKV 1 2" "AttrsMap [(ns_of ''a'', 3), (ns_of ''name'', 4 :: nat)]"] by (simp add: ns_of_def)

lemma hm_fold_filter:
  "hm_wf m \<Longrightarrow> hm_wf out \<Longrightarrow> hm_wf (fold (\<lambda>(k, v). if P (ns_bytes k) then hm_insert k v else id) m out) \<and>
   hm_get x (fold (\<lambda>(k, v). if P (ns_bytes k) then hm_insert k v else id) m out) =
     (case (if P x then hm_get x m else None) of None \<Rightarrow> hm_get x out | Some v \<Rightarrow> Some v)"
proof (induction m arbitrary: out)
  case (Cons e m)
  obtain s v where e: "e = (s, v)" by (cases e)
  have fresh: "hm_get (ns_bytes s) m = None" and m: "hm_wf m" using Cons.prems(1) e by (auto simp: hm_get_eq_None)
  show ?case using Cons.IH [OF m hm_wf_insert [OF Cons.prems(2)], of s v] Cons.IH [OF m Cons.prems(2)] fresh e
    by (auto split: option.splits)
qed simp

lemma hm_fold_lookup:
  "hm_wf m \<Longrightarrow> hm_wf out \<Longrightarrow> (\<And>k. k \<in> hm_keys m \<Longrightarrow> hm_get k out = None) \<Longrightarrow>
   hm_wf (fold (\<lambda>(k, _). hm_from_option k (f (ns_bytes k))) m out) \<and>
   hm_get x (fold (\<lambda>(k, _). hm_from_option k (f (ns_bytes k))) m out) =
     (if hm_get x m = None then hm_get x out else f x)"
proof (induction m arbitrary: out)
  case (Cons e m)
  obtain s v where e: "e = (s, v)" by (cases e)
  let ?out = "hm_from_option s (f (ns_bytes s)) out"
  have fresh: "hm_get (ns_bytes s) m = None" and m: "hm_wf m" using Cons.prems(1) e by (auto simp: hm_get_eq_None)
  have out: "hm_wf ?out" using Cons.prems(2) by (auto simp: hm_from_option_def split: option.splits)
  have get: "hm_get k ?out = (if k = ns_bytes s then f k else hm_get k out)" for k
    using Cons.prems(3) [of "ns_bytes s"] e by (auto simp: hm_from_option_def split: option.splits)
  have "hm_get k ?out = None" if "k \<in> hm_keys m" for k
    using that fresh Cons.prems(3) [of k] e unfolding get by (auto simp: hm_get_eq_None)
  from Cons.IH [OF m out this] show ?case using e fresh get
    by (cases "x = ns_bytes s") auto
qed simp

text \<open>
  The intersection of two attribute sets has the entries of the right set whose keys are in the left set, in every
  combination of representations.
\<close>

theorem attrs_intersect_refines:
  assumes "attrs_wf a" "attrs_wf b"
  shows "attrs_wf (attrs_intersect a b) \<and> attrs_select (attrs_intersect a b) = attrs_select b |` dom (attrs_select a)"
proof -
  have empty: "hm_wf ([] :: 'a hash_map)" by simp
  have "attrs_wf (attrs_intersect a b) \<and> attrs_select (attrs_intersect a b) k = (attrs_select b |` dom (attrs_select a)) k" for k
    using assms hm_fold_filter [OF _ empty, of _ "\<lambda>k. hm_contains k _" k] hm_fold_lookup [OF _ empty, of _ "\<lambda>k. hm_get k _" k]
    by (cases "(a, b)" rule: attrs_intersect.cases)
      (auto simp: restrict_map_def dom_def hm_contains_def map_or_empty_def NAME_def VALUE_def ns_of_def hm_from_option_def
        split: option.splits)
  then show ?thesis by blast
qed

theorem attrs_intersect_refines_witness:
  "attrs_select (attrs_intersect (AttrsKV 1 2) (AttrsMap [(ns_of ''a'', 3), (ns_of ''name'', 4 :: nat)])) =
     attrs_select (AttrsMap [(ns_of ''a'', 3), (ns_of ''name'', 4)]) |` dom (attrs_select (AttrsKV (1 :: nat) 2))"
  using attrs_intersect_refines [of "AttrsKV 1 2" "AttrsMap [(ns_of ''a'', 3), (ns_of ''name'', 4 :: nat)]"] by (simp add: ns_of_def)

text \<open>The entries under string keys of a slice of the stack, last pushed first; null keys are skipped.\<close>

fun popped_entries :: "('sp, 'f) val list \<Rightarrow> ('sp, 'f) val hash_map" where
  "popped_entries (v # VString ks # rest) = (ks, v) # popped_entries rest"
| "popped_entries (v # key # rest) = popped_entries rest"
| "popped_entries _ = []"

fun static_keys :: "('sp, 'f) val list \<Rightarrow> bool" where
  "static_keys (v # VString ks # rest) = static_keys rest"
| "static_keys (v # VNull # rest) = static_keys rest"
| "static_keys (v # key # rest) = False"
| "static_keys _ = True"

lemma set_attr_simps [simp]:
  "ns_bytes ks \<notin> hm_keys m \<Longrightarrow> set_attr ks v m = VOk (m @ [(ks, v)])"
  "ns_bytes ks \<in> hm_keys m \<Longrightarrow> set_attr ks v m = VFail (DuplicateAttrsKey (ns_bytes ks))"
  by (simp_all add: set_attr_def hm_contains_def hm_get_eq_None)

lemma construct_loop_spec:
  "static_keys rs \<Longrightarrow> length rs = 2 * n \<Longrightarrow> hm_wf m \<Longrightarrow>
   (if hm_wf (m @ popped_entries rs) then (construct_loop n rs m :: (('sp, 'f, 'x) error_kind, _) vres) = VOk (Inr (AttrsMap (m @ popped_entries rs)))
    else \<exists>k. (construct_loop n rs m :: (('sp, 'f, 'x) error_kind, _) vres) = VFail (DuplicateAttrsKey k))"
proof (induction rs arbitrary: n m rule: static_keys.induct)
  case (1 v ks rest)
  then obtain n' where n: "n = Suc n'" "length rest = 2 * n'" by (cases n) auto
  show ?case
  proof (cases "ns_bytes ks \<in> hm_keys m")
    case True
    then show ?thesis using n(1) by auto
  next
    case False
    then have m: "hm_wf (m @ [(ks, v)])" using "1.prems"(3) by simp
    have "static_keys rest" using "1.prems"(1) by simp
    from "1.IH" [OF this n(2) m] show ?thesis unfolding n(1) using False by simp
  qed
next
  case (2 v rest)
  then obtain n' where "n = Suc n'" "length rest = 2 * n'" by (cases n) auto
  then show ?case using 2 by simp
qed auto

text \<open>
  C36: The set built from a slice of the stack whose keys are strings or null: it has the value of every string key, whether or
  not the representation for name and value pairs is chosen; a key that occurs twice is an error.
\<close>

theorem attrs_construct_spec:
  assumes "length stack_slice = 2 * count" "static_keys (rev stack_slice)"
  shows "if hm_wf (popped_entries (rev stack_slice))
    then \<exists>a. (attrs_construct count stack_slice :: (('sp, 'f, 'x) error_kind, _) vres) = VOk (Inr a) \<and> attrs_wf a \<and>
           attrs_select a = (\<lambda>k. hm_get k (popped_entries (rev stack_slice)))
    else \<exists>k. (attrs_construct count stack_slice :: (('sp, 'f, 'x) error_kind, _) vres) = VFail (DuplicateAttrsKey k)"
proof (cases "count = 2 \<and> attempt_optimise_kv stack_slice \<noteq> None")
  case True
  then obtain kv where kv: "attempt_optimise_kv stack_slice = Some kv" by auto
  obtain k0 v0 k1 v1 where sl: "stack_slice = [k0, v0, k1, v1]"
    using True assms(1) by (auto simp: numeral_eq_Suc length_Suc_conv)
  show ?thesis using kv True
    by (auto simp: attrs_construct_def attempt_optimise_kv_def sl NAME_def VALUE_def ns_of_def ns_eq_def
        split: val.splits if_splits)
next
  case False
  then have "(attrs_construct count stack_slice :: (('sp, 'f, 'x) error_kind, _) vres) = (if count = 0 then VOk (Inr AttrsEmpty) else construct_loop count (rev stack_slice) [])"
    by (auto simp: attrs_construct_def)
  then show ?thesis
    using construct_loop_spec [OF assms(2), of count "[]", where 'x = 'x] assms(1) by (cases "count = 0") (auto split: if_splits)
qed


theorem attrs_construct_spec_witness:
  "\<exists>a. (attrs_construct 2 [VString VALUE, VInteger 1, VString NAME, VNull] :: ((unit, unit, unit) error_kind, _) vres) = VOk (Inr a) \<and>
     attrs_select a ''name'' = Some VNull \<and> attrs_select a ''value'' = Some (VInteger 1)"
  using attrs_construct_spec [of "[VString VALUE, VInteger 1, VString NAME, VNull :: (unit, unit) val]" 2, where 'x = unit]
  by (auto simp: NAME_def VALUE_def ns_of_def)

end
