(* ===== verification/Vm.thy ===== *)
theory Vm
  imports Values
begin

text \<open>
  The virtual machine: \<^verbatim>\<open>eval/src/vm/mod.rs\<close>, \<^verbatim>\<open>vm/generators.rs\<close> and the generators of \<^verbatim>\<open>value/mod.rs\<close> and \<^verbatim>\<open>value/thunk.rs\<close>.

  A generator is an asynchronous function that yields requests to the machine. The compiler of Rust turns it into a
  state machine over its await points; here that state machine is written out: an activation (\<open>act\<close>) is a function at
  one of its await points with the local variables that are live there, and a generator is a stack of activations, the
  innermost first. One step runs the innermost activation up to its next loop head, call, yield or return.
  A builtin is a state machine of a parameter type \<open>'b\<close>, resumed by a function of the environment; what is outside of the machine
  (files, environment variables, the store) is a world of the parameter type \<open>'w\<close>.

  The outer and the inner loop of the machine are one step function: it takes the top frame, runs one instruction or one
  activation step and puts the frame back unless it is done. The heap holds the thunks; whether a thunk or its upvalues are referenced
  from one place only, which decides whether they may be moved or changed, is a parameter. Errors carry the span and the chain of frames.
\<close>

section \<open>The environment\<close>

datatype (plugins only: code size) pointer_equality = ForbidAll | AllowNested | AllowAll

fun allows_nested :: "pointer_equality \<Rightarrow> bool" where
  "allows_nested ForbidAll = False"
| "allows_nested _ = True"

definition at_least_nested :: "pointer_equality \<Rightarrow> pointer_equality" where
  "at_least_nested p = (if p = ForbidAll then AllowNested else p)"

datatype (plugins only: code size) cmp_op = CmpLess | CmpLessOrEq | CmpMore | CmpMoreOrEq

datatype (plugins only: code size) file_type = FtDirectory | FtRegular | FtSymlink | FtUnknown

text \<open>A kind of warning is the text that it is reported with.\<close>

type_synonym 'sp eval_warning = "string \<times> 'sp"

datatype (plugins only: code size) ('sp, 'f) vm_request =
    ForceValue "('sp, 'f) val"
  | DeepForceValue "('sp, 'f) val"
  | WithValue nat
  | CapturedWithValue nat
  | NixEquality "('sp, 'f) val" "('sp, 'f) val" pointer_equality
  | StackPush "('sp, 'f) val"
  | StackPop
  | StringCoerce "('sp, 'f) val" coercion_kind
  | Call "('sp, 'f) val"
  | EnterLambda "('sp, 'f) vlambda" "('sp, 'f) val list" "('sp, 'f) val list" 'sp
  | EmitWarning "'sp eval_warning"
  | EmitWarningKind string
  | ImportCacheLookup string
  | ImportCachePut string "('sp, 'f) val"
  | PathImport string
  | OpenFile string
  | PathExists string
  | ReadDir string
  | Span
  | TryForce "('sp, 'f) val"
  | ReadFileType string
  | GetEnv string

text \<open>A reader is the bytes that it delivers.\<close>

datatype (plugins only: code size) ('sp, 'f) vm_response =
    RespEmpty
  | RespValue "('sp, 'f) val"
  | RespPath string
  | RespDirectory "(string \<times> file_type) list"
  | RespSpan 'sp
  | RespReader string
  | RespFileType file_type
  | RespEnv string

datatype (plugins only: code size) ('sp, 'f, 'x, 'b) builtin_step =
    Yielded "('sp, 'f) vm_request" 'b
  | Complete "('sp, 'f, 'x) error_kind + ('sp, 'f) val"

record ('sp, 'f, 'x, 'b, 'w) vm_env =
  ve_decode :: "u8 list \<Rightarrow> u64 \<times> nat"
  ve_checked :: bool
  ve_float :: "'f float_ops"
  ve_fmt_int :: "64 word \<Rightarrow> string"
  ve_fmt_float :: "'f \<Rightarrow> string"
  ve_canon :: "string \<Rightarrow> string"
  ve_lossy :: "string \<Rightarrow> string"
  ve_find_file :: "'w \<Rightarrow> string \<Rightarrow> ('sp, 'f, 'x) error_kind + (catchable_error_kind + string)"
  ve_get_env :: "'w \<Rightarrow> string \<Rightarrow> string option"
  ve_join :: "string \<Rightarrow> string \<Rightarrow> string"
  ve_canonicalize :: "'w \<Rightarrow> string \<Rightarrow> string option"
  ve_import_path :: "'w \<Rightarrow> string \<Rightarrow> ('x + string) \<times> 'w"
  ve_open :: "'w \<Rightarrow> string \<Rightarrow> 'x + string"
  ve_path_exists :: "'w \<Rightarrow> string \<Rightarrow> 'x + bool"
  ve_read_dir :: "'w \<Rightarrow> string \<Rightarrow> 'x + (string \<times> file_type) list"
  ve_file_type :: "'w \<Rightarrow> string \<Rightarrow> 'x + file_type"
  ve_native :: "nat \<Rightarrow> ('sp, 'f, 'x) error_kind + ('sp, 'f) val"
  ve_sole :: "('sp, 'f) heap \<Rightarrow> nat \<Rightarrow> bool"
  ve_unshared :: "('sp, 'f) heap \<Rightarrow> nat \<Rightarrow> bool"
  ve_builtin :: "string \<Rightarrow> ('sp, 'f) val list \<Rightarrow> 'b"
  ve_resume :: "'b \<Rightarrow> ('sp, 'f) vm_response \<Rightarrow> ('sp, 'f) heap \<Rightarrow> 'w \<Rightarrow> ('sp, 'f, 'x, 'b) builtin_step \<times> ('sp, 'f) heap \<times> 'w"

section \<open>Activations\<close>

record ('sp, 'f) coerce_locals =
  cl_result :: string
  cl_vals :: "('sp, 'f) val list"
  cl_is_list_head :: "bool option"
  cl_context :: nix_context
  cl_kind :: coercion_kind
  cl_span :: 'sp

type_synonym ('sp, 'f) eq_item = "('sp, 'f) val \<times> ('sp, 'f) val \<times> pointer_equality"
type_synonym ('sp, 'f) attrs = "nat \<times> ('sp, 'f) val attrs_rep"

datatype (plugins only: size) ('sp, 'f) act =
    AForce nat "nat list" 'sp
  | AForceEntered nat "nat list" 'sp
  | ADeepForce "('sp, 'f) val" "('sp, 'f) val list" "nat list" 'sp
  | ADeepForceForced "('sp, 'f) val" "('sp, 'f) val list" "nat list" 'sp
  | ACoerce "('sp, 'f) coerce_locals"
  | ACoerceForced "('sp, 'f) coerce_locals"
  | ACoerceImported "('sp, 'f) coerce_locals"
  | ACoerceToString "('sp, 'f) coerce_locals" "('sp, 'f) attrs"
  | ACoercePushed "('sp, 'f) coerce_locals" "('sp, 'f) val"
  | ACoerceCallable "('sp, 'f) coerce_locals"
  | ACoerceCalled "('sp, 'f) coerce_locals"
  | AEq "('sp, 'f) eq_item list" 'sp
  | AEqLeft "('sp, 'f) val" pointer_equality "('sp, 'f) eq_item list" 'sp
  | AEqRight "('sp, 'f) val" pointer_equality "('sp, 'f) eq_item list" 'sp
  | AEqType1 "('sp, 'f) attrs" "('sp, 'f) attrs" "('sp, 'f) val" pointer_equality "('sp, 'f) eq_item list" 'sp
  | AEqType2 "('sp, 'f) attrs" "('sp, 'f) attrs" "('sp, 'f) val" pointer_equality "('sp, 'f) eq_item list" 'sp
  | AEqOut1 "('sp, 'f) val" "('sp, 'f) eq_item list" 'sp
  | AEqOut2 "('sp, 'f) val" "('sp, 'f) eq_item list" 'sp
  | ACmp "('sp, 'f) eq_item list" 'sp
  | ACmpEq "('sp, 'f) val" "('sp, 'f) val" "('sp, 'f) eq_item list" 'sp
  | ACmpLeft "('sp, 'f) val" "('sp, 'f) eq_item list" 'sp
  | ACmpRight "('sp, 'f) val" "('sp, 'f) eq_item list" 'sp
  | ACompare cmp_op "('sp, 'f) val" "('sp, 'f) val"
  | ACompareLeft cmp_op "('sp, 'f) val"
  | ACompareRight cmp_op "('sp, 'f) val"
  | ACompareSpan cmp_op "('sp, 'f) val" "('sp, 'f) val"
  | ACompareOrdering cmp_op
  | AAddValues "('sp, 'f) val" "('sp, 'f) val"
  | AAddPath string
  | AAddString nix_string
  | AAddLeft "('sp, 'f) val"
  | AAddRight "catchable_error_kind + nix_string"
  | AResolveWith string nat nat
  | AResolveWithValue string nat nat
  | AResolveWithCaptured string nat
  | ACallFunctor "('sp, 'f) val"
  | AFunctorForced "('sp, 'f) val"
  | AFunctorPushed "('sp, 'f) val"
  | AFunctorForcedAgain
  | AFunctorPrimed
  | AFunctorPrimedForced
  | AFunctorCalled
  | AFinalDeepForce
  | AFinalPopped
  | AFinalForced

datatype (plugins only: code size) ('sp, 'f) ret = RVal "('sp, 'f) val" | ROrdering "catchable_error_kind + int"

datatype (plugins only: code size) ('sp, 'f) input = IStart | IResp "('sp, 'f) vm_response" | IRet "('sp, 'f) ret"

text \<open>The result of a step: a yield, another step, or the end of the generator.\<close>

datatype (plugins only: code size) ('sp, 'f, 'x) gen_result =
    GYield "('sp, 'f) vm_request" "('sp, 'f) act list" "('sp, 'f) heap"
  | GNext "('sp, 'f) act list" "('sp, 'f) input" "('sp, 'f) heap"
  | GDone "('sp, 'f) val" "('sp, 'f) heap"
  | GFail "('sp, 'f, 'x) error_kind" "('sp, 'f) heap"
  | GPanic panic_reason

definition gbind :: "(('sp, 'f, 'x) error_kind, 'a) vres \<Rightarrow> ('sp, 'f) heap \<Rightarrow> ('a \<Rightarrow> ('sp, 'f, 'x) gen_result) \<Rightarrow> ('sp, 'f, 'x) gen_result" where
  "gbind r h f = (case r of VOk a \<Rightarrow> f a | VFail e \<Rightarrow> GFail e h | VPanic p \<Rightarrow> GPanic p)"

lemma gbind_simps [simp]: "gbind (VOk a) h f = f a" "gbind (VFail e) h f = GFail e h" "gbind (VPanic p) h f = GPanic p"
  by (simp_all add: gbind_def)

text \<open>Return to the caller; call another function and return to the activation below; force a value in place.\<close>

definition g_return :: "('sp, 'f) val \<Rightarrow> ('sp, 'f) act list \<Rightarrow> ('sp, 'f) heap \<Rightarrow> ('sp, 'f, 'x) gen_result" where
  "g_return v k h = GNext k (IRet (RVal v)) h"

definition g_loop :: "('sp, 'f) act \<Rightarrow> ('sp, 'f) act list \<Rightarrow> ('sp, 'f) heap \<Rightarrow> ('sp, 'f, 'x) gen_result" where
  "g_loop a k h = GNext (a # k) IStart h"

definition value_force :: "('sp, 'f) val \<Rightarrow> 'sp \<Rightarrow> ('sp, 'f) act list \<Rightarrow> ('sp, 'f) heap \<Rightarrow> ('sp, 'f, 'x) gen_result" where
  "value_force v span k h = (case v of VThunk a \<Rightarrow> g_loop (AForce a [] span) k h | _ \<Rightarrow> g_return v k h)"

definition request_force :: "('sp, 'f) val \<Rightarrow> ('sp, 'f) act list \<Rightarrow> ('sp, 'f) heap \<Rightarrow> ('sp, 'f, 'x) gen_result" where
  "request_force v k h = (case v of VThunk _ \<Rightarrow> GYield (ForceValue v) k h | _ \<Rightarrow> GNext k (IResp (RespValue v)) h)"

section \<open>Forcing\<close>

definition vl_chunk :: "('sp, 'f) vlambda \<Rightarrow> ('sp, ('sp, 'f) val) chunk" where
  "vl_chunk l = \<lparr>ch_code = vl_code l, ch_constants = vl_constants l, ch_spans = vl_spans l, ch_last_op = vl_last_op l\<rparr>"

fun prepare_blackhole :: "'sp \<Rightarrow> ('sp, 'f) thunk_repr \<Rightarrow> ('sp, 'f) thunk_repr option" where
  "prepare_blackhole forced_at (Suspended lambda _ _ span) =
     map_option (\<lambda>content_span. Blackhole forced_at (Some span) (Some content_span)) (first_span (vl_chunk lambda))"
| "prepare_blackhole forced_at _ = Some (Blackhole forced_at None None)"

definition step_force ::
  "('sp, 'f, 'x, 'b, 'w) vm_env \<Rightarrow> nat \<Rightarrow> nat list \<Rightarrow> 'sp \<Rightarrow> ('sp, 'f) act list \<Rightarrow> ('sp, 'f) heap \<Rightarrow> ('sp, 'f, 'x) gen_result" where
  "step_force E myself also_update span k h =
     gbind (vopt OutOfBounds (heap_get h myself)) h (\<lambda>inner.
     if is_forced inner then
       (case inner of
          Evaluated v \<Rightarrow> g_return v k (fold (\<lambda>other h. h[other := Evaluated v]) also_update h)
        | _ \<Rightarrow> GPanic NotEvaluated)
     else gbind (vopt OutOfBounds (prepare_blackhole span inner)) h (\<lambda>blackhole.
       let h' = h[myself := blackhole] in
       case inner of
         Blackhole forced_at suspended_at content_span \<Rightarrow> GFail (InfiniteRecursion forced_at suspended_at content_span) h'
       | Native native \<Rightarrow>
           (case ve_native E native of
              Inl e \<Rightarrow> GFail e h'
            | Inr v \<Rightarrow> g_loop (AForce myself also_update span) k (h'[myself := Evaluated v]))
       | Suspended lambda upvalues with_stack sp \<Rightarrow>
           GYield (EnterLambda lambda upvalues with_stack sp) (AForceEntered myself also_update span # k) h'
       | Evaluated v \<Rightarrow>
           (case v of
              VThunk inner_thunk \<Rightarrow>
                gbind (vopt OutOfBounds (heap_get h' inner_thunk)) h' (\<lambda>r.
                  if ve_sole E h' inner_thunk then g_loop (AForce myself also_update span) k (h'[myself := r])
                  else if is_forced r then g_loop (AForce myself also_update span) k (h'[myself := r])
                  else g_loop (AForce inner_thunk (also_update @ [myself]) span) k h')
            | _ \<Rightarrow> g_return v k h')))"

section \<open>Deep forcing\<close>

definition deep_force_value ::
  "('sp, 'f) val \<Rightarrow> ('sp, 'f) val \<Rightarrow> ('sp, 'f) val list \<Rightarrow> nat list \<Rightarrow> 'sp \<Rightarrow> ('sp, 'f) act list \<Rightarrow> ('sp, 'f) heap \<Rightarrow>
   ('sp, 'f, 'x) gen_result" where
  "deep_force_value v self vals thunk_set span k h =
     (case v of
        VList _ xs \<Rightarrow> g_loop (ADeepForce self (xs @ vals) thunk_set span) k h
      | VAttrs _ a \<Rightarrow> g_loop (ADeepForce self (map snd (attrs_iter_sorted a) @ vals) thunk_set span) k h
      | VThunk _ \<Rightarrow> GPanic UnforcedThunk
      | VCatchable _ \<Rightarrow> g_return v k h
      | VAttrNotFound \<Rightarrow> GPanic InternalValue
      | VBlueprint _ \<Rightarrow> GPanic InternalValue
      | VDeferredUpvalue _ \<Rightarrow> GPanic InternalValue
      | VUnresolvedPath _ \<Rightarrow> GPanic InternalValue
      | VFinaliseRequest _ \<Rightarrow> GPanic InternalValue
      | _ \<Rightarrow> g_loop (ADeepForce self vals thunk_set span) k h)"

definition step_deep_force ::
  "('sp, 'f) val \<Rightarrow> ('sp, 'f) val list \<Rightarrow> nat list \<Rightarrow> 'sp \<Rightarrow> ('sp, 'f) act list \<Rightarrow> ('sp, 'f) heap \<Rightarrow> ('sp, 'f, 'x) gen_result" where
  "step_deep_force self vals thunk_set span k h =
     (case vals of
        [] \<Rightarrow> g_return self k h
      | v # vals \<Rightarrow>
          (case v of
             VThunk t \<Rightarrow>
               if t \<in> set thunk_set then g_loop (ADeepForce self vals thunk_set span) k h
               else g_loop (AForce t [] span) (ADeepForceForced self vals (t # thunk_set) span # k) h
           | _ \<Rightarrow> deep_force_value v self vals thunk_set span k h))"

section \<open>Coercion to strings\<close>

definition coerced :: "('sp, 'f) coerce_locals \<Rightarrow> string \<Rightarrow> ('sp, 'f) coerce_locals" where
  "coerced L s =
     (case cl_is_list_head L of
        Some False \<Rightarrow> L\<lparr>cl_result := cl_result L @ '' '' @ s\<rparr>
      | Some True \<Rightarrow> L\<lparr>cl_is_list_head := Some False, cl_result := cl_result L @ s\<rparr>
      | None \<Rightarrow> L\<lparr>cl_result := cl_result L @ s\<rparr>)"

definition coerce_value ::
  "('sp, 'f, 'x, 'b, 'w) vm_env \<Rightarrow> ('sp, 'f) val \<Rightarrow> ('sp, 'f) coerce_locals \<Rightarrow> ('sp, 'f) act list \<Rightarrow> ('sp, 'f) heap \<Rightarrow>
   ('sp, 'f, 'x) gen_result" where
  "coerce_value E v L k h =
     (let strong = ck_strong (cl_kind L);
          emit = (\<lambda>s. g_loop (ACoerce (coerced L s)) k h);
          refuse = GFail (NotCoercibleToString (type_of v) (cl_kind L)) h in
      case v of
        VString s \<Rightarrow> g_loop (ACoerce (coerced (L\<lparr>cl_context := cl_context L \<union> ns_context s\<rparr>) (ns_bytes s))) k h
      | VPath p \<Rightarrow> if ck_import_paths (cl_kind L) then GYield (PathImport p) (ACoerceImported L # k) h else emit p
      | VAttrs p a \<Rightarrow>
          (case attrs_select a ''__toString'' of
             Some to_string \<Rightarrow> value_force to_string (cl_span L) (ACoerceToString L (p, a) # k) h
           | None \<Rightarrow>
               (case attrs_select a ''outPath'' of
                  Some out_path \<Rightarrow> g_loop (ACoerce (L\<lparr>cl_vals := out_path # cl_vals L\<rparr>)) k h
                | None \<Rightarrow> GFail (NotCoercibleToString ''set'' (cl_kind L)) h))
      | VNull \<Rightarrow> if strong then emit [] else refuse
      | VBool b \<Rightarrow> if strong then emit (if b then ''1'' else []) else refuse
      | VInteger i \<Rightarrow> if strong then emit (ve_fmt_int E i) else refuse
      | VFloat f \<Rightarrow> if strong then emit (ve_fmt_float E f) else refuse
      | VList _ xs \<Rightarrow>
          if strong then
            g_loop (ACoerce (L\<lparr>cl_vals := xs @ cl_vals L,
              cl_is_list_head := (case cl_is_list_head L of None \<Rightarrow> Some True | Some b \<Rightarrow> Some b)\<rparr>)) k h
          else refuse
      | VThunk _ \<Rightarrow> GPanic UnforcedThunk
      | VClosure _ _ _ _ \<Rightarrow> refuse
      | VBuiltin _ _ _ \<Rightarrow> refuse
      | VCatchable _ \<Rightarrow> g_return v k h
      | _ \<Rightarrow> GPanic InternalValue)"

definition step_coerce :: "('sp, 'f) coerce_locals \<Rightarrow> ('sp, 'f) act list \<Rightarrow> ('sp, 'f) heap \<Rightarrow> ('sp, 'f, 'x) gen_result" where
  "step_coerce L k h =
     (case cl_vals L of
        [] \<Rightarrow> g_return (VString (ns_new_context_from (cl_context L) (cl_result L))) k h
      | v # vals \<Rightarrow> value_force v (cl_span L) (ACoerceForced (L\<lparr>cl_vals := vals\<rparr>) # k) h)"

definition coerce_start :: "('sp, 'f) val \<Rightarrow> coercion_kind \<Rightarrow> 'sp \<Rightarrow> ('sp, 'f) act" where
  "coerce_start v kind span =
     ACoerce \<lparr>cl_result = [], cl_vals = [v], cl_is_list_head = None, cl_context = {}, cl_kind = kind, cl_span = span\<rparr>"

section \<open>Equality\<close>

text \<open>\<open>Thunk::ptr_eq\<close>.\<close>

definition thunk_ptr_eq :: "('sp, 'f) heap \<Rightarrow> nat \<Rightarrow> nat \<Rightarrow> bool" where
  "thunk_ptr_eq h a b \<longleftrightarrow> a = b \<or>
     (case (heap_get h a, heap_get h b) of
        (Some (Evaluated (VClosure p _ _ _)), Some (Evaluated (VClosure q _ _ _))) \<Rightarrow> p = q
      | _ \<Rightarrow> False)"

definition step_eq :: "('sp, 'f) eq_item list \<Rightarrow> 'sp \<Rightarrow> ('sp, 'f) act list \<Rightarrow> ('sp, 'f) heap \<Rightarrow> ('sp, 'f, 'x) gen_result" where
  "step_eq vals span k h =
     (case vals of
        [] \<Rightarrow> g_return (VBool True) k h
      | (a, b, ptr_eq) # vals \<Rightarrow>
          (case a of
             VThunk t \<Rightarrow>
               if ptr_eq = AllowAll \<and> (case b of VThunk t1 \<Rightarrow> thunk_ptr_eq h t1 t | _ \<Rightarrow> False)
               then g_loop (AEq vals span) k h
               else g_loop (AForce t [] span) (AEqLeft b ptr_eq vals span # k) h
           | _ \<Rightarrow> value_force b span (AEqRight a ptr_eq vals span # k) h))"

text \<open>Compare the entries of two sets of the same size.\<close>

definition eq_entries ::
  "('sp, 'f) attrs \<Rightarrow> ('sp, 'f) attrs \<Rightarrow> pointer_equality \<Rightarrow> ('sp, 'f) eq_item list \<Rightarrow> 'sp \<Rightarrow> ('sp, 'f) act list \<Rightarrow> ('sp, 'f) heap \<Rightarrow>
   ('sp, 'f, 'x) gen_result" where
  "eq_entries a1 a2 ptr_eq vals span k h =
     (if attrs_len (snd a1) \<noteq> attrs_len (snd a2) then g_return (VBool False) k h
      else g_loop (AEq
        (concat (map (\<lambda>((k1, v1), (k2, v2)).
           [(VString k1, VString k2, at_least_nested ptr_eq), (v1, v2, at_least_nested ptr_eq)])
           (zip (attrs_iter_sorted (snd a1)) (attrs_iter_sorted (snd a2)))) @ vals) span) k h)"

definition is_thunk :: "('sp, 'f) val \<Rightarrow> bool" where
  "is_thunk v = (case v of VThunk _ \<Rightarrow> True | _ \<Rightarrow> False)"

definition eq_values ::
  "('sp, 'f, 'x, 'b, 'w) vm_env \<Rightarrow> ('sp, 'f) val \<Rightarrow> ('sp, 'f) val \<Rightarrow> pointer_equality \<Rightarrow> ('sp, 'f) eq_item list \<Rightarrow> 'sp \<Rightarrow>
   ('sp, 'f) act list \<Rightarrow> ('sp, 'f) heap \<Rightarrow> ('sp, 'f, 'x) gen_result" where
  "eq_values E a b ptr_eq vals span k h =
     (let F = ve_float E;
          result = (\<lambda>r. if r then g_loop (AEq vals span) k h else g_return (VBool False) k h) in
      if ve_checked E \<and> (is_thunk a \<or> is_thunk b) then GPanic UnforcedThunk
      else case (a, b) of
        (VCatchable _, _) \<Rightarrow> g_return a k h
      | (_, VCatchable _) \<Rightarrow> g_return b k h
      | (VNull, VNull) \<Rightarrow> result True
      | (VBool b1, VBool b2) \<Rightarrow> result (b1 = b2)
      | (VString s1, VString s2) \<Rightarrow> result (ns_eq s1 s2)
      | (VPath p1, VPath p2) \<Rightarrow> result (p1 = p2)
      | (VInteger i1, VInteger i2) \<Rightarrow> result (i1 = i2)
      | (VInteger i, VFloat f) \<Rightarrow> result (fl_eq F (fl_of_int F i) f)
      | (VFloat f1, VFloat f2) \<Rightarrow> result (fl_eq F f1 f2)
      | (VFloat f, VInteger i) \<Rightarrow> result (fl_eq F (fl_of_int F i) f)
      | (VList p1 l1, VList p2 l2) \<Rightarrow>
          if allows_nested ptr_eq \<and> p1 = p2 then g_loop (AEq vals span) k h
          else if length l1 \<noteq> length l2 then g_return (VBool False) k h
          else g_loop (AEq (map (\<lambda>(x, y). (x, y, at_least_nested ptr_eq)) (zip l1 l2) @ vals) span) k h
      | (VAttrs p1 a1, VAttrs p2 a2) \<Rightarrow>
          if allows_nested ptr_eq \<and> p1 = p2 then g_loop (AEq vals span) k h
          else (case (attrs_select a1 ''type'', attrs_select a2 ''type'') of
                  (Some v1, Some v2) \<Rightarrow> value_force v1 span (AEqType1 (p1, a1) (p2, a2) v2 ptr_eq vals span # k) h
                | _ \<Rightarrow> eq_entries (p1, a1) (p2, a2) ptr_eq vals span k h)
      | (VClosure c1 _ _ _, VClosure c2 _ _ _) \<Rightarrow>
          if allows_nested ptr_eq \<and> c1 = c2 then g_loop (AEq vals span) k h else g_return (VBool False) k h
      | _ \<Rightarrow> g_return (VBool False) k h)"

definition catchable_val :: "('sp, 'f) val \<Rightarrow> bool" where
  "catchable_val v = (case v of VCatchable _ \<Rightarrow> True | _ \<Rightarrow> False)"

text \<open>The \<open>type\<close> attributes are both forced: derivations are compared by their output paths.\<close>

definition is_derivation_type :: "('sp, 'f) val \<Rightarrow> bool" where
  "is_derivation_type v = (case v of VString s \<Rightarrow> \<not> ns_has_context s \<and> ns_bytes s = ''derivation'' | _ \<Rightarrow> False)"

definition eq_types ::
  "('sp, 'f) val \<Rightarrow> ('sp, 'f) val \<Rightarrow> ('sp, 'f) attrs \<Rightarrow> ('sp, 'f) attrs \<Rightarrow> pointer_equality \<Rightarrow> ('sp, 'f) eq_item list \<Rightarrow> 'sp \<Rightarrow>
   ('sp, 'f) act list \<Rightarrow> ('sp, 'f) heap \<Rightarrow> ('sp, 'f, 'x) gen_result" where
  "eq_types s1 s2 a1 a2 ptr_eq vals span k h =
     (if is_derivation_type s1 \<and> is_derivation_type s2 then
        (case attrs_select (snd a1) ''outPath'' of
           None \<Rightarrow> GFail (AttributeNotFound ''outPath'') h
         | Some out1 \<Rightarrow>
             (case attrs_select (snd a2) ''outPath'' of
                None \<Rightarrow> GFail (AttributeNotFound ''outPath'') h
              | Some out2 \<Rightarrow> value_force out1 span (AEqOut1 out2 vals span # k) h))
      else eq_entries a1 a2 ptr_eq vals span k h)"

definition eq_out_paths ::
  "('sp, 'f) val \<Rightarrow> ('sp, 'f) val \<Rightarrow> ('sp, 'f) eq_item list \<Rightarrow> 'sp \<Rightarrow> ('sp, 'f) act list \<Rightarrow> ('sp, 'f) heap \<Rightarrow> ('sp, 'f, 'x) gen_result" where
  "eq_out_paths out1 out2 vals span k h =
     (if catchable_val out1 then g_return out1 k h
      else if catchable_val out2 then g_return out2 k h
      else gbind (to_contextful_str h out1) h (\<lambda>s1. gbind (to_contextful_str h out2) h (\<lambda>s2.
        if ns_eq s1 s2 then g_loop (AEq vals span) k h else g_return (VBool False) k h)))"

section \<open>Ordering\<close>

definition cmp_int :: "int \<Rightarrow> int \<Rightarrow> int" where
  "cmp_int x y = (if x < y then -1 else if x = y then 0 else 1)"

definition cmp_string :: "string \<Rightarrow> string \<Rightarrow> int" where
  "cmp_string s t = (if s < t then -1 else if s = t then 0 else 1)"

definition g_ordering :: "int \<Rightarrow> ('sp, 'f) act list \<Rightarrow> ('sp, 'f) heap \<Rightarrow> ('sp, 'f, 'x) gen_result" where
  "g_ordering r k h = GNext k (IRet (ROrdering (Inr r))) h"

definition cmp_list_items :: "('sp, 'f) val list \<Rightarrow> ('sp, 'f) val list \<Rightarrow> ('sp, 'f) eq_item list" where
  "cmp_list_items l1 l2 =
     map (\<lambda>i. if length l2 \<le> i then (VInteger 1, VInteger 0, ForbidAll)
              else if length l1 \<le> i then (VInteger 0, VInteger 1, ForbidAll)
              else (l1 ! i, l2 ! i, AllowAll)) [0..<max (length l1) (length l2)]"

definition cmp_values ::
  "('sp, 'f, 'x, 'b, 'w) vm_env \<Rightarrow> ('sp, 'f) val \<Rightarrow> ('sp, 'f) val \<Rightarrow> ('sp, 'f) eq_item list \<Rightarrow> 'sp \<Rightarrow> ('sp, 'f) act list \<Rightarrow>
   ('sp, 'f) heap \<Rightarrow> ('sp, 'f, 'x) gen_result" where
  "cmp_values E a b vals span k h =
     (let F = ve_float E;
          result = (\<lambda>r. if r = 0 then g_loop (ACmp vals span) k h else g_ordering r k h) in
      case (a, b) of
        (VCatchable c, _) \<Rightarrow> GNext k (IRet (ROrdering (Inl c))) h
      | (_, VCatchable c) \<Rightarrow> GNext k (IRet (ROrdering (Inl c))) h
      | (VInteger i1, VInteger i2) \<Rightarrow> result (cmp_int (sint i1) (sint i2))
      | (VFloat f1, VFloat f2) \<Rightarrow> result (fl_total_cmp F f1 f2)
      | (VString s1, VString s2) \<Rightarrow> result (cmp_string (ns_bytes s1) (ns_bytes s2))
      | (VList _ l1, VList _ l2) \<Rightarrow> g_loop (ACmp (cmp_list_items l1 l2 @ vals) span) k h
      | (VInteger i1, VFloat f2) \<Rightarrow> result (fl_total_cmp F (fl_of_int F i1) f2)
      | (VFloat f1, VInteger i2) \<Rightarrow> result (fl_total_cmp F f1 (fl_of_int F i2))
      | _ \<Rightarrow> GFail (Incomparable (type_of a) (type_of b)) h)"

definition step_cmp ::
  "('sp, 'f, 'x, 'b, 'w) vm_env \<Rightarrow> ('sp, 'f) eq_item list \<Rightarrow> 'sp \<Rightarrow> ('sp, 'f) act list \<Rightarrow> ('sp, 'f) heap \<Rightarrow> ('sp, 'f, 'x) gen_result" where
  "step_cmp E vals span k h =
     (case vals of
        [] \<Rightarrow> g_ordering 0 k h
      | (a, b, ptr_eq) # vals \<Rightarrow>
          if ptr_eq = AllowAll then g_loop (AEq [(a, b, AllowAll)] span) (ACmpEq a b vals span # k) h
          else cmp_values E a b vals span k h)"

fun cmp_holds :: "cmp_op \<Rightarrow> int \<Rightarrow> bool" where
  "cmp_holds CmpLess r \<longleftrightarrow> r < 0"
| "cmp_holds CmpLessOrEq r \<longleftrightarrow> r \<le> 0"
| "cmp_holds CmpMore r \<longleftrightarrow> r > 0"
| "cmp_holds CmpMoreOrEq r \<longleftrightarrow> r \<ge> 0"

section \<open>Addition\<close>

text \<open>
  \<open>request_string_coerce\<close>: strings are taken as they are; otherwise the machine coerces. The activation below receives
  the value with which the machine answers.
\<close>

definition request_string_coerce ::
  "('sp, 'f) val \<Rightarrow> coercion_kind \<Rightarrow> ('sp, 'f) act list \<Rightarrow> ('sp, 'f) heap \<Rightarrow> ('sp, 'f, 'x) gen_result" where
  "request_string_coerce v kind k h =
     (case v of VString s \<Rightarrow> GNext k (IResp (RespValue v)) h | _ \<Rightarrow> GYield (StringCoerce v kind) k h)"

definition coerce_answer :: "('sp, 'f) heap \<Rightarrow> ('sp, 'f) val \<Rightarrow> (catchable_error_kind + nix_string) option" where
  "coerce_answer h v =
     (case v of
        VCatchable c \<Rightarrow> Some (Inl c)
      | _ \<Rightarrow> (case deref h v of Some (VString s) \<Rightarrow> Some (Inr s) | _ \<Rightarrow> None))"

definition weak :: "bool \<Rightarrow> coercion_kind" where
  "weak import_paths = \<lparr>ck_strong = False, ck_import_paths = import_paths\<rparr>"

definition step_add_values ::
  "('sp, 'f, 'x, 'b, 'w) vm_env \<Rightarrow> ('sp, 'f) val \<Rightarrow> ('sp, 'f) val \<Rightarrow> ('sp, 'f) act list \<Rightarrow> ('sp, 'f) heap \<Rightarrow> ('sp, 'f, 'x) gen_result" where
  "step_add_values E a b k h =
     (case a of
        VPath p \<Rightarrow> request_string_coerce b (weak False) (AAddPath p # k) h
      | VString s1 \<Rightarrow>
          (case b of
             VString s2 \<Rightarrow> g_return (VString (ns_concat s1 s2)) k h
           | _ \<Rightarrow> request_string_coerce b (weak True) (AAddString s1 # k) h)
      | VInteger _ \<Rightarrow> gbind (arithmetic_op (ve_checked E) (ve_float E) h Plus a b) h (\<lambda>v. g_return v k h)
      | VFloat _ \<Rightarrow> gbind (arithmetic_op (ve_checked E) (ve_float E) h Plus a b) h (\<lambda>v. g_return v k h)
      | _ \<Rightarrow> request_string_coerce a (weak False) (AAddLeft b # k) h)"

definition add_result :: "catchable_error_kind + nix_string \<Rightarrow> catchable_error_kind + nix_string \<Rightarrow> ('sp, 'f) val" where
  "add_result r1 r2 =
     (case (r1, r2) of
        (Inr s1, Inr s2) \<Rightarrow> VString (ns_concat s1 s2)
      | (Inl c, _) \<Rightarrow> VCatchable c
      | (_, Inl c) \<Rightarrow> VCatchable c)"

section \<open>Variables of a \<open>with\<close>\<close>

definition step_resolve_with :: "string \<Rightarrow> nat \<Rightarrow> nat \<Rightarrow> ('sp, 'f) act list \<Rightarrow> ('sp, 'f) heap \<Rightarrow> ('sp, 'f, 'x) gen_result" where
  "step_resolve_with ident vm_with_len upvalue_with_len k h =
     (if vm_with_len \<noteq> 0 then
        GYield (WithValue (vm_with_len - 1)) (AResolveWithValue ident (vm_with_len - 1) upvalue_with_len # k) h
      else if upvalue_with_len \<noteq> 0 then
        GYield (CapturedWithValue (upvalue_with_len - 1)) (AResolveWithCaptured ident (upvalue_with_len - 1) # k) h
      else GFail (UnknownDynamicVariable ident) h)"

definition resolve_in ::
  "('sp, 'f) val \<Rightarrow> string \<Rightarrow> nat \<Rightarrow> nat \<Rightarrow> ('sp, 'f) act list \<Rightarrow> ('sp, 'f) heap \<Rightarrow> ('sp, 'f, 'x) gen_result" where
  "resolve_in w ident vm_with_len upvalue_with_len k h =
     gbind (is_catchable h w) h (\<lambda>c.
       if c then g_return w k h
       else gbind (to_attrs h w) h (\<lambda>(_, a).
         case attrs_select a ident of
           None \<Rightarrow> g_loop (AResolveWith ident vm_with_len upvalue_with_len) k h
         | Some v \<Rightarrow> g_return v k h))"

section \<open>Steps of a generator\<close>

text \<open>An activation that receives a value; every other message is a bug of the machine.\<close>

definition on_value ::
  "('sp, 'f) input \<Rightarrow> (('sp, 'f) val \<Rightarrow> ('sp, 'f, 'x) gen_result) \<Rightarrow> ('sp, 'f, 'x) gen_result" where
  "on_value i f = (case i of IResp (RespValue v) \<Rightarrow> f v | _ \<Rightarrow> GPanic BadMessage)"

definition on_return ::
  "('sp, 'f) input \<Rightarrow> (('sp, 'f) val \<Rightarrow> ('sp, 'f, 'x) gen_result) \<Rightarrow> ('sp, 'f, 'x) gen_result" where
  "on_return i f = (case i of IRet (RVal v) \<Rightarrow> f v | _ \<Rightarrow> GPanic BadMessage)"

definition on_empty :: "('sp, 'f) input \<Rightarrow> ('sp, 'f, 'x) gen_result \<Rightarrow> ('sp, 'f, 'x) gen_result" where
  "on_empty i r = (case i of IResp RespEmpty \<Rightarrow> r | _ \<Rightarrow> GPanic BadMessage)"

definition on_answer ::
  "('sp, 'f) heap \<Rightarrow> ('sp, 'f) val \<Rightarrow> (catchable_error_kind + nix_string \<Rightarrow> ('sp, 'f, 'x) gen_result) \<Rightarrow> ('sp, 'f, 'x) gen_result" where
  "on_answer h v f = (case coerce_answer h v of Some r \<Rightarrow> f r | None \<Rightarrow> GPanic NotAString)"

fun act_step ::
  "('sp, 'f, 'x, 'b, 'w) vm_env \<Rightarrow> ('sp, 'f) act list \<Rightarrow> ('sp, 'f) input \<Rightarrow> ('sp, 'f) heap \<Rightarrow> ('sp, 'f, 'x) gen_result" where
  "act_step E [] i h = on_return i (\<lambda>v. GDone v h)"
| "act_step E (AForce myself also_update span # k) i h = step_force E myself also_update span k h"
| "act_step E (AForceEntered myself also_update span # k) i h =
     on_value i (\<lambda>v. g_loop (AForce myself also_update span) k (h[myself := Evaluated v]))"
| "act_step E (ADeepForce self vals thunk_set span # k) i h = step_deep_force self vals thunk_set span k h"
| "act_step E (ADeepForceForced self vals thunk_set span # k) i h =
     on_return i (\<lambda>v. deep_force_value v self vals thunk_set span k h)"
| "act_step E (ACoerce L # k) i h = step_coerce L k h"
| "act_step E (ACoerceForced L # k) i h = on_return i (\<lambda>v. coerce_value E v L k h)"
| "act_step E (ACoerceImported L # k) i h =
     (case i of
        IResp (RespPath imported) \<Rightarrow>
          g_loop (ACoerce (coerced (L\<lparr>cl_context := insert (CtxPlain (ve_lossy E imported)) (cl_context L)\<rparr>) imported)) k h
      | _ \<Rightarrow> GPanic BadMessage)"
| "act_step E (ACoerceToString L attrs # k) i h =
     on_return i (\<lambda>callable. GYield (StackPush (VAttrs (fst attrs) (snd attrs))) (ACoercePushed L callable # k) h)"
| "act_step E (ACoercePushed L callable # k) i h = on_empty i (request_force callable (ACoerceCallable L # k) h)"
| "act_step E (ACoerceCallable L # k) i h = on_value i (\<lambda>callable. GYield (Call callable) (ACoerceCalled L # k) h)"
| "act_step E (ACoerceCalled L # k) i h = on_value i (\<lambda>result. g_loop (ACoerce (L\<lparr>cl_vals := result # cl_vals L\<rparr>)) k h)"
| "act_step E (AEq vals span # k) i h = step_eq vals span k h"
| "act_step E (AEqLeft b ptr_eq vals span # k) i h = on_return i (\<lambda>a. value_force b span (AEqRight a ptr_eq vals span # k) h)"
| "act_step E (AEqRight a ptr_eq vals span # k) i h = on_return i (\<lambda>b. eq_values E a b ptr_eq vals span k h)"
| "act_step E (AEqType1 a1 a2 v2 ptr_eq vals span # k) i h =
     on_return i (\<lambda>s1. if catchable_val s1 then g_return s1 k h
       else value_force v2 span (AEqType2 a1 a2 s1 ptr_eq vals span # k) h)"
| "act_step E (AEqType2 a1 a2 s1 ptr_eq vals span # k) i h =
     on_return i (\<lambda>s2. if catchable_val s2 then g_return s2 k h else eq_types s1 s2 a1 a2 ptr_eq vals span k h)"
| "act_step E (AEqOut1 out2 vals span # k) i h = on_return i (\<lambda>out1. value_force out2 span (AEqOut2 out1 vals span # k) h)"
| "act_step E (AEqOut2 out1 vals span # k) i h = on_return i (\<lambda>out2. eq_out_paths out1 out2 vals span k h)"
| "act_step E (ACmp vals span # k) i h = step_cmp E vals span k h"
| "act_step E (ACmpEq a b vals span # k) i h =
     on_return i (\<lambda>r. gbind (as_bool h r) h (\<lambda>equal.
       if equal then g_loop (ACmp vals span) k h else value_force a span (ACmpLeft b vals span # k) h))"
| "act_step E (ACmpLeft b vals span # k) i h = on_return i (\<lambda>a. value_force b span (ACmpRight a vals span # k) h)"
| "act_step E (ACmpRight a vals span # k) i h = on_return i (\<lambda>b. cmp_values E a b vals span k h)"
| "act_step E (ACompare opr a b # k) i h = request_force a (ACompareLeft opr b # k) h"
| "act_step E (ACompareLeft opr b # k) i h = on_value i (\<lambda>a. request_force b (ACompareRight opr a # k) h)"
| "act_step E (ACompareRight opr a # k) i h = on_value i (\<lambda>b. GYield Span (ACompareSpan opr a b # k) h)"
| "act_step E (ACompareSpan opr a b # k) i h =
     (case i of
        IResp (RespSpan span) \<Rightarrow> g_loop (ACmp [(a, b, ForbidAll)] span) (ACompareOrdering opr # k) h
      | _ \<Rightarrow> GPanic BadMessage)"
| "act_step E (ACompareOrdering opr # k) i h =
     (case i of
        IRet (ROrdering (Inl cek)) \<Rightarrow> g_return (VCatchable cek) k h
      | IRet (ROrdering (Inr r)) \<Rightarrow> g_return (VBool (cmp_holds opr r)) k h
      | _ \<Rightarrow> GPanic BadMessage)"
| "act_step E (AAddValues a b # k) i h = step_add_values E a b k h"
| "act_step E (AAddPath p # k) i h =
     on_value i (\<lambda>v. on_answer h v (\<lambda>r. g_return (case r of Inl c \<Rightarrow> VCatchable c | Inr s \<Rightarrow> VPath (ve_canon E (p @ ns_bytes s))) k h))"
| "act_step E (AAddString s1 # k) i h =
     on_value i (\<lambda>v. on_answer h v (\<lambda>r. g_return (case r of Inl c \<Rightarrow> VCatchable c | Inr s2 \<Rightarrow> VString (ns_concat s1 s2)) k h))"
| "act_step E (AAddLeft b # k) i h =
     on_value i (\<lambda>v. on_answer h v (\<lambda>r1. request_string_coerce b (weak False) (AAddRight r1 # k) h))"
| "act_step E (AAddRight r1 # k) i h = on_value i (\<lambda>v. on_answer h v (\<lambda>r2. g_return (add_result r1 r2) k h))"
| "act_step E (AResolveWith ident n m # k) i h = step_resolve_with ident n m k h"
| "act_step E (AResolveWithValue ident n m # k) i h = on_value i (\<lambda>w. resolve_in w ident n m k h)"
| "act_step E (AResolveWithCaptured ident m # k) i h = on_value i (\<lambda>w. resolve_in w ident 0 m k h)"
| "act_step E (ACallFunctor v # k) i h =
     gbind (to_attrs h v) h (\<lambda>(_, attrs).
       case attrs_select attrs ''__functor'' of
         None \<Rightarrow> GFail (NotCallable ''set without `__functor_` attribute'') h
       | Some functor \<Rightarrow> request_force functor (AFunctorForced v # k) h)"
| "act_step E (AFunctorForced v # k) i h = on_value i (\<lambda>functor. GYield (StackPush v) (AFunctorPushed functor # k) h)"
| "act_step E (AFunctorPushed functor # k) i h = on_empty i (request_force functor (AFunctorForcedAgain # k) h)"
| "act_step E (AFunctorForcedAgain # k) i h = on_value i (\<lambda>functor. GYield (Call functor) (AFunctorPrimed # k) h)"
| "act_step E (AFunctorPrimed # k) i h = on_value i (\<lambda>primed. request_force primed (AFunctorPrimedForced # k) h)"
| "act_step E (AFunctorPrimedForced # k) i h = on_value i (\<lambda>primed. GYield (Call primed) (AFunctorCalled # k) h)"
| "act_step E (AFunctorCalled # k) i h = on_value i (\<lambda>v. g_return v k h)"
| "act_step E (AFinalDeepForce # k) i h = GYield StackPop (AFinalPopped # k) h"
| "act_step E (AFinalPopped # k) i h = on_value i (\<lambda>v. GYield (DeepForceValue v) (AFinalForced # k) h)"
| "act_step E (AFinalForced # k) i h = on_value i (\<lambda>v. g_return v k h)"

section \<open>Frames and the machine\<close>

record ('sp, 'f) bytecode_frame =
  bf_lambda :: "('sp, 'f) vlambda"
  bf_upvalues :: "('sp, 'f) val list"
  bf_with_stack :: "('sp, 'f) val list"
  bf_ip :: nat
  bf_stack_offset :: nat

datatype (plugins only: code size) ('sp, 'f, 'b) generator = GenNative "('sp, 'f) act list" | GenBuiltin 'b

text \<open>
  A generator frame with what it will be resumed with: a message that is there already, or the value that will be on top of the
  stack (\<open>AwaitingValue\<close>).
\<close>

datatype (plugins only: code size) ('sp, 'f) gen_state = Deliver "('sp, 'f) input" | AwaitingValue

datatype (plugins only: code size) ('sp, 'f, 'b) frame =
    BytecodeFrame "('sp, 'f) bytecode_frame" 'sp
  | GeneratorFrame string 'sp "('sp, 'f) gen_state" "('sp, 'f, 'b) generator"

fun frame_span :: "('sp, 'f, 'b) frame \<Rightarrow> 'sp" where
  "frame_span (BytecodeFrame _ span) = span"
| "frame_span (GeneratorFrame _ span _ _) = span"

record ('sp, 'f, 'b, 'w) vm =
  vm_frames :: "('sp, 'f, 'b) frame list"
  vm_stack :: "('sp, 'f) val list"
  vm_with_stack :: "nat list"
  vm_heap :: "('sp, 'f) heap"
  vm_next_ptr :: nat
  vm_reasonable_span :: 'sp
  vm_warnings :: "'sp eval_warning list"
  vm_import_cache :: "string \<rightharpoonup> ('sp, 'f) val"
  vm_path_import_cache :: "string \<rightharpoonup> string"
  vm_try_eval_frames :: "nat list"
  vm_world :: 'w

section \<open>The value stack\<close>

text \<open>The stack is a vector: its last element is the top.\<close>

definition push :: "('sp, 'f) val \<Rightarrow> ('sp, 'f, 'b, 'w) vm \<Rightarrow> ('sp, 'f, 'b, 'w) vm" where
  "push v vm = vm\<lparr>vm_stack := vm_stack vm @ [v]\<rparr>"

definition stack_pop :: "('sp, 'f, 'b, 'w) vm \<Rightarrow> ('e, ('sp, 'f) val \<times> ('sp, 'f, 'b, 'w) vm) vres" where
  "stack_pop vm =
     (if vm_stack vm = [] then VPanic StackEmpty else VOk (last (vm_stack vm), vm\<lparr>vm_stack := butlast (vm_stack vm)\<rparr>))"

definition stack_peek :: "('sp, 'f, 'b, 'w) vm \<Rightarrow> ('e, ('sp, 'f) val) vres" where
  "stack_peek vm = (if vm_stack vm = [] then VPanic OutOfBounds else VOk (last (vm_stack vm)))"

text \<open>\<open>Vec::pop\<close> where the code ignores an empty stack, and \<open>Vec::split_off\<close> of the last elements.\<close>

definition drop_top :: "('sp, 'f, 'b, 'w) vm \<Rightarrow> ('sp, 'f, 'b, 'w) vm" where
  "drop_top vm = vm\<lparr>vm_stack := butlast (vm_stack vm)\<rparr>"

definition split_off :: "nat \<Rightarrow> ('sp, 'f, 'b, 'w) vm \<Rightarrow> ('e, ('sp, 'f) val list \<times> ('sp, 'f, 'b, 'w) vm) vres" where
  "split_off count vm =
     (let n = length (vm_stack vm) in
      if n < count then VPanic Overflow
      else VOk (drop (n - count) (vm_stack vm), vm\<lparr>vm_stack := take (n - count) (vm_stack vm)\<rparr>))"

definition stack_at :: "nat \<Rightarrow> ('sp, 'f, 'b, 'w) vm \<Rightarrow> ('e, ('sp, 'f) val) vres" where
  "stack_at i vm = (if i < length (vm_stack vm) then VOk (vm_stack vm ! i) else VPanic OutOfBounds)"

definition fresh_ptr :: "('sp, 'f, 'b, 'w) vm \<Rightarrow> nat \<times> ('sp, 'f, 'b, 'w) vm" where
  "fresh_ptr vm = (vm_next_ptr vm, vm\<lparr>vm_next_ptr := vm_next_ptr vm + 1\<rparr>)"

definition push_frame :: "('sp, 'f, 'b) frame \<Rightarrow> ('sp, 'f, 'b, 'w) vm \<Rightarrow> ('sp, 'f, 'b, 'w) vm" where
  "push_frame f vm = vm\<lparr>vm_frames := f # vm_frames vm\<rparr>"

definition enqueue_generator :: "string \<Rightarrow> 'sp \<Rightarrow> ('sp, 'f) act list \<Rightarrow> ('sp, 'f, 'b, 'w) vm \<Rightarrow> ('sp, 'f, 'b, 'w) vm" where
  "enqueue_generator name span acts = push_frame (GeneratorFrame name span (Deliver IStart) (GenNative acts))"

definition force_acts :: "('sp, 'f) val \<Rightarrow> 'sp \<Rightarrow> ('sp, 'f) act list \<times> ('sp, 'f) input" where
  "force_acts v span = (case v of VThunk a \<Rightarrow> ([AForce a [] span], IStart) | _ \<Rightarrow> ([], IRet (RVal v)))"

text \<open>\<open>force_owned_genco\<close> as a generator frame of its own.\<close>

definition enqueue_force :: "('sp, 'f) val \<Rightarrow> 'sp \<Rightarrow> ('sp, 'f, 'b, 'w) vm \<Rightarrow> ('sp, 'f, 'b, 'w) vm" where
  "enqueue_force v span =
     push_frame (GeneratorFrame ''force'' span (Deliver (snd (force_acts v span))) (GenNative (fst (force_acts v span))))"

fun last_bytecode_frame :: "('sp, 'f, 'b) frame list \<Rightarrow> ('sp, 'f) bytecode_frame option" where
  "last_bytecode_frame [] = None"
| "last_bytecode_frame (BytecodeFrame f _ # _) = Some f"
| "last_bytecode_frame (GeneratorFrame _ _ _ _ # fs) = last_bytecode_frame fs"

definition current_span :: "('sp, 'f) bytecode_frame \<Rightarrow> ('e, 'sp) vres" where
  "current_span f = vopt OutOfBounds (get_span (vl_chunk (bf_lambda f)) (bf_ip f - 1))"

definition frame_constant :: "('sp, 'f) bytecode_frame \<Rightarrow> u64 \<Rightarrow> ('e, ('sp, 'f) val) vres" where
  "frame_constant f idx = vopt OutOfBounds (get_constant (vl_chunk (bf_lambda f)) (unat idx))"

section \<open>Calls\<close>

definition call_builtin ::
  "('sp, 'f, 'x, 'b, 'w) vm_env \<Rightarrow> 'sp \<Rightarrow> string \<Rightarrow> nat \<Rightarrow> ('sp, 'f) val list \<Rightarrow> ('sp, 'f, 'b, 'w) vm \<Rightarrow>
   (('sp, 'f, 'x) error_kind, ('sp, 'f, 'b, 'w) vm) vres" where
  "call_builtin E span name arg_count partials vm =
     vbind (stack_pop vm) (\<lambda>(arg, vm).
       let partials = partials @ [arg] in
       if ve_checked E \<and> arg_count < length partials then VPanic CompilerBug
       else if length partials = arg_count
       then VOk (push_frame (GeneratorFrame name span (Deliver IStart) (GenBuiltin (ve_builtin E name partials))) vm)
       else VOk (push (VBuiltin name arg_count partials) vm))"

text \<open>The parent frame is put back for closures and sets only.\<close>

definition push_parent :: "('sp \<times> ('sp, 'f) bytecode_frame) option \<Rightarrow> ('sp, 'f, 'b, 'w) vm \<Rightarrow> ('sp, 'f, 'b, 'w) vm" where
  "push_parent parent vm = (case parent of None \<Rightarrow> vm | Some (sp, f) \<Rightarrow> push_frame (BytecodeFrame f sp) vm)"

definition call_value ::
  "('sp, 'f, 'x, 'b, 'w) vm_env \<Rightarrow> 'sp \<Rightarrow> ('sp \<times> ('sp, 'f) bytecode_frame) option \<Rightarrow> ('sp, 'f) val \<Rightarrow> ('sp, 'f, 'b, 'w) vm \<Rightarrow>
   (('sp, 'f, 'x) error_kind, ('sp, 'f, 'b, 'w) vm) vres" where
  "call_value E span parent callable vm =
     vbind (vopt NotEvaluated (deref (vm_heap vm) callable)) (\<lambda>callable.
       case callable of
         VBuiltin name arg_count partials \<Rightarrow> call_builtin E span name arg_count partials vm
       | VClosure _ lambda upvalues with_stack \<Rightarrow>
           if vm_stack vm = [] then VPanic Overflow
           else VOk (push_frame (BytecodeFrame \<lparr>bf_lambda = lambda, bf_upvalues = upvalues, bf_with_stack = with_stack,
                       bf_ip = 0, bf_stack_offset = length (vm_stack vm) - 1\<rparr> span) (push_parent parent vm))
       | VAttrs _ _ \<Rightarrow> VOk (enqueue_generator ''__functor call'' span [ACallFunctor callable] (push_parent parent vm))
       | VCatchable _ \<Rightarrow> VOk (push callable (drop_top vm))
       | v \<Rightarrow> VFail (NotCallable (type_of v)))"

section \<open>Captured variables\<close>

fun with_values :: "nat list \<Rightarrow> ('sp, 'f, 'b, 'w) vm \<Rightarrow> ('e, ('sp, 'f) val list) vres" where
  "with_values [] vm = VOk []"
| "with_values (i # is) vm = vbind (stack_at i vm) (\<lambda>v. vbind (with_values is vm) (\<lambda>vs. VOk (v # vs)))"

definition capture ::
  "('sp, 'f) bytecode_frame \<Rightarrow> ('sp, 'f, 'b, 'w) vm \<Rightarrow> u64 \<Rightarrow> (('sp, 'f, 'x) error_kind, ('sp, 'f) val) vres" where
  "capture f vm pos =
     (case runtime_stack_index pos of
        Some i \<Rightarrow>
          let idx = bf_stack_offset f + unat i in
          if idx < length (vm_stack vm) then VOk (vm_stack vm ! idx)
          else VFail (SnixBug ''upvalue to be captured was missing on stack'')
      | None \<Rightarrow>
          (case runtime_deferred_local pos of
             Some i \<Rightarrow> VOk (VDeferredUpvalue (unat i))
           | None \<Rightarrow>
               (case runtime_upvalue_index pos of
                  Some i \<Rightarrow> if unat i < length (bf_upvalues f) then VOk (bf_upvalues f ! unat i) else VPanic OutOfBounds
                | None \<Rightarrow> VPanic CompilerBug)))"

fun capture_all ::
  "('sp, 'f) bytecode_frame \<Rightarrow> ('sp, 'f, 'b, 'w) vm \<Rightarrow> u64 list \<Rightarrow> (('sp, 'f, 'x) error_kind, ('sp, 'f) val list) vres" where
  "capture_all f vm [] = VOk []"
| "capture_all f vm (p # ps) = vbind (capture f vm p) (\<lambda>v. vbind (capture_all f vm ps) (\<lambda>vs. VOk (v # vs)))"

definition populate_upvalues ::
  "('sp, 'f) bytecode_frame \<Rightarrow> ('sp, 'f, 'b, 'w) vm \<Rightarrow> bool \<Rightarrow> u64 list \<Rightarrow>
   (('sp, 'f, 'x) error_kind, ('sp, 'f) val list \<times> ('sp, 'f) val list) vres" where
  "populate_upvalues f vm capture_with positions =
     vbind (if capture_with then vbind (with_values (vm_with_stack vm) vm) (\<lambda>ws. VOk (bf_with_stack f @ ws)) else VOk []) (\<lambda>with_stack.
     vbind (capture_all f vm positions) (\<lambda>static_upvalues. VOk (static_upvalues, with_stack)))"

fun resolve_deferred_upvalues :: "('sp, 'f) val list \<Rightarrow> ('sp, 'f) val list \<Rightarrow> ('e, ('sp, 'f) val list) vres" where
  "resolve_deferred_upvalues [] stack = VOk []"
| "resolve_deferred_upvalues (u # us) stack =
     vbind (case u of
              VDeferredUpvalue i \<Rightarrow> if i < length stack then VOk (stack ! i) else VPanic OutOfBounds
            | _ \<Rightarrow> VOk u) (\<lambda>v. vbind (resolve_deferred_upvalues us stack) (\<lambda>vs. VOk (v # vs)))"

text \<open>\<open>Thunk::finalise\<close>; it panics if there is another reference to the upvalues.\<close>

definition finalise ::
  "('sp, 'f, 'x, 'b, 'w) vm_env \<Rightarrow> nat \<Rightarrow> ('sp, 'f) val list \<Rightarrow> ('sp, 'f) heap \<Rightarrow> (('sp, 'f, 'x) error_kind, ('sp, 'f) heap) vres" where
  "finalise E a stack h =
     vbind (vopt OutOfBounds (heap_get h a)) (\<lambda>r.
       if \<not> ve_unshared E h a then VPanic CompilerBug
       else case r of
         Suspended lambda upvalues with_stack span \<Rightarrow>
           vbind (resolve_deferred_upvalues upvalues stack) (\<lambda>us. VOk (h[a := Suspended lambda us with_stack span]))
       | Evaluated (VClosure p lambda upvalues with_stack) \<Rightarrow>
           vbind (resolve_deferred_upvalues upvalues stack) (\<lambda>us. VOk (h[a := Evaluated (VClosure p lambda us with_stack)]))
       | _ \<Rightarrow> VPanic CompilerBug)"

end
