(* ===== verification/VmExec.thy ===== *)
theory VmExec
  imports Vm
begin

text \<open>
  The two loops of the virtual machine: the instructions of \<open>execute_bytecode\<close>, the requests that \<open>run_generator\<close>
  serves, and the outer loop \<open>execute\<close>. An instruction leaves the frame for the next one (\<open>Continue\<close>) or returns to the outer
  loop (\<open>Leave\<close>), having put back on the frame stack what has to run next.
\<close>

section \<open>Errors with their spans\<close>

datatype (plugins only: code size) 'sp cause = BytecodeError 'sp | NativeError string 'sp

record ('sp, 'f, 'x) eval_error =
  ee_kind :: "('sp, 'f, 'x) error_kind"
  ee_span :: 'sp
  ee_causes :: "'sp cause list"

fun frame_cause :: "('sp, 'f, 'b) frame \<Rightarrow> 'sp cause" where
  "frame_cause (BytecodeFrame _ span) = BytecodeError span"
| "frame_cause (GeneratorFrame name span _ _) = NativeError name span"

definition with_span ::
  "(('sp, 'f, 'x) error_kind, 'a) vres \<Rightarrow> (('sp, 'f, 'x) error_kind, 'sp) vres \<Rightarrow> ('sp, 'f, 'b, 'w) vm \<Rightarrow> (('sp, 'f, 'x) eval_error, 'a) vres" where
  "with_span r top_span vm =
     (case r of
        VOk a \<Rightarrow> VOk a
      | VPanic p \<Rightarrow> VPanic p
      | VFail kind \<Rightarrow>
          (case top_span of
             VOk sp \<Rightarrow> VFail \<lparr>ee_kind = kind, ee_span = sp, ee_causes = map frame_cause (vm_frames vm)\<rparr>
           | VFail _ \<Rightarrow> VPanic OutOfBounds
           | VPanic p \<Rightarrow> VPanic p))"

section \<open>Instructions\<close>

datatype (plugins only: code size) ('sp, 'f, 'b, 'w) outcome = Continue "('sp, 'f) bytecode_frame" "('sp, 'f, 'b, 'w) vm" | Leave "('sp, 'f, 'b, 'w) vm"

type_synonym ('sp, 'f, 'x, 'b, 'w) instr_result = "(('sp, 'f, 'x) error_kind, ('sp, 'f, 'b, 'w) outcome) vres"

definition with_uvarint :: "operand \<Rightarrow> (nat \<Rightarrow> ('e, 'a) vres) \<Rightarrow> ('e, 'a) vres" where
  "with_uvarint arg k = (case arg of Uvarint n \<Rightarrow> k (unat n) | _ \<Rightarrow> VPanic CompilerBug)"

definition lifted_pop1 ::
  "('sp, 'f) bytecode_frame \<Rightarrow> ('sp, 'f, 'b, 'w) vm \<Rightarrow>
   (('sp, 'f) val \<Rightarrow> ('sp, 'f, 'b, 'w) vm \<Rightarrow> ('sp, 'f, 'x, 'b, 'w) instr_result) \<Rightarrow> ('sp, 'f, 'x, 'b, 'w) instr_result" where
  "lifted_pop1 f vm body =
     vbind (stack_pop vm) (\<lambda>(x, vm).
     vbind (is_catchable (vm_heap vm) x) (\<lambda>c. if c then VOk (Continue f (push x vm)) else body x vm))"

definition lifted_pop ::
  "('sp, 'f) bytecode_frame \<Rightarrow> ('sp, 'f, 'b, 'w) vm \<Rightarrow>
   (('sp, 'f) val \<Rightarrow> ('sp, 'f) val \<Rightarrow> ('sp, 'f, 'b, 'w) vm \<Rightarrow> ('sp, 'f, 'x, 'b, 'w) instr_result) \<Rightarrow> ('sp, 'f, 'x, 'b, 'w) instr_result" where
  "lifted_pop f vm body =
     vbind (stack_pop vm) (\<lambda>(x, vm). vbind (stack_pop vm) (\<lambda>(y, vm).
     vbind (is_catchable (vm_heap vm) x) (\<lambda>c. if c then VOk (Continue f (push x vm))
     else vbind (is_catchable (vm_heap vm) y) (\<lambda>c. if c then VOk (Continue f (push y vm)) else body x y vm))))"

text \<open>A jump, taken if the condition holds; a build with assertions refuses an offset of zero.\<close>

definition jump_if ::
  "bool \<Rightarrow> ('sp, 'f) bytecode_frame \<Rightarrow> operand \<Rightarrow> (('sp, 'f, 'x) error_kind, bool \<times> ('sp, 'f, 'b, 'w) vm) vres \<Rightarrow>
   ('sp, 'f, 'x, 'b, 'w) instr_result" where
  "jump_if checked f arg cond =
     (case arg of
        Fixed offset \<Rightarrow>
          if checked \<and> offset = 0 then VPanic CompilerBug
          else vbind cond (\<lambda>(taken, vm). VOk (Continue (if taken then f\<lparr>bf_ip := bf_ip f + unat offset\<rparr> else f) vm))
      | _ \<Rightarrow> VPanic CompilerBug)"

text \<open>Suspend the frame and run a generator on top of it.\<close>

definition suspend ::
  "'sp \<Rightarrow> ('sp, 'f) bytecode_frame \<Rightarrow> string \<Rightarrow> ('sp \<Rightarrow> ('sp, 'f) act list) \<Rightarrow> ('sp, 'f, 'b, 'w) vm \<Rightarrow>
   ('sp, 'f, 'x, 'b, 'w) instr_result" where
  "suspend span f name acts vm =
     vbind (current_span f) (\<lambda>gen_span.
       VOk (Leave (enqueue_generator name gen_span (acts gen_span) (push_frame (BytecodeFrame f span) vm))))"

definition push_value :: "('sp, 'f) bytecode_frame \<Rightarrow> ('sp, 'f, 'b, 'w) vm \<Rightarrow> ('sp, 'f) val \<Rightarrow> ('sp, 'f, 'x, 'b, 'w) instr_result" where
  "push_value f vm v = VOk (Continue f (push v vm))"

text \<open>A list or an attribute set at a new address.\<close>

definition push_list :: "('sp, 'f) bytecode_frame \<Rightarrow> ('sp, 'f, 'b, 'w) vm \<Rightarrow> ('sp, 'f) val list \<Rightarrow> ('sp, 'f, 'x, 'b, 'w) instr_result" where
  "push_list f vm l = (let (p, vm) = fresh_ptr vm in push_value f vm (VList p l))"

definition push_attrs ::
  "('sp, 'f) bytecode_frame \<Rightarrow> ('sp, 'f, 'b, 'w) vm \<Rightarrow> ('sp, 'f) val attrs_rep \<Rightarrow> ('sp, 'f, 'x, 'b, 'w) instr_result" where
  "push_attrs f vm a = (let (p, vm) = fresh_ptr vm in push_value f vm (VAttrs p a))"

definition run_attrset :: "('sp, 'f) bytecode_frame \<Rightarrow> nat \<Rightarrow> ('sp, 'f, 'b, 'w) vm \<Rightarrow> ('sp, 'f, 'x, 'b, 'w) instr_result" where
  "run_attrset f count vm =
     vbind (split_off (count * 2) vm) (\<lambda>(stack_slice, vm).
     vbind (attrs_construct count stack_slice) (\<lambda>r.
       case r of Inl c \<Rightarrow> push_value f vm (VCatchable c) | Inr a \<Rightarrow> push_attrs f vm a))"

definition drop_tops :: "nat \<Rightarrow> ('sp, 'f, 'b, 'w) vm \<Rightarrow> ('sp, 'f, 'b, 'w) vm" where
  "drop_tops n = drop_top ^^ n"

text \<open>The loops of the two interpolations: fragments are popped and appended in that order; a catchable error drops the rest.\<close>

fun run_interpolate ::
  "('sp, 'f) bytecode_frame \<Rightarrow> nat \<Rightarrow> string \<Rightarrow> nix_context \<Rightarrow> ('sp, 'f, 'b, 'w) vm \<Rightarrow> ('sp, 'f, 'x, 'b, 'w) instr_result" where
  "run_interpolate f 0 out context vm = push_value f vm (VString (ns_new_context_from context out))"
| "run_interpolate f (Suc n) out context vm =
     vbind (stack_pop vm) (\<lambda>(v, vm).
     vbind (is_catchable (vm_heap vm) v) (\<lambda>c.
       if c then push_value f (drop_tops n vm) v
       else vbind (to_contextful_str (vm_heap vm) v) (\<lambda>s.
         run_interpolate f n (out @ ns_bytes s) (context \<union> ns_context s) vm)))"

fun run_interpolate_path ::
  "('sp, 'f, 'x, 'b, 'w) vm_env \<Rightarrow> ('sp, 'f) bytecode_frame \<Rightarrow> nat \<Rightarrow> string \<Rightarrow> ('sp, 'f, 'b, 'w) vm \<Rightarrow>
   ('sp, 'f, 'x, 'b, 'w) instr_result" where
  "run_interpolate_path E f 0 path_str vm = push_value f vm (VPath (ve_canon E path_str))"
| "run_interpolate_path E f (Suc n) path_str vm =
     vbind (stack_pop vm) (\<lambda>(v, vm).
     vbind (is_catchable (vm_heap vm) v) (\<lambda>c.
       if c then push_value f (drop_tops n vm) v
       else case v of
              VString s \<Rightarrow> run_interpolate_path E f n (path_str @ ve_lossy E (ns_bytes s)) vm
            | VPath p \<Rightarrow> run_interpolate_path E f n (path_str @ ve_lossy E p) vm
            | _ \<Rightarrow> VFail (TypeError ''string or path'' (type_of v))))"

definition formals_contains :: "(string \<times> bool) list \<times> bool \<times> 'sp \<times> string option \<Rightarrow> string \<Rightarrow> bool" where
  "formals_contains = (\<lambda>(arguments, ellipsis, _, _) arg. ellipsis \<or> arg \<in> fst ` set arguments)"

definition validate_closed_formals :: "('sp, 'f) bytecode_frame \<Rightarrow> ('sp, 'f, 'b, 'w) vm \<Rightarrow> ('sp, 'f, 'x, 'b, 'w) instr_result" where
  "validate_closed_formals f vm =
     vbind (vopt CompilerBug (vl_formals (bf_lambda f))) (\<lambda>formals.
     vbind (stack_peek vm) (\<lambda>peeked.
     vbind (is_catchable (vm_heap vm) peeked) (\<lambda>c.
       if c then VOk (Continue f vm)
       else vbind (to_attrs (vm_heap vm) peeked) (\<lambda>(_, args).
         case find (\<lambda>arg. \<not> formals_contains formals (ns_bytes arg)) (attrs_keys args) of
           Some arg \<Rightarrow> VFail (UnexpectedArgumentFormals arg (fst (snd (snd formals))))
         | None \<Rightarrow> VOk (Continue f vm)))))"

text \<open>\<open>Op::AssertBool\<close> and \<open>Op::AssertAttrs\<close>.\<close>

definition assert_type ::
  "(('sp, 'f) heap \<Rightarrow> ('sp, 'f) val \<Rightarrow> (('sp, 'f, 'x) error_kind, bool) vres) \<Rightarrow> string \<Rightarrow> ('sp, 'f) bytecode_frame \<Rightarrow>
   ('sp, 'f, 'b, 'w) vm \<Rightarrow> ('sp, 'f, 'x, 'b, 'w) instr_result" where
  "assert_type is_type expected f vm =
     vbind (stack_peek vm) (\<lambda>v.
     vbind (is_catchable (vm_heap vm) v) (\<lambda>c.
       if c then VOk (Continue f vm)
       else vbind (is_type (vm_heap vm) v) (\<lambda>ok.
         if ok then VOk (Continue f vm) else VFail (TypeError expected (type_of v)))))"

definition close_scope :: "nat \<Rightarrow> ('sp, 'f) bytecode_frame \<Rightarrow> ('sp, 'f, 'b, 'w) vm \<Rightarrow> ('sp, 'f, 'x, 'b, 'w) instr_result" where
  "close_scope count f vm =
     (let n = length (vm_stack vm) in
      if n < 1 + count then VPanic Overflow
      else if count = 0 then VPanic OutOfBounds
      else vbind (stack_pop vm) (\<lambda>(v, vm).
        VOk (Continue f (drop_tops (count - 1) (vm\<lparr>vm_stack := (vm_stack vm)[n - 1 - count := v]\<rparr>)))))"

text \<open>The blueprint of a closure or thunk with its captured upvalues, and the assertions on them.\<close>

definition with_captures ::
  "('sp, 'f, 'x, 'b, 'w) vm_env \<Rightarrow> bool \<Rightarrow> operand \<Rightarrow> ('sp, 'f) bytecode_frame \<Rightarrow> ('sp, 'f, 'b, 'w) vm \<Rightarrow>
   (('sp, 'f) vlambda \<Rightarrow> ('sp, 'f) val list \<Rightarrow> ('sp, 'f) val list \<Rightarrow> ('sp, 'f, 'x, 'b, 'w) instr_result) \<Rightarrow>
   ('sp, 'f, 'x, 'b, 'w) instr_result" where
  "with_captures E is_closure arg f vm body =
     (case arg of
        Upvalues idx capture_with positions \<Rightarrow>
          vbind (frame_constant f idx) (\<lambda>c.
            case c of
              VBlueprint blueprint \<Rightarrow>
                vbind (populate_upvalues f vm capture_with positions) (\<lambda>(upvalues, with_stack).
                  if ve_checked E \<and> (length upvalues \<noteq> vl_upvalue_count blueprint \<or>
                       is_closure \<and> upvalues = [] \<and> with_stack = [])
                  then VPanic CompilerBug
                  else body blueprint upvalues with_stack)
            | _ \<Rightarrow> VPanic CompilerBug)
      | _ \<Rightarrow> VPanic CompilerBug)"

definition alloc_thunk :: "('sp, 'f) thunk_repr \<Rightarrow> ('sp, 'f, 'b, 'w) vm \<Rightarrow> ('sp, 'f, 'b, 'w) vm" where
  "alloc_thunk r vm = push (VThunk (length (vm_heap vm))) (vm\<lparr>vm_heap := vm_heap vm @ [r]\<rparr>)"

definition binary_arith ::
  "('sp, 'f, 'x, 'b, 'w) vm_env \<Rightarrow> arith \<Rightarrow> ('sp, 'f) bytecode_frame \<Rightarrow> ('sp, 'f, 'b, 'w) vm \<Rightarrow> ('sp, 'f, 'x, 'b, 'w) instr_result" where
  "binary_arith E opr f vm =
     lifted_pop f vm (\<lambda>b a vm.
       if opr = Divide \<and> (case b of VInteger i \<Rightarrow> i = 0 | VFloat x \<Rightarrow> fl_is_zero (ve_float E) x | _ \<Rightarrow> False)
       then VFail DivisionByZero
       else vbind (arithmetic_op (ve_checked E) (ve_float E) (vm_heap vm) opr a b) (push_value f vm))"

definition compare_instr ::
  "cmp_op \<Rightarrow> 'sp \<Rightarrow> ('sp, 'f) bytecode_frame \<Rightarrow> ('sp, 'f, 'b, 'w) vm \<Rightarrow> ('sp, 'f, 'x, 'b, 'w) instr_result" where
  "compare_instr opr span f vm = lifted_pop f vm (\<lambda>b a. suspend span f ''compare'' (\<lambda>_. [ACompare opr a b]))"

definition negate ::
  "('sp, 'f, 'x, 'b, 'w) vm_env \<Rightarrow> ('sp, 'f) bytecode_frame \<Rightarrow> ('sp, 'f, 'b, 'w) vm \<Rightarrow> ('sp, 'f, 'x, 'b, 'w) instr_result" where
  "negate E f vm =
     vbind (stack_pop vm) (\<lambda>(v, vm).
       case v of
         VInteger i \<Rightarrow> vbind (i64_op (ve_checked E) Minus 0 i) (\<lambda>r. push_value f vm (VInteger r))
       | VFloat x \<Rightarrow> push_value f vm (VFloat (fl_neg (ve_float E) x))
       | VCatchable _ \<Rightarrow> push_value f vm v
       | _ \<Rightarrow> VFail (TypeError ''number (either int or float)'' (type_of v)))"

definition exec_instr ::
  "('sp, 'f, 'x, 'b, 'w) vm_env \<Rightarrow> 'sp \<Rightarrow> ('sp, 'f) bytecode_frame \<Rightarrow> instr \<Rightarrow> ('sp, 'f, 'b, 'w) vm \<Rightarrow>
   ('sp, 'f, 'x, 'b, 'w) instr_result" where
  "exec_instr E span f = (\<lambda>(op, arg) vm.
     let h = vm_heap vm; checked = ve_checked E; next = VOk (Continue f vm) in
     case op of
       OpThunkSuspended \<Rightarrow>
         with_captures E False arg f vm (\<lambda>blueprint upvalues with_stack.
           vbind (current_span f) (\<lambda>sp. VOk (Continue f (alloc_thunk (Suspended blueprint upvalues with_stack sp) vm))))
     | OpThunkClosure \<Rightarrow>
         with_captures E True arg f vm (\<lambda>blueprint upvalues with_stack.
           let (p, vm) = fresh_ptr vm in VOk (Continue f (alloc_thunk (Evaluated (VClosure p blueprint upvalues with_stack)) vm)))
     | OpForce \<Rightarrow>
         if vm_stack vm = [] then next
         else (case last (vm_stack vm) of
                 VThunk t \<Rightarrow> suspend span f ''force'' (\<lambda>gen_span. [AForce t [] gen_span]) (drop_top vm)
               | _ \<Rightarrow> next)
     | OpGetUpvalue \<Rightarrow>
         with_uvarint arg (\<lambda>i. if i < length (bf_upvalues f) then push_value f vm (bf_upvalues f ! i) else VPanic OutOfBounds)
     | OpReturn \<Rightarrow>
         if checked \<and> (vm_stack vm = [] \<or> length (vm_stack vm) - 1 > bf_stack_offset f) then VPanic CompilerBug else VOk (Leave vm)
     | OpConstant \<Rightarrow> (case arg of Uvarint i \<Rightarrow> vbind (frame_constant f i) (push_value f vm) | _ \<Rightarrow> VPanic CompilerBug)
     | OpCall \<Rightarrow>
         vbind (stack_pop vm) (\<lambda>(callable, vm).
         vbind (current_span f) (\<lambda>sp.
         vbind (call_value E sp (Some (span, f)) callable vm) (\<lambda>vm. VOk (Leave vm))))
     | OpCloseScope \<Rightarrow> with_uvarint arg (\<lambda>count. close_scope count f vm)
     | OpClosure \<Rightarrow>
         with_captures E True arg f vm (\<lambda>blueprint upvalues with_stack.
           let (p, vm) = fresh_ptr vm in push_value f vm (VClosure p blueprint upvalues with_stack))
     | OpAttrsSelect \<Rightarrow>
         lifted_pop f vm (\<lambda>key attrs vm.
           vbind (to_str h key) (\<lambda>key. vbind (to_attrs h attrs) (\<lambda>(_, attrs).
             case attrs_select attrs (ns_bytes key) of
               Some v \<Rightarrow> push_value f vm v
             | None \<Rightarrow> VFail (AttributeNotFound (ve_lossy E (ns_bytes key))))))
     | OpJumpIfFalse \<Rightarrow> jump_if checked f arg (vbind (stack_peek vm) (\<lambda>v. vbind (as_bool h v) (\<lambda>b. VOk (\<not> b, vm))))
     | OpJumpIfCatchable \<Rightarrow> jump_if checked f arg (vbind (stack_peek vm) (\<lambda>v. vbind (is_catchable h v) (\<lambda>b. VOk (b, vm))))
     | OpJumpIfNoFinaliseRequest \<Rightarrow>
         jump_if checked f arg (vbind (stack_peek vm) (\<lambda>v.
           case v of VFinaliseRequest requested \<Rightarrow> VOk (\<not> requested, vm) | _ \<Rightarrow> VPanic CompilerBug))
     | OpPop \<Rightarrow> VOk (Continue f (drop_top vm))
     | OpAttrsTrySelect \<Rightarrow>
         vbind (stack_pop vm) (\<lambda>(key, vm). vbind (to_str h key) (\<lambda>key. vbind (stack_pop vm) (\<lambda>(attrs, vm).
           push_value f vm (case attrs of
             VAttrs _ a \<Rightarrow> (case attrs_select a (ns_bytes key) of Some v \<Rightarrow> v | None \<Rightarrow> VAttrNotFound)
           | _ \<Rightarrow> VAttrNotFound))))
     | OpGetLocal \<Rightarrow> with_uvarint arg (\<lambda>i. vbind (stack_at (bf_stack_offset f + i) vm) (push_value f vm))
     | OpJumpIfNotFound \<Rightarrow>
         jump_if checked f arg (vbind (stack_peek vm) (\<lambda>v.
           VOk (case v of VAttrNotFound \<Rightarrow> (True, drop_top vm) | _ \<Rightarrow> (False, vm))))
     | OpJump \<Rightarrow> jump_if checked f arg (VOk (True, vm))
     | OpEqual \<Rightarrow> lifted_pop f vm (\<lambda>b a. suspend span f ''nix_eq'' (\<lambda>gen_span. [AEq [(a, b, ForbidAll)] gen_span]))
     | OpAssertBool \<Rightarrow> assert_type is_bool ''bool'' f vm
     | OpAssertAttrs \<Rightarrow> assert_type val_is_attrs ''set'' f vm
     | OpAttrs \<Rightarrow> with_uvarint arg (\<lambda>count. run_attrset f count vm)
     | OpAttrsUpdate \<Rightarrow>
         lifted_pop f vm (\<lambda>rhs lhs vm.
           vbind (to_attrs h rhs) (\<lambda>(p2, rhs). vbind (to_attrs h lhs) (\<lambda>(p1, lhs).
             case attrs_update lhs rhs of
               SameLeft \<Rightarrow> push_value f vm (VAttrs p1 lhs)
             | SameRight \<Rightarrow> push_value f vm (VAttrs p2 rhs)
             | Merged a \<Rightarrow> push_attrs f vm a)))
     | OpInvert \<Rightarrow> lifted_pop1 f vm (\<lambda>v vm. vbind (as_bool h v) (\<lambda>b. push_value f vm (VBool (\<not> b))))
     | OpList \<Rightarrow> with_uvarint arg (\<lambda>count. vbind (split_off count vm) (\<lambda>(l, vm). push_list f vm l))
     | OpJumpIfTrue \<Rightarrow> jump_if checked f arg (vbind (stack_peek vm) (\<lambda>v. vbind (as_bool h v) (\<lambda>b. VOk (b, vm))))
     | OpHasAttr \<Rightarrow>
         lifted_pop f vm (\<lambda>key attrs vm.
           vbind (to_str h key) (\<lambda>key.
             push_value f vm (VBool (case attrs of VAttrs _ a \<Rightarrow> attrs_contains a (ns_bytes key) | _ \<Rightarrow> False))))
     | OpConcat \<Rightarrow>
         lifted_pop f vm (\<lambda>rhs lhs vm. vbind (to_list h rhs) (\<lambda>rhs. vbind (to_list h lhs) (\<lambda>lhs. push_list f vm (lhs @ rhs))))
     | OpResolveWith \<Rightarrow>
         vbind (stack_pop vm) (\<lambda>(v, vm). vbind (to_str h v) (\<lambda>ident.
         suspend span f ''resolve_with'' (\<lambda>_. [AResolveWith (ns_bytes ident) (length (vm_with_stack vm)) (length (bf_with_stack f))]) vm))
     | OpFinalise \<Rightarrow>
         with_uvarint arg (\<lambda>i. vbind (stack_at (bf_stack_offset f + i) vm) (\<lambda>v.
           case v of
             VThunk a \<Rightarrow> vbind (finalise E a (drop (bf_stack_offset f) (vm_stack vm)) h) (\<lambda>h. VOk (Continue f (vm\<lparr>vm_heap := h\<rparr>)))
           | _ \<Rightarrow> VPanic CompilerBug))
     | OpCoerceToString \<Rightarrow>
         (case arg of
            Coercion kind \<Rightarrow>
              vbind (stack_pop vm) (\<lambda>(v, vm).
                suspend span f ''coerce_to_string'' (\<lambda>gen_span. [coerce_start v (coercion_from_u8 kind) gen_span]) vm)
          | _ \<Rightarrow> VPanic CompilerBug)
     | OpInterpolate \<Rightarrow> with_uvarint arg (\<lambda>count. run_interpolate f count [] {} vm)
     | OpValidateClosedFormals \<Rightarrow> validate_closed_formals f vm
     | OpAdd \<Rightarrow> lifted_pop f vm (\<lambda>b a. suspend span f ''add_values'' (\<lambda>_. [AAddValues a b]))
     | OpSub \<Rightarrow> binary_arith E Minus f vm
     | OpMul \<Rightarrow> binary_arith E Times f vm
     | OpDiv \<Rightarrow> binary_arith E Divide f vm
     | OpNegate \<Rightarrow> negate E f vm
     | OpLess \<Rightarrow> compare_instr CmpLess span f vm
     | OpLessOrEq \<Rightarrow> compare_instr CmpLessOrEq span f vm
     | OpMore \<Rightarrow> compare_instr CmpMore span f vm
     | OpMoreOrEq \<Rightarrow> compare_instr CmpMoreOrEq span f vm
     | OpFindFile \<Rightarrow>
         vbind (stack_pop vm) (\<lambda>(v, vm).
           case v of
             VUnresolvedPath path \<Rightarrow>
               (case ve_find_file E (vm_world vm) path of
                  Inl e \<Rightarrow> VFail e
                | Inr (Inl c) \<Rightarrow> push_value f vm (VCatchable c)
                | Inr (Inr p) \<Rightarrow> push_value f vm (VPath p))
           | _ \<Rightarrow> VPanic CompilerBug)
     | OpResolveHomePath \<Rightarrow>
         vbind (stack_pop vm) (\<lambda>(v, vm).
           case v of
             VUnresolvedPath path \<Rightarrow>
               (case ve_get_env E (vm_world vm) ''HOME'' of
                  None \<Rightarrow> VFail (RelativePathResolution ''failed to determine home directory'')
                | Some home \<Rightarrow>
                    if home = [] then VFail (RelativePathResolution ''failed to determine home directory'')
                    else push_value f vm (VPath (ve_join E home path)))
           | _ \<Rightarrow> VPanic CompilerBug)
     | OpInterpolatePath \<Rightarrow> with_uvarint arg (\<lambda>count. run_interpolate_path E f count [] vm)
     | OpPushWith \<Rightarrow> with_uvarint arg (\<lambda>i. VOk (Continue f (vm\<lparr>vm_with_stack := vm_with_stack vm @ [bf_stack_offset f + i]\<rparr>)))
     | OpPopWith \<Rightarrow> VOk (Continue f (vm\<lparr>vm_with_stack := butlast (vm_with_stack vm)\<rparr>))
     | OpAssertFail \<Rightarrow> push_value f vm (VCatchable AssertionFailed)
     | OpInvalid \<Rightarrow> VPanic CompilerBug)"

section \<open>Requests of generators\<close>

text \<open>
  What the machine does with a request: it has the answer, or it puts the generator back, awaiting a value, and another frame on
  top of it. A request to enter a lambda gives its span to the generator as well.
\<close>

datatype (plugins only: code size) ('sp, 'f, 'b, 'w) served = Answer "('sp, 'f) vm_response" "('sp, 'f, 'b, 'w) vm" | Suspended_for "('sp, 'f, 'b, 'w) vm"

definition reenqueue_generator ::
  "string \<Rightarrow> 'sp \<Rightarrow> ('sp, 'f, 'b) generator \<Rightarrow> ('sp, 'f, 'b, 'w) vm \<Rightarrow> ('sp, 'f, 'b, 'w) vm" where
  "reenqueue_generator name span gen = push_frame (GeneratorFrame name span AwaitingValue gen)"

text \<open>The path under which an imported file is cached.\<close>

definition real_path :: "('sp, 'f, 'x, 'b, 'w) vm_env \<Rightarrow> 'w \<Rightarrow> string \<Rightarrow> string" where
  "real_path E w path = (case ve_canonicalize E w path of Some p \<Rightarrow> p | None \<Rightarrow> path)"

definition answer_io ::
  "'sp \<Rightarrow> ('a \<Rightarrow> ('sp, 'f) vm_response) \<Rightarrow> 'x + 'a \<Rightarrow> ('sp, 'f, 'b, 'w) vm \<Rightarrow>
   (('sp, 'f, 'x) eval_error, ('sp, 'f, 'b, 'w) served) vres" where
  "answer_io span respond r vm =
     (case r of Inl e \<Rightarrow> with_span (VFail (EnvError e)) (VOk span) vm | Inr a \<Rightarrow> VOk (Answer (respond a) vm))"

fun serve ::
  "('sp, 'f, 'x, 'b, 'w) vm_env \<Rightarrow> string \<Rightarrow> 'sp \<Rightarrow> ('sp, 'f, 'b) generator \<Rightarrow> ('sp, 'f) vm_request \<Rightarrow> ('sp, 'f, 'b, 'w) vm \<Rightarrow>
   (('sp, 'f, 'x) eval_error, ('sp, 'f, 'b, 'w) served) vres" where
  "serve E name span gen (StackPush v) vm = VOk (Answer RespEmpty (push v vm))"
| "serve E name span gen StackPop vm = vbind (stack_pop vm) (\<lambda>(v, vm). VOk (Answer (RespValue v) vm))"
| "serve E name span gen (ForceValue v) vm = VOk (Suspended_for (enqueue_force v span (reenqueue_generator name span gen vm)))"
| "serve E name span gen (DeepForceValue v) vm =
     VOk (Suspended_for (enqueue_generator ''deep_force'' span [ADeepForce v [v] [] span] (reenqueue_generator name span gen vm)))"
| "serve E name span gen (WithValue idx) vm =
     (if idx < length (vm_with_stack vm) then
        vbind (stack_at (vm_with_stack vm ! idx) vm) (\<lambda>v.
          VOk (Suspended_for (enqueue_force v span (reenqueue_generator name span gen vm))))
      else VPanic OutOfBounds)"
| "serve E name span gen (CapturedWithValue idx) vm =
     vbind (vopt CompilerBug (last_bytecode_frame (vm_frames vm))) (\<lambda>bf.
       if idx < length (bf_with_stack bf)
       then VOk (Suspended_for (enqueue_force (bf_with_stack bf ! idx) span (reenqueue_generator name span gen vm)))
       else VPanic CompilerBug)"
| "serve E name span gen (NixEquality a b ptr_eq) vm =
     VOk (Suspended_for (enqueue_generator ''nix_eq'' span [AEq [(a, b, ptr_eq)] span] (reenqueue_generator name span gen vm)))"
| "serve E name span gen (StringCoerce v kind) vm =
     VOk (Suspended_for (enqueue_generator ''coerce_to_string'' span [coerce_start v kind span] (reenqueue_generator name span gen vm)))"
| "serve E name span gen (Call callable) vm =
     (let vm = reenqueue_generator name span gen vm in
      with_span (vbind (call_value E span None callable vm) (\<lambda>vm. VOk (Suspended_for vm))) (VOk span) vm)"
| "serve E name span gen (EnterLambda lambda upvalues with_stack sp) vm =
     VOk (Suspended_for (push_frame (BytecodeFrame \<lparr>bf_lambda = lambda, bf_upvalues = upvalues, bf_with_stack = with_stack,
       bf_ip = 0, bf_stack_offset = length (vm_stack vm)\<rparr> sp) (reenqueue_generator name sp gen vm)))"
| "serve E name span gen (PathImport path) vm =
     (case vm_path_import_cache vm path of
        Some p \<Rightarrow> VOk (Answer (RespPath p) vm)
      | None \<Rightarrow>
          (case ve_import_path E (vm_world vm) path of
             (Inl e, w) \<Rightarrow> with_span (VFail (EnvError e)) (VOk span) vm
           | (Inr imported, w) \<Rightarrow>
               VOk (Answer (RespPath imported)
                 (vm\<lparr>vm_path_import_cache := (vm_path_import_cache vm)(path \<mapsto> imported), vm_world := w\<rparr>))))"
| "serve E name span gen (EmitWarning warning) vm = VOk (Answer RespEmpty (vm\<lparr>vm_warnings := vm_warnings vm @ [warning]\<rparr>))"
| "serve E name span gen (EmitWarningKind kind) vm =
     VOk (Answer RespEmpty (vm\<lparr>vm_warnings := vm_warnings vm @ [(kind, vm_reasonable_span vm)]\<rparr>))"
| "serve E name span gen (ImportCacheLookup path) vm =
     VOk (Answer (case vm_import_cache vm (real_path E (vm_world vm) path) of Some v \<Rightarrow> RespValue v | None \<Rightarrow> RespEmpty) vm)"
| "serve E name span gen (ImportCachePut path v) vm =
     VOk (Answer RespEmpty (vm\<lparr>vm_import_cache := (vm_import_cache vm)(real_path E (vm_world vm) path \<mapsto> v)\<rparr>))"
| "serve E name span gen (OpenFile path) vm = answer_io span RespReader (ve_open E (vm_world vm) path) vm"
| "serve E name span gen (PathExists path) vm = answer_io span (\<lambda>b. RespValue (VBool b)) (ve_path_exists E (vm_world vm) path) vm"
| "serve E name span gen (ReadDir path) vm = answer_io span RespDirectory (ve_read_dir E (vm_world vm) path) vm"
| "serve E name span gen (ReadFileType path) vm = answer_io span RespFileType (ve_file_type E (vm_world vm) path) vm"
| "serve E name span gen (GetEnv key) vm =
     VOk (Answer (RespEnv (case ve_get_env E (vm_world vm) key of Some s \<Rightarrow> s | None \<Rightarrow> [])) vm)"
| "serve E name span gen Span vm = VOk (Answer (RespSpan (vm_reasonable_span vm)) vm)"
| "serve E name span gen (TryForce v) vm =
     VOk (Suspended_for (enqueue_force v span (reenqueue_generator name span gen
       (vm\<lparr>vm_try_eval_frames := vm_try_eval_frames vm @ [length (vm_frames vm)]\<rparr>))))"

section \<open>The outer loop\<close>

text \<open>Put a running generator back with the message that it receives next.\<close>

definition resume_later ::
  "string \<Rightarrow> 'sp \<Rightarrow> ('sp, 'f) input \<Rightarrow> ('sp, 'f, 'b) generator \<Rightarrow> ('sp, 'f, 'b, 'w) vm \<Rightarrow> ('sp, 'f, 'b, 'w) vm" where
  "resume_later name span i gen = push_frame (GeneratorFrame name span (Deliver i) gen)"

definition served_vm ::
  "string \<Rightarrow> 'sp \<Rightarrow> ('sp, 'f, 'b) generator \<Rightarrow> ('sp, 'f, 'b, 'w) served \<Rightarrow> ('sp, 'f, 'b, 'w) vm" where
  "served_vm name span gen s = (case s of Suspended_for vm \<Rightarrow> vm | Answer r vm \<Rightarrow> resume_later name span (IResp r) gen vm)"

definition start_message :: "('sp, 'f) input \<Rightarrow> ('sp, 'f) vm_response" where
  "start_message i = (case i of IResp r \<Rightarrow> r | _ \<Rightarrow> RespEmpty)"

text \<open>One step of the generator in the top frame, which is already off the frame stack.\<close>

fun generator_step ::
  "('sp, 'f, 'x, 'b, 'w) vm_env \<Rightarrow> string \<Rightarrow> 'sp \<Rightarrow> ('sp, 'f) input \<Rightarrow> ('sp, 'f, 'b) generator \<Rightarrow> ('sp, 'f, 'b, 'w) vm \<Rightarrow>
   (('sp, 'f, 'x) eval_error, ('sp, 'f, 'b, 'w) vm) vres" where
  "generator_step E name span i (GenNative acts) vm =
     (case act_step E acts i (vm_heap vm) of
        GNext k i h \<Rightarrow> VOk (resume_later name span i (GenNative k) (vm\<lparr>vm_heap := h\<rparr>))
      | GYield req k h \<Rightarrow>
          vbind (serve E name span (GenNative k) req (vm\<lparr>vm_heap := h\<rparr>)) (\<lambda>s. VOk (served_vm name span (GenNative k) s))
      | GDone v h \<Rightarrow> VOk (push v (vm\<lparr>vm_heap := h\<rparr>))
      | GFail e h \<Rightarrow> with_span (VFail e) (VOk span) vm
      | GPanic p \<Rightarrow> VPanic p)"
| "generator_step E name span i (GenBuiltin b) vm =
     (case ve_resume E b (start_message i) (vm_heap vm) (vm_world vm) of
        (Yielded req b', h, w) \<Rightarrow>
          vbind (serve E name span (GenBuiltin b') req (vm\<lparr>vm_heap := h, vm_world := w\<rparr>)) (\<lambda>s. VOk (served_vm name span (GenBuiltin b') s))
      | (Complete (Inr v), h, w) \<Rightarrow> VOk (push v (vm\<lparr>vm_heap := h, vm_world := w\<rparr>))
      | (Complete (Inl e), h, w) \<Rightarrow> with_span (VFail e) (VOk span) vm)"

definition bytecode_step ::
  "('sp, 'f, 'x, 'b, 'w) vm_env \<Rightarrow> ('sp, 'f) bytecode_frame \<Rightarrow> 'sp \<Rightarrow> ('sp, 'f, 'b, 'w) vm \<Rightarrow>
   (('sp, 'f, 'x) eval_error, ('sp, 'f, 'b, 'w) vm) vres" where
  "bytecode_step E f span vm =
     vbind (vopt OutOfBounds (fetch_instr (ve_decode E) (vl_code (bf_lambda f)) (bf_ip f))) (\<lambda>(i, ip).
       let f = f\<lparr>bf_ip := ip\<rparr> in
       vbind (with_span (exec_instr E span f i vm) (current_span f) vm) (\<lambda>r.
         case r of Continue f vm \<Rightarrow> VOk (push_frame (BytecodeFrame f span) vm) | Leave vm \<Rightarrow> VOk vm))"

definition vm_step ::
  "('sp, 'f, 'x, 'b, 'w) vm_env \<Rightarrow> ('sp, 'f, 'b, 'w) vm \<Rightarrow> (('sp, 'f, 'x) eval_error, (('sp, 'f) val \<times> ('sp, 'f, 'b, 'w) vm) + ('sp, 'f, 'b, 'w) vm) vres" where
  "vm_step E vm =
     (case vm_frames vm of
        [] \<Rightarrow> vbind (stack_pop vm) (\<lambda>r. VOk (Inl r))
      | frame # fs \<Rightarrow>
          let vm = vm\<lparr>vm_frames := fs, vm_reasonable_span := frame_span frame\<rparr> in
          (case frame of
             BytecodeFrame f span \<Rightarrow> vbind (bytecode_step E f span vm) (\<lambda>vm. VOk (Inr vm))
           | GeneratorFrame name span (Deliver i) gen \<Rightarrow> vbind (generator_step E name span i gen vm) (\<lambda>vm. VOk (Inr vm))
           | GeneratorFrame name span AwaitingValue gen \<Rightarrow>
               vbind (stack_pop vm) (\<lambda>(v, vm).
                 vbind (generator_step E name span (IResp (RespValue v)) gen vm) (\<lambda>vm. VOk (Inr vm)))))"

text \<open>The loop, with a bound on its steps; \<open>None\<close> if the bound is reached.\<close>

fun execute ::
  "('sp, 'f, 'x, 'b, 'w) vm_env \<Rightarrow> nat \<Rightarrow> ('sp, 'f, 'b, 'w) vm \<Rightarrow> (('sp, 'f, 'x) eval_error, ('sp, 'f) val \<times> ('sp, 'f, 'b, 'w) vm) vres option" where
  "execute E 0 vm = None"
| "execute E (Suc n) vm =
     (case vm_step E vm of
        VOk (Inl r) \<Rightarrow> Some (VOk r)
      | VOk (Inr vm) \<Rightarrow> execute E n vm
      | VFail e \<Rightarrow> Some (VFail e)
      | VPanic p \<Rightarrow> Some (VPanic p))"

datatype (plugins only: code size) eval_mode = Lazy | Strict

definition vm_new :: "'sp \<Rightarrow> 'w \<Rightarrow> ('sp, 'f) heap \<Rightarrow> nat \<Rightarrow> ('sp, 'f, 'b, 'w) vm" where
  "vm_new span w h p =
     \<lparr>vm_frames = [], vm_stack = [], vm_with_stack = [], vm_heap = h, vm_next_ptr = p, vm_reasonable_span = span,
      vm_warnings = [], vm_import_cache = Map.empty, vm_path_import_cache = Map.empty, vm_try_eval_frames = [], vm_world = w\<rparr>"

text \<open>The heap and the next address cover the thunks and values that the globals hold already.\<close>

definition run_lambda_start ::
  "'w \<Rightarrow> ('sp, 'f) heap \<Rightarrow> nat \<Rightarrow> ('sp, 'f) vlambda \<Rightarrow> eval_mode \<Rightarrow> ('e, ('sp, 'f, 'b, 'w) vm) vres" where
  "run_lambda_start w h p lambda mode =
     (if vl_code lambda = [] then VPanic Overflow
      else vbind (vopt OutOfBounds (get_span (vl_chunk lambda) (length (vl_code lambda) - 1))) (\<lambda>root_span.
        let vm = vm_new root_span w h p;
            vm = (case mode of Lazy \<Rightarrow> vm | Strict \<Rightarrow> enqueue_generator ''final_deep_force'' root_span [AFinalDeepForce] vm) in
        VOk (push_frame (BytecodeFrame \<lparr>bf_lambda = lambda, bf_upvalues = [], bf_with_stack = [], bf_ip = 0, bf_stack_offset = 0\<rparr> root_span) vm)))"

definition run_lambda ::
  "('sp, 'f, 'x, 'b, 'w) vm_env \<Rightarrow> nat \<Rightarrow> 'w \<Rightarrow> ('sp, 'f) heap \<Rightarrow> nat \<Rightarrow> ('sp, 'f) vlambda \<Rightarrow> eval_mode \<Rightarrow>
   (('sp, 'f, 'x) eval_error, ('sp, 'f) val \<times> ('sp, 'f, 'b, 'w) vm) vres option" where
  "run_lambda E n w h p lambda mode =
     (case run_lambda_start w h p lambda mode of
        VOk vm \<Rightarrow> execute E n vm
      | VFail e \<Rightarrow> Some (VFail e)
      | VPanic q \<Rightarrow> Some (VPanic q))"

section \<open>Arithmetic\<close>

fun arith_of :: "op \<Rightarrow> arith option" where
  "arith_of OpSub = Some Minus"
| "arith_of OpMul = Some Times"
| "arith_of OpDiv = Some Divide"
| "arith_of _ = None"

lemma vm_stack_update [simp]: "vm\<lparr>vm_stack := st, vm_stack := st'\<rparr> = vm\<lparr>vm_stack := st'\<rparr>"
  by simp

lemma is_catchable_integer [simp]: "is_catchable h (VInteger i) = VOk False"
  by (simp add: is_catchable_def is_a_def deref.simps)

lemma lifted_pop_integers:
  "vm_stack vm = st @ [VInteger a, VInteger b] \<Longrightarrow>
   lifted_pop f vm body = body (VInteger b) (VInteger a) (vm\<lparr>vm_stack := st\<rparr>)"
  by (simp add: lifted_pop_def stack_pop_def butlast_append)

text \<open>
  C38: The instructions for the difference, product and quotient of two integers, on every machine: the exact result if it is
  a 64-bit integer, an error for a zero divisor. A difference or product out of range panics in a build with overflow
  checks and wraps around in any other; the one quotient out of range, that of the least integer by -1, panics in every build.
\<close>

theorem integer_arithmetic:
  fixes E :: "('sp, 'f, 'x, 'b, 'w) vm_env"
  assumes "vm_stack vm = st @ [VInteger a, VInteger b]" "arith_of op = Some opr"
  shows "exec_instr E span f (op, NoOperand) vm =
    (let r = int_arith opr (sint a) (sint b) in
     if opr = Divide \<and> b = 0 then VFail DivisionByZero
     else if - (2 ^ 63) \<le> r \<and> r < 2 ^ 63 then VOk (Continue f (vm\<lparr>vm_stack := st @ [VInteger (word_of_int r)]\<rparr>))
     else if opr = Divide \<or> ve_checked E then VPanic Overflow
     else VOk (Continue f (vm\<lparr>vm_stack := st @ [VInteger (word_of_int r)]\<rparr>)))"
proof -
  have b: "sint b = 0 \<longleftrightarrow> b = 0" by (metis signed_0 signed_word_eqI)
  have "exec_instr E span f (op, NoOperand) vm = binary_arith E opr f vm"
    using assms(2) by (cases op) (simp_all add: exec_instr_def Let_def)
  then show ?thesis
    by (simp add: binary_arith_def lifted_pop_integers [OF assms(1)] arithmetic_op_def i64_op_def i64_range_def push_value_def push_def b Let_def)
qed

theorem integer_arithmetic_witness:
  "\<exists>vm :: (unit, unit, unit, unit) vm. vm_stack vm = [VInteger (word_of_int (- (2 ^ 63))), VInteger (- 1)] \<and>
     (\<forall>E span f. exec_instr (E :: (unit, unit, unit, unit, unit) vm_env) span f (OpDiv, NoOperand) vm = VPanic Overflow)"
proof -
  let ?vm = "vm_new () () [] 0 \<lparr>vm_stack := [VInteger (word_of_int (- (2 ^ 63))), VInteger (- 1)]\<rparr> :: (unit, unit, unit, unit) vm"
  have s: "vm_stack ?vm = [] @ [VInteger (word_of_int (- (2 ^ 63))), VInteger (- 1)]" by simp
  have m: "sint (word_of_int (- (2 ^ 63)) :: 64 word) = - (2 ^ 63)" "sint (- 1 :: 64 word) = - 1" by simp_all
  have "exec_instr (E :: (unit, unit, unit, unit, unit) vm_env) span f (OpDiv, NoOperand) ?vm = VPanic Overflow" for E span f
    using integer_arithmetic [OF s, of OpDiv Divide E span f] by (simp add: Let_def)
  then show ?thesis by (intro exI [of _ ?vm]) simp
qed

section \<open>Comparison\<close>

fun gen_after :: "('sp, 'f, 'x, 'b, 'w) vm_env \<Rightarrow> nat \<Rightarrow> ('sp, 'f, 'x) gen_result \<Rightarrow> ('sp, 'f, 'x) gen_result" where
  "gen_after E 0 r = r"
| "gen_after E (Suc n) (GNext k i h) = gen_after E n (act_step E k i h)"
| "gen_after E (Suc n) r = r"

text \<open>
  A throw compared with any integer is that throw, but inside of lists it is a type error, which \<open>tryEval\<close> does not catch: the elements are first
  compared for equality, and the catchable error that this returns is taken for a boolean.
\<close>

theorem list_comparison_loses_throw:
  "gen_after E 9 (GNext [ACompare opr (VCatchable c) (VInteger x)] IStart h) = GYield Span [ACompareSpan opr (VCatchable c) (VInteger x)] h \<and>
   gen_after E 9 (GNext [ACompareSpan opr (VCatchable c) (VInteger x)] (IResp (RespSpan sp)) h) = GDone (VCatchable c) h \<and>
   gen_after E 9 (GNext [ACompareSpan opr (VList p [VCatchable c]) (VList q [VInteger x])] (IResp (RespSpan sp)) h) =
     GFail (TypeError ''bool'' ''internal[catchable]'') h"
  by (simp add: eval_nat_numeral g_loop_def step_cmp_def cmp_values_def g_return_def request_force_def on_value_def on_return_def
      cmp_list_items_def step_eq_def value_force_def eq_values_def as_bool_def cast_def deref.simps is_thunk_def Let_def)

end
