(* ===== verification/VmProtocol.thy ===== *)
theory VmProtocol
  imports VmExec
begin

text \<open>
  The protocol between the machine and its generators. Every activation waits for one kind of message; the invariant
  says that the activation below returns into one that accepts the result, that a frame which waits for a value accepts
  whatever the frame above it leaves, and that only forced values reach the code that relies on it.
\<close>

section \<open>Messages\<close>

definition not_thunk :: "('sp, 'f) val \<Rightarrow> bool" where
  "not_thunk v = (case v of VThunk _ \<Rightarrow> False | _ \<Rightarrow> True)"

definition stringy :: "('sp, 'f) val \<Rightarrow> bool" where
  "stringy v = (case v of VString _ \<Rightarrow> True | VCatchable _ \<Rightarrow> True | _ \<Rightarrow> False)"

definition is_value_msg :: "(('sp, 'f) val \<Rightarrow> bool) \<Rightarrow> ('sp, 'f) input \<Rightarrow> bool" where
  "is_value_msg P i = (case i of IResp (RespValue v) \<Rightarrow> P v | _ \<Rightarrow> False)"

definition is_return :: "(('sp, 'f) val \<Rightarrow> bool) \<Rightarrow> ('sp, 'f) input \<Rightarrow> bool" where
  "is_return P i = (case i of IRet (RVal v) \<Rightarrow> P v | _ \<Rightarrow> False)"

fun accepts :: "('sp, 'f) act \<Rightarrow> ('sp, 'f) input \<Rightarrow> bool" where
  "accepts (AForceEntered _ _ _) i = is_value_msg (\<lambda>_. True) i"
| "accepts (ADeepForceForced _ _ _ _) i = is_return not_thunk i"
| "accepts (ACoerceForced _) i = is_return not_thunk i"
| "accepts (ACoerceImported _) i = (case i of IResp (RespPath _) \<Rightarrow> True | _ \<Rightarrow> False)"
| "accepts (ACoerceToString _ _) i = is_return not_thunk i"
| "accepts (ACoercePushed _ _) i = (i = IResp RespEmpty)"
| "accepts (ACoerceCallable _) i = is_value_msg (\<lambda>_. True) i"
| "accepts (ACoerceCalled _) i = is_value_msg (\<lambda>_. True) i"
| "accepts (AEqLeft _ _ _ _) i = is_return not_thunk i"
| "accepts (AEqRight _ _ _ _) i = is_return not_thunk i"
| "accepts (AEqType1 _ _ _ _ _ _) i = is_return not_thunk i"
| "accepts (AEqType2 _ _ _ _ _ _) i = is_return not_thunk i"
| "accepts (AEqOut1 _ _ _) i = is_return not_thunk i"
| "accepts (AEqOut2 _ _ _) i = is_return not_thunk i"
| "accepts (ACmpEq _ _ _ _) i = is_return (\<lambda>_. True) i"
| "accepts (ACmpLeft _ _ _) i = is_return not_thunk i"
| "accepts (ACmpRight _ _ _) i = is_return not_thunk i"
| "accepts (ACompareLeft _ _) i = is_value_msg (\<lambda>_. True) i"
| "accepts (ACompareRight _ _) i = is_value_msg (\<lambda>_. True) i"
| "accepts (ACompareSpan _ _ _) i = (case i of IResp (RespSpan _) \<Rightarrow> True | _ \<Rightarrow> False)"
| "accepts (ACompareOrdering _) i = (case i of IRet (ROrdering _) \<Rightarrow> True | _ \<Rightarrow> False)"
| "accepts (AAddPath _) i = is_value_msg stringy i"
| "accepts (AAddString _) i = is_value_msg stringy i"
| "accepts (AAddLeft _) i = is_value_msg stringy i"
| "accepts (AAddRight _) i = is_value_msg stringy i"
| "accepts (AResolveWithValue _ _ _) i = is_value_msg (\<lambda>_. True) i"
| "accepts (AResolveWithCaptured _ _) i = is_value_msg (\<lambda>_. True) i"
| "accepts (AFunctorForced _) i = is_value_msg (\<lambda>_. True) i"
| "accepts (AFunctorPushed _) i = (i = IResp RespEmpty)"
| "accepts AFunctorForcedAgain i = is_value_msg (\<lambda>_. True) i"
| "accepts AFunctorPrimed i = is_value_msg (\<lambda>_. True) i"
| "accepts AFunctorPrimedForced i = is_value_msg (\<lambda>_. True) i"
| "accepts AFunctorCalled i = is_value_msg (\<lambda>_. True) i"
| "accepts AFinalPopped i = is_value_msg (\<lambda>_. True) i"
| "accepts AFinalForced i = is_value_msg (\<lambda>_. True) i"
| "accepts _ i = True"

text \<open>What an activation may return: forcing gives no thunk, coercion a string or a catchable error, comparison an ordering.\<close>

fun can_return :: "('sp, 'f) act \<Rightarrow> ('sp, 'f) ret \<Rightarrow> bool" where
  "can_return a (ROrdering _) =
     (case a of ACmp _ _ \<Rightarrow> True | ACmpEq _ _ _ _ \<Rightarrow> True | ACmpLeft _ _ _ \<Rightarrow> True | ACmpRight _ _ _ \<Rightarrow> True | _ \<Rightarrow> False)"
| "can_return a (RVal v) =
     (case a of
        AForce _ _ _ \<Rightarrow> not_thunk v
      | AForceEntered _ _ _ \<Rightarrow> not_thunk v
      | ACoerce _ \<Rightarrow> stringy v
      | ACoerceForced _ \<Rightarrow> stringy v
      | ACoerceImported _ \<Rightarrow> stringy v
      | ACoerceToString _ _ \<Rightarrow> stringy v
      | ACoercePushed _ _ \<Rightarrow> stringy v
      | ACoerceCallable _ \<Rightarrow> stringy v
      | ACoerceCalled _ \<Rightarrow> stringy v
      | ACmp _ _ \<Rightarrow> False
      | ACmpEq _ _ _ _ \<Rightarrow> False
      | ACmpLeft _ _ _ \<Rightarrow> False
      | ACmpRight _ _ _ \<Rightarrow> False
      | _ \<Rightarrow> True)"

fun act_ok :: "('sp, 'f) act \<Rightarrow> bool" where
  "act_ok (AEqRight a _ _ _) = not_thunk a"
| "act_ok _ = True"

fun accepts_list :: "(('sp, 'f) val \<Rightarrow> bool) \<Rightarrow> ('sp, 'f) act list \<Rightarrow> ('sp, 'f) input \<Rightarrow> bool" where
  "accepts_list P [] i = is_return P i"
| "accepts_list P (a # k) i = accepts a i"

fun wf_acts :: "(('sp, 'f) val \<Rightarrow> bool) \<Rightarrow> ('sp, 'f) act list \<Rightarrow> bool" where
  "wf_acts P [] = True"
| "wf_acts P (a # k) = (act_ok a \<and> (\<forall>r. can_return a r \<longrightarrow> accepts_list P k (IRet r)) \<and> wf_acts P k)"

fun response_ok :: "('sp, 'f) vm_request \<Rightarrow> ('sp, 'f) vm_response \<Rightarrow> bool" where
  "response_ok (StackPush _) r = (r = RespEmpty)"
| "response_ok (PathImport _) r = (case r of RespPath _ \<Rightarrow> True | _ \<Rightarrow> False)"
| "response_ok Span r = (case r of RespSpan _ \<Rightarrow> True | _ \<Rightarrow> False)"
| "response_ok (StringCoerce _ _) r = (case r of RespValue v \<Rightarrow> stringy v | _ \<Rightarrow> False)"
| "response_ok (EmitWarning _) r = (r = RespEmpty)"
| "response_ok (EmitWarningKind _) r = (r = RespEmpty)"
| "response_ok (ImportCacheLookup _) r = (case r of RespValue _ \<Rightarrow> True | RespEmpty \<Rightarrow> True | _ \<Rightarrow> False)"
| "response_ok (ImportCachePut _ _) r = (r = RespEmpty)"
| "response_ok (OpenFile _) r = (case r of RespReader _ \<Rightarrow> True | _ \<Rightarrow> False)"
| "response_ok (ReadDir _) r = (case r of RespDirectory _ \<Rightarrow> True | _ \<Rightarrow> False)"
| "response_ok (ReadFileType _) r = (case r of RespFileType _ \<Rightarrow> True | _ \<Rightarrow> False)"
| "response_ok (GetEnv _) r = (case r of RespEnv _ \<Rightarrow> True | _ \<Rightarrow> False)"
| "response_ok _ r = (case r of RespValue v \<Rightarrow> True | _ \<Rightarrow> False)"

definition benign :: "panic_reason \<Rightarrow> bool" where
  "benign p \<longleftrightarrow> p \<notin> {BadMessage, UnforcedThunk, NotAString}"

lemma benign_simps [simp]:
  "benign StackEmpty" "benign OutOfBounds" "benign Overflow" "benign CompilerBug" "benign NotEvaluated" "benign InternalValue"
  by (simp_all add: benign_def)

definition gen_ok :: "(('sp, 'f) val \<Rightarrow> bool) \<Rightarrow> ('sp, 'f, 'x) gen_result \<Rightarrow> bool" where
  "gen_ok P r =
     (case r of
        GNext k i h \<Rightarrow> wf_acts P k \<and> accepts_list P k i
      | GYield req k h \<Rightarrow> wf_acts P k \<and> (\<forall>m. response_ok req m \<longrightarrow> accepts_list P k (IResp m))
      | GDone v h \<Rightarrow> P v
      | GFail e h \<Rightarrow> True
      | GPanic p \<Rightarrow> benign p)"

lemma gen_ok_simps [simp]:
  "gen_ok P (GNext k i h) \<longleftrightarrow> wf_acts P k \<and> accepts_list P k i"
  "gen_ok P (GYield req k h) \<longleftrightarrow> wf_acts P k \<and> (\<forall>m. response_ok req m \<longrightarrow> accepts_list P k (IResp m))"
  "gen_ok P (GDone v h) \<longleftrightarrow> P v" "gen_ok P (GFail e h)" "gen_ok P (GPanic p) \<longleftrightarrow> benign p"
  by (simp_all add: gen_ok_def)

definition safe :: "('e, 'a) vres \<Rightarrow> bool" where
  "safe r = (case r of VPanic p \<Rightarrow> benign p | _ \<Rightarrow> True)"

lemma safe_simps [simp]: "safe (VOk a)" "safe (VFail e)" "safe (VPanic p) \<longleftrightarrow> benign p"
  by (simp_all add: safe_def)

lemma safe_vbind [intro]: "safe r \<Longrightarrow> (\<And>a. r = VOk a \<Longrightarrow> safe (f a)) \<Longrightarrow> safe (vbind r f)"
  by (cases r) auto

lemma safe_vopt [simp]: "benign p \<Longrightarrow> safe (vopt p x)"
  by (cases x) auto

lemma gen_ok_gbind [intro]: "safe r \<Longrightarrow> (\<And>a. r = VOk a \<Longrightarrow> gen_ok P (f a)) \<Longrightarrow> gen_ok P (gbind r h f)"
  by (cases r) auto

lemma safe_cast [simp]: "safe (cast t sel h v)"
  by (auto simp: cast_def split: option.splits)

lemma safe_is_a [simp]: "safe (is_a Q h v)"
  by (auto simp: is_a_def)

lemma safe_casts [simp]:
  "safe (as_bool h v)" "safe (to_str h v)" "safe (to_contextful_str h v)" "safe (to_attrs h v)" "safe (to_list h v)"
  "safe (is_catchable h v)" "safe (is_bool h v)" "safe (val_is_attrs h v)" "safe (is_number h v)"
  by (simp_all add: as_bool_def to_str_def to_contextful_str_def to_attrs_def to_list_def is_catchable_def is_bool_def
      val_is_attrs_def is_number_def)

lemma safe_i64_op [simp]: "safe (i64_op c opr x y)"
  by (simp add: i64_op_def Let_def)

lemma safe_arithmetic_op [simp]: "safe (arithmetic_op c F h opr a b)"
  unfolding arithmetic_op_def by (auto split: val.splits)

section \<open>Generators keep the protocol\<close>

lemma stringy_simps [simp]: "stringy (VString s)" "stringy (VCatchable c)"
  by (simp_all add: stringy_def)

lemma not_thunk_iff: "not_thunk v \<longleftrightarrow> (\<forall>a. v \<noteq> VThunk a)"
  by (cases v) (simp_all add: not_thunk_def)

lemma wf_acts_ret: "wf_acts P (a # k) \<Longrightarrow> can_return a r \<Longrightarrow> accepts_list P k (IRet r)"
  by simp

lemma is_return_simps [simp]: "is_return P (IRet (RVal v)) = P v" "is_value_msg P (IResp (RespValue v)) = P v"
  by (simp_all add: is_return_def is_value_msg_def)

lemma gen_ok_moves [simp]:
  "gen_ok P (g_return v k h) \<longleftrightarrow> wf_acts P k \<and> accepts_list P k (IRet (RVal v))"
  "gen_ok P (g_loop a k h) \<longleftrightarrow> wf_acts P (a # k) \<and> accepts a IStart"
  "gen_ok P (g_ordering r k h) \<longleftrightarrow> wf_acts P k \<and> accepts_list P k (IRet (ROrdering (Inr r)))"
  by (simp_all add: g_return_def g_loop_def g_ordering_def)


lemma value_force_ok:
  assumes "wf_acts P k" "\<And>v. not_thunk v \<Longrightarrow> accepts_list P k (IRet (RVal v))"
  shows "gen_ok P (value_force v sp k h)"
  using assms by (cases v) (auto simp: value_force_def not_thunk_iff elim: can_return.elims)

lemma request_force_ok:
  assumes "wf_acts P k" "\<And>v. accepts_list P k (IResp (RespValue v))"
  shows "gen_ok P (request_force v k h)"
  using assms by (cases v) (auto simp: request_force_def split: vm_response.splits)

lemma request_string_coerce_ok:
  assumes "wf_acts P k" "\<And>v. stringy v \<Longrightarrow> accepts_list P k (IResp (RespValue v))"
  shows "gen_ok P (request_string_coerce v kind k h)"
  using assms by (cases v) (auto simp: request_string_coerce_def split: vm_response.splits)

lemma can_return_force [simp]:
  "can_return (AForce m us sp) r \<longleftrightarrow> (\<exists>v. r = RVal v \<and> not_thunk v)"
  "can_return (AForceEntered m us sp) r \<longleftrightarrow> (\<exists>v. r = RVal v \<and> not_thunk v)"
  by (cases r; simp)+

lemma step_force_ok:
  assumes "wf_acts P (AForce m us sp # k)"
  shows "gen_ok P (step_force E m us sp k h)"
proof -
  have k: "wf_acts P k" "\<And>v. not_thunk v \<Longrightarrow> accepts_list P k (IRet (RVal v))"
    using assms by auto
  have e: "wf_acts P (AForceEntered m' us' sp' # k)" "wf_acts P (AForce m' us' sp' # k)" for m' us' sp'
    using k by auto
  have forced: "is_forced (Evaluated v) \<longleftrightarrow> not_thunk v" for v :: "('a, 'b) val"
    by (cases v) (simp_all add: not_thunk_iff)
  show ?thesis
    unfolding step_force_def
    by (rule gen_ok_gbind; auto simp: k e forced Let_def not_thunk_iff split: vm_response.splits thunk_repr.splits val.splits sum.splits intro!: gen_ok_gbind)
qed


lemma wf_acts_Cons:
  "wf_acts P (a # k) \<longleftrightarrow> act_ok a \<and> (\<forall>v. can_return a (RVal v) \<longrightarrow> accepts_list P k (IRet (RVal v))) \<and>
     (\<forall>r. can_return a (ROrdering r) \<longrightarrow> accepts_list P k (IRet (ROrdering r))) \<and> wf_acts P k"
  by (auto elim: can_return.elims)

declare wf_acts.simps(2) [simp del] wf_acts_Cons [simp]

lemma eq_entries_ok: "wf_acts P (AEq vs sp' # k) \<Longrightarrow> gen_ok P (eq_entries a1 a2 p vals sp k h)"
  by (simp add: eq_entries_def)

lemma eq_values_ok:
  assumes "wf_acts P (AEq vs sp' # k)" "not_thunk a" "not_thunk b"
  shows "gen_ok P (eq_values E a b p vals sp k h)"
proof -
  have k: "wf_acts P k" "\<And>v. accepts_list P k (IRet (RVal v))" using assms(1) by simp_all
  have t: "gen_ok P (value_force v sp (AEqType1 a1 a2 v2 p vals sp # k) h)" for v a1 a2 v2
    by (rule value_force_ok) (simp_all add: k)
  have e: "gen_ok P (eq_entries a1 a2 p vals sp k h)" for a1 a2 by (rule eq_entries_ok [OF assms(1)])
  show ?thesis using assms(2, 3)
    by (cases a; cases b) (simp_all add: eq_values_def not_thunk_iff is_thunk_def Let_def k t e split: option.splits)
qed


lemma step_eq_ok: "wf_acts P (AEq vals sp # k) \<Longrightarrow> gen_ok P (step_eq vals sp k h)"
  by (cases vals) (auto simp: step_eq_def not_thunk_iff split: val.splits intro!: value_force_ok)

lemma eq_types_ok:
  assumes "wf_acts P (AEq vals sp # k)"
  shows "gen_ok P (eq_types s1 s2 a1 a2 p vals sp k h)"
  using assms by (auto simp: eq_types_def split: option.splits intro!: value_force_ok eq_entries_ok)

lemma eq_out_paths_ok: "wf_acts P (AEq vals sp # k) \<Longrightarrow> gen_ok P (eq_out_paths out1 out2 vals sp k h)"
  by (auto simp: eq_out_paths_def intro!: gen_ok_gbind)

lemma deep_force_value_ok:
  "wf_acts P (ADeepForce self vals ts sp # k) \<Longrightarrow> not_thunk v \<Longrightarrow> gen_ok P (deep_force_value v self vals ts sp k h)"
  by (cases v) (auto simp: deep_force_value_def not_thunk_iff)

lemma step_deep_force_ok: "wf_acts P (ADeepForce self vals ts sp # k) \<Longrightarrow> gen_ok P (step_deep_force self vals ts sp k h)"
  by (cases vals) (auto simp: step_deep_force_def not_thunk_iff split: val.splits intro!: deep_force_value_ok)

lemma coerce_value_ok:
  assumes "wf_acts P (ACoerce L # k)" "not_thunk v"
  shows "gen_ok P (coerce_value E v L k h)"
  using assms
  by (cases v) (auto simp: coerce_value_def Let_def not_thunk_iff split: option.splits vm_response.splits intro!: value_force_ok)

lemma step_coerce_ok: "wf_acts P (ACoerce L # k) \<Longrightarrow> gen_ok P (step_coerce L k h)"
  by (auto simp: step_coerce_def split: list.splits intro!: value_force_ok)

lemma cmp_values_ok:
  assumes "wf_acts P (ACmp vs sp' # k)"
  shows "gen_ok P (cmp_values E a b vals sp k h)"
proof -
  have k: "wf_acts P k" "\<And>r. accepts_list P k (IRet (ROrdering r))" using assms by simp_all
  show ?thesis by (cases a; cases b) (simp_all add: cmp_values_def Let_def k)
qed

lemma step_cmp_ok: "wf_acts P (ACmp vals sp # k) \<Longrightarrow> gen_ok P (step_cmp E vals sp k h)"
  by (cases vals) (auto simp: step_cmp_def intro!: cmp_values_ok)

lemma step_add_values_ok: "wf_acts P (AAddValues a b # k) \<Longrightarrow> gen_ok P (step_add_values E a b k h)"
  unfolding step_add_values_def
  by (cases a) (auto split: val.split intro!: request_string_coerce_ok gen_ok_gbind)

lemma on_answer_ok: "stringy v \<Longrightarrow> (\<And>r. gen_ok P (f r)) \<Longrightarrow> gen_ok P (on_answer h v f)"
  by (cases v) (simp_all add: on_answer_def coerce_answer_def deref.simps stringy_def)

lemma resolve_in_ok: "wf_acts P (AResolveWith ident n m # k) \<Longrightarrow> gen_ok P (resolve_in w ident n m k h)"
  by (auto simp: resolve_in_def split: option.splits intro!: gen_ok_gbind)

lemma step_resolve_with_ok: "wf_acts P (AResolveWith ident n m # k) \<Longrightarrow> gen_ok P (step_resolve_with ident n m k h)"
  by (auto simp: step_resolve_with_def split: vm_response.splits)

lemma input_cases:
  "is_return Q i \<longleftrightarrow> (\<exists>v. i = IRet (RVal v) \<and> Q v)" "is_value_msg Q i \<longleftrightarrow> (\<exists>v. i = IResp (RespValue v) \<and> Q v)"
  by (auto simp: is_return_def is_value_msg_def split: input.splits ret.splits vm_response.splits)

lemmas step_oks = step_force_ok deep_force_value_ok step_deep_force_ok coerce_value_ok step_coerce_ok step_eq_ok eq_values_ok
  eq_types_ok eq_out_paths_ok cmp_values_ok step_cmp_ok step_add_values_ok resolve_in_ok step_resolve_with_ok on_answer_ok
  value_force_ok request_force_ok request_string_coerce_ok

lemma act_step_ok:
  assumes "wf_acts P k" "accepts_list P k i"
  shows "gen_ok P (act_step E k i h)"
proof (cases k)
  case Nil
  then show ?thesis using assms by (auto simp: input_cases on_return_def)
next
  case (Cons a k')
  show ?thesis using assms unfolding Cons
    by (cases a) (auto simp: input_cases on_return_def on_value_def on_empty_def intro!: step_oks gen_ok_gbind
        split: input.splits vm_response.splits ret.splits sum.splits option.splits)
qed

end
