(* ===== verification/VmEffects.thy ===== *)
theory VmEffects
  imports VmProtocol
begin

text \<open>
  What instructions and requests do to the frames and to the heap: the frames below stay as they are, what is put on top of
  them has not run yet, and the heap only gains thunks or has deferred upvalues filled in.
\<close>

section \<open>Frames that have not run\<close>

text \<open>A frame that has not run is at the start of its bytecode, of its native generator, or of a call to a builtin.\<close>

fun starts :: "('sp, 'f) act \<Rightarrow> bool" where
  "starts (AForce _ us _) = (us = [])"
| "starts (ADeepForce _ _ _ _) = True"
| "starts (ACoerce _) = True"
| "starts (AEq _ _) = True"
| "starts (ACompare _ _ _) = True"
| "starts (AAddValues _ _) = True"
| "starts (AResolveWith _ _ _) = True"
| "starts (ACallFunctor _) = True"
| "starts AFinalDeepForce = True"
| "starts _ = False"

definition builtin_start :: "('sp, 'f, 'x, 'b, 'w) vm_env \<Rightarrow> 'b \<Rightarrow> bool" where
  "builtin_start E b \<longleftrightarrow> (\<exists>name args. b = ve_builtin E name args)"

lemma builtin_start_call [simp]: "builtin_start E (ve_builtin E name args)"
  by (auto simp: builtin_start_def)

definition fresh_generator :: "('b \<Rightarrow> bool) \<Rightarrow> ('sp, 'f) input \<Rightarrow> ('sp, 'f, 'b) generator \<Rightarrow> bool" where
  "fresh_generator I i g =
     (case g of
        GenNative [] \<Rightarrow> is_return (\<lambda>_. True) i
      | GenNative [a] \<Rightarrow> starts a
      | GenNative _ \<Rightarrow> False
      | GenBuiltin b \<Rightarrow> I b)"

fun fresh_frame :: "('b \<Rightarrow> bool) \<Rightarrow> ('sp, 'f, 'b) frame \<Rightarrow> bool" where
  "fresh_frame I (BytecodeFrame _ _) = True"
| "fresh_frame I (GeneratorFrame _ _ (Deliver i) g) = fresh_generator I i g"
| "fresh_frame I (GeneratorFrame _ _ AwaitingValue g) = False"

lemma fresh_generator_simps [simp]:
  "fresh_generator I i (GenNative []) = is_return (\<lambda>_. True) i" "fresh_generator I i (GenNative [a]) = starts a"
  "fresh_generator I i (GenBuiltin b) = I b"
  by (simp_all add: fresh_generator_def)

text \<open>New frames on top of old ones.\<close>

inductive on_top :: "('b \<Rightarrow> bool) \<Rightarrow> ('sp, 'f, 'b) frame list \<Rightarrow> ('sp, 'f, 'b) frame list \<Rightarrow> bool" for I where
  on_top_refl [simp, intro]: "on_top I fs fs"
| on_top_frame [intro!]: "on_top I fs fs' \<Longrightarrow> fresh_frame I f \<Longrightarrow> on_top I fs (f # fs')"

section \<open>The heap\<close>

definition filled :: "('sp, 'f) val \<Rightarrow> ('sp, 'f) val \<Rightarrow> bool" where
  "filled u u' \<longleftrightarrow> u = u' \<or> (\<exists>i. u = VDeferredUpvalue i)"

inductive finalised :: "('sp, 'f) thunk_repr \<Rightarrow> ('sp, 'f) thunk_repr \<Rightarrow> bool" where
  finalised_same: "finalised r r"
| finalised_suspended: "list_all2 filled us us' \<Longrightarrow> finalised (Suspended l us ws sp) (Suspended l us' ws sp)"
| finalised_closure: "list_all2 filled us us' \<Longrightarrow> finalised (Evaluated (VClosure p l us ws)) (Evaluated (VClosure p l us' ws))"

inductive_cases finalised_evaluated: "finalised (Evaluated v) r"
inductive_cases finalised_blackhole: "finalised (Blackhole a b c) r"

definition grows :: "('sp, 'f) heap \<Rightarrow> ('sp, 'f) heap \<Rightarrow> bool" where
  "grows h h' \<longleftrightarrow> length h \<le> length h' \<and> (\<forall>a < length h. finalised (h ! a) (h' ! a))"

lemma grows_refl [simp]: "grows h h"
  by (simp add: grows_def finalised_same)

lemma grows_append [simp]: "grows h (h @ rs)"
  by (simp add: grows_def nth_append finalised_same)

lemma resolve_deferred_upvalues_fills: "resolve_deferred_upvalues us st = VOk us' \<Longrightarrow> list_all2 filled us us'"
proof (induction us arbitrary: us')
  case (Cons u us)
  then show ?case
    by (cases u; cases "resolve_deferred_upvalues us st :: ('a, _) vres") (auto simp: filled_def split: if_splits)
qed simp

lemma grows_update: "a < length h \<Longrightarrow> finalised (h ! a) r \<Longrightarrow> grows h (h[a := r])"
  by (auto simp: grows_def nth_list_update finalised_same)

lemma vbind_VOk: "vbind r f = VOk b \<longleftrightarrow> (\<exists>a. r = VOk a \<and> f a = VOk b)"
  by (cases r) auto

lemma vopt_VOk [simp]: "vopt p x = VOk a \<longleftrightarrow> x = Some a"
  by (cases x) auto

lemma heap_get_Some: "heap_get h a = Some r \<longleftrightarrow> a < length h \<and> h ! a = r"
  by (auto simp: heap_get_def)

lemma finalise_grows: "finalise E a st h = VOk h' \<Longrightarrow> grows h h'"
  unfolding finalise_def vbind_VOk
  by (auto simp: heap_get_Some vbind_VOk split: thunk_repr.splits val.splits if_splits
      intro!: grows_update finalised_suspended finalised_closure resolve_deferred_upvalues_fills)

lemma safe_resolve_deferred: "safe (resolve_deferred_upvalues us st)"
proof (induction us)
  case (Cons u us)
  show ?case by (cases u) (auto intro!: safe_vbind Cons split: val.splits)
qed simp

lemma safe_finalise [simp]: "safe (finalise E a st h)"
  unfolding finalise_def
  by (rule safe_vbind, simp) (auto split: thunk_repr.splits val.splits intro!: safe_vbind safe_resolve_deferred)

section \<open>Effects of instructions\<close>

definition effect :: "('b \<Rightarrow> bool) \<Rightarrow> ('sp, 'f, 'b) frame list \<Rightarrow> ('sp, 'f) heap \<Rightarrow> ('sp, 'f, 'x, 'b, 'w) instr_result \<Rightarrow> bool" where
  "effect I fs h r =
     (case r of
        VOk (Continue f vm) \<Rightarrow> vm_frames vm = fs \<and> grows h (vm_heap vm)
      | VOk (Leave vm) \<Rightarrow> vm_heap vm = h \<and> on_top I fs (vm_frames vm)
      | VFail e \<Rightarrow> True
      | VPanic p \<Rightarrow> benign p)"

lemma effect_simps [simp]:
  "effect I fs h (VOk (Continue f vm)) \<longleftrightarrow> vm_frames vm = fs \<and> grows h (vm_heap vm)"
  "effect I fs h (VOk (Leave vm)) \<longleftrightarrow> vm_heap vm = h \<and> on_top I fs (vm_frames vm)"
  "effect I fs h (VFail e)" "effect I fs h (VPanic p) \<longleftrightarrow> benign p"
  by (simp_all add: effect_def)

lemma effect_vbind: "safe r \<Longrightarrow> (\<And>a. r = VOk a \<Longrightarrow> effect I fs h (f a)) \<Longrightarrow> effect I fs h (vbind r f)"
  by (cases r) auto

lemma effect_pop:
  "(\<And>v st. effect I fs h (k (v, vm\<lparr>vm_stack := st\<rparr>))) \<Longrightarrow> effect I fs h (vbind (stack_pop vm) k)"
  by (auto simp: stack_pop_def)

lemma push_fields [simp]:
  "vm_frames (push v vm) = vm_frames vm" "vm_heap (push v vm) = vm_heap vm"
  "vm_frames (drop_top vm) = vm_frames vm" "vm_heap (drop_top vm) = vm_heap vm"
  "vm_frames (push_frame f vm) = f # vm_frames vm" "vm_heap (push_frame f vm) = vm_heap vm"
  by (simp_all add: push_def drop_top_def push_frame_def)

lemma drop_tops_fields [simp]: "vm_frames (drop_tops n vm) = vm_frames vm" "vm_heap (drop_tops n vm) = vm_heap vm"
  unfolding drop_tops_def by (induction n) simp_all

lemma effect_push [simp]:
  "effect I fs h (push_value f vm v) \<longleftrightarrow> vm_frames vm = fs \<and> grows h (vm_heap vm)"
  "effect I fs h (push_list f vm l) \<longleftrightarrow> vm_frames vm = fs \<and> grows h (vm_heap vm)"
  "effect I fs h (push_attrs f vm a) \<longleftrightarrow> vm_frames vm = fs \<and> grows h (vm_heap vm)"
  by (simp_all add: push_value_def push_list_def push_attrs_def fresh_ptr_def)

lemma safe_current_span [simp]: "safe (current_span f)" and safe_frame_constant [simp]: "safe (frame_constant f i)"
  and safe_stack_peek [simp]: "safe (stack_peek vm)" and safe_stack_at [simp]: "safe (stack_at j vm)"
  and safe_stack_pop [simp]: "safe (stack_pop vm)" and safe_split_off [simp]: "safe (split_off n vm)"
  by (simp_all add: current_span_def frame_constant_def stack_peek_def stack_at_def stack_pop_def split_off_def Let_def)

lemma effect_suspend:
  "vm_frames vm = fs \<Longrightarrow> vm_heap vm = h \<Longrightarrow> (\<And>sp. starts (g sp)) \<Longrightarrow> effect I fs h (suspend span f name (\<lambda>sp. [g sp]) vm)"
  unfolding suspend_def
  by (rule effect_vbind, simp) (auto simp: enqueue_generator_def)

lemma effect_lifted_pop:
  "vm_frames vm = fs \<Longrightarrow> vm_heap vm = h \<Longrightarrow> (\<And>x y st. effect I fs h (body x y (vm\<lparr>vm_stack := st\<rparr>))) \<Longrightarrow> effect I fs h (lifted_pop f vm body)"
  unfolding lifted_pop_def by (auto intro!: effect_vbind effect_pop)

lemma effect_lifted_pop1:
  "vm_frames vm = fs \<Longrightarrow> vm_heap vm = h \<Longrightarrow> (\<And>x st. effect I fs h (body x (vm\<lparr>vm_stack := st\<rparr>))) \<Longrightarrow> effect I fs h (lifted_pop1 f vm body)"
  unfolding lifted_pop1_def by (auto intro!: effect_vbind effect_pop)

lemma effect_jump_if:
  "safe cond \<Longrightarrow> (\<And>taken vm'. cond = VOk (taken, vm') \<Longrightarrow> vm_frames vm' = fs \<and> vm_heap vm' = h) \<Longrightarrow>
   effect I fs h (jump_if c f arg cond)"
proof (cases arg)
  case (Fixed offset)
  assume s: "safe cond" and c: "\<And>taken vm'. cond = VOk (taken, vm') \<Longrightarrow> vm_frames vm' = fs \<and> vm_heap vm' = h"
  have "effect I fs h (vbind cond (\<lambda>(taken, vm). VOk (Continue (g taken) vm)))" for g
  proof (rule effect_vbind [OF s])
    fix a assume "cond = VOk a"
    with c [of "fst a" "snd a"] show "effect I fs h (case a of (taken, vm) \<Rightarrow> VOk (Continue (g taken) vm))"
      by (simp add: case_prod_beta)
  qed
  with Fixed show ?thesis by (simp add: jump_if_def)
qed (simp_all add: jump_if_def)

lemma effect_jump_peek:
  "(\<And>v. safe (g v)) \<Longrightarrow> (\<And>v taken vm'. g v = VOk (taken, vm') \<Longrightarrow> vm_frames vm' = fs \<and> vm_heap vm' = h) \<Longrightarrow>
   effect I fs h (jump_if c f arg (vbind (stack_peek vm) g))"
  by (rule effect_jump_if) (auto intro!: safe_vbind simp: vbind_VOk)

lemma effect_jump: "vm_frames vm = fs \<Longrightarrow> vm_heap vm = h \<Longrightarrow> effect I fs h (jump_if c f arg (VOk (t, vm)))"
  by (rule effect_jump_if) auto

lemma effect_finalise:
  "vm_frames vm = fs \<Longrightarrow> effect I fs h (vbind (finalise E a st h) (\<lambda>h'. VOk (Continue f (vm\<lparr>vm_heap := h'\<rparr>))))"
  by (rule effect_vbind) (auto dest: finalise_grows)

lemma effect_with_uvarint: "(\<And>n. effect I fs h (k n)) \<Longrightarrow> effect I fs h (with_uvarint arg k)"
  by (simp add: with_uvarint_def split: operand.splits)

lemma effect_run_interpolate:
  "vm_frames vm = fs \<Longrightarrow> vm_heap vm = h \<Longrightarrow> effect I fs h (run_interpolate f n out ctx vm)"
  by (induction n arbitrary: out ctx vm) (auto intro!: effect_pop effect_vbind)

lemma effect_run_interpolate_path:
  "vm_frames vm = fs \<Longrightarrow> vm_heap vm = h \<Longrightarrow> effect I fs h (run_interpolate_path E f n out vm)"
  by (induction n arbitrary: out vm) (auto intro!: effect_pop effect_vbind split: val.splits)

lemma split_off_fields: "split_off n vm = VOk (l, vm') \<Longrightarrow> vm_frames vm' = vm_frames vm \<and> vm_heap vm' = vm_heap vm"
  by (auto simp: split_off_def Let_def split: if_splits)

lemma safe_set_attr [simp]: "safe (set_attr k v m)"
  by (simp add: set_attr_def)

lemma safe_construct_loop: "safe (construct_loop n rs m)"
  by (induction n rs m rule: construct_loop.induct) (auto split: val.splits)

lemma safe_attrs_construct [simp]: "safe (attrs_construct n l)"
  by (auto simp: attrs_construct_def safe_construct_loop split: option.splits)

lemma effect_run_attrset: "vm_frames vm = fs \<Longrightarrow> vm_heap vm = h \<Longrightarrow> effect I fs h (run_attrset f n vm)"
  unfolding run_attrset_def by (auto intro!: effect_vbind split: sum.splits dest!: split_off_fields)

lemma effect_validate: "vm_frames vm = fs \<Longrightarrow> vm_heap vm = h \<Longrightarrow> effect I fs h (validate_closed_formals f vm)"
  unfolding validate_closed_formals_def by (auto intro!: effect_vbind split: option.splits)

lemma effect_assert_type:
  "vm_frames vm = fs \<Longrightarrow> vm_heap vm = h \<Longrightarrow> (\<And>v. safe (t h v)) \<Longrightarrow> effect I fs h (assert_type t s f vm)"
  unfolding assert_type_def by (auto intro!: effect_vbind)

lemma effect_close_scope: "vm_frames vm = fs \<Longrightarrow> vm_heap vm = h \<Longrightarrow> effect I fs h (close_scope n f vm)"
  unfolding close_scope_def Let_def by (auto intro!: effect_pop)

lemma safe_capture [simp]: "safe (capture f vm p)"
  by (simp add: capture_def Let_def split: option.splits)

lemma safe_capture_all [simp]: "safe (capture_all f vm ps)"
  by (induction ps) (auto intro!: safe_vbind)

lemma safe_with_values [simp]: "safe (with_values is vm)"
  by (induction "is" vm rule: with_values.induct) (auto intro!: safe_vbind)

lemma safe_populate_upvalues [simp]: "safe (populate_upvalues f vm c ps)"
  unfolding populate_upvalues_def by (auto intro!: safe_vbind)

lemma effect_with_captures:
  "(\<And>b us ws. effect I fs h (body b us ws)) \<Longrightarrow> effect I fs h (with_captures E c arg f vm body)"
  unfolding with_captures_def by (auto intro!: effect_vbind split: operand.splits val.splits)

lemma effect_binary_arith: "vm_frames vm = fs \<Longrightarrow> vm_heap vm = h \<Longrightarrow> effect I fs h (binary_arith E opr f vm)"
  unfolding binary_arith_def by (auto intro!: effect_lifted_pop effect_vbind)

lemma effect_negate: "vm_frames vm = fs \<Longrightarrow> vm_heap vm = h \<Longrightarrow> effect I fs h (negate E f vm)"
  unfolding negate_def by (auto intro!: effect_pop effect_vbind split: val.splits)


section \<open>Calls\<close>

text \<open>A call keeps the frames and the heap, or puts new frames on top.\<close>

definition calls :: "('b \<Rightarrow> bool) \<Rightarrow> ('sp, 'f, 'b) frame list \<Rightarrow> ('sp, 'f) heap \<Rightarrow> (('sp, 'f, 'x) error_kind, ('sp, 'f, 'b, 'w) vm) vres \<Rightarrow> bool" where
  "calls I fs h r \<longleftrightarrow> safe r \<and>
     (\<forall>vm. r = VOk vm \<longrightarrow> vm_heap vm = h \<and> on_top I fs (vm_frames vm))"

lemma calls_simps [simp]:
  "calls I fs h (VOk vm) \<longleftrightarrow> vm_heap vm = h \<and> on_top I fs (vm_frames vm)" "calls I fs h (VFail e)"
  "calls I fs h (VPanic p) \<longleftrightarrow> benign p"
  by (auto simp: calls_def)

lemma calls_vbind: "safe r \<Longrightarrow> (\<And>a. r = VOk a \<Longrightarrow> calls I fs h (k a)) \<Longrightarrow> calls I fs h (vbind r k)"
  by (cases r) auto

lemma call_builtin_calls: "vm_frames vm = fs \<Longrightarrow> vm_heap vm = h \<Longrightarrow> calls (builtin_start E) fs h (call_builtin E sp name n ps vm)"
  unfolding call_builtin_def
  by (rule calls_vbind, simp)
    (auto simp: Let_def stack_pop_def split: if_splits)

lemma push_parent_fields [simp]:
  "on_top I (vm_frames vm) (vm_frames (push_parent parent vm))" "vm_heap (push_parent parent vm) = vm_heap vm"
  by (auto simp: push_parent_def split: option.splits)

lemma call_value_calls:
  assumes "vm_frames vm = fs" "vm_heap vm = h"
  shows "calls (builtin_start E) fs h (call_value E sp parent callable vm)"
  unfolding call_value_def
proof (rule calls_vbind)
  fix v :: "('a, 'b) val"
  show "calls (builtin_start E) fs h (case v of
         VBuiltin name arg_count partials \<Rightarrow> call_builtin E sp name arg_count partials vm
       | VClosure _ lambda upvalues with_stack \<Rightarrow>
           if vm_stack vm = [] then VPanic Overflow
           else VOk (push_frame (BytecodeFrame \<lparr>bf_lambda = lambda, bf_upvalues = upvalues, bf_with_stack = with_stack,
                       bf_ip = 0, bf_stack_offset = length (vm_stack vm) - 1\<rparr> sp) (push_parent parent vm))
       | VAttrs _ _ \<Rightarrow> VOk (enqueue_generator ''__functor call'' sp [ACallFunctor v] (push_parent parent vm))
       | VCatchable _ \<Rightarrow> VOk (push v (drop_top vm))
       | v \<Rightarrow> VFail (NotCallable (type_of v)))"
    using assms
    by (cases v)
      (auto simp: enqueue_generator_def intro: call_builtin_calls)
qed simp

lemma effect_call:
  "vm_frames vm = fs \<Longrightarrow> vm_heap vm = h \<Longrightarrow> effect (builtin_start E) fs h (vbind (call_value E sp parent c vm) (\<lambda>vm. VOk (Leave vm)))"
  using call_value_calls [of vm fs h E sp parent c] by (auto simp: calls_def intro!: effect_vbind)

lemmas effect_rules = effect_vbind effect_pop effect_suspend effect_lifted_pop effect_lifted_pop1 effect_jump_peek effect_jump effect_finalise effect_with_uvarint
  effect_run_interpolate effect_run_interpolate_path effect_run_attrset effect_validate effect_assert_type effect_close_scope
  effect_with_captures effect_binary_arith effect_negate effect_call

lemma coerce_start_starts [simp]: "starts (coerce_start v kind sp)"
  by (simp add: coerce_start_def)

lemma alloc_thunk_fields [simp]: "vm_frames (alloc_thunk r vm) = vm_frames vm" "vm_heap (alloc_thunk r vm) = vm_heap vm @ [r]"
  by (simp_all add: alloc_thunk_def)

lemma exec_instr_effect: "effect (builtin_start E) (vm_frames vm) (vm_heap vm) (exec_instr E span f i vm)"
proof -
  obtain op arg where i: "i = (op, arg)" by (cases i)
  show ?thesis unfolding i
    by (cases op;
        auto simp: exec_instr_def Let_def compare_instr_def fresh_ptr_def vbind_VOk intro!: effect_rules safe_vbind
          dest!: split_off_fields split: val.splits option.splits sum.splits operand.splits update_result.splits)
qed

end
