(* ===== verification/VmSafety.thy ===== *)
theory VmSafety
  imports VmEffects
begin

text \<open>
  Machines that can be reached from the start of an evaluation: the protocol between frames holds in all of them.
\<close>

section \<open>Requests\<close>

fun gives_any_value :: "('sp, 'f) vm_request \<Rightarrow> bool" where
  "gives_any_value (ForceValue _) = True"
| "gives_any_value (DeepForceValue _) = True"
| "gives_any_value (WithValue _) = True"
| "gives_any_value (CapturedWithValue _) = True"
| "gives_any_value (NixEquality _ _ _) = True"
| "gives_any_value (Call _) = True"
| "gives_any_value (EnterLambda _ _ _ _) = True"
| "gives_any_value (TryForce _) = True"
| "gives_any_value _ = False"

lemma gives_any_value_response: "gives_any_value req \<Longrightarrow> response_ok req (RespValue v)"
  by (cases req) auto

definition coerce_frame :: "('sp, 'f, 'b) frame \<Rightarrow> bool" where
  "coerce_frame f \<longleftrightarrow> (\<exists>name sp L. f = GeneratorFrame name sp (Deliver IStart) (GenNative [ACoerce L]))"

text \<open>The frames after a request for which the generator is suspended.\<close>

definition suspends :: "('b \<Rightarrow> bool) \<Rightarrow> ('sp, 'f) vm_request \<Rightarrow> ('sp, 'f, 'b) generator \<Rightarrow> ('sp, 'f, 'b) frame list \<Rightarrow> ('sp, 'f, 'b) frame list \<Rightarrow> bool" where
  "suspends I req gen fs fs' \<longleftrightarrow> (\<exists>name sp.
     let waiting = GeneratorFrame name sp AwaitingValue gen # fs in
     if gives_any_value req then on_top I waiting fs'
     else \<exists>f. fs' = f # waiting \<and> coerce_frame f \<and> (\<exists>v kind. req = StringCoerce v kind))"

definition serves ::
  "('b \<Rightarrow> bool) \<Rightarrow> ('sp, 'f) vm_request \<Rightarrow> ('sp, 'f, 'b) generator \<Rightarrow> ('sp, 'f, 'b) frame list \<Rightarrow> ('sp, 'f) heap \<Rightarrow> ('e, ('sp, 'f, 'b, 'w) served) vres \<Rightarrow> bool" where
  "serves I req gen fs h r =
     (case r of
        VOk (Answer m vm) \<Rightarrow> response_ok req m \<and> vm_frames vm = fs \<and> vm_heap vm = h
      | VOk (Suspended_for vm) \<Rightarrow> suspends I req gen fs (vm_frames vm) \<and> vm_heap vm = h
      | VFail e \<Rightarrow> True
      | VPanic p \<Rightarrow> benign p)"

lemma serves_simps [simp]:
  "serves I req gen fs h (VOk (Answer m vm)) \<longleftrightarrow> response_ok req m \<and> vm_frames vm = fs \<and> vm_heap vm = h"
  "serves I req gen fs h (VOk (Suspended_for vm)) \<longleftrightarrow> suspends I req gen fs (vm_frames vm) \<and> vm_heap vm = h"
  "serves I req gen fs h (VFail e)" "serves I req gen fs h (VPanic p) \<longleftrightarrow> benign p"
  by (simp_all add: serves_def)

lemma serves_vbind: "safe r \<Longrightarrow> (\<And>a. r = VOk a \<Longrightarrow> serves I req gen fs h (k a)) \<Longrightarrow> serves I req gen fs h (vbind r k)"
  by (cases r) auto

lemma serves_with_span: "serves I req gen fs h r \<Longrightarrow> serves I req gen fs h (with_span r (VOk sp) vm)"
  by (cases r) (auto simp: with_span_def serves_def split: served.splits)

lemma fresh_force_frame: "fresh_generator I (snd (force_acts v sp)) (GenNative (fst (force_acts v sp)))"
  by (cases v) (simp_all add: force_acts_def)

lemma enqueue_force_frames:
  "\<exists>f. vm_frames (enqueue_force v sp vm) = f # vm_frames vm \<and> fresh_frame I f" "vm_heap (enqueue_force v sp vm) = vm_heap vm"
  by (simp_all add: enqueue_force_def fresh_force_frame)

lemma suspends_any:
  "gives_any_value req \<Longrightarrow> on_top I (GeneratorFrame name sp AwaitingValue gen # fs) fs' \<Longrightarrow> suspends I req gen fs fs'"
  by (auto simp: suspends_def Let_def)

lemma suspends_one:
  "gives_any_value req \<Longrightarrow> fresh_frame I f \<Longrightarrow> suspends I req gen fs (f # GeneratorFrame name sp AwaitingValue gen # fs)"
  by (rule suspends_any [OF _ on_top_frame [OF on_top_refl]])

lemma suspends_coerce:
  "suspends I (StringCoerce v kind) gen fs
     (GeneratorFrame name' sp' (Deliver IStart) (GenNative [ACoerce L]) # GeneratorFrame name sp AwaitingValue gen # fs)"
  by (auto simp: suspends_def Let_def coerce_frame_def)

lemma suspends_force:
  assumes "gives_any_value req" "vm_frames vm = fs"
  shows "suspends I req gen fs (vm_frames (enqueue_force v sp (reenqueue_generator name sp' gen vm)))"
proof -
  obtain f where "vm_frames (enqueue_force v sp (reenqueue_generator name sp' gen vm)) = f # GeneratorFrame name sp' AwaitingValue gen # fs"
    "fresh_frame I f"
    using enqueue_force_frames(1) [of v sp "reenqueue_generator name sp' gen vm"] assms(2) by (auto simp: reenqueue_generator_def)
  then show ?thesis using assms(1) by (simp add: suspends_one)
qed

lemma reenqueue_fields [simp]:
  "vm_frames (reenqueue_generator name sp gen vm) = GeneratorFrame name sp AwaitingValue gen # vm_frames vm"
  "vm_heap (reenqueue_generator name sp gen vm) = vm_heap vm"
  by (simp_all add: reenqueue_generator_def)

lemma serve_serves: "serves (builtin_start E) req gen (vm_frames vm) (vm_heap vm) (serve E name span gen req vm)"
proof (cases req)
  case (Call callable)
  let ?vm = "reenqueue_generator name span gen vm"
  have "calls (builtin_start E) (vm_frames ?vm) (vm_heap vm) (call_value E span None callable ?vm)"
    by (rule call_value_calls) simp_all
  then have "serves (builtin_start E) req gen (vm_frames vm) (vm_heap vm) (vbind (call_value E span None callable ?vm) (\<lambda>vm. VOk (Suspended_for vm)))"
    unfolding Call by (cases "call_value E span None callable ?vm") (auto intro: suspends_any)
  then show ?thesis unfolding Call by (simp add: Let_def serves_with_span)
qed (auto simp: suspends_force enqueue_force_frames enqueue_generator_def coerce_start_def stack_pop_def with_span_def answer_io_def
    split: option.splits sum.splits prod.splits intro!: serves_vbind suspends_one suspends_coerce)

section \<open>The protocol between frames\<close>

fun expects :: "('sp, 'f, 'b) frame \<Rightarrow> ('sp, 'f) val \<Rightarrow> bool" where
  "expects (GeneratorFrame _ _ AwaitingValue (GenNative k)) v = accepts_list (\<lambda>_. True) k (IResp (RespValue v))"
| "expects _ v = True"

fun expected :: "('sp, 'f, 'b) frame list \<Rightarrow> ('sp, 'f) val \<Rightarrow> bool" where
  "expected [] v = True"
| "expected (f # fs) v = expects f v"

fun frame_ok :: "(('sp, 'f) val \<Rightarrow> bool) \<Rightarrow> ('sp, 'f, 'b) frame \<Rightarrow> bool" where
  "frame_ok P (GeneratorFrame _ _ (Deliver i) (GenNative k)) = (wf_acts P k \<and> accepts_list P k i)"
| "frame_ok P (GeneratorFrame _ _ AwaitingValue (GenNative k)) = wf_acts P k"
| "frame_ok P _ = (\<forall>v. P v)"

fun frames_ok :: "('sp, 'f, 'b) frame list \<Rightarrow> bool" where
  "frames_ok [] = True"
| "frames_ok (f # fs) = (frame_ok (expected fs) f \<and> frames_ok fs)"

definition protocol :: "('sp, 'f, 'b, 'w) vm \<Rightarrow> bool" where
  "protocol vm \<longleftrightarrow> frames_ok (vm_frames vm) \<and> (vm_stack vm \<noteq> [] \<longrightarrow> expected (vm_frames vm) (last (vm_stack vm)))"

lemma fresh_frame_ok: "fresh_frame I f \<Longrightarrow> (\<And>v. P v) \<Longrightarrow> frame_ok P f \<and> expects f w"
proof (induction P f rule: frame_ok.induct)
  case (1 P name sp i k)
  then show ?case
    by (auto simp: fresh_generator_def input_cases elim: starts.elims split: list.splits)
qed auto

lemma on_top_ok: "on_top I fs fs' \<Longrightarrow> frames_ok fs \<Longrightarrow> (\<And>v. expected fs v) \<Longrightarrow> frames_ok fs' \<and> (\<forall>v. expected fs' v)"
  by (induction rule: on_top.induct) (auto simp: fresh_frame_ok)

lemma accepts_response: "accepts_list P k (IResp m) \<longleftrightarrow> accepts_list Q k (IResp m)"
  by (cases k) (simp_all add: is_return_def)

lemma suspends_ok:
  assumes "suspends I req (GenNative k) fs fs'" "frames_ok fs" "wf_acts (expected fs) k"
    "\<And>m. response_ok req m \<Longrightarrow> accepts_list (expected fs) k (IResp m)"
  shows "frames_ok fs' \<and> (\<forall>v. expected fs' v)"
proof -
  obtain name sp where s: "if gives_any_value req then on_top I (GeneratorFrame name sp AwaitingValue (GenNative k) # fs) fs'
     else \<exists>f. fs' = f # GeneratorFrame name sp AwaitingValue (GenNative k) # fs \<and> coerce_frame f \<and> (\<exists>v kind. req = StringCoerce v kind)"
    using assms(1) unfolding suspends_def Let_def by blast
  let ?w = "GeneratorFrame name sp AwaitingValue (GenNative k)"
  have w: "frames_ok (?w # fs)" using assms(2, 3) by simp
  show ?thesis
  proof (cases "gives_any_value req")
    case True
    then have any: "expects ?w v" for v
      using assms(4) [of "RespValue v"] accepts_response [of "expected fs" k _ "\<lambda>_. True"] by (simp add: gives_any_value_response)
    from True s have "on_top I (?w # fs) fs'" by simp
    from on_top_ok [OF this w] any show ?thesis by simp
  next
    case False
    with s obtain f v kind where f: "fs' = f # ?w # fs" "coerce_frame f" "req = StringCoerce v kind" by auto
    then have "expects ?w v" if "stringy v" for v
      using assms(4) [of "RespValue v"] accepts_response [of "expected fs" k _ "\<lambda>_. True"] that by simp
    then show ?thesis using f w by (auto simp: coerce_frame_def)
  qed
qed

lemma suspends_builtin_ok:
  assumes "suspends I req (GenBuiltin b) fs fs'" "frames_ok fs" "\<And>v. expected fs v"
  shows "frames_ok fs' \<and> (\<forall>v. expected fs' v)"
proof -
  obtain name sp where s: "if gives_any_value req then on_top I (GeneratorFrame name sp AwaitingValue (GenBuiltin b) # fs) fs'
     else \<exists>f. fs' = f # GeneratorFrame name sp AwaitingValue (GenBuiltin b) # fs \<and> coerce_frame f \<and> (\<exists>v kind. req = StringCoerce v kind)"
    using assms(1) unfolding suspends_def Let_def by blast
  have w: "frames_ok (GeneratorFrame name sp AwaitingValue (GenBuiltin b) # fs)" using assms(2, 3) by auto
  show ?thesis
  proof (cases "gives_any_value req")
    case True
    with s have "on_top I (GeneratorFrame name sp AwaitingValue (GenBuiltin b) # fs) fs'" by simp
    from on_top_ok [OF this w] show ?thesis by simp
  next
    case False
    with s w show ?thesis by (auto simp: coerce_frame_def)
  qed
qed


lemma protocolI: "frames_ok (vm_frames vm) \<Longrightarrow> (\<And>v. expected (vm_frames vm) v) \<Longrightarrow> protocol vm"
  by (simp add: protocol_def)

text \<open>A result that panics only where the protocol is not to blame, and otherwise satisfies a predicate.\<close>

definition vres_ok :: "('a \<Rightarrow> bool) \<Rightarrow> ('e, 'a) vres \<Rightarrow> bool" where
  "vres_ok Q r = (case r of VOk a \<Rightarrow> Q a | VFail e \<Rightarrow> True | VPanic p \<Rightarrow> benign p)"

lemma vres_ok_simps [simp]: "vres_ok Q (VOk a) = Q a" "vres_ok Q (VFail e)" "vres_ok Q (VPanic p) = benign p"
  by (simp_all add: vres_ok_def)

lemma vres_ok_vbind: "vres_ok Q r \<Longrightarrow> (\<And>a. Q a \<Longrightarrow> vres_ok R (f a)) \<Longrightarrow> vres_ok R (vbind r f)"
  by (cases r) auto

lemma vres_ok_with_span [intro]: "vres_ok Q r \<Longrightarrow> safe s \<Longrightarrow> vres_ok Q (with_span r s vm)"
  by (cases r; cases s) (simp_all add: with_span_def)

lemma served_ok:
  assumes s: "serves I req (GenNative k) (vm_frames vm) (vm_heap vm) r" and fs: "frames_ok (vm_frames vm)"
    and k: "wf_acts (expected (vm_frames vm)) k" "\<And>m. response_ok req m \<Longrightarrow> accepts_list (expected (vm_frames vm)) k (IResp m)"
  shows "vres_ok (\<lambda>a. protocol (served_vm name sp (GenNative k) a)) r"
proof (cases r)
  case (VOk a)
  then show ?thesis using s fs k suspends_ok [of I req k "vm_frames vm"]
    by (cases a) (auto simp: served_vm_def resume_later_def intro!: protocolI)
qed (use s in auto)

lemma served_builtin_ok:
  assumes s: "serves I req (GenBuiltin b) (vm_frames vm) h r" and fs: "frames_ok (vm_frames vm)" "\<And>v. expected (vm_frames vm) v"
  shows "vres_ok (\<lambda>a. protocol (served_vm name sp (GenBuiltin b) a)) r"
proof (cases r)
  case (VOk a)
  then show ?thesis using s fs suspends_builtin_ok [of I req b "vm_frames vm"]
    by (cases a) (auto simp: served_vm_def resume_later_def intro!: protocolI)
qed (use s in auto)

lemma generator_step_ok:
  assumes "frames_ok (GeneratorFrame name sp (Deliver i) gen # vm_frames vm)"
  shows "vres_ok protocol (generator_step E name sp i gen vm)"
proof (cases gen)
  case (GenNative k)
  let ?P = "expected (vm_frames vm)"
  have fs: "frames_ok (vm_frames vm)" and k: "wf_acts ?P k" "accepts_list ?P k i" using assms GenNative by simp_all
  have ok: "gen_ok ?P (act_step E k i (vm_heap vm))" by (rule act_step_ok [OF k])
  show ?thesis
  proof (cases "act_step E k i (vm_heap vm)")
    case (GYield req k' h')
    let ?vm = "vm\<lparr>vm_heap := h'\<rparr>"
    have "vres_ok (\<lambda>a. protocol (served_vm name sp (GenNative k') a)) (serve E name sp (GenNative k') req ?vm)"
      using serve_serves [of E req "GenNative k'" ?vm name sp] ok GYield fs by (intro served_ok [where vm = ?vm]) auto
    then show ?thesis using GYield unfolding GenNative by (auto intro!: vres_ok_vbind)
  next
    case (GNext k' i' h')
    then show ?thesis using ok fs unfolding GenNative by (auto simp: resume_later_def intro!: protocolI)
  next
    case (GDone v h')
    then show ?thesis using ok fs unfolding GenNative by (auto simp: protocol_def push_def)
  qed (use ok in \<open>auto simp: GenNative\<close>)
next
  case (GenBuiltin b)
  have fs: "frames_ok (vm_frames vm)" "\<And>v. expected (vm_frames vm) v" using assms GenBuiltin by simp_all
  obtain st h' w' where r: "ve_resume E b (start_message i) (vm_heap vm) (vm_world vm) = (st, h', w')" by (metis prod_cases3)
  show ?thesis
  proof (cases st)
    case (Yielded req b')
    let ?vm = "vm\<lparr>vm_heap := h', vm_world := w'\<rparr>"
    have "vres_ok (\<lambda>a. protocol (served_vm name sp (GenBuiltin b') a)) (serve E name sp (GenBuiltin b') req ?vm)"
      using serve_serves [of E req "GenBuiltin b'" ?vm name sp] fs by (intro served_builtin_ok [where vm = ?vm]) auto
    then show ?thesis using r Yielded unfolding GenBuiltin by (auto intro!: vres_ok_vbind)
  next
    case (Complete c)
    then show ?thesis using r fs unfolding GenBuiltin by (cases c) (auto intro!: protocolI)
  qed
qed

lemma bytecode_step_ok:
  assumes "frames_ok (BytecodeFrame f sp # vm_frames vm)"
  shows "vres_ok protocol (bytecode_step E f sp vm)"
proof (cases "fetch_instr (ve_decode E) (vl_code (bf_lambda f)) (bf_ip f)")
  case None
  then show ?thesis by (simp add: bytecode_step_def)
next
  case (Some a)
  obtain i ip where a: "a = (i, ip)" by (cases a)
  have fs: "frames_ok (vm_frames vm)" "\<And>v. expected (vm_frames vm) v" using assms by auto
  let ?r = "exec_instr E sp (f\<lparr>bf_ip := ip\<rparr>) i vm"
  have e: "effect (builtin_start E) (vm_frames vm) (vm_heap vm) ?r" by (rule exec_instr_effect)
  have "vres_ok (\<lambda>r. case r of Continue f' vm' \<Rightarrow> protocol (push_frame (BytecodeFrame f' sp) vm') | Leave vm' \<Rightarrow> protocol vm') ?r"
  proof (cases ?r)
    case (VOk r)
    then show ?thesis using e fs on_top_ok [of _ "vm_frames vm"] by (cases r) (auto intro!: protocolI)
  qed (use e in auto)
  then show ?thesis using Some a
    by (auto simp: bytecode_step_def Let_def intro!: vres_ok_vbind [OF vres_ok_with_span] split: outcome.splits)
qed

lemma vm_step_ok:
  assumes "protocol vm"
  shows "vres_ok (\<lambda>r. case r of Inl _ \<Rightarrow> True | Inr vm' \<Rightarrow> protocol vm') (vm_step E vm)"
proof (cases "vm_frames vm")
  case Nil
  then show ?thesis by (auto simp: vm_step_def stack_pop_def)
next
  case (Cons f fs)
  have ok: "frames_ok (f # fs)" and top: "vm_stack vm \<noteq> [] \<Longrightarrow> expects f (last (vm_stack vm))"
    using assms Cons by (simp_all add: protocol_def)
  let ?vm = "vm\<lparr>vm_frames := fs, vm_reasonable_span := frame_span f\<rparr>"
  show ?thesis
  proof (cases f)
    case (BytecodeFrame bf sp)
    then have "vres_ok protocol (bytecode_step E bf sp ?vm)" using ok by (intro bytecode_step_ok) auto
    then show ?thesis using Cons BytecodeFrame by (auto simp: vm_step_def Let_def intro: vres_ok_vbind)
  next
    case (GeneratorFrame name sp st gen)
    show ?thesis
    proof (cases st)
      case (Deliver i)
      then show ?thesis using ok generator_step_ok [of name sp i gen ?vm E] Cons GeneratorFrame
        by (auto simp: vm_step_def Let_def intro: vres_ok_vbind)
    next
      case AwaitingValue
      show ?thesis
      proof (cases "vm_stack vm = []")
        case True
        then show ?thesis using Cons GeneratorFrame AwaitingValue by (simp add: vm_step_def Let_def stack_pop_def)
      next
        case False
        let ?v = "last (vm_stack vm)" and ?vm' = "?vm\<lparr>vm_stack := butlast (vm_stack vm)\<rparr>"
        have "frames_ok (GeneratorFrame name sp (Deliver (IResp (RespValue ?v))) gen # vm_frames ?vm')"
          using ok top [OF False] GeneratorFrame AwaitingValue accepts_response [of "\<lambda>_. True" _ "RespValue ?v" "expected fs"]
          by (cases gen) auto
        from generator_step_ok [OF this, of E] show ?thesis using Cons GeneratorFrame AwaitingValue False
          by (auto simp: vm_step_def Let_def stack_pop_def intro: vres_ok_vbind)
      qed
    qed
  qed
qed

section \<open>Reachable machines\<close>

inductive reach :: "('sp, 'f, 'x, 'b, 'w) vm_env \<Rightarrow> ('sp, 'f, 'b, 'w) vm \<Rightarrow> ('sp, 'f, 'b, 'w) vm \<Rightarrow> bool" for E vm where
  reach_start: "reach E vm vm"
| reach_step: "reach E vm vm' \<Longrightarrow> vm_step E vm' = VOk (Inr vm'') \<Longrightarrow> reach E vm vm''"

lemma start_protocol: "run_lambda_start w h p lambda mode = VOk vm \<Longrightarrow> protocol vm"
  by (cases mode)
    (auto simp: run_lambda_start_def Let_def vbind_VOk vm_new_def enqueue_generator_def protocol_def push_frame_def input_cases
      split: if_splits)

text \<open>A property of machines that steps keep holds in every machine that is reached from one that has it.\<close>

locale step_invariant =
  fixes E :: "('sp, 'f, 'x, 'b, 'w) vm_env" and inv :: "('sp, 'f, 'b, 'w) vm \<Rightarrow> bool"
  assumes step: "inv vm \<Longrightarrow> vm_step E vm = VOk (Inr vm') \<Longrightarrow> inv vm'"
begin

lemma reachable: "reach E vm vm' \<Longrightarrow> inv vm \<Longrightarrow> inv vm'"
  by (induction rule: reach.induct) (auto intro: step)

end

interpretation protocol_inv: step_invariant E protocol for E
proof
  show "protocol vm \<Longrightarrow> vm_step E vm = VOk (Inr vm') \<Longrightarrow> protocol vm'" for vm vm'
    using vm_step_ok [of vm E] by simp
qed

text \<open>
  C5: In no machine that an evaluation can reach, whatever the bytecode, the builtins and the values, does a generator receive
  a message of another kind than the one it waits for, does an unforced thunk reach the code of deep forcing, coercion or equality that
  takes forced values, or is the answer to a coercion anything but a string or a catchable error.
\<close>

theorem generators_never_misled:
  assumes "run_lambda_start w h p lambda mode = VOk vm0" "reach E vm0 vm"
  shows "vm_step E vm \<notin> {VPanic BadMessage, VPanic UnforcedThunk, VPanic NotAString}"
  using vm_step_ok [OF protocol_inv.reachable [OF assms(2) start_protocol [OF assms(1)]], of E] by (auto simp: benign_def)


section \<open>An evaluation\<close>

text \<open>The machine after a number of steps.\<close>

fun machine_after :: "('sp, 'f, 'x, 'b, 'w) vm_env \<Rightarrow> nat \<Rightarrow> ('sp, 'f, 'b, 'w) vm \<Rightarrow> ('sp, 'f, 'b, 'w) vm option" where
  "machine_after E 0 vm = Some vm"
| "machine_after E (Suc n) vm = (case vm_step E vm of VOk (Inr vm') \<Rightarrow> machine_after E n vm' | _ \<Rightarrow> None)"

lemma reach_trans: "reach E vm' vm'' \<Longrightarrow> reach E vm vm' \<Longrightarrow> reach E vm vm''"
  by (induction rule: reach.induct) (auto intro: reach.intros)

lemma reach_after: "machine_after E n vm = Some vm' \<Longrightarrow> reach E vm vm'"
  by (induction n arbitrary: vm) (auto split: vres.splits sum.splits intro: reach_start reach_trans [OF _ reach_step [OF reach_start]])

definition example_env :: "(nat, unit, unit, unit, unit) vm_env" where
  "example_env =
     \<lparr>ve_decode = (\<lambda>bytes. (ucast (hd bytes), 1)), ve_checked = True,
      ve_float = \<lparr>fl_op = (\<lambda>_ _ _. ()), fl_neg = (\<lambda>_. ()), fl_of_int = (\<lambda>_. ()), fl_is_zero = (\<lambda>_. False), fl_eq = (\<lambda>_ _. True),
        fl_total_cmp = (\<lambda>_ _. 0)\<rparr>,
      ve_fmt_int = (\<lambda>_. []), ve_fmt_float = (\<lambda>_. []), ve_canon = (\<lambda>p. p), ve_lossy = (\<lambda>s. s), ve_find_file = (\<lambda>_ _. Inl (EnvError ())),
      ve_get_env = (\<lambda>_ _. None), ve_join = (\<lambda>a b. a @ b), ve_canonicalize = (\<lambda>_ p. Some p), ve_import_path = (\<lambda>w _. (Inl (), w)),
      ve_open = (\<lambda>_ _. Inl ()), ve_path_exists = (\<lambda>_ _. Inr False), ve_read_dir = (\<lambda>_ _. Inl ()), ve_file_type = (\<lambda>_ _. Inl ()), ve_native = (\<lambda>_. Inr VNull), ve_sole = (\<lambda>_ _. False), ve_unshared = (\<lambda>_ _. True),
      ve_builtin = (\<lambda>_ _. ()), ve_resume = (\<lambda>_ _ h w. (Complete (Inr VNull), h, w))\<rparr>"

text \<open>A lambda that forces the first thunk of the heap, and a heap in which that thunk is the lambda itself.\<close>

definition example_lambda :: "(nat, unit) vlambda" where
  "example_lambda = VLam [op_u8 OpConstant, 0, op_u8 OpForce, op_u8 OpReturn] [VThunk 0] [(1, 0)] 3 None 0 None []"

definition example_start :: "(nat, unit, unit, unit) vm" where
  "example_start =
     (case run_lambda_start () [Suspended example_lambda [] [] 7] 0 example_lambda Lazy :: (unit, _) vres of VOk vm \<Rightarrow> vm | _ \<Rightarrow> vm_new 0 () [] 0)"

lemma example_start_ok: "run_lambda_start () [Suspended example_lambda [] [] 7] 0 example_lambda Lazy = VOk example_start"
  by (simp add: example_start_def run_lambda_start_def example_lambda_def get_span_def binary_search_def vl_chunk_def)

lemmas machine_simps = vm_step_def bytecode_step_def fetch_instr_def frame_inc_ip_def frame_read_uvarint_def read_uvarint_def
  U64_VARINT_SIZE_def exec_instr_def frame_constant_def get_constant_def push_value_def push_def push_frame_def with_span_def
  suspend_def current_span_def get_span_def binary_search_def vl_chunk_def enqueue_generator_def drop_top_def step_force_def heap_get_def
  resume_later_def served_vm_def reenqueue_generator_def Let_def first_span_def

lemma example_loop:
  "\<exists>vm f g. machine_after example_env 5 example_start = Some vm \<and>
     vm_frames vm = [GeneratorFrame ''force'' 1 (Deliver IStart) (GenNative [AForce 0 [] 1]), BytecodeFrame f 7,
       GeneratorFrame ''force'' 7 AwaitingValue (GenNative [AForceEntered 0 [] 1]), BytecodeFrame g 1]"
  by (simp add: example_start_def run_lambda_start_def example_lambda_def example_env_def machine_simps vm_new_def eval_nat_numeral op_arg_type_def)


theorem generators_never_misled_witness:
  "\<exists>vm. machine_after example_env 5 example_start = Some vm \<and>
     vm_step example_env vm \<notin> {VPanic BadMessage, VPanic UnforcedThunk, VPanic NotAString}"
  using example_loop generators_never_misled [OF example_start_ok reach_after] by blast

end
