(* ===== verification/VmThunks.thy ===== *)
theory VmThunks
  imports VmSafety "HOL-Library.Multiset"
begin

text \<open>
  Call by need. The thunks whose evaluation is under way are blackholes, each of them held by exactly one activation, and a thunk
  that has been forced keeps its value in every later machine.

  Builtins are a parameter of the machine, and they force thunks as well: \<open>coerce_to_string\<close>, \<open>nix_cmp_ordering\<close> and \<open>force\<close> run in the
  coroutine of the builtin that calls them. What is asked of a builtin is therefore the discipline of \<open>Thunk::force_\<close>, stated cell by
  cell (\<open>by_need\<close>), with a function that names the thunks which a suspended builtin is forcing. That native generators keep it is proved
  (\<open>act_step_moves\<close>), and so is that the builtins \<open>toString\<close> and \<open>lessThan\<close>, which run them in their own coroutine, do.
\<close>

section \<open>Thunks under evaluation\<close>

fun pending :: "('sp, 'f) act \<Rightarrow> nat list" where
  "pending (AForce _ also_update _) = also_update"
| "pending (AForceEntered myself also_update _) = myself # also_update"
| "pending _ = []"

definition acts_pending :: "('sp, 'f) act list \<Rightarrow> nat list" where
  "acts_pending k = concat (map pending k)"

definition gen_pending :: "('b \<Rightarrow> nat list) \<Rightarrow> ('sp, 'f, 'b) generator \<Rightarrow> nat list" where
  "gen_pending own gen = (case gen of GenNative k \<Rightarrow> acts_pending k | GenBuiltin b \<Rightarrow> own b)"

fun frame_pending :: "('b \<Rightarrow> nat list) \<Rightarrow> ('sp, 'f, 'b) frame \<Rightarrow> nat list" where
  "frame_pending own (GeneratorFrame _ _ _ gen) = gen_pending own gen"
| "frame_pending own (BytecodeFrame _ _) = []"

text \<open>The thunks that some frame of the stack is forcing, those of native generators and those of builtins.\<close>

definition under_evaluation :: "('b \<Rightarrow> nat list) \<Rightarrow> ('sp, 'f, 'b) frame list \<Rightarrow> nat list" where
  "under_evaluation own fs = concat (map (frame_pending own) fs)"

lemma pending_simps [simp]:
  "acts_pending [] = []" "acts_pending (a # k) = pending a @ acts_pending k"
  "under_evaluation own [] = []" "under_evaluation own (f # fs) = frame_pending own f @ under_evaluation own fs"
  "gen_pending own (GenNative k) = acts_pending k" "gen_pending own (GenBuiltin b) = own b"
  by (simp_all add: acts_pending_def under_evaluation_def gen_pending_def)

definition is_blackhole :: "('sp, 'f) thunk_repr \<Rightarrow> bool" where
  "is_blackhole r = (case r of Blackhole _ _ _ \<Rightarrow> True | _ \<Rightarrow> False)"

lemma is_blackhole_simps [simp]:
  "is_blackhole (Blackhole a b c)" "\<not> is_blackhole (Suspended l us ws sp)" "\<not> is_blackhole (Native n)" "\<not> is_blackhole (Evaluated v)"
  by (simp_all add: is_blackhole_def)

definition held :: "('sp, 'f) heap \<Rightarrow> nat list \<Rightarrow> bool" where
  "held h as \<longleftrightarrow> distinct as \<and> (\<forall>a \<in> set as. a < length h \<and> is_blackhole (h ! a))"

definition kept :: "('sp, 'f) heap \<Rightarrow> ('sp, 'f) heap \<Rightarrow> bool" where
  "kept h h' \<longleftrightarrow> length h \<le> length h' \<and> (\<forall>a < length h. is_forced (h ! a) \<longrightarrow> finalised (h ! a) (h' ! a))"

lemma finalised_keeps_blackhole: "finalised r r' \<Longrightarrow> is_blackhole r \<Longrightarrow> is_blackhole r'"
  by (cases rule: finalised.cases) auto

lemma held_grows: "held h as \<Longrightarrow> grows h h' \<Longrightarrow> held h' as"
  by (auto simp: held_def grows_def dest: finalised_keeps_blackhole)

lemma kept_grows: "grows h h' \<Longrightarrow> kept h h'"
  by (auto simp: kept_def grows_def)

lemma kept_refl [simp]: "kept h h"
  by (simp add: kept_grows)

lemma filled_trans: "list_all2 filled us us' \<Longrightarrow> list_all2 filled us' us'' \<Longrightarrow> list_all2 filled us us''"
  by (rule list_all2_trans [of filled filled filled]) (auto simp: filled_def)

lemma finalised_trans: "finalised r r' \<Longrightarrow> finalised r' r'' \<Longrightarrow> finalised r r''"
  by (induction rule: finalised.induct) (auto elim!: finalised.cases intro: finalised.intros filled_trans)

lemma finalised_forced: "is_forced r \<Longrightarrow> finalised r r' \<Longrightarrow> is_forced r'"
  by (cases rule: finalised.cases) auto

lemma kept_trans: "kept h h' \<Longrightarrow> kept h' h'' \<Longrightarrow> kept h h''"
  unfolding kept_def by (meson finalised_forced finalised_trans le_trans order_less_le_trans)

lemma kept_update: "a < length h \<Longrightarrow> \<not> is_forced (h ! a) \<Longrightarrow> kept h (h[a := r])"
  by (auto simp: kept_def nth_list_update finalised_same)

section \<open>Steps of a generator\<close>

text \<open>Every activation but those that force leaves the heap and the thunks under evaluation alone.\<close>

definition quiet :: "('sp, 'f) act list \<Rightarrow> ('sp, 'f) heap \<Rightarrow> ('sp, 'f, 'x) gen_result \<Rightarrow> bool" where
  "quiet k h r =
     (case r of
        GNext k' i h' \<Rightarrow> h' = h \<and> acts_pending k' = acts_pending k
      | GYield req k' h' \<Rightarrow> h' = h \<and> acts_pending k' = acts_pending k
      | GDone v h' \<Rightarrow> h' = h \<and> acts_pending k = []
      | _ \<Rightarrow> True)"

lemma quiet_simps [simp]:
  "quiet k h (GNext k' i h') \<longleftrightarrow> h' = h \<and> acts_pending k' = acts_pending k"
  "quiet k h (GYield req k' h') \<longleftrightarrow> h' = h \<and> acts_pending k' = acts_pending k"
  "quiet k h (GDone v h') \<longleftrightarrow> h' = h \<and> acts_pending k = []" "quiet k h (GFail e h')" "quiet k h (GPanic p)"
  by (simp_all add: quiet_def)

lemma quiet_gbind: "(\<And>a. r = VOk a \<Longrightarrow> quiet k h (f a)) \<Longrightarrow> quiet k h (gbind r h' f)"
  by (cases r) auto

lemma quiet_moves [simp]:
  "quiet k h (g_return v k' h') \<longleftrightarrow> h' = h \<and> acts_pending k' = acts_pending k"
  "quiet k h (g_loop a k' h') \<longleftrightarrow> h' = h \<and> pending a @ acts_pending k' = acts_pending k"
  "quiet k h (g_ordering r k' h') \<longleftrightarrow> h' = h \<and> acts_pending k' = acts_pending k"
  by (simp_all add: g_return_def g_loop_def g_ordering_def)

lemma quiet_forces [simp]:
  "quiet k h (value_force v sp k' h') \<longleftrightarrow> h' = h \<and> acts_pending k' = acts_pending k"
  "quiet k h (request_force v k' h') \<longleftrightarrow> h' = h \<and> acts_pending k' = acts_pending k"
  "quiet k h (request_string_coerce v kind k' h') \<longleftrightarrow> h' = h \<and> acts_pending k' = acts_pending k"
  by (cases v; auto simp: value_force_def request_force_def request_string_coerce_def)+

lemma quiet_on [intro]:
  "(\<And>v. quiet k h (f v)) \<Longrightarrow> quiet k h (on_value i f)" "(\<And>v. quiet k h (f v)) \<Longrightarrow> quiet k h (on_return i f)"
  "quiet k h r \<Longrightarrow> quiet k h (on_empty i r)" "(\<And>a. quiet k h (g a)) \<Longrightarrow> quiet k h (on_answer h'' v g)"
  by (auto simp: on_value_def on_return_def on_empty_def on_answer_def split: input.splits vm_response.splits ret.splits option.splits)

lemma quiet_eq_values: "acts_pending k' = acts_pending k \<Longrightarrow> quiet k h (eq_values E a b p vals sp k' h)"
  by (cases a; cases b) (simp_all add: eq_values_def eq_entries_def Let_def split: option.splits)

lemma quiet_cmp_values: "acts_pending k' = acts_pending k \<Longrightarrow> quiet k h (cmp_values E a b vals sp k' h)"
  by (cases a; cases b) (simp_all add: cmp_values_def Let_def)

lemma quiet_steps:
  assumes "acts_pending k' = acts_pending k"
  shows "quiet k h (step_eq vals sp k' h)" "quiet k h (eq_types s1 s2 a1 a2 p vals sp k' h)"
    "quiet k h (eq_out_paths o1 o2 vals sp k' h)" "quiet k h (deep_force_value v self vs ts sp k' h)"
    "quiet k h (step_deep_force self vs ts sp k' h)" "quiet k h (coerce_value E v L k' h)" "quiet k h (step_coerce L k' h)"
    "quiet k h (step_cmp E vals sp k' h)" "quiet k h (step_add_values E a b k' h)" "quiet k h (resolve_in w ident n m k' h)"
    "quiet k h (step_resolve_with ident n m k' h)"
proof -
  show d: "quiet k h (deep_force_value v self vs ts sp k' h)" for v self vs ts sp
    using assms by (cases v) (simp_all add: deep_force_value_def)
  show "quiet k h (step_deep_force self vs ts sp k' h)"
    using assms d by (auto simp: step_deep_force_def split: list.splits val.splits)
  show "quiet k h (coerce_value E v L k' h)"
    using assms by (cases v) (auto simp: coerce_value_def Let_def split: option.splits)
  show "quiet k h (step_cmp E vals sp k' h)"
    using assms by (cases vals) (auto simp: step_cmp_def intro!: quiet_cmp_values)
  show "quiet k h (step_add_values E a b k' h)"
    using assms by (cases a; cases b) (auto simp: step_add_values_def intro!: quiet_gbind)
qed (use assms in \<open>auto simp: step_eq_def eq_types_def eq_entries_def eq_out_paths_def step_coerce_def resolve_in_def
      step_resolve_with_def split: list.splits val.splits option.splits intro!: quiet_gbind\<close>)

fun forces :: "('sp, 'f) act list \<Rightarrow> bool" where
  "forces (AForce _ _ _ # k) = True"
| "forces (AForceEntered _ _ _ # k) = True"
| "forces _ = False"

lemma act_step_quiet:
  assumes "\<not> forces k"
  shows "quiet k h (act_step E k i h)"
proof (cases k)
  case (Cons a k')
  show ?thesis using assms unfolding Cons
    by (cases a) (auto intro!: quiet_on quiet_steps quiet_eq_values quiet_cmp_values quiet_gbind
        split: input.splits vm_response.splits ret.splits sum.splits option.splits)
qed auto


definition moves :: "nat list \<Rightarrow> ('sp, 'f) heap \<Rightarrow> ('sp, 'f, 'x) gen_result \<Rightarrow> bool" where
  "moves os h r =
     (case r of
        GNext k' i h' \<Rightarrow> held h' (acts_pending k' @ os) \<and> kept h h'
      | GYield req k' h' \<Rightarrow> held h' (acts_pending k' @ os) \<and> kept h h'
      | GDone v h' \<Rightarrow> held h' os \<and> kept h h'
      | _ \<Rightarrow> True)"

lemma moves_simps [simp]:
  "moves os h (GNext k' i h') \<longleftrightarrow> held h' (acts_pending k' @ os) \<and> kept h h'"
  "moves os h (GYield req k' h') \<longleftrightarrow> held h' (acts_pending k' @ os) \<and> kept h h'"
  "moves os h (GDone v h') \<longleftrightarrow> held h' os \<and> kept h h'" "moves os h (GFail e h')" "moves os h (GPanic p)"
  "moves os h (g_return v k h') \<longleftrightarrow> held h' (acts_pending k @ os) \<and> kept h h'"
  "moves os h (g_loop a k h') \<longleftrightarrow> held h' (pending a @ acts_pending k @ os) \<and> kept h h'"
  by (simp_all add: moves_def g_return_def g_loop_def)

lemma quiet_moves_held: "quiet k h r \<Longrightarrow> held h (acts_pending k @ os) \<Longrightarrow> moves os h r"
  by (cases r) auto

lemma moves_gbind: "(\<And>a. r = VOk a \<Longrightarrow> moves os h (f a)) \<Longrightarrow> moves os h (gbind r h' f)"
  by (cases r) auto

lemma held_update: "held h as \<Longrightarrow> a \<notin> set as \<Longrightarrow> held (h[a := r]) as"
  unfolding held_def by (metis length_list_update nth_list_update_neq)

lemma held_fresh: "held h as \<Longrightarrow> \<not> is_blackhole (h ! a) \<Longrightarrow> a \<notin> set as"
  by (auto simp: held_def)

lemma held_take: "held h as \<Longrightarrow> a < length h \<Longrightarrow> \<not> is_blackhole (h ! a) \<Longrightarrow> held (h[a := Blackhole x y z]) (a # as)"
  by (auto simp: held_def nth_list_update)

lemma held_perm: "held h as \<Longrightarrow> mset as = mset bs \<Longrightarrow> held h bs"
  unfolding held_def by (metis mset_eq_imp_distinct_iff mset_eq_setD)

lemma update_all_nth:
  "length (fold (\<lambda>x h. h[x := r]) us h) = length h \<and> (a \<notin> set us \<longrightarrow> fold (\<lambda>x h. h[x := r]) us h ! a = h ! a)"
  by (induction us arbitrary: h) auto

lemma not_forced_blackhole: "is_blackhole r \<Longrightarrow> \<not> is_forced r"
  by (cases r) auto

lemma held_release:
  assumes "held h (us @ os)"
  shows "held (fold (\<lambda>x h. h[x := r]) us h) os \<and> kept h (fold (\<lambda>x h. h[x := r]) us h)"
proof -
  let ?h = "fold (\<lambda>x h. h[x := r]) us h"
  have "a \<notin> set us" if "a \<in> set os" for a using assms that by (auto simp: held_def)
  moreover have "a \<notin> set us" if "is_forced (h ! a)" for a using assms that by (auto simp: held_def dest: not_forced_blackhole)
  moreover have "length ?h = length h" "\<And>a. a \<notin> set us \<Longrightarrow> ?h ! a = h ! a" using update_all_nth [of r us h] by auto
  ultimately show ?thesis using assms by (simp add: held_def kept_def finalised_same)
qed

lemma prepare_blackhole_blackhole: "prepare_blackhole sp r = Some b \<Longrightarrow> \<exists>x y z. b = Blackhole x y z"
  by (cases r) auto

lemma step_force_moves:
  assumes "held h (us @ acts_pending k @ os)"
  shows "moves os h (step_force E m us sp k h)"
proof (cases "heap_get h m")
  case (Some inner)
  then have m: "m < length h" "h ! m = inner" by (simp_all add: heap_get_Some)
  let ?rest = "acts_pending k @ os"
  show ?thesis
  proof (cases "is_forced inner")
    case True
    then show ?thesis using held_release [OF assms] Some by (cases inner) (auto simp: step_force_def)
  next
    case not_forced: False
    have k: "kept h (h[m := r])" for r using kept_update [OF m(1)] not_forced m(2) by simp
    show ?thesis
    proof (cases "is_blackhole inner")
      case True
      then show ?thesis using Some by (cases inner) (auto simp: step_force_def intro!: moves_gbind)
    next
      case False
      then have fresh: "m \<notin> set (us @ ?rest)" using held_fresh [OF assms] m(2) by blast
      have upd: "held (h[m := r]) (us @ ?rest)" for r by (rule held_update [OF assms fresh])
      have take: "held (h[m := Blackhole x y z]) (m # us @ ?rest)" for x y z
        using held_take [OF assms m(1)] False m(2) by simp
      then have take': "held (h[m := Blackhole x y z]) (us @ m # ?rest)" for x y z by (rule held_perm) simp
      show ?thesis using not_forced False upd take take' k Some
        by (auto simp: step_force_def Let_def split: thunk_repr.splits sum.splits val.splits intro!: moves_gbind
            dest!: prepare_blackhole_blackhole)
    qed
  qed
qed (simp add: step_force_def)

lemma act_step_moves:
  assumes "held h (acts_pending k @ os)"
  shows "moves os h (act_step E k i h)"
proof (cases "forces k")
  case False
  then show ?thesis using assms act_step_quiet quiet_moves_held by blast
next
  case True
  then show ?thesis
  proof (cases k rule: forces.cases)
    case (1 m us sp k')
    then show ?thesis using assms by (simp add: step_force_moves)
  next
    case (2 m us sp k')
    then have m: "m < length h" "is_blackhole (h ! m)" and rest: "held h (us @ acts_pending k' @ os)" "m \<notin> set (us @ acts_pending k' @ os)"
      using assms by (auto simp: held_def)
    show ?thesis unfolding 2 using held_update [OF rest] kept_update [OF m(1) not_forced_blackhole [OF m(2)]]
      by (auto simp: on_value_def split: input.splits vm_response.splits)
  qed (use True in auto)
qed


section \<open>Steps of the machine\<close>

text \<open>
  What a coroutine that holds the thunks \<open>own\<close> may do to the heap until it is suspended again, then holding \<open>own'\<close>: it allocates; a
  forced thunk keeps its value; the blackhole of another coroutine stays one and is not taken; and what it holds at the end are
  blackholes. This is how \<open>Thunk::force_\<close> treats thunks: it returns the value of a forced one, fails on a blackhole that it did not
  make itself, and overwrites only its own.
\<close>

definition by_need :: "nat list \<Rightarrow> ('sp, 'f) heap \<Rightarrow> nat list \<Rightarrow> ('sp, 'f) heap \<Rightarrow> bool" where
  "by_need own h own' h' \<longleftrightarrow>
     length h \<le> length h' \<and>
     (\<forall>a < length h. is_forced (h ! a) \<longrightarrow> finalised (h ! a) (h' ! a)) \<and>
     (\<forall>a < length h. is_blackhole (h ! a) \<longrightarrow> a \<notin> set own \<longrightarrow> is_blackhole (h' ! a) \<and> a \<notin> set own') \<and>
     held h' own'"

text \<open>
  The discipline for all builtins: a call starts without thunks under evaluation, and every resumption forces by need, unless it
  ends in an error, which ends the evaluation.
\<close>

definition resumed_by_need ::
  "('b \<Rightarrow> nat list) \<Rightarrow> nat list \<Rightarrow> ('sp, 'f) heap \<Rightarrow> ('sp, 'f, 'x, 'b) builtin_step \<times> ('sp, 'f) heap \<times> 'w \<Rightarrow> bool" where
  "resumed_by_need own before h r =
     (case r of
        (Yielded req b', h', w') \<Rightarrow> by_need before h (own b') h'
      | (Complete (Inr v), h', w') \<Rightarrow> by_need before h [] h'
      | (Complete (Inl e), h', w') \<Rightarrow> True)"

lemma resumed_by_need_simps [simp]:
  "resumed_by_need own before h (Yielded req b', h', w') = by_need before h (own b') h'"
  "resumed_by_need own before h (Complete (Inr v), h', w') = by_need before h [] h'"
  "resumed_by_need own before h (Complete (Inl e), h', w')"
  by (simp_all add: resumed_by_need_def)

definition builtins_force_by_need :: "('sp, 'f, 'x, 'b, 'w) vm_env \<Rightarrow> ('b \<Rightarrow> nat list) \<Rightarrow> bool" where
  "builtins_force_by_need E own \<longleftrightarrow>
     (\<forall>name args. own (ve_builtin E name args) = []) \<and>
     (\<forall>b m h w. held h (own b) \<longrightarrow> resumed_by_need own (own b) h (ve_resume E b m h w))"

lemma by_need_frame:
  assumes "by_need own h own' h'" "held h (own @ os)"
  shows "held h' (own' @ os) \<and> kept h h'"
proof -
  have o: "a < length h" "is_blackhole (h ! a)" "a \<notin> set own" if "a \<in> set os" for a
    using assms(2) that by (auto simp: held_def)
  have "is_blackhole (h' ! a)" "a \<notin> set own'" "a < length h'" if "a \<in> set os" for a
    using assms(1) o [OF that] by (auto simp: by_need_def)
  then show ?thesis using assms by (auto simp: by_need_def held_def kept_def)
qed

lemma frame_by_need:
  assumes "\<And>os. held h (own @ os) \<Longrightarrow> held h' (own' @ os) \<and> kept h h'" "held h own"
  shows "by_need own h own' h'"
proof -
  have k: "kept h h'" and own': "held h' own'" using assms(1) [of "[]"] assms(2) by simp_all
  have "is_blackhole (h' ! a) \<and> a \<notin> set own'" if "a < length h" "is_blackhole (h ! a)" "a \<notin> set own" for a
  proof -
    have "held h (own @ [a])" using assms(2) that by (auto simp: held_def)
    from assms(1) [OF this] show ?thesis by (auto simp: held_def)
  qed
  then show ?thesis using k own' by (auto simp: by_need_def kept_def)
qed

definition call_by_need :: "('b \<Rightarrow> nat list) \<Rightarrow> ('sp, 'f) heap \<Rightarrow> ('sp, 'f, 'b, 'w) vm \<Rightarrow> bool" where
  "call_by_need own h vm \<longleftrightarrow> held (vm_heap vm) (under_evaluation own (vm_frames vm)) \<and> kept h (vm_heap vm)"

lemma starts_pending: "starts a \<Longrightarrow> pending a = []"
  by (cases a) auto

lemma with_span_VOk [simp]: "with_span r s vm = VOk a \<longleftrightarrow> r = VOk a"
  by (cases r; cases s) (simp_all add: with_span_def)

lemma fresh_pending:
  "fresh_frame I f \<Longrightarrow> (\<And>b. I b \<Longrightarrow> own b = []) \<Longrightarrow> frame_pending own f = []"
  by (cases f)
    (auto simp: fresh_generator_def starts_pending gen_pending_def split: list.splits gen_state.splits generator.splits
      elim!: fresh_frame.elims)

lemma on_top_pending:
  "on_top I fs fs' \<Longrightarrow> (\<And>b. I b \<Longrightarrow> own b = []) \<Longrightarrow> under_evaluation own fs' = under_evaluation own fs"
  by (induction rule: on_top.induct) (auto simp: fresh_pending)

lemma builtin_start_pending: "builtins_force_by_need E own \<Longrightarrow> builtin_start E b \<Longrightarrow> own b = []"
  by (auto simp: builtins_force_by_need_def builtin_start_def)

lemma suspends_pending:
  "suspends I req gen fs fs' \<Longrightarrow> (\<And>b. I b \<Longrightarrow> own b = []) \<Longrightarrow>
   under_evaluation own fs' = gen_pending own gen @ under_evaluation own fs"
  by (auto simp: suspends_def Let_def coerce_frame_def dest!: on_top_pending [where own = own] split: if_splits)

lemma served_call_by_need:
  assumes "serves I req gen (vm_frames vm) (vm_heap vm) r" "r = VOk a" "\<And>b. I b \<Longrightarrow> own b = []"
    "held (vm_heap vm) (gen_pending own gen @ under_evaluation own (vm_frames vm))" "kept h (vm_heap vm)"
  shows "call_by_need own h (served_vm name sp gen a)"
proof (cases a)
  case (Suspended_for vm')
  then have "under_evaluation own (vm_frames vm') = gen_pending own gen @ under_evaluation own (vm_frames vm)"
    using assms(1-3) suspends_pending [of I req gen "vm_frames vm" "vm_frames vm'" own] by auto
  then show ?thesis using assms Suspended_for by (simp add: served_vm_def call_by_need_def)
qed (use assms in \<open>auto simp: served_vm_def resume_later_def call_by_need_def\<close>)

lemma generator_step_call_by_need:
  assumes "generator_step E name sp i gen vm = VOk vm'" "held (vm_heap vm) (gen_pending own gen @ under_evaluation own (vm_frames vm))"
    "builtins_force_by_need E own"
  shows "call_by_need own (vm_heap vm) vm'"
proof (cases gen)
  case (GenNative k)
  have m: "moves (under_evaluation own (vm_frames vm)) (vm_heap vm) (act_step E k i (vm_heap vm))"
    using assms(2) by (intro act_step_moves) (simp add: GenNative)
  show ?thesis
  proof (cases "act_step E k i (vm_heap vm)")
    case (GYield req k' h')
    let ?vm = "vm\<lparr>vm_heap := h'\<rparr>"
    obtain a where a: "serve E name sp (GenNative k') req ?vm = VOk a" "vm' = served_vm name sp (GenNative k') a"
      using assms(1) GYield by (auto simp: GenNative vbind_VOk)
    show ?thesis unfolding a(2)
      by (rule served_call_by_need [OF serve_serves a(1) builtin_start_pending [OF assms(3)]]) (use m GYield in auto)
  qed (use m assms(1) in \<open>auto simp: GenNative resume_later_def call_by_need_def with_span_def\<close>)
next
  case (GenBuiltin b)
  obtain st h' w' where r: "ve_resume E b (start_message i) (vm_heap vm) (vm_world vm) = (st, h', w')" by (metis prod_cases3)
  have own: "held (vm_heap vm) (own b @ under_evaluation own (vm_frames vm))" using assms(2) by (simp add: GenBuiltin)
  then have "held (vm_heap vm) (own b)" by (simp add: held_def)
  with assms(3) r have need: "resumed_by_need own (own b) (vm_heap vm) (st, h', w')"
    unfolding builtins_force_by_need_def by metis
  show ?thesis
  proof (cases st)
    case (Yielded req b')
    let ?vm = "vm\<lparr>vm_heap := h', vm_world := w'\<rparr>"
    obtain a where a: "serve E name sp (GenBuiltin b') req ?vm = VOk a" "vm' = served_vm name sp (GenBuiltin b') a"
      using assms(1) r Yielded by (auto simp: GenBuiltin vbind_VOk)
    have "held h' (own b' @ under_evaluation own (vm_frames vm)) \<and> kept (vm_heap vm) h'"
      using need Yielded by (intro by_need_frame [OF _ own]) simp
    then show ?thesis unfolding a(2)
      by (intro served_call_by_need [OF serve_serves a(1) builtin_start_pending [OF assms(3)]]) auto
  next
    case (Complete c)
    show ?thesis
    proof (cases c)
      case (Inr v)
      have "held h' ([] @ under_evaluation own (vm_frames vm)) \<and> kept (vm_heap vm) h'"
        using need Complete Inr by (intro by_need_frame [OF _ own]) simp
      then show ?thesis using assms(1) r Complete Inr by (auto simp: GenBuiltin call_by_need_def)
    qed (use assms(1) r Complete in \<open>auto simp: GenBuiltin with_span_def\<close>)
  qed
qed

lemma case_outcome_VOk [simp]:
  "(case r of Continue f vm \<Rightarrow> VOk (g f vm) | Leave vm \<Rightarrow> VOk vm) = VOk x \<longleftrightarrow>
     x = (case r of Continue f vm \<Rightarrow> g f vm | Leave vm \<Rightarrow> vm)"
  by (cases r) auto

lemma bytecode_step_call_by_need:
  assumes "bytecode_step E f sp vm = VOk vm'" "held (vm_heap vm) (under_evaluation own (vm_frames vm))" "builtins_force_by_need E own"
  shows "call_by_need own (vm_heap vm) vm'"
proof -
  obtain i ip r where r: "exec_instr E sp (f\<lparr>bf_ip := ip\<rparr>) i vm = VOk r"
    and vm': "vm' = (case r of Continue f vm \<Rightarrow> push_frame (BytecodeFrame f sp) vm | Leave vm \<Rightarrow> vm)"
    using assms(1) by (auto simp: bytecode_step_def vbind_VOk Let_def)
  show ?thesis using exec_instr_effect [of E vm sp "f\<lparr>bf_ip := ip\<rparr>" i] assms(2) unfolding r vm'
    by (cases r) (auto simp: call_by_need_def on_top_pending [OF _ builtin_start_pending [OF assms(3)]] intro: held_grows kept_grows)
qed

lemma vm_step_call_by_need:
  assumes "vm_step E vm = VOk (Inr vm')" "held (vm_heap vm) (under_evaluation own (vm_frames vm))" "builtins_force_by_need E own"
  shows "call_by_need own (vm_heap vm) vm'"
proof (cases "vm_frames vm")
  case Nil
  then show ?thesis using assms(1) by (auto simp: vm_step_def vbind_VOk)
next
  case (Cons f fs)
  let ?vm = "vm\<lparr>vm_frames := fs, vm_reasonable_span := frame_span f\<rparr>"
  show ?thesis
  proof (cases f)
    case (BytecodeFrame bf sp)
    then show ?thesis using assms bytecode_step_call_by_need [of E bf sp ?vm vm'] Cons
      by (auto simp: vm_step_def Let_def vbind_VOk)
  next
    case (GeneratorFrame name sp st gen)
    then obtain i vm1 where g: "generator_step E name sp i gen vm1 = VOk vm'" "vm_frames vm1 = fs" "vm_heap vm1 = vm_heap vm"
      using assms(1) Cons by (cases st) (auto simp: vm_step_def Let_def vbind_VOk stack_pop_def split: if_splits intro!: that)
    show ?thesis using generator_step_call_by_need [OF g(1) _ assms(3)] assms(2) Cons GeneratorFrame g(2, 3) by simp
  qed
qed

lemma start_held: "run_lambda_start w h p lambda mode = VOk vm \<Longrightarrow> held (vm_heap vm) (under_evaluation own (vm_frames vm))"
  by (cases mode)
    (auto simp: run_lambda_start_def Let_def vbind_VOk vm_new_def enqueue_generator_def push_frame_def held_def
      split: if_splits)

interpretation need_inv: step_invariant E "\<lambda>vm. builtins_force_by_need E own \<and> call_by_need own h vm" for E own h
proof
  fix vm vm'
  assume vm: "builtins_force_by_need E own \<and> call_by_need own h vm" and step: "vm_step E vm = VOk (Inr vm')"
  then have "call_by_need own (vm_heap vm) vm'" using vm_step_call_by_need [OF step, of own] by (simp add: call_by_need_def)
  then show "builtins_force_by_need E own \<and> call_by_need own h vm'" using vm by (auto simp: call_by_need_def intro: kept_trans)
qed

lemma reach_held:
  assumes "reach E vm vm'" "held (vm_heap vm) (under_evaluation own (vm_frames vm))" "builtins_force_by_need E own"
  shows "call_by_need own (vm_heap vm) vm'"
  using need_inv.reachable [OF assms(1), of own "vm_heap vm"] assms(2, 3) by (simp add: call_by_need_def)

definition same_value :: "('sp, 'f) val \<Rightarrow> ('sp, 'f) val \<Rightarrow> bool" where
  "same_value v v' \<longleftrightarrow> v' = v \<or>
     (\<exists>p l us us' ws. v = VClosure p l us ws \<and> v' = VClosure p l us' ws \<and> list_all2 filled us us')"

text \<open>
  C4: Call by need: once a thunk is forced it has that value in every later machine of the evaluation. A closure keeps its
  address, code and captured \<open>with\<close> stack, and only upvalues that were deferred are filled in. The builtins, which are a parameter,
  force thunks by need themselves: see \<open>by_need\<close>.
\<close>

theorem forced_thunk_keeps_value:
  assumes "builtins_force_by_need E own" "run_lambda_start w h p lambda mode = VOk vm0" "reach E vm0 vm" "reach E vm vm'"
    and "heap_get (vm_heap vm) a = Some (Evaluated v)" "not_thunk v"
  shows "\<exists>v'. heap_get (vm_heap vm') a = Some (Evaluated v') \<and> same_value v v'"
proof -
  have "held (vm_heap vm) (under_evaluation own (vm_frames vm))"
    using reach_held [OF assms(3) start_held [OF assms(2)] assms(1)] by (simp add: call_by_need_def)
  then have "kept (vm_heap vm) (vm_heap vm')" using reach_held [OF assms(4) _ assms(1)] by (simp add: call_by_need_def)
  moreover have "a < length (vm_heap vm)" "vm_heap vm ! a = Evaluated v" "is_forced (Evaluated v)"
    using assms(5, 6) by (cases v; simp add: heap_get_Some not_thunk_iff)+
  ultimately have "a < length (vm_heap vm')" "finalised (Evaluated v) (vm_heap vm' ! a)" by (auto simp: kept_def)
  then show ?thesis by (auto simp: heap_get_Some same_value_def elim: finalised_evaluated)
qed

text \<open>
  C37: When a native generator forces a thunk whose evaluation is under way in any frame of the stack, that of a builtin
  included, the machine fails with infinite recursion, and the error has the spans that the blackhole of the thunk holds.
\<close>

theorem recursion_is_an_error:
  assumes "builtins_force_by_need E own" "run_lambda_start w h p lambda mode = VOk vm0" "reach E vm0 vm"
    and "vm_frames vm = GeneratorFrame name sp (Deliver i) (GenNative (AForce a us sp' # k)) # fs"
    and "a \<in> set (under_evaluation own (vm_frames vm))"
  shows "\<exists>e x y z. vm_step E vm = VFail e \<and> ee_kind e = InfiniteRecursion x y z \<and> heap_get (vm_heap vm) a = Some (Blackhole x y z)"
proof -
  have "held (vm_heap vm) (under_evaluation own (vm_frames vm))"
    using reach_held [OF assms(3) start_held [OF assms(2)] assms(1)] by (simp add: call_by_need_def)
  then have a: "a < length (vm_heap vm)" "is_blackhole (vm_heap vm ! a)" using assms(5) by (auto simp: held_def)
  then obtain x y z where "vm_heap vm ! a = Blackhole x y z" by (cases "vm_heap vm ! a") auto
  then show ?thesis using assms(4) a(1) by (simp add: vm_step_def step_force_def heap_get_def with_span_def)
qed

section \<open>The builtins toString and lessThan\<close>

text \<open>
  Both ask the machine for a span and then run a native generator in their own coroutine: \<open>toString\<close> coerces its lazy argument,
  \<open>lessThan\<close> compares its arguments, which are forced on request before, the last one first, and returned when they are catchable.
  The thunks in the arguments are forced in place between two suspensions of the builtin. A bound on the steps between two
  suspensions stands for the coroutine running on; reaching it, or a panic, is an error here.
\<close>

datatype (plugins only: code size) ('sp, 'f) forcing_builtin =
    ToStringCall "('sp, 'f) val"
  | ToStringSpan "('sp, 'f) val"
  | LessThanCall "('sp, 'f) val" "('sp, 'f) val"
  | LessThanRight "('sp, 'f) val"
  | LessThanLeft "('sp, 'f) val"
  | LessThanSpan "('sp, 'f) val" "('sp, 'f) val"
  | Running "('sp, 'f) act list"

type_synonym ('sp, 'f, 'x, 'w) forcing_result =
  "('sp, 'f, 'x, ('sp, 'f) forcing_builtin) builtin_step \<times> ('sp, 'f) heap \<times> 'w"

definition coroutine_panic :: "('sp, 'f) heap \<Rightarrow> 'w \<Rightarrow> ('sp, 'f, 'x, 'w) forcing_result" where
  "coroutine_panic h w = (Complete (Inl (SnixBug ''panic in a coroutine'')), h, w)"

definition coroutine_run ::
  "('sp, 'f, 'x, 'c, 'w) vm_env \<Rightarrow> nat \<Rightarrow> ('sp, 'f) act list \<Rightarrow> ('sp, 'f) input \<Rightarrow> ('sp, 'f) heap \<Rightarrow> 'w \<Rightarrow> ('sp, 'f, 'x, 'w) forcing_result" where
  "coroutine_run E n k i h w =
     (case gen_after E n (GNext k i h) of
        GYield req k' h' \<Rightarrow> (Yielded req (Running k'), h', w)
      | GDone v h' \<Rightarrow> (Complete (Inr v), h', w)
      | GFail e h' \<Rightarrow> (Complete (Inl e), h', w)
      | _ \<Rightarrow> coroutine_panic h w)"

definition strict_arg ::
  "('sp, 'f) val \<Rightarrow> ('sp, 'f) forcing_builtin \<Rightarrow> (('sp, 'f) val \<Rightarrow> ('sp, 'f) heap \<Rightarrow> 'w \<Rightarrow> ('sp, 'f, 'x, 'w) forcing_result) \<Rightarrow>
   ('sp, 'f) heap \<Rightarrow> 'w \<Rightarrow> ('sp, 'f, 'x, 'w) forcing_result" where
  "strict_arg v b body h w = (case v of VThunk _ \<Rightarrow> (Yielded (ForceValue v) b, h, w) | _ \<Rightarrow> body v h w)"

definition unless_catchable ::
  "('sp, 'f) val \<Rightarrow> (('sp, 'f) heap \<Rightarrow> 'w \<Rightarrow> ('sp, 'f, 'x, 'w) forcing_result) \<Rightarrow> ('sp, 'f) heap \<Rightarrow> 'w \<Rightarrow> ('sp, 'f, 'x, 'w) forcing_result" where
  "unless_catchable v body h w =
     (case is_catchable h v of
        VOk c \<Rightarrow> if c then (Complete (Inr v), h, w) else body h w
      | VFail e \<Rightarrow> (Complete (Inl e), h, w)
      | VPanic _ \<Rightarrow> coroutine_panic h w)"

definition less_than_left ::
  "('sp, 'f) val \<Rightarrow> ('sp, 'f) val \<Rightarrow> ('sp, 'f) heap \<Rightarrow> 'w \<Rightarrow> ('sp, 'f, 'x, 'w) forcing_result" where
  "less_than_left y x = unless_catchable x (\<lambda>h w. (Yielded Span (LessThanSpan x y), h, w))"

definition less_than_right ::
  "('sp, 'f) val \<Rightarrow> ('sp, 'f) val \<Rightarrow> ('sp, 'f) heap \<Rightarrow> 'w \<Rightarrow> ('sp, 'f, 'x, 'w) forcing_result" where
  "less_than_right x y = unless_catchable y (strict_arg x (LessThanLeft y) (less_than_left y))"

definition coerce_all :: coercion_kind where
  "coerce_all = \<lparr>ck_strong = True, ck_import_paths = False\<rparr>"

definition builtin_to_string ::
  "('sp, 'f, 'x, 'c, 'w) vm_env \<Rightarrow> nat \<Rightarrow> ('sp, 'f) val \<Rightarrow> 'sp \<Rightarrow> ('sp, 'f) heap \<Rightarrow> 'w \<Rightarrow> ('sp, 'f, 'x, 'w) forcing_result" where
  "builtin_to_string E n x span = coroutine_run E n [coerce_start x coerce_all span] IStart"

definition builtin_less_than ::
  "('sp, 'f, 'x, 'c, 'w) vm_env \<Rightarrow> nat \<Rightarrow> ('sp, 'f) val \<Rightarrow> ('sp, 'f) val \<Rightarrow> 'sp \<Rightarrow> ('sp, 'f) heap \<Rightarrow> 'w \<Rightarrow>
   ('sp, 'f, 'x, 'w) forcing_result" where
  "builtin_less_than E n x y span = coroutine_run E n [ACmp [(x, y, ForbidAll)] span, ACompareOrdering CmpLess] IStart"

text \<open>The two as state machines that the messages of the machine drive.\<close>

definition forcing_resume ::
  "('sp, 'f, 'x, 'c, 'w) vm_env \<Rightarrow> nat \<Rightarrow> ('sp, 'f) forcing_builtin \<Rightarrow> ('sp, 'f) vm_response \<Rightarrow> ('sp, 'f) heap \<Rightarrow> 'w \<Rightarrow>
   ('sp, 'f, 'x, 'w) forcing_result" where
  "forcing_resume E n b m =
     (case (b, m) of
        (ToStringCall x, _) \<Rightarrow> (\<lambda>h w. (Yielded Span (ToStringSpan x), h, w))
      | (ToStringSpan x, RespSpan span) \<Rightarrow> builtin_to_string E n x span
      | (LessThanCall x y, _) \<Rightarrow> strict_arg y (LessThanRight x) (less_than_right x)
      | (LessThanRight x, RespValue y) \<Rightarrow> less_than_right x y
      | (LessThanLeft y, RespValue x) \<Rightarrow> less_than_left y x
      | (LessThanSpan x y, RespSpan span) \<Rightarrow> builtin_less_than E n x y span
      | (Running k, _) \<Rightarrow> coroutine_run E n k (IResp m)
      | _ \<Rightarrow> coroutine_panic)"

definition forcing_own :: "('sp, 'f) forcing_builtin \<Rightarrow> nat list" where
  "forcing_own b = (case b of Running k \<Rightarrow> acts_pending k | _ \<Rightarrow> [])"

lemma forcing_own_simps [simp]:
  "forcing_own (Running k) = acts_pending k"
  "forcing_own (ToStringCall x) = []" "forcing_own (ToStringSpan x) = []" "forcing_own (LessThanCall x y) = []"
  "forcing_own (LessThanRight x) = []" "forcing_own (LessThanLeft y) = []" "forcing_own (LessThanSpan x y) = []"
  by (simp_all add: forcing_own_def)

lemma moves_kept: "kept h h' \<Longrightarrow> moves os h' r \<Longrightarrow> moves os h r"
  by (cases r) (auto intro: kept_trans)

lemma gen_after_moves: "held h (acts_pending k @ os) \<Longrightarrow> moves os h (gen_after E n (GNext k i h))"
proof (induction n arbitrary: k i h)
  case (Suc n)
  have m: "moves os h (act_step E k i h)" by (rule act_step_moves [OF Suc.prems])
  show ?case
  proof (cases "act_step E k i h")
    case (GNext k' i' h')
    then have "moves os h' (gen_after E n (GNext k' i' h'))" using m by (intro Suc.IH) simp
    then show ?thesis using m GNext by (auto intro: moves_kept)
  qed (use m in \<open>cases n; simp\<close>)+
qed simp

lemma coroutine_run_by_need:
  assumes "held h (acts_pending k)"
  shows "resumed_by_need forcing_own (acts_pending k) h (coroutine_run E n k i h w)"
proof -
  have m: "moves os h (gen_after E n (GNext k i h))" if "held h (acts_pending k @ os)" for os
    using gen_after_moves [OF that] .
  show ?thesis
  proof (cases "gen_after E n (GNext k i h)")
    case (GYield req k' h')
    then show ?thesis using m by (auto simp: coroutine_run_def intro!: frame_by_need assms)
  next
    case (GDone v h')
    then show ?thesis using m by (auto simp: coroutine_run_def intro!: frame_by_need [where own' = "[]", simplified] assms)
  qed (simp_all add: coroutine_run_def coroutine_panic_def)
qed

lemma idle_by_need: "by_need [] h [] h"
  by (simp add: by_need_def finalised_same held_def)

lemma strict_arg_by_need:
  assumes "forcing_own b = []" "\<And>v. resumed_by_need forcing_own [] h (body v h w)"
  shows "resumed_by_need forcing_own [] h (strict_arg v b body h w)"
  using assms by (cases v) (simp_all add: strict_arg_def idle_by_need)

lemma unless_catchable_by_need:
  assumes "resumed_by_need forcing_own [] h (body h w)"
  shows "resumed_by_need forcing_own [] h (unless_catchable v body h w)"
proof -
  have "resumed_by_need forcing_own [] h (case r of VOk c \<Rightarrow> if c then (Complete (Inr v), h, w) else body h w
      | VFail e \<Rightarrow> (Complete (Inl e), h, w) | VPanic _ \<Rightarrow> coroutine_panic h w)" for r
    using assms by (cases r) (simp_all add: idle_by_need coroutine_panic_def)
  then show ?thesis by (simp add: unless_catchable_def)
qed

lemma less_than_by_need:
  "resumed_by_need forcing_own [] h (less_than_left y x h w)"
  "resumed_by_need forcing_own [] h (less_than_right x y h w)"
proof -
  show l: "resumed_by_need forcing_own [] h (less_than_left y x h w)" for x
    by (simp add: less_than_left_def unless_catchable_by_need idle_by_need)
  show "resumed_by_need forcing_own [] h (less_than_right x y h w)"
    by (simp add: less_than_right_def unless_catchable_by_need strict_arg_by_need l)
qed

lemma forcing_by_need:
  assumes "held h (forcing_own b)"
  shows "resumed_by_need forcing_own (forcing_own b) h (forcing_resume E n b m h w)"
proof -
  have run: "resumed_by_need forcing_own [] h (coroutine_run E n k IStart h w)" if "acts_pending k = []" for k
    using coroutine_run_by_need [of h k] that by (simp add: held_def)
  have "acts_pending [coerce_start x kind span] = []" for x kind span by (simp add: coerce_start_def)
  note coerce = run [OF this]
  show ?thesis using assms
    by (cases b; cases m) (simp_all add: forcing_resume_def builtin_to_string_def builtin_less_than_def coroutine_panic_def idle_by_need coerce run coroutine_run_by_need less_than_by_need strict_arg_by_need)
qed

section \<open>Examples\<close>

text \<open>The environment of the earlier example, with \<open>toString\<close> and \<open>lessThan\<close> for its builtins.\<close>

definition need_env :: "(nat, unit, unit, (nat, unit) forcing_builtin, unit) vm_env" where
  "need_env =
     \<lparr>ve_decode = ve_decode example_env, ve_checked = True, ve_float = ve_float example_env,
      ve_fmt_int = (\<lambda>i. replicate (unat i) (CHR ''|'')), ve_fmt_float = (\<lambda>_. []), ve_canon = (\<lambda>p. p), ve_lossy = (\<lambda>s. s),
      ve_find_file = (\<lambda>_ _. Inl (EnvError ())), ve_get_env = (\<lambda>_ _. None), ve_join = (\<lambda>a b. a @ b), ve_canonicalize = (\<lambda>_ p. Some p),
      ve_import_path = (\<lambda>w _. (Inl (), w)), ve_open = (\<lambda>_ _. Inl ()), ve_path_exists = (\<lambda>_ _. Inr False), ve_read_dir = (\<lambda>_ _. Inl ()),
      ve_file_type = (\<lambda>_ _. Inl ()), ve_native = (\<lambda>_. Inr VNull), ve_sole = (\<lambda>_ _. False), ve_unshared = (\<lambda>_ _. True),
      ve_builtin = (\<lambda>_ args. case args of [x, y] \<Rightarrow> LessThanCall x y | [x] \<Rightarrow> ToStringCall x | _ \<Rightarrow> ToStringCall VNull),
      ve_resume = forcing_resume example_env 20\<rparr>"

lemma need_env_builtins: "builtins_force_by_need need_env forcing_own"
  by (simp add: builtins_force_by_need_def need_env_def forcing_by_need split: list.split)

text \<open>
  Lambdas that call \<open>toString\<close> on the first thunk of the heap, that force the second thunk, and that return a number.
\<close>

definition call_lambda :: "(nat, unit) vlambda" where
  "call_lambda = VLam [op_u8 OpConstant, 0, op_u8 OpConstant, 1, op_u8 OpCall, op_u8 OpReturn]
     [VThunk 0, VBuiltin ''toString'' 1 []] [(1, 0)] 5 None 0 None []"

definition force_lambda :: "(nat, unit) vlambda" where
  "force_lambda = VLam [op_u8 OpConstant, 0, op_u8 OpForce, op_u8 OpReturn] [VThunk 1] [(1, 0)] 3 None 0 None []"

definition five_lambda :: "(nat, unit) vlambda" where
  "five_lambda = VLam [op_u8 OpConstant, 0, op_u8 OpReturn] [VInteger 5] [(1, 0)] 2 None 0 None []"

definition need_start :: "(nat, unit) vlambda \<Rightarrow> (nat, unit) heap \<Rightarrow> (nat, unit, (nat, unit) forcing_builtin, unit) vm" where
  "need_start l h =
     (case run_lambda_start () h 0 l Lazy :: (unit, _) vres of VOk vm \<Rightarrow> vm | _ \<Rightarrow> vm_new 0 () [] 0)"

lemma need_start_ok:
  "run_lambda_start () h 0 call_lambda Lazy = VOk (need_start call_lambda h)"
  "run_lambda_start () h 0 force_lambda Lazy = VOk (need_start force_lambda h)"
  by (simp_all add: need_start_def run_lambda_start_def call_lambda_def force_lambda_def get_span_def binary_search_def vl_chunk_def)

lemmas need_simps = need_start_def run_lambda_start_def call_lambda_def force_lambda_def example_lambda_def five_lambda_def need_env_def
  example_env_def machine_simps vm_new_def eval_nat_numeral op_arg_type_def stack_pop_def call_value_def call_builtin_def
  push_parent_def deref.simps start_message_def forcing_resume_def builtin_to_string_def coroutine_run_def coerce_all_def coerce_start_def step_coerce_def value_force_def g_loop_def g_return_def
  on_value_def on_return_def coerce_value_def coerced_def

text \<open>The builtin forces a thunk that forces itself.\<close>

lemma need_loop:
  "\<exists>vm f L. machine_after need_env 7 (need_start call_lambda [Suspended example_lambda [] [] 7]) = Some vm \<and>
     vm_frames vm = [GeneratorFrame ''force'' 1 (Deliver IStart) (GenNative [AForce 0 [] 1]), BytecodeFrame f 7,
       GeneratorFrame ''toString'' 7 AwaitingValue (GenBuiltin (Running [AForceEntered 0 [] 1, ACoerceForced L]))]"
  by (simp add: need_simps)

theorem recursion_is_an_error_witness:
  "\<exists>vm e x y z. machine_after need_env 7 (need_start call_lambda [Suspended example_lambda [] [] 7]) = Some vm \<and>
     vm_step need_env vm = VFail e \<and> ee_kind e = InfiniteRecursion x y z \<and> heap_get (vm_heap vm) 0 = Some (Blackhole x y z)"
proof -
  obtain vm f L where vm: "machine_after need_env 7 (need_start call_lambda [Suspended example_lambda [] [] 7]) = Some vm"
    "vm_frames vm = [GeneratorFrame ''force'' 1 (Deliver IStart) (GenNative [AForce 0 [] 1]), BytecodeFrame f 7,
       GeneratorFrame ''toString'' 7 AwaitingValue (GenBuiltin (Running [AForceEntered 0 [] 1, ACoerceForced L]))]"
    using need_loop by blast
  have "0 \<in> set (under_evaluation forcing_own (vm_frames vm))" unfolding vm(2) by simp
  from recursion_is_an_error [OF need_env_builtins need_start_ok(1) reach_after [OF vm(1)] vm(2) this]
  show ?thesis using vm(1) by blast
qed

text \<open>The builtin forces the first thunk while the second one is being forced, and the evaluation goes on to its end.\<close>

lemma need_run:
  "\<exists>vm vm'. machine_after need_env 11 (need_start force_lambda [Suspended five_lambda [] [] 7, Suspended call_lambda [] [] 7]) = Some vm \<and>
     heap_get (vm_heap vm) 0 = Some (Evaluated (VInteger 5)) \<and> machine_after need_env 4 vm = Some vm' \<and> vm_frames vm' = []"
  by (simp add: need_simps)

theorem forced_thunk_keeps_value_witness:
  "\<exists>vm vm'. machine_after need_env 11 (need_start force_lambda [Suspended five_lambda [] [] 7, Suspended call_lambda [] [] 7]) = Some vm \<and>
     machine_after need_env 4 vm = Some vm' \<and> vm_frames vm' = [] \<and> heap_get (vm_heap vm') 0 = Some (Evaluated (VInteger 5))"
proof -
  obtain vm vm' where
    vm: "machine_after need_env 11 (need_start force_lambda [Suspended five_lambda [] [] 7, Suspended call_lambda [] [] 7]) = Some vm"
    and h: "heap_get (vm_heap vm) 0 = Some (Evaluated (VInteger 5))" and vm': "machine_after need_env 4 vm = Some vm'" "vm_frames vm' = []"
    using need_run by blast
  from forced_thunk_keeps_value [OF need_env_builtins need_start_ok(2) reach_after [OF vm] reach_after [OF vm'(1)] h]
  have "heap_get (vm_heap vm') 0 = Some (Evaluated (VInteger 5))" by (auto simp: same_value_def not_thunk_iff)
  then show ?thesis using vm vm' by blast
qed

end
