(* ===== verification/Spec2Isabelle.thy ===== *)
theory Spec2Isabelle
  imports Prelude Nixbase32 NixHash StorePath Signatures NarInfo BTree Outputs Derivation NarWire NarReader NarWriter NarCopy CastorePath CastoreDirectory OrderValidator Ingest
    Versions EvalScope Bytecode CompilerState Compiler CompilerLayout CompilerFuel CompilerProps Upvalues Traversal NarRender
    Values Vm VmExec VmProtocol VmEffects VmSafety VmThunks
begin

text \<open>
  A verification of the core of snix, a Rust implementation of Nix.

  \<^bold>\<open>The program.\<close> snix is a workspace of crates under \<^verbatim>\<open>src/snix\<close>. Three of them carry the logic that the others use.
  \<^item> \<^verbatim>\<open>nix-compat\<close> holds the formats shared with C++ Nix: the nixbase32 encoding, hashes and content addresses,
    store paths, derivations with their ATerm text and their hashes, the Nix archive (NAR) format, NARInfo files and their signatures.
  \<^item> \<^verbatim>\<open>castore\<close> is a content-addressed store: blobs, and directories that refer to blobs and to other directories by digest.
    A tree is uploaded as a stream of directories, children first; a stream is checked by a validator on the receiving side.
    \<^verbatim>\<open>store\<close> stands on it: it renders a stored tree as a Nix archive and describes store paths.
  \<^item> \<^verbatim>\<open>eval\<close> is the evaluator: a compiler from the syntax tree to bytecode, which resolves names to stack slots and
    captured variables, and a virtual machine that runs the bytecode.

  \<^bold>\<open>The model.\<close> Every function of the source that is modelled is a definition of its own, with the source's name where
  Isabelle allows it. Structs are records, enums are datatypes, \<open>u8\<close> to \<open>u64\<close> are words where their width matters and \<open>nat\<close>
  where the code checks the bound. Byte strings are \<open>string\<close>. Fallible code returns a sum, \<open>Inl\<close> the error; a panic of the code
  (an index out of range, an \<open>unwrap\<close>, a failed debug assertion, an overflow) is \<open>None\<close>, the error \<open>NarPanic\<close> of the archive code or
  the results \<open>Panic\<close> of the compiler and \<open>VPanic\<close> of the machine. A \<open>BTreeMap\<close> is an association list sorted by key. What the code takes from other crates is an
  argument of the definitions that use it: SHA-256, BLAKE3, ed25519, base16 and base64, the Aho-Corasick replacement, the
  variable-length integers of \<open>vu128\<close>, the decoding of UTF-8, the services behind the store interfaces.

  \<^bold>\<open>Theories, in the order of their imports.\<close>
  \<^item> \<open>Prelude\<close>: result types, splitting of strings, the interfaces of encodings (\<open>codec\<close>, \<open>prefix_code\<close>, \<open>stream_codec\<close>). \<open>BTree\<close>: ordered maps and sets; the locale \<open>key_order\<close>
    has their laws once for every key order.
  \<^item> \<open>Nixbase32\<close> (\<^verbatim>\<open>nix-compat/src/nixbase32.rs\<close>): \<open>encode\<close>, \<open>decode\<close> as bit operations; the decoder accepts exactly what the encoder
    produces.
  \<^item> \<open>NixHash\<close> (\<^verbatim>\<open>nixhash\<close>): algorithms, digests, every text format, content addresses; canonicity of the formats, and an input on which
    parsing panics.
  \<^item> \<open>StorePath\<close> (\<^verbatim>\<open>store_path\<close>): validation of names, parsing, printing, fingerprints, construction; parsing inverts printing, the
    fingerprint determines what is hashed, the compressed hash is the parity of its bits.
  \<^item> \<open>Signatures\<close> and \<open>NarInfo\<close> (\<^verbatim>\<open>narinfo\<close>): signatures and keys; parsing, printing, fingerprinting and signing of NARInfo files. Parsing inverts printing,
    everything that is parsed is well-formed and stable under printing, the fingerprint determines what a signature covers, a signed
    file verifies after it was written and read, and a signature line on which parsing panics.
  \<^item> \<open>Outputs\<close> and \<open>Derivation\<close> (\<^verbatim>\<open>derivation\<close>, \<^verbatim>\<open>aterm\<close>): the outputs of a derivation and its invariants, the ATerm writer and the conversions of
    the parser, derivation hashes, output paths; the ATerm text determines the derivation up to one escaping bug, which is
    exhibited.
  \<^item> \<open>NarWire\<close>, \<open>NarReader\<close>, \<open>NarWriter\<close>, \<open>NarCopy\<close> (\<^verbatim>\<open>nar/wire\<close>, \<^verbatim>\<open>nar/reader\<close>, \<^verbatim>\<open>nar/writer\<close>, \<^verbatim>\<open>nar/copy.rs\<close>): the reader as a state machine over a
    source that delivers bytes in arbitrary pieces, with its debug-mode protocol; the writer with its assertions; copying.
    The abstract specification is the encoding \<open>nar_bytes\<close> of a tree. Copying accepts exactly the encodings of well-formed
    trees, reproduces them and leaves the rest of the input; it always ends and no assertion fails.
  \<^item> \<open>CastorePath\<close>, \<open>CastoreDirectory\<close> (\<^verbatim>\<open>castore/src/path\<close>, \<^verbatim>\<open>nodes\<close>, \<^verbatim>\<open>proto\<close>): paths refine lists of names; directories keep their invariant and
    their wire form is canonical.
  \<^item> \<open>OrderValidator\<close> (\<^verbatim>\<open>directoryservice/order_validator.rs\<close>): both validators accept exactly what their documentation says, with the
    gap that is a finding.
  \<^item> \<open>Ingest\<close> (\<^verbatim>\<open>import/mod.rs\<close>): ingesting the entries of a tree uploads its directories, each once and children first. The locale
    \<open>directory_putter\<close> is the interface of the upload, interpreted on a putter that validates the stream.
  \<^item> \<open>Traversal\<close> (\<^verbatim>\<open>directoryservice/traversal\<close>): \<open>descend_to\<close> and \<open>root_to_leaves\<close>. The locale \<open>directory_store\<close> is the interface of a
    store that can be asked for directories, interpreted on what a validated upload has received; in it, streaming a
    tree back satisfies the other validator, and descending finds the parts of the tree.
  \<^item> \<open>NarRender\<close> (\<^verbatim>\<open>store/src/nar/renderer.rs\<close>): rendering a stored tree writes exactly \<open>nar_bytes\<close> of the tree.
  \<^item> \<open>Versions\<close> (\<^verbatim>\<open>eval/src/builtins/versions.rs\<close>): splitting and comparing versions.
  \<^item> \<open>EvalScope\<close> (\<^verbatim>\<open>eval/src/compiler/scope.rs\<close>), \<open>Bytecode\<close> (\<^verbatim>\<open>opcode.rs\<close>, \<^verbatim>\<open>chunk.rs\<close>): scopes with their by-name index, whose invariant is kept by every
    operation; instructions are fetched as they were emitted.
  \<^item> \<open>CompilerState\<close>, \<open>Compiler\<close> (\<^verbatim>\<open>eval/src/compiler\<close>): the whole compiler, with the optimiser and the merging of nested sets.
    \<open>CompilerLayout\<close> has the relations that compiling keeps (the locales \<open>kept_relation\<close> and \<open>kept_recursion\<close>), \<open>CompilerFuel\<close> (\<open>fuelled_recursion\<close>) that it ends,
    \<open>CompilerProps\<close> the consequences and the programs on which it panics, \<open>Upvalues\<close> that captured variables implement
    lexical scoping.

  \<^item> \<open>Values\<close> (\<^verbatim>\<open>eval/src/value\<close>): strings with context, the representations of attribute sets, the type of values, casts, arithmetic, thunks.
    Merging, intersecting and building attribute sets refine the operations on finite maps, in every combination of representations.
  \<^item> \<open>Vm\<close>, \<open>VmExec\<close> (\<^verbatim>\<open>eval/src/vm\<close>, \<^verbatim>\<open>value/mod.rs\<close>, \<^verbatim>\<open>value/thunk.rs\<close>): the generators as state machines, the instructions, the requests of generators and the
    outer loop, as one step function \<open>vm_step\<close> on a record with the frame stack, the value stack and the heap of thunks.
    \<open>VmProtocol\<close> has what each activation waits for and may return, \<open>VmEffects\<close> what instructions and requests do to the frames and to the heap,
    \<open>VmSafety\<close> that no reachable machine breaks the protocol (the locale \<open>step_invariant\<close> carries properties from a start to all machines that are
    reached from it), \<open>VmThunks\<close> that thunks under evaluation are blackholes held by one activation each, that forced thunks keep
    their values, and that forcing a thunk under evaluation is reported as infinite recursion. Builtins force thunks as well; that the coercion
    and the comparison that they run in their own coroutine follow the rules of \<open>Thunk::force_\<close> is proved there.

  \<^bold>\<open>Fuel.\<close> Where a recursion is not structural the model carries fuel, and a lemma shows how much is enough: \<open>nar_copy\<close> twice the length of
  the input plus two, \<open>file_copy\<close> the length of the file plus one, the compiler the size of the expression plus one, \<open>root_to_leaves\<close> the
  number of directories, \<open>write_nar\<close> the depth of the tree plus one. The loops of the writer and of the encoders are total
  functions. The machine need not halt: its theorems are about single steps and about all machines that are reached.

  \<^bold>\<open>Not modelled.\<close> The builtins of the evaluator except for those on versions, \<open>toString\<close> and \<open>lessThan\<close>: they are a parameter of the machine, and
  the theorems of \<open>VmThunks\<close> ask of them that they force thunks by need (\<open>builtins_force_by_need\<close>), as is proved for \<open>toString\<close> and \<open>lessThan\<close>; the
  parser \<open>rnix\<close>; the texts of errors; the cutting of ATerm text
  into fields by the combinators of \<open>nom\<close>; \<open>serde\<close> instances and generated protobuf code; the asynchronous reader of archives, which has the
  same grammar as the synchronous one; network, file system and database backends, FUSE and virtiofs, the command-line tools and the
  build sandboxes, which are I/O around the parts above. The daemon protocol of \<^verbatim>\<open>nix-compat\<close>, the seekable archive reader and
  the import of archives into the store are left out as well.
\<close>

end
